(* ===== verification/Prelude.thy ===== *)
theory Prelude
  imports Main "HOL-Library.Word" "HOL-Library.Char_ord" "HOL-Library.List_Lexorder"
begin

text \<open>
  What every theory of the development shares: the results of an operation (it may return,
  hang, or run into undefined behaviour of C), the errno values, C strings (\<open>strcmp\<close>,
  \<open>snprintf\<close> truncation), signed 32-bit wrap-around, and the walks along null-terminated
  linked lists that every list of \<open>hal/hal_lib.c\<close> uses.
\<close>

named_theorems res_simps \<open>evaluation of sequenced operations\<close>
named_theorems res_splits \<open>inversion of a sequenced operation that returned\<close>

section \<open>Results of operations\<close>

text \<open>
  \<open>Hang\<close>: the call never returns (a spin lock held by the caller itself, a walk along a
  cyclic list). \<open>UB\<close>: undefined behaviour of C (a null or unmapped pointer is dereferenced,
  a thread that was never created is cancelled).
\<close>

datatype fault = Hang | UB

type_synonym 'a res = "fault + 'a"

fun bnd :: "'a res \<Rightarrow> ('a \<Rightarrow> 'b res) \<Rightarrow> 'b res" where
  "bnd (Inl e) f = Inl e"
| "bnd (Inr x) f = f x"

lemma bnd_Inr_iff [res_splits]: "bnd m f = Inr y \<longleftrightarrow> (\<exists>x. m = Inr x \<and> f x = Inr y)"
  by (cases m) auto

lemma bnd_Inr_right [simp]: "bnd m Inr = m"
  by (cases m) auto

lemma bnd_assoc: "bnd (bnd m f) g = bnd m (\<lambda>x. bnd (f x) g)"
  by (cases m) auto

lemma bnd_cong [fundef_cong]:
  "m = m' \<Longrightarrow> (\<And>x. m' = Inr x \<Longrightarrow> f x = f' x) \<Longrightarrow> bnd m f = bnd m' f'"
  by (cases m') auto

text \<open>A loop is an \<open>option\<close>: \<open>None\<close> when it does not end.\<close>

fun loop_res :: "'a option \<Rightarrow> 'a res" where
  "loop_res None = Inl Hang"
| "loop_res (Some x) = Inr x"

lemma loop_res_Inr_iff [res_splits, simp]: "loop_res m = Inr x \<longleftrightarrow> m = Some x"
  by (cases m) auto

section \<open>errno values (Linux)\<close>

abbreviation (input) EPERM :: int where "EPERM \<equiv> 1"
abbreviation (input) ENOMEM :: int where "ENOMEM \<equiv> 12"
abbreviation (input) EACCES :: int where "EACCES \<equiv> 13"
abbreviation (input) EINVAL :: int where "EINVAL \<equiv> 22"
abbreviation (input) ENOSPC :: int where "ENOSPC \<equiv> 28"
abbreviation (input) EALREADY :: int where "EALREADY \<equiv> 114"

section \<open>32-bit signed integers\<close>

text \<open>The value an \<open>int\<close> variable holds after it is assigned a wider value.\<close>

definition to_s32 :: "int \<Rightarrow> int" where
  "to_s32 x = (x + 2 ^ 31) mod 2 ^ 32 - 2 ^ 31"

lemma to_s32_id [simp]: "- (2 ^ 31) \<le> x \<Longrightarrow> x < 2 ^ 31 \<Longrightarrow> to_s32 x = x"
  by (simp add: to_s32_def)

lemma to_s32_range: "- (2 ^ 31) \<le> to_s32 x \<and> to_s32 x < 2 ^ 31"
proof -
  have "(x + 2 ^ 31) mod 2 ^ 32 < (2::int) ^ 32" and "0 \<le> (x + 2 ^ 31) mod (2::int) ^ 32"
    by (simp_all add: pos_mod_bound)
  then show ?thesis by (simp add: to_s32_def)
qed

section \<open>C strings\<close>

text \<open>
  A C string is the list of its bytes before the terminating zero. \<open>strcmp\<close> compares unsigned
  bytes; the code only uses the sign of its result.
\<close>

fun strcmp :: "string \<Rightarrow> string \<Rightarrow> int" where
  "strcmp [] [] = 0"
| "strcmp [] (y # ys) = -1"
| "strcmp (x # xs) [] = 1"
| "strcmp (x # xs) (y # ys) =
     (if x = y then strcmp xs ys else int (of_char x) - int (of_char y))"

lemma strcmp_zero_iff [simp]: "strcmp s t = 0 \<longleftrightarrow> s = t"
  by (induction s t rule: strcmp.induct) auto

lemma strcmp_neg_iff: "strcmp s t < 0 \<longleftrightarrow> s < t"
  by (induction s t rule: strcmp.induct) (auto simp: less_char_def)

lemma strcmp_pos_iff: "strcmp s t > 0 \<longleftrightarrow> t < s"
proof (induction s t rule: strcmp.induct)
  case (4 x xs y ys)
  then show ?case by (auto simp: less_char_def)
qed auto

text \<open>\<open>snprintf(buf, size, "%s", s)\<close> keeps the first \<open>size - 1\<close> bytes.\<close>

definition snprintf_s :: "nat \<Rightarrow> string \<Rightarrow> string" where
  "snprintf_s sz s = take (sz - 1) s"

lemma snprintf_s_fits [simp]: "length s < sz \<Longrightarrow> snprintf_s sz s = s"
  by (simp add: snprintf_s_def)

lemma length_snprintf_s: "length (snprintf_s sz s) \<le> sz - 1"
  by (simp add: snprintf_s_def)

section \<open>Null-terminated linked lists\<close>

text \<open>
  A node is named by its offset in the shared memory segment (\<open>SHMOFF\<close>); offset \<open>0\<close>
  ends a list. \<open>nx\<close> reads the \<open>next_ptr\<close> of a node.
\<close>

type_synonym off = int

fun chain :: "(off \<Rightarrow> off) \<Rightarrow> off \<Rightarrow> off list \<Rightarrow> bool" where
  "chain nx p [] = (p = 0)"
| "chain nx p (x # xs) = (p = x \<and> x \<noteq> 0 \<and> chain nx (nx x) xs)"

lemma chain_zero [simp]: "chain nx 0 xs \<longleftrightarrow> xs = []"
  by (cases xs) auto

lemma chain_nonzero: "p \<noteq> 0 \<Longrightarrow> chain nx p xs \<longleftrightarrow> (\<exists>ys. xs = p # ys \<and> chain nx (nx p) ys)"
  by (cases xs) auto

lemma chain_unique: "chain nx p xs \<Longrightarrow> chain nx p ys \<Longrightarrow> xs = ys"
  by (induction xs arbitrary: p ys) (auto simp: chain_nonzero)

lemma chain_nz: "chain nx p xs \<Longrightarrow> 0 \<notin> set xs"
  by (induction xs arbitrary: p) auto

lemma chain_upd [simp]: "q \<notin> set xs \<Longrightarrow> chain (nx(q := v)) p xs = chain nx p xs"
  by (induction xs arbitrary: p) auto

lemma chain_upd_if [simp]:
  "q \<notin> set xs \<Longrightarrow> chain (\<lambda>a. if a = q then v else nx a) p xs = chain nx p xs"
  by (induction xs arbitrary: p) auto

lemma chain_cong: "(\<And>x. x \<in> set xs \<Longrightarrow> nx x = nx' x) \<Longrightarrow> chain nx p xs = chain nx' p xs"
  by (induction xs arbitrary: p) auto

lemma chain_app: "chain nx p (xs @ y # ys) \<Longrightarrow> chain nx y (y # ys)"
  by (induction xs arbitrary: p) auto

lemma chain_distinct: "chain nx p xs \<Longrightarrow> distinct xs"
proof (induction xs arbitrary: p)
  case (Cons x xs)
  have "x \<notin> set xs"
  proof
    assume "x \<in> set xs"
    then obtain as bs where xs: "xs = as @ x # bs" by (meson split_list)
    from Cons.prems xs have "chain nx x (x # bs)"
      by (auto dest: chain_app)
    with Cons.prems have "x # bs = x # xs"
      by (auto dest: chain_unique)
    with xs show False by simp
  qed
  with Cons show ?case by auto
qed simp

text \<open>
  Linking a node in front of the rest of a list, and unlinking one, written for the two places
  a link can be: the list's head, or the \<open>next_ptr\<close> of the node before.
\<close>

lemma chain_insert:
  assumes "chain nx p (xs @ ys)" "n \<noteq> 0" "n \<notin> set (xs @ ys)" "xs \<noteq> []"
  shows "chain (nx(n := (case ys of [] \<Rightarrow> 0 | y # _ \<Rightarrow> y), last xs := n)) p (xs @ n # ys)"
  using assms
proof (induction xs arbitrary: p)
  case (Cons x xs)
  show ?case
  proof (cases xs)
    case Nil
    with Cons.prems show ?thesis
      using chain_distinct [OF Cons.prems(1)]
      by (cases ys) auto
  next
    case (Cons x' xs')
    with Cons.IH Cons.prems chain_distinct [OF Cons.prems(1)] show ?thesis by auto
  qed
qed simp

lemma chain_remove:
  assumes "chain nx p (xs @ n # ys)" "xs \<noteq> []"
  shows "chain (nx(last xs := nx n)) p (xs @ ys)"
  using assms
proof (induction xs arbitrary: p)
  case (Cons x xs)
  show ?case
  proof (cases xs)
    case Nil
    with Cons.prems show ?thesis
      using chain_distinct [OF Cons.prems(1)] by auto
  next
    case (Cons x' xs')
    with Cons.IH Cons.prems chain_distinct [OF Cons.prems(1)] show ?thesis by auto
  qed
qed simp

lemma chain_next_of:
  "chain nx p (xs @ x # ys) \<Longrightarrow> nx x = (case ys of [] \<Rightarrow> 0 | y # _ \<Rightarrow> y)"
  by (induction xs arbitrary: p) (auto split: list.splits)

section \<open>Association lists\<close>

lemma map_of_insert:
  "k \<notin> fst ` set xs \<Longrightarrow> map_of (xs @ (k, v) # ys) = (map_of (xs @ ys))(k \<mapsto> v)"
  by (induction xs) (auto simp: fun_upd_twist)

lemma map_of_place:
  assumes "\<And>p. p \<in> set us \<union> set vs \<Longrightarrow> f' p = f p" "f' n = (k, v)" "k \<notin> fst ` f ` set us"
  shows "map_of (map f' (us @ n # vs)) = (map_of (map f (us @ vs)))(k \<mapsto> v)"
proof -
  have m: "map f' us = map f us" "map f' vs = map f vs" using assms(1) by simp_all
  show ?thesis unfolding map_append list.map m assms(2) by (rule map_of_insert) (use assms(3) in simp)
qed

end
