(* ===== verification/Mutex.thy ===== *)
theory Mutex
  imports Prelude
begin

unbundle bit_operations_syntax

text \<open>
  \<open>rtapi/rtapi_bitops.h\<close> and \<open>rtapi/rtapi_mutex.h\<close>: atomic operations on the bits of an
  array of 64-bit words, and the spin lock that is bit 0 of a word. Then the protocol the
  callers of the lock follow, as a step relation: only the holder gives the lock back.
\<close>

text \<open>The length of names in RTAPI (\<open>rtapi/rtapi_common.h\<close>).\<close>

definition RTAPI_NAME_LEN :: nat where "RTAPI_NAME_LEN = 31"

section \<open>Bit operations (rtapi/rtapi\_bitops.h)\<close>

type_synonym ulong = "64 word"

type_synonym ulongs = "nat \<Rightarrow> ulong"

definition RTAPI_LONG_BIT :: nat where "RTAPI_LONG_BIT = 64"

definition set_bit_at :: "nat \<Rightarrow> ulongs \<Rightarrow> ulongs" where
  "set_bit_at nr laddr =
     (let loff = nr div RTAPI_LONG_BIT; boff = nr mod RTAPI_LONG_BIT
      in laddr(loff := laddr loff OR push_bit boff 1))"

definition test_bit_at :: "nat \<Rightarrow> ulongs \<Rightarrow> int" where
  "test_bit_at nr laddr =
     (let loff = nr div RTAPI_LONG_BIT; boff = nr mod RTAPI_LONG_BIT
      in if laddr loff AND push_bit boff 1 \<noteq> 0 then 1 else 0)"

definition clear_bit_at :: "nat \<Rightarrow> ulongs \<Rightarrow> ulongs" where
  "clear_bit_at nr laddr =
     (let loff = nr div RTAPI_LONG_BIT; boff = nr mod RTAPI_LONG_BIT
      in laddr(loff := laddr loff AND NOT (push_bit boff 1)))"

definition test_and_set_bit :: "nat \<Rightarrow> ulongs \<Rightarrow> int \<times> ulongs" where
  "test_and_set_bit nr laddr =
     (let loff = nr div RTAPI_LONG_BIT; boff = nr mod RTAPI_LONG_BIT;
          oldval = laddr loff;
          laddr' = laddr(loff := oldval OR push_bit boff 1)
      in (if oldval AND push_bit boff 1 \<noteq> 0 then 1 else 0, laddr'))"

definition test_and_clear_bit :: "nat \<Rightarrow> ulongs \<Rightarrow> int \<times> ulongs" where
  "test_and_clear_bit nr laddr =
     (let loff = nr div RTAPI_LONG_BIT; boff = nr mod RTAPI_LONG_BIT;
          oldval = laddr loff;
          laddr' = laddr(loff := oldval AND NOT (push_bit boff 1))
      in (if oldval AND push_bit boff 1 \<noteq> 0 then 1 else 0, laddr'))"

lemma single_bit: "n < 64 \<Longrightarrow> bit (2 ^ n :: ulong) m \<longleftrightarrow> m = n"
  by (auto simp: bit_exp_iff)

lemma and_single_bit:
  assumes "n < 64"
  shows "w AND 2 ^ n = (0 :: ulong) \<longleftrightarrow> \<not> bit w n"
proof
  assume "w AND 2 ^ n = 0"
  then have "\<not> bit (w AND 2 ^ n) n" by simp
  with assms show "\<not> bit w n" by (simp add: bit_and_iff single_bit)
next
  assume "\<not> bit w n"
  with assms show "w AND 2 ^ n = 0"
    by (intro bit_eqI) (auto simp: bit_and_iff single_bit)
qed

text \<open>The bit \<open>nr\<close> of the array, and what the operations do to every bit.\<close>

definition bit_at :: "ulongs \<Rightarrow> nat \<Rightarrow> bool" where
  "bit_at laddr nr = bit (laddr (nr div 64)) (nr mod 64)"

lemma test_bit_at_iff: "test_bit_at nr a = (if bit_at a nr then 1 else 0)"
  by (simp add: test_bit_at_def bit_at_def RTAPI_LONG_BIT_def and_single_bit Let_def)

lemma same_place: "(m :: nat) div 64 = n div 64 \<Longrightarrow> m mod 64 = n mod 64 \<longleftrightarrow> m = n"
  by (metis div_mult_mod_eq)

lemma bit_at_set: "bit_at (set_bit_at nr a) m \<longleftrightarrow> m = nr \<or> bit_at a m"
  by (auto simp: bit_at_def set_bit_at_def RTAPI_LONG_BIT_def Let_def bit_or_iff single_bit same_place)

lemma bit_at_clear: "bit_at (clear_bit_at nr a) m \<longleftrightarrow> m \<noteq> nr \<and> bit_at a m"
  by (auto simp: bit_at_def clear_bit_at_def RTAPI_LONG_BIT_def Let_def bit_and_iff bit_not_iff
      single_bit same_place)

lemma test_and_set_bit_eq:
  "test_and_set_bit nr a = (if bit_at a nr then 1 else 0, set_bit_at nr a)"
  by (simp add: test_and_set_bit_def set_bit_at_def bit_at_def RTAPI_LONG_BIT_def and_single_bit Let_def)

lemma test_and_clear_bit_eq:
  "test_and_clear_bit nr a = (if bit_at a nr then 1 else 0, clear_bit_at nr a)"
  by (simp add: test_and_clear_bit_def clear_bit_at_def bit_at_def RTAPI_LONG_BIT_def and_single_bit Let_def)

section \<open>The spin lock (rtapi/rtapi\_mutex.h)\<close>

definition rtapi_mutex_give :: "ulong \<Rightarrow> ulong" where
  "rtapi_mutex_give mutex = snd (test_and_clear_bit 0 (\<lambda>_. mutex)) 0"

definition rtapi_mutex_try :: "ulong \<Rightarrow> int \<times> ulong" where
  "rtapi_mutex_try mutex = (let (r, a) = test_and_set_bit 0 (\<lambda>_. mutex) in (r, a 0))"

text \<open>
  The blocking call spins. Between two attempts it yields the processor, and the other users of
  the word run: \<open>env k\<close> is what they do to it during the \<open>k\<close>-th yield.
\<close>

partial_function (option) rtapi_mutex_get :: "(nat \<Rightarrow> ulong \<Rightarrow> ulong) \<Rightarrow> nat \<Rightarrow> ulong \<Rightarrow> ulong option" where
  "rtapi_mutex_get env k mutex =
     (case rtapi_mutex_try mutex of (r, m) \<Rightarrow>
        if r \<noteq> 0 then rtapi_mutex_get env (Suc k) (env k m) else Some m)"

definition locked :: "ulong \<Rightarrow> bool" where
  "locked m = bit m 0"

definition set_lock :: "ulong \<Rightarrow> ulong" where
  "set_lock m = m OR 1"

lemma rtapi_mutex_try_eq: "rtapi_mutex_try m = (if locked m then 1 else 0, set_lock m)"
  by (simp add: rtapi_mutex_try_def test_and_set_bit_eq bit_at_def set_bit_at_def Let_def
      RTAPI_LONG_BIT_def locked_def set_lock_def)

lemma rtapi_mutex_give_eq: "rtapi_mutex_give m = m AND NOT 1"
  by (simp add: rtapi_mutex_give_def test_and_clear_bit_eq clear_bit_at_def Let_def RTAPI_LONG_BIT_def)

lemma locked_simps [simp]:
  "locked (set_lock m)" "\<not> locked (rtapi_mutex_give m)" "\<not> locked 0"
  by (simp_all add: locked_def set_lock_def rtapi_mutex_give_eq bit_or_iff bit_and_iff bit_not_iff bit_1_iff)

lemma set_lock_bit: "bit (set_lock m) n \<longleftrightarrow> n = 0 \<or> bit m n"
  by (auto simp: set_lock_def bit_or_iff bit_1_iff)

lemma give_bit: "bit (rtapi_mutex_give m) n \<longleftrightarrow> n \<noteq> 0 \<and> bit m n"
  by (cases "n < 64") (auto simp: rtapi_mutex_give_eq bit_and_iff bit_not_iff bit_1_iff
      dest: bit_imp_le_length)

lemma give_set_lock [simp]: "\<not> locked m \<Longrightarrow> rtapi_mutex_give (set_lock m) = m"
  by (rule bit_eqI) (metis give_bit set_lock_bit locked_def)

lemma rtapi_mutex_get_free: "\<not> locked m \<Longrightarrow> rtapi_mutex_get env k m = Some (set_lock m)"
  by (subst rtapi_mutex_get.simps) (simp add: rtapi_mutex_try_eq)

lemma rtapi_mutex_get_busy:
  "locked m \<Longrightarrow> rtapi_mutex_get env k m = rtapi_mutex_get env (Suc k) (env k (set_lock m))"
  by (subst rtapi_mutex_get.simps) (simp add: rtapi_mutex_try_eq)

text \<open>The word as the \<open>n\<close>-th attempt from the \<open>k\<close>-th on sees it.\<close>

primrec attempt :: "(nat \<Rightarrow> ulong \<Rightarrow> ulong) \<Rightarrow> nat \<Rightarrow> ulong \<Rightarrow> nat \<Rightarrow> ulong" where
  "attempt env k m 0 = m"
| "attempt env k m (Suc n) = attempt env (Suc k) (env k (set_lock m)) n"

lemma rtapi_mutex_get_if:
  "(\<forall>i<n. locked (attempt env k m i)) \<Longrightarrow> \<not> locked (attempt env k m n) \<Longrightarrow>
   rtapi_mutex_get env k m = Some (set_lock (attempt env k m n))"
proof (induction n arbitrary: k m)
  case 0
  then show ?case by (simp add: rtapi_mutex_get_free)
next
  case (Suc n)
  from Suc.prems(1) have m: "locked m" by force
  have "rtapi_mutex_get env (Suc k) (env k (set_lock m)) =
      Some (set_lock (attempt env (Suc k) (env k (set_lock m)) n))"
    using Suc.prems by (intro Suc.IH) force+
  with m show ?case by (simp add: rtapi_mutex_get_busy)
qed

lemma rtapi_mutex_get_only_if:
  assumes "rtapi_mutex_get env k m = Some m'"
  shows "\<exists>n. \<not> locked (attempt env k m n)"
proof (rule rtapi_mutex_get.raw_induct [where P = "\<lambda>env k m m'. \<exists>n. \<not> locked (attempt env k m n)",
      OF _ assms])
  fix get env k m m'
  assume IH: "\<And>env k m m'. get env k m = Some m' \<Longrightarrow> \<exists>n. \<not> locked (attempt env k m n)"
    and eq: "(case rtapi_mutex_try m of (r, w) \<Rightarrow> if r \<noteq> 0 then get env (Suc k) (env k w) else Some w) = Some m'"
  show "\<exists>n. \<not> locked (attempt env k m n)"
  proof (cases "locked m")
    case True
    with eq have "get env (Suc k) (env k (set_lock m)) = Some m'" by (simp add: rtapi_mutex_try_eq)
    from IH [OF this] obtain n where "\<not> locked (attempt env (Suc k) (env k (set_lock m)) n)" ..
    then have "\<not> locked (attempt env k m (Suc n))" by simp
    then show ?thesis ..
  next
    case False
    then have "\<not> locked (attempt env k m 0)" by simp
    then show ?thesis ..
  qed
qed

text \<open>A caller that holds the lock itself, with nobody to release it, spins for ever.\<close>

lemma attempt_id: "locked m \<Longrightarrow> locked (attempt (\<lambda>_ w. w) k m n)"
proof (induction n arbitrary: k m)
  case (Suc n)
  have "locked (attempt (\<lambda>_ w. w) (Suc k) (set_lock m) n)" by (rule Suc.IH) simp
  then show ?case by simp
qed simp

lemma rtapi_mutex_get_held: "locked m \<Longrightarrow> rtapi_mutex_get (\<lambda>_ w. w) k m = None"
proof (rule ccontr)
  assume m: "locked m" and "rtapi_mutex_get (\<lambda>_ w. w) k m \<noteq> None"
  then obtain m' where "rtapi_mutex_get (\<lambda>_ w. w) k m = Some m'" by blast
  from rtapi_mutex_get_only_if [OF this] attempt_id [OF m] show False by blast
qed

section \<open>Properties of the lock\<close>

text \<open>
  The atomic test-and-set of bit \<open>nr\<close> in an array of words returns the bit's old
  value, sets it, and leaves every other bit of the array as it was (also across the 64-bit word
  boundary); test-and-clear does the same with clearing.
\<close>

theorem bitops_one_bit:
  "fst (test_and_set_bit nr a) = test_bit_at nr a \<and> fst (test_and_clear_bit nr a) = test_bit_at nr a \<and>
   test_bit_at m (snd (test_and_set_bit nr a)) = (if m = nr then 1 else test_bit_at m a) \<and>
   test_bit_at m (snd (test_and_clear_bit nr a)) = (if m = nr then 0 else test_bit_at m a)"
  by (simp add: test_and_set_bit_eq test_and_clear_bit_eq test_bit_at_iff bit_at_set bit_at_clear)

text \<open>
  Property C10: the blocking \<open>rtapi_mutex_get\<close> returns exactly when one of its attempts finds
  the lock free, whatever the other users do to the word between the attempts; so it never returns
  to a caller that already holds the lock while nobody else releases it.
\<close>

theorem rtapi_mutex_get_returns:
  "((\<exists>m'. rtapi_mutex_get env k m = Some m') \<longleftrightarrow> (\<exists>n. \<not> locked (attempt env k m n))) \<and>
   (rtapi_mutex_get (\<lambda>_ w. w) k w = None \<longleftrightarrow> locked w)"
proof -
  have "\<exists>m'. rtapi_mutex_get env k m = Some m'" if "\<exists>n. \<not> locked (attempt env k m n)"
  proof -
    let ?n = "LEAST n. \<not> locked (attempt env k m n)"
    have "\<not> locked (attempt env k m ?n)" using that by (rule LeastI_ex)
    moreover have "\<forall>i<?n. locked (attempt env k m i)" using not_less_Least by blast
    ultimately show ?thesis using rtapi_mutex_get_if by blast
  qed
  moreover have "rtapi_mutex_get (\<lambda>_ w. w) k w = None \<longleftrightarrow> locked w"
    by (cases "locked w") (simp_all add: rtapi_mutex_get_held rtapi_mutex_get_free)
  ultimately show ?thesis using rtapi_mutex_get_only_if by blast
qed

section \<open>The protocol of the users of one lock\<close>

text \<open>
  Any number of users share the lock word. A user attempts the lock (one iteration of
  \<open>rtapi_mutex_get\<close> or \<open>rtapi_mutex_try\<close>) and enters its critical section when the
  attempt returns 0; the holder gives the lock back, as every caller in the HAL and the example
  task does. \<open>rtapi_mutex_give\<close> itself does not check who calls it.
\<close>

record lock_sys =
  word :: ulong
  inside :: "nat \<Rightarrow> bool"

inductive lock_step :: "lock_sys \<Rightarrow> lock_sys \<Rightarrow> bool" where
  attempt_fail: "\<not> inside s i \<Longrightarrow> rtapi_mutex_try (word s) = (r, w) \<Longrightarrow> r \<noteq> 0 \<Longrightarrow>
     lock_step s (s\<lparr>word := w\<rparr>)"
| attempt_ok: "\<not> inside s i \<Longrightarrow> rtapi_mutex_try (word s) = (r, w) \<Longrightarrow> r = 0 \<Longrightarrow>
     lock_step s (s\<lparr>word := w, inside := (inside s)(i := True)\<rparr>)"
| give: "inside s i \<Longrightarrow>
     lock_step s (s\<lparr>word := rtapi_mutex_give (word s), inside := (inside s)(i := False)\<rparr>)"

inductive lock_reach :: "lock_sys \<Rightarrow> bool" where
  start: "lock_reach \<lparr>word = 0, inside = (\<lambda>_. False)\<rparr>"
| step: "lock_reach s \<Longrightarrow> lock_step s t \<Longrightarrow> lock_reach t"

inductive_cases lock_stepE: "lock_step s t"

definition lock_ok :: "lock_sys \<Rightarrow> bool" where
  "lock_ok s \<longleftrightarrow> (locked (word s) \<longleftrightarrow> (\<exists>i. inside s i)) \<and> (\<forall>i j. inside s i \<longrightarrow> inside s j \<longrightarrow> i = j)"

lemma lock_step_ok: "lock_step s t \<Longrightarrow> lock_ok s \<Longrightarrow> lock_ok t"
  by (erule lock_stepE) (auto simp: lock_ok_def rtapi_mutex_try_eq split: if_splits)

lemma lock_reach_ok: "lock_reach s \<Longrightarrow> lock_ok s"
  by (induction rule: lock_reach.induct) (auto simp: lock_ok_def [of "\<lparr>word = _, inside = _\<rparr>"] intro: lock_step_ok)

text \<open>
  Property C7: in every state reachable by users that follow the protocol, at most one user is
  inside its critical section, and an attempt succeeds exactly when nobody is.
\<close>

theorem mutual_exclusion:
  assumes "lock_reach s"
  shows "(inside s i \<longrightarrow> inside s j \<longrightarrow> i = j) \<and>
    (fst (rtapi_mutex_try (word s)) = 0 \<longleftrightarrow> (\<forall>i. \<not> inside s i))"
  using lock_reach_ok [OF assms] by (auto simp: lock_ok_def rtapi_mutex_try_eq)

theorem mutual_exclusion_witness:
  "lock_reach \<lparr>word = 1, inside = (\<lambda>_. False)(3 := True)\<rparr> \<and>
   fst (rtapi_mutex_try 1) \<noteq> 0"
proof -
  have w: "rtapi_mutex_try 0 = (0, 1)"
    by (simp add: rtapi_mutex_try_eq set_lock_def)
  have "lock_reach \<lparr>word = 1, inside = (\<lambda>_. False)(3 := True)\<rparr>"
    using lock_reach.step [OF lock_reach.start attempt_ok [of _ 3, OF _ _ refl]] w by simp
  with mutual_exclusion [OF this, of 3 3] show ?thesis by auto
qed

end
