(* ===== verification/Shmem.thy ===== *)
theory Shmem
  imports Mutex
begin

text \<open>
  \<open>rtapi/uspace_common.c\<close>: the process-local table of System V shared memory handles
  (\<open>rtapi_shmem_new\<close>, \<open>rtapi_shmem_getptr\<close>, \<open>rtapi_shmem_delete\<close>,
  \<open>rtapi_shmem_getstate\<close>) and the module id generator that lives in such a segment
  (\<open>rtapi_init\<close>, \<open>rtapi_exit\<close>). The kernel is a parameter: the record \<open>os\<close> says what
  each system call returns.
\<close>

section \<open>Handles\<close>

datatype shmem_state =
  SHMEM_S_UNBORN | SHMEM_S_CREATED | SHMEM_S_ATTACHED | SHMEM_S_ACTIVE
| SHMEM_S_DETACHED | SHMEM_S_DESTROYED | SHMEM_S_ERROR

record rtapi_shmem_handle =
  sh_magic :: int
  sh_key :: int
  sh_id :: int
  sh_count :: int
  sh_size :: int
  sh_mem :: int
  sh_state :: shmem_state
  sh_owner_pid :: int
  sh_error_code :: int

definition MAX_SHM :: nat where "MAX_SHM = 64"
definition SHMEM_MAGIC :: int where "SHMEM_MAGIC = 25453"
definition UUID_KEY :: int where "UUID_KEY = 0x48484c34"

record uuid_data =
  ud_mutex :: ulong
  ud_uuid :: int

text \<open>
  The kernel. A failing call returns \<open>Inl errno\<close> (or \<open>Some errno\<close>). \<open>os_shmget\<close> gets
  the number of the attempt, \<open>os_uuid\<close> is what a newly attached id segment contains (zeros, or
  what another process left there). Addresses are integers; the null pointer is \<open>0\<close>.
\<close>

record os =
  os_shmget :: "int \<Rightarrow> int \<Rightarrow> nat \<Rightarrow> int + int"
  os_shmat :: "int \<Rightarrow> int + int"
  os_shmdt :: "int \<Rightarrow> int option"
  os_nattch :: "int \<Rightarrow> int + nat"
  os_rmid :: "int \<Rightarrow> int option"
  os_getpid :: int
  os_uuid :: "int \<Rightarrow> uuid_data"

text \<open>The calls that create, map, unmap and destroy segments are logged in order.\<close>

datatype kcall = K_shmat int | K_shmdt int | K_rmid int

record shmem_st =
  sh_array :: "rtapi_shmem_handle list"
  k_log :: "kcall list"
  uuid_mem_id :: int
  uuid_base :: int
  uuid_mem :: "int \<Rightarrow> uuid_data"

definition unborn :: rtapi_shmem_handle where
  "unborn = \<lparr>sh_magic = 0, sh_key = 0, sh_id = 0, sh_count = 0, sh_size = 0, sh_mem = 0,
     sh_state = SHMEM_S_UNBORN, sh_owner_pid = 0, sh_error_code = 0\<rparr>"

text \<open>Static storage: all handles are zero when the process starts.\<close>

definition shmem_start :: shmem_st where
  "shmem_start = \<lparr>sh_array = replicate MAX_SHM unborn, k_log = [], uuid_mem_id = 0,
     uuid_base = 0, uuid_mem = (\<lambda>_. \<lparr>ud_mutex = 0, ud_uuid = 0\<rparr>)\<rparr>"

abbreviation live :: "rtapi_shmem_handle \<Rightarrow> bool" where
  "live h \<equiv> sh_magic h = SHMEM_MAGIC"

section \<open>rtapi\_shmem\_new\<close>

datatype slot = Existing nat | Free_slot nat | Full

text \<open>The walk over the table: an existing handle for the key, else the first free slot.\<close>

fun find_slot :: "int \<Rightarrow> nat \<Rightarrow> nat option \<Rightarrow> rtapi_shmem_handle list \<Rightarrow> slot" where
  "find_slot key i shmem [] = (case shmem of None \<Rightarrow> Full | Some j \<Rightarrow> Free_slot j)"
| "find_slot key i shmem (h # hs) =
     (if sh_magic h = SHMEM_MAGIC then
        if sh_key h = key then Existing i else find_slot key (Suc i) shmem hs
      else find_slot key (Suc i) (case shmem of None \<Rightarrow> Some i | Some j \<Rightarrow> Some j) hs)"

text \<open>
  \<open>shmget_again\<close>: a failure with \<open>EPERM\<close> is retried while \<open>shmget_retries\<close> lasts.
\<close>

fun shmget_again :: "os \<Rightarrow> int \<Rightarrow> int \<Rightarrow> nat \<Rightarrow> nat \<Rightarrow> int + int" where
  "shmget_again os key sz 0 k = os_shmget os key sz k"
| "shmget_again os key sz (Suc r) k =
     (case os_shmget os key sz k of
        Inr i \<Rightarrow> Inr i
      | Inl e \<Rightarrow> if e = EPERM then shmget_again os key sz r (Suc k) else Inl e)"

definition upd_handle :: "nat \<Rightarrow> (rtapi_shmem_handle \<Rightarrow> rtapi_shmem_handle) \<Rightarrow> shmem_st \<Rightarrow> shmem_st" where
  "upd_handle i f s = s\<lparr>sh_array := (sh_array s)[i := f (sh_array s ! i)]\<rparr>"

definition rtapi_shmem_new :: "os \<Rightarrow> int \<Rightarrow> int \<Rightarrow> int \<Rightarrow> shmem_st \<Rightarrow> int \<times> shmem_st" where
  "rtapi_shmem_new os key module_id sz s =
     (if key = 0 then (- EINVAL, s)
      else if sz = 0 then (- EINVAL, s)
      else case find_slot key 0 None (sh_array s) of
        Existing i \<Rightarrow> (int i, upd_handle i (\<lambda>h. h\<lparr>sh_count := sh_count h + 1\<rparr>) s)
      | Full \<Rightarrow> (- ENOMEM, s)
      | Free_slot i \<Rightarrow>
          let s1 = upd_handle i (\<lambda>h. h\<lparr>sh_owner_pid := os_getpid os, sh_error_code := 0\<rparr>) s in
          case shmget_again os key (to_s32 sz) 5 0 of
            Inl e \<Rightarrow> (- e, upd_handle i (\<lambda>h. h\<lparr>sh_id := - 1, sh_error_code := e\<rparr>) s1)
          | Inr shmid \<Rightarrow>
              let s2 = upd_handle i (\<lambda>h. h\<lparr>sh_id := shmid, sh_state := SHMEM_S_CREATED\<rparr>) s1 in
              case os_shmat os shmid of
                Inl e \<Rightarrow>
                  let s3 = upd_handle i (\<lambda>h. h\<lparr>sh_error_code := e, sh_state := SHMEM_S_ERROR,
                                                sh_id := - 1, sh_mem := 0\<rparr>) s2
                  in (- e, s3\<lparr>k_log := k_log s3 @ [K_rmid shmid]\<rparr>)
              | Inr addr \<Rightarrow>
                  let s3 = upd_handle i (\<lambda>h. h\<lparr>sh_mem := addr, sh_state := SHMEM_S_ACTIVE,
                             sh_magic := SHMEM_MAGIC, sh_size := sz, sh_key := key,
                             sh_count := 1\<rparr>) s2
                  in (int i, s3\<lparr>k_log := k_log s3 @ [K_shmat shmid]\<rparr>))"

section \<open>rtapi\_shmem\_getptr, rtapi\_shmem\_getstate, rtapi\_shmem\_delete\<close>

definition valid_handle :: "int \<Rightarrow> bool" where
  "valid_handle handle \<longleftrightarrow> \<not> (handle < 0 \<or> int MAX_SHM \<le> handle)"

text \<open>\<open>Inl\<close> is the negative return value, \<open>Inr\<close> the pointer stored through \<open>ptr\<close>.\<close>

definition rtapi_shmem_getptr :: "int \<Rightarrow> shmem_st \<Rightarrow> int + int" where
  "rtapi_shmem_getptr handle s =
     (if \<not> valid_handle handle then Inl (- EINVAL)
      else let shmem = sh_array s ! nat handle in
        if sh_magic shmem \<noteq> SHMEM_MAGIC then Inl (- EINVAL)
        else if sh_state shmem \<noteq> SHMEM_S_ACTIVE \<and> sh_state shmem \<noteq> SHMEM_S_ATTACHED
          then Inl (- EACCES)
        else Inr (sh_mem shmem))"

definition rtapi_shmem_getstate :: "int \<Rightarrow> shmem_st \<Rightarrow> shmem_state" where
  "rtapi_shmem_getstate handle s =
     (if \<not> valid_handle handle then SHMEM_S_ERROR
      else let shmem = sh_array s ! nat handle in
        if sh_magic shmem \<noteq> SHMEM_MAGIC then SHMEM_S_ERROR else sh_state shmem)"

text \<open>The part of \<open>rtapi_shmem_delete\<close> that runs when the last reference is gone.\<close>

definition shmem_release :: "os \<Rightarrow> nat \<Rightarrow> shmem_st \<Rightarrow> int \<times> shmem_st" where
  "shmem_release os i s =
     (let h = sh_array s ! i;
          mapped = (sh_state h = SHMEM_S_ACTIVE \<or> sh_state h = SHMEM_S_ATTACHED);
          r1 = (if mapped then os_shmdt os (sh_mem h) else None);
          s1 = (if mapped then
                  upd_handle i (\<lambda>h. h\<lparr>sh_error_code := (case r1 of None \<Rightarrow> sh_error_code h | Some e \<Rightarrow> e),
                                      sh_state := SHMEM_S_DETACHED, sh_mem := 0\<rparr>)
                    (s\<lparr>k_log := k_log s @ [K_shmdt (sh_mem h)]\<rparr>)
                else s);
          (ok2, s2) =
            (case os_nattch os (sh_id h) of
               Inl e \<Rightarrow> (False, upd_handle i (\<lambda>h. h\<lparr>sh_error_code := e\<rparr>) s1)
             | Inr n \<Rightarrow>
                 if n = 0 then
                   let r2 = os_rmid os (sh_id h);
                       s' = upd_handle i (\<lambda>h. h\<lparr>sh_error_code := (case r2 of None \<Rightarrow> sh_error_code h | Some e \<Rightarrow> e),
                                                sh_state := SHMEM_S_DESTROYED\<rparr>) s1
                   in (r2 = None, s'\<lparr>k_log := k_log s' @ [K_rmid (sh_id h)]\<rparr>)
                 else (True, s1));
          s3 = upd_handle i (\<lambda>h. h\<lparr>sh_magic := 0\<rparr>) s2
      in (if r1 \<noteq> None \<or> \<not> ok2 then - EINVAL else 0, s3))"

definition rtapi_shmem_delete :: "os \<Rightarrow> int \<Rightarrow> int \<Rightarrow> shmem_st \<Rightarrow> int \<times> shmem_st" where
  "rtapi_shmem_delete os handle module_id s =
     (if \<not> valid_handle handle then (- EINVAL, s)
      else if sh_magic (sh_array s ! nat handle) \<noteq> SHMEM_MAGIC then (- EINVAL, s)
      else let s1 = upd_handle (nat handle) (\<lambda>h. h\<lparr>sh_count := sh_count h - 1\<rparr>) s in
        if sh_count (sh_array s1 ! nat handle) > 0 then (0, s1)
        else shmem_release os (nat handle) s1)"

section \<open>rtapi\_init and rtapi\_exit\<close>

definition rtapi_exit :: "os \<Rightarrow> int \<Rightarrow> shmem_st \<Rightarrow> int \<times> shmem_st" where
  "rtapi_exit os module_id s = (0, snd (rtapi_shmem_delete os (uuid_mem_id s) module_id s))"

text \<open>An address of the process is mapped while a live handle maps it.\<close>

definition mapped_at :: "shmem_st \<Rightarrow> int \<Rightarrow> bool" where
  "mapped_at s a \<longleftrightarrow> list_ex (\<lambda>h. live h \<and> sh_mem h = a) (sh_array s)"

text \<open>
  \<open>uuid_shmem_base\<close> is a static pointer that is set once: a later call uses it even when the
  segment has been unmapped in between, which is undefined behaviour.
\<close>

definition rtapi_init :: "os \<Rightarrow> string \<Rightarrow> shmem_st \<Rightarrow> (int \<times> shmem_st) res" where
  "rtapi_init os modname s =
     (case rtapi_shmem_new os UUID_KEY 0 16 s of (mid, s0) \<Rightarrow>
        let s1 = s0\<lparr>uuid_mem_id := mid\<rparr> in
        if mid < 0 then Inr (- EINVAL, snd (rtapi_exit os 0 s1))
        else case rtapi_shmem_getptr mid s1 of
          Inl e \<Rightarrow> Inr (- EINVAL, snd (rtapi_exit os 0 s1))
        | Inr ptr \<Rightarrow>
            let s2 = (if sh_count (sh_array s1 ! nat mid) = 1
                      then s1\<lparr>uuid_mem := (uuid_mem s1)(ptr := os_uuid os ptr)\<rparr> else s1);
                s3 = (if uuid_base s2 = 0 then s2\<lparr>uuid_base := ptr\<rparr> else s2);
                b = uuid_base s3
            in if \<not> mapped_at s3 b then Inl UB
               else bnd (loop_res (rtapi_mutex_get (\<lambda>_ w. w) 0 (ud_mutex (uuid_mem s3 b)))) (\<lambda>m.
                 let ident = to_s32 (ud_uuid (uuid_mem s3 b) + 1)
                 in Inr (ident, s3\<lparr>uuid_mem := (uuid_mem s3)(b :=
                      \<lparr>ud_mutex = rtapi_mutex_give m, ud_uuid = ident\<rparr>)\<rparr>)))"

section \<open>Library lemmas\<close>

lemma sh_array_upd: "sh_array (upd_handle i f s) = (sh_array s)[i := f (sh_array s ! i)]"
  by (simp add: upd_handle_def)

lemma upd_handle_other [simp]:
  "k_log (upd_handle i f s) = k_log s" "uuid_mem_id (upd_handle i f s) = uuid_mem_id s"
  "uuid_base (upd_handle i f s) = uuid_base s" "uuid_mem (upd_handle i f s) = uuid_mem s"
  by (simp_all add: upd_handle_def)

lemma nth_Cons_shift: "Suc i \<le> k \<Longrightarrow> (h # hs) ! (k - i) = hs ! (k - Suc i)"
  by (simp add: nth_Cons' Suc_diff_le)

lemma find_slot_Existing:
  "find_slot key i sh hs = Existing k \<Longrightarrow>
   i \<le> k \<and> k < i + length hs \<and> live (hs ! (k - i)) \<and> sh_key (hs ! (k - i)) = key"
proof (induction hs arbitrary: i sh)
  case (Cons h hs)
  show ?case
  proof (cases "live h \<and> sh_key h = key")
    case True
    with Cons.prems show ?thesis by auto
  next
    case False
    with Cons.prems obtain sh' where "find_slot key (Suc i) sh' hs = Existing k"
      by (auto split: if_splits)
    from Cons.IH [OF this] show ?thesis by (simp add: nth_Cons_shift)
  qed
qed (auto split: option.splits)

lemma find_slot_Free:
  "find_slot key i sh hs = Free_slot k \<Longrightarrow>
   (sh = Some k \<or> i \<le> k \<and> k < i + length hs \<and> \<not> live (hs ! (k - i))) \<and>
   (\<forall>h \<in> set hs. live h \<longrightarrow> sh_key h \<noteq> key)"
proof (induction hs arbitrary: i sh)
  case (Cons h hs)
  show ?case
  proof (cases "live h")
    case True
    with Cons.prems have k: "find_slot key (Suc i) sh hs = Free_slot k" and "sh_key h \<noteq> key"
      by (auto split: if_splits)
    with Cons.IH [OF k] True show ?thesis by (auto simp: nth_Cons_shift)
  next
    case False
    with Cons.prems have k: "find_slot key (Suc i) (case sh of None \<Rightarrow> Some i | Some j \<Rightarrow> Some j) hs = Free_slot k"
      by simp
    from Cons.IH [OF k] False show ?thesis
      by (auto simp: nth_Cons_shift split: option.splits)
  qed
qed (auto split: option.splits)

text \<open>Only the marks and the keys of the handles matter.\<close>

definition handle_keys :: "rtapi_shmem_handle list \<Rightarrow> (int \<times> int) list" where
  "handle_keys hs = map (\<lambda>h. (sh_magic h, sh_key h)) hs"

lemma find_slot_keys: "handle_keys hs = handle_keys hs' \<Longrightarrow> find_slot key i sh hs = find_slot key i sh hs'"
proof (induction hs arbitrary: hs' i sh)
  case Nil
  then show ?case by (simp add: handle_keys_def)
next
  case (Cons h hs)
  then obtain h' hs'' where "hs' = h' # hs''" "sh_magic h' = sh_magic h" "sh_key h' = sh_key h" "handle_keys hs = handle_keys hs''"
    by (cases hs') (auto simp: handle_keys_def)
  with Cons.IH [of hs''] show ?case by simp
qed

lemma handle_keys_same:
  "sh_magic h = sh_magic (hs ! i) \<Longrightarrow> sh_key h = sh_key (hs ! i) \<Longrightarrow> handle_keys (hs[i := h]) = handle_keys hs"
  by (cases "i < length hs") (simp_all add: handle_keys_def map_update list_update_same_conv list_update_beyond)

lemma find_slot_Full:
  "find_slot key i sh hs = Full \<Longrightarrow> \<forall>h \<in> set hs. live h \<and> sh_key h \<noteq> key"
proof (induction hs arbitrary: i sh)
  case (Cons h hs)
  have "find_slot key j (Some m) xs \<noteq> Full" for j m xs
    by (induction xs arbitrary: j m) auto
  with Cons show ?case by (auto split: if_splits option.splits)
qed (auto split: option.splits)

text \<open>What holds of the table between calls.\<close>

definition shmem_ok :: "shmem_st \<Rightarrow> bool" where
  "shmem_ok s \<longleftrightarrow> length (sh_array s) = MAX_SHM \<and>
     (\<forall>h \<in> set (sh_array s). live h \<longrightarrow>
        sh_state h = SHMEM_S_ACTIVE \<and> 1 \<le> sh_count h \<and> sh_key h \<noteq> 0) \<and>
     (\<forall>i < MAX_SHM. \<forall>j < MAX_SHM. live (sh_array s ! i) \<longrightarrow> live (sh_array s ! j) \<longrightarrow>
        sh_key (sh_array s ! i) = sh_key (sh_array s ! j) \<longrightarrow> i = j)"

lemma shmem_okD:
  assumes "shmem_ok s" "i < MAX_SHM" "live (sh_array s ! i)"
  shows "sh_state (sh_array s ! i) = SHMEM_S_ACTIVE" "1 \<le> sh_count (sh_array s ! i)"
    "sh_key (sh_array s ! i) \<noteq> 0"
  using assms by (auto simp: shmem_ok_def)

lemma shmem_ok_other:
  assumes "shmem_ok s" "i < MAX_SHM" "live (sh_array s ! i)"
    and "j < MAX_SHM" "j \<noteq> i" "live (sh_array s ! j)"
  shows "sh_key (sh_array s ! j) \<noteq> sh_key (sh_array s ! i)"
  using assms unfolding shmem_ok_def by blast

lemma shmem_ok_length [dest]: "shmem_ok s \<Longrightarrow> length (sh_array s) = MAX_SHM"
  by (simp add: shmem_ok_def)

text \<open>
  One handle is rewritten: the table stays well formed when the new handle is, and when its key
  is that of no other live handle.
\<close>

lemma shmem_ok_upd:
  assumes "shmem_ok s" "i < MAX_SHM" "sh_array t = (sh_array s)[i := h]"
    and "live h \<Longrightarrow> sh_state h = SHMEM_S_ACTIVE \<and> 1 \<le> sh_count h \<and> sh_key h \<noteq> 0"
    and "\<And>j. live h \<Longrightarrow> j < MAX_SHM \<Longrightarrow> j \<noteq> i \<Longrightarrow> live (sh_array s ! j) \<Longrightarrow> sh_key (sh_array s ! j) \<noteq> sh_key h"
  shows "shmem_ok t"
proof -
  have len: "length (sh_array s) = MAX_SHM" using assms(1) by auto
  have "sh_state g = SHMEM_S_ACTIVE \<and> 1 \<le> sh_count g \<and> sh_key g \<noteq> 0"
    if "g \<in> set (sh_array t)" "live g" for g
  proof -
    from that(1) assms(3) have "g = h \<or> g \<in> set (sh_array s)"
      by (metis insertE set_update_subset_insert subsetD)
    with that(2) assms(1,4) show ?thesis by (auto simp: shmem_ok_def)
  qed
  moreover have "a = b" if "a < MAX_SHM" "b < MAX_SHM" "live (sh_array t ! a)" "live (sh_array t ! b)"
    "sh_key (sh_array t ! a) = sh_key (sh_array t ! b)" for a b
  proof (cases "a = i \<or> b = i")
    case True
    with that assms(3,5) len show ?thesis by (metis nth_list_update_eq nth_list_update_neq)
  next
    case False
    with that assms(1,3) show ?thesis by (simp add: shmem_ok_def)
  qed
  ultimately show ?thesis using assms(3) len by (simp add: shmem_ok_def)
qed

lemma shmem_ok_array: "sh_array t = sh_array s \<Longrightarrow> shmem_ok s \<Longrightarrow> shmem_ok t"
  by (simp add: shmem_ok_def)

lemma shmem_ok_start: "shmem_ok shmem_start"
  by (simp add: shmem_ok_def shmem_start_def unborn_def SHMEM_MAGIC_def)

text \<open>The three ways a call that found a free slot ends, as one table update.\<close>

lemma new_Free:
  assumes "find_slot key 0 None (sh_array s) = Free_slot i" "key \<noteq> 0" "sz \<noteq> 0"
    and "length (sh_array s) = MAX_SHM"
  shows "i < MAX_SHM" "\<not> live (sh_array s ! i)" "\<forall>h \<in> set (sh_array s). live h \<longrightarrow> sh_key h \<noteq> key"
    and "rtapi_shmem_new os key m sz s =
      (let h = (sh_array s ! i)\<lparr>sh_owner_pid := os_getpid os, sh_error_code := 0\<rparr> in
       case shmget_again os key (to_s32 sz) 5 0 of
         Inl e \<Rightarrow> (- e, s\<lparr>sh_array := (sh_array s)[i := h\<lparr>sh_id := - 1, sh_error_code := e\<rparr>]\<rparr>)
       | Inr shmid \<Rightarrow>
           (case os_shmat os shmid of
              Inl e \<Rightarrow> (- e, s\<lparr>sh_array := (sh_array s)[i := h\<lparr>sh_error_code := e, sh_state := SHMEM_S_ERROR,
                          sh_id := - 1, sh_mem := 0\<rparr>],
                        k_log := k_log s @ [K_rmid shmid]\<rparr>)
            | Inr a \<Rightarrow> (int i, s\<lparr>sh_array := (sh_array s)[i := h\<lparr>sh_id := shmid, sh_mem := a,
                          sh_state := SHMEM_S_ACTIVE, sh_magic := SHMEM_MAGIC, sh_size := sz,
                          sh_key := key, sh_count := 1\<rparr>],
                        k_log := k_log s @ [K_shmat shmid]\<rparr>)))"
proof -
  from find_slot_Free [OF assms(1)] assms(4)
  show i: "i < MAX_SHM" and "\<not> live (sh_array s ! i)"
    and "\<forall>h \<in> set (sh_array s). live h \<longrightarrow> sh_key h \<noteq> key" by auto
  with assms show "rtapi_shmem_new os key m sz s =
      (let h = (sh_array s ! i)\<lparr>sh_owner_pid := os_getpid os, sh_error_code := 0\<rparr> in
       case shmget_again os key (to_s32 sz) 5 0 of
         Inl e \<Rightarrow> (- e, s\<lparr>sh_array := (sh_array s)[i := h\<lparr>sh_id := - 1, sh_error_code := e\<rparr>]\<rparr>)
       | Inr shmid \<Rightarrow>
           (case os_shmat os shmid of
              Inl e \<Rightarrow> (- e, s\<lparr>sh_array := (sh_array s)[i := h\<lparr>sh_error_code := e, sh_state := SHMEM_S_ERROR,
                          sh_id := - 1, sh_mem := 0\<rparr>],
                        k_log := k_log s @ [K_rmid shmid]\<rparr>)
            | Inr a \<Rightarrow> (int i, s\<lparr>sh_array := (sh_array s)[i := h\<lparr>sh_id := shmid, sh_mem := a,
                          sh_state := SHMEM_S_ACTIVE, sh_magic := SHMEM_MAGIC, sh_size := sz,
                          sh_key := key, sh_count := 1\<rparr>],
                        k_log := k_log s @ [K_shmat shmid]\<rparr>)))"
    by (simp add: rtapi_shmem_new_def upd_handle_def Let_def split: sum.split)
qed

lemma new_Existing:
  assumes "find_slot key 0 None (sh_array s) = Existing i" "key \<noteq> 0" "sz \<noteq> 0"
    and "length (sh_array s) = MAX_SHM"
  shows "i < MAX_SHM" "live (sh_array s ! i)" "sh_key (sh_array s ! i) = key"
    and "rtapi_shmem_new os key m sz s =
      (int i, upd_handle i (\<lambda>h. h\<lparr>sh_count := sh_count h + 1\<rparr>) s)"
  using find_slot_Existing [OF assms(1)] assms by (auto simp: rtapi_shmem_new_def)

lemma shmem_new_cases:
  assumes "shmem_ok s"
  obtains (bad) "key = 0 \<or> sz = 0" "rtapi_shmem_new os key m sz s = (- EINVAL, s)"
  | (existing) i where "find_slot key 0 None (sh_array s) = Existing i" "key \<noteq> 0" "sz \<noteq> 0"
  | (full) "find_slot key 0 None (sh_array s) = Full" "key \<noteq> 0" "sz \<noteq> 0"
      "rtapi_shmem_new os key m sz s = (- ENOMEM, s)"
  | (free) i where "find_slot key 0 None (sh_array s) = Free_slot i" "key \<noteq> 0" "sz \<noteq> 0"
proof -
  show ?thesis
    using that by (cases "find_slot key 0 None (sh_array s)"; cases "key = 0"; cases "sz = 0")
      (auto simp: rtapi_shmem_new_def)
qed

lemma shmem_ok_new:
  assumes ok: "shmem_ok s" and new: "rtapi_shmem_new os key m sz s = (r, t)"
  shows "shmem_ok t"
proof (cases rule: shmem_new_cases [OF ok, of key sz os m, case_names bad existing full free])
  case (existing i)
  note E = new_Existing [OF existing shmem_ok_length [OF ok]]
  from new have t: "t = upd_handle i (\<lambda>h. h\<lparr>sh_count := sh_count h + 1\<rparr>) s"
    by (simp add: E(4))
  show ?thesis
    unfolding t using shmem_okD [OF ok E(1,2)] shmem_ok_other [OF ok E(1,2)]
    by (intro shmem_ok_upd [OF ok E(1) sh_array_upd]) auto
next
  case (free i)
  note F = new_Free [OF free shmem_ok_length [OF ok]]
  from ok F(3) have "sh_key (sh_array s ! j) \<noteq> key" if "j < MAX_SHM" "live (sh_array s ! j)" for j
    using that by (metis shmem_ok_length nth_mem)
  with new F(1,2) free(2) show ?thesis
    by (auto simp: F(4) Let_def split: sum.splits intro!: shmem_ok_upd [OF ok F(1)])
qed (use new ok in simp_all)

lemma release_facts:
  fixes os :: os
  assumes "i < length (sh_array s)"
  defines "t \<equiv> snd (shmem_release os i s)"
  shows "sh_array t = (sh_array s)[i := sh_array t ! i]" "sh_magic (sh_array t ! i) = 0"
    and "k_log t = k_log s @
      (if sh_state (sh_array s ! i) \<in> {SHMEM_S_ACTIVE, SHMEM_S_ATTACHED}
       then [K_shmdt (sh_mem (sh_array s ! i))] else []) @
      (case os_nattch os (sh_id (sh_array s ! i)) of
         Inl e \<Rightarrow> [] | Inr n \<Rightarrow> if n = 0 then [K_rmid (sh_id (sh_array s ! i))] else [])"
    and "uuid_mem_id t = uuid_mem_id s" "uuid_base t = uuid_base s" "uuid_mem t = uuid_mem s"
  using assms(1) unfolding t_def shmem_release_def
  by (auto simp: Let_def sh_array_upd split: sum.split option.split)

lemma shmem_ok_delete:
  assumes ok: "shmem_ok s" and del: "rtapi_shmem_delete os hn m s = (r, t)"
  shows "shmem_ok t"
proof (cases "valid_handle hn \<and> live (sh_array s ! nat hn)")
  case False
  with del ok show ?thesis by (auto simp: rtapi_shmem_delete_def split: if_splits)
next
  case True
  let ?i = "nat hn" and ?s1 = "upd_handle (nat hn) (\<lambda>h. h\<lparr>sh_count := sh_count h - 1\<rparr>) s"
  from True have i: "?i < MAX_SHM" by (auto simp: valid_handle_def)
  show ?thesis
  proof (cases "sh_count (sh_array s ! ?i) > 1")
    case gt: True
    with True i ok del have t: "t = ?s1"
      by (auto simp: rtapi_shmem_delete_def Let_def sh_array_upd)
    show ?thesis
      unfolding t using shmem_okD [OF ok i] shmem_ok_other [OF ok i] True gt
      by (intro shmem_ok_upd [OF ok i sh_array_upd]) auto
  next
    case False
    with True i ok del have t: "t = snd (shmem_release os ?i ?s1)"
      by (auto simp: rtapi_shmem_delete_def Let_def sh_array_upd)
    from i ok have "?i < length (sh_array ?s1)" by (simp add: sh_array_upd shmem_ok_length)
    from release_facts(1,2) [OF this, of os, folded t]
    have "sh_array t = (sh_array s)[?i := sh_array t ! ?i]" "\<not> live (sh_array t ! ?i)"
      by (simp_all add: sh_array_upd SHMEM_MAGIC_def)
    then show ?thesis by (intro shmem_ok_upd [OF ok i]) auto
  qed
qed

section \<open>Properties of the handle table\<close>

text \<open>
  The states a process reaches by any sequence of calls, each with its own answers of the kernel.
\<close>

inductive shmem_reach :: "shmem_st \<Rightarrow> bool" where
  start: "shmem_reach shmem_start"
| new: "shmem_reach s \<Longrightarrow> rtapi_shmem_new os key m sz s = (r, t) \<Longrightarrow> shmem_reach t"
| delete: "shmem_reach s \<Longrightarrow> rtapi_shmem_delete os hn m s = (r, t) \<Longrightarrow> shmem_reach t"
| init: "shmem_reach s \<Longrightarrow> rtapi_init os nm s = Inr (r, t) \<Longrightarrow> shmem_reach t"
| exit: "shmem_reach s \<Longrightarrow> rtapi_exit os m s = (r, t) \<Longrightarrow> shmem_reach t"

lemma shmem_ok_exit: "shmem_ok s \<Longrightarrow> shmem_ok (snd (rtapi_exit os m s))"
  by (metis rtapi_exit_def shmem_ok_delete snd_conv surj_pair)

lemma shmem_ok_init:
  assumes "shmem_ok s" "rtapi_init os nm s = Inr (r, t)"
  shows "shmem_ok t"
proof -
  obtain mid s0 where new: "rtapi_shmem_new os UUID_KEY 0 16 s = (mid, s0)" by fastforce
  have s0: "shmem_ok s0" using shmem_ok_new [OF assms(1) new] .
  then have "shmem_ok (s0\<lparr>uuid_mem_id := mid\<rparr>)" by (rule shmem_ok_array [rotated]) simp
  from shmem_ok_exit [OF this] s0 assms(2) show ?thesis
    by (auto simp: rtapi_init_def new Let_def res_splits split: if_splits sum.splits
        intro: shmem_ok_array)
qed

lemma shmem_reach_ok: "shmem_reach s \<Longrightarrow> shmem_ok s"
proof (induction rule: shmem_reach.induct)
  case (exit s os m r t)
  then show ?case by (metis shmem_ok_exit snd_conv)
qed (auto intro: shmem_ok_start shmem_ok_new shmem_ok_delete shmem_ok_init)

text \<open>A kernel that grants every request at address 4096, for the witnesses.\<close>

definition os_grant :: os where
  "os_grant = \<lparr>os_shmget = (\<lambda>key sz k. Inr 7), os_shmat = (\<lambda>i. Inr 4096), os_shmdt = (\<lambda>a. None),
     os_nattch = (\<lambda>i. Inr 0), os_rmid = (\<lambda>i. None), os_getpid = 100,
     os_uuid = (\<lambda>a. \<lparr>ud_mutex = 0, ud_uuid = 0\<rparr>)\<rparr>"


lemma shmget_again_granted:
  "os_shmget os key sz k = Inr i \<Longrightarrow> shmget_again os key sz r k = Inr i"
  by (cases r) simp_all

lemma os_grant_simps [simp]:
  "os_shmget os_grant key sz k = Inr 7" "os_shmat os_grant i = Inr 4096"
  "os_shmdt os_grant a = None" "os_nattch os_grant i = Inr 0" "os_rmid os_grant i = None"
  "os_getpid os_grant = 100" "os_uuid os_grant a = \<lparr>ud_mutex = 0, ud_uuid = 0\<rparr>"
  "shmget_again os_grant key sz r k = Inr 7"
  by (simp_all add: os_grant_def shmget_again_granted)

lemma find_slot_start: "find_slot 5 0 None (sh_array shmem_start) = Free_slot 0"
proof -
  have "find_slot 5 k (Some 0) (replicate n unborn) = Free_slot 0" for n k
    by (induction n arbitrary: k) (simp_all add: unborn_def SHMEM_MAGIC_def)
  then show ?thesis
    by (simp add: shmem_start_def MAX_SHM_def unborn_def SHMEM_MAGIC_def numeral_eq_Suc)
qed

lemma shmem_start_simps [simp]:
  "length (sh_array shmem_start) = MAX_SHM" "k_log shmem_start = []"
  "j < MAX_SHM \<Longrightarrow> sh_array shmem_start ! j = unborn"
  by (simp_all add: shmem_start_def)

lemma new_example:
  "rtapi_shmem_new os_grant 5 0 100 shmem_start =
     (0, shmem_start\<lparr>sh_array := (sh_array shmem_start)[0 :=
          \<lparr>sh_magic = SHMEM_MAGIC, sh_key = 5, sh_id = 7, sh_count = 1, sh_size = 100, sh_mem = 4096,
           sh_state = SHMEM_S_ACTIVE, sh_owner_pid = 100, sh_error_code = 0\<rparr>], k_log := [K_shmat 7]\<rparr>)"
  by (subst new_Free(4) [OF find_slot_start]) (simp_all add: unborn_def MAX_SHM_def Let_def)

lemma handle_table_reach_example:
  "shmem_reach (snd (rtapi_shmem_new os_grant 5 0 100 shmem_start))"
  by (metis prod.collapse shmem_reach.new shmem_reach.start)


lemma find_slot_live:
  assumes "shmem_ok s" "i < MAX_SHM" "live (sh_array s ! i)"
  shows "find_slot (sh_key (sh_array s ! i)) 0 None (sh_array s) = Existing i"
proof -
  have len: "length (sh_array s) = MAX_SHM" using assms(1) by auto
  have mem: "sh_array s ! i \<in> set (sh_array s)" using assms(2) len by (metis nth_mem)
  show ?thesis
  proof (cases "find_slot (sh_key (sh_array s ! i)) 0 None (sh_array s)")
    case (Existing j)
    from find_slot_Existing [OF Existing] len have "j < MAX_SHM" "live (sh_array s ! j)"
      "sh_key (sh_array s ! j) = sh_key (sh_array s ! i)" by auto
    with assms have "j = i" by (metis shmem_ok_other)
    with Existing show ?thesis by simp
  next
    case (Free_slot j)
    with find_slot_Free [OF Free_slot] mem assms(3) show ?thesis by blast
  next
    case Full
    with find_slot_Full [OF Full] mem assms(3) show ?thesis by blast
  qed
qed

text \<open>
  A second request for a key that is already mapped makes no system call: it returns
  the same handle with one more reference, and the matching delete restores the table exactly.
\<close>

theorem shared_new_delete:
  assumes "shmem_ok s" "i < MAX_SHM" "live (sh_array s ! i)" "sz \<noteq> 0"
  shows "\<exists>t. rtapi_shmem_new os (sh_key (sh_array s ! i)) m sz s = (int i, t) \<and>
    sh_count (sh_array t ! i) = sh_count (sh_array s ! i) + 1 \<and> k_log t = k_log s \<and>
    rtapi_shmem_delete os' (int i) m' t = (0, s)"
proof -
  let ?key = "sh_key (sh_array s ! i)"
  have key: "?key \<noteq> 0" using shmem_okD [OF assms(1-3)] by simp
  have len: "length (sh_array s) = MAX_SHM" using assms(1) by auto
  from new_Existing(4) [OF find_slot_live [OF assms(1-3)] key assms(4) len]
  show ?thesis
    using shmem_okD [OF assms(1-3)] assms(2,3) len
    by (simp add: rtapi_shmem_delete_def valid_handle_def Let_def upd_handle_def)
qed

theorem shared_new_delete_witness:
  "\<exists>t. rtapi_shmem_new os_grant 5 0 200 (snd (rtapi_shmem_new os_grant 5 0 100 shmem_start)) = (0, t) \<and>
    rtapi_shmem_delete os_grant 0 0 t = (0, snd (rtapi_shmem_new os_grant 5 0 100 shmem_start))"
  using shared_new_delete [OF shmem_reach_ok [OF handle_table_reach_example], of 0 200 os_grant 0 os_grant 0]
  by (auto simp: new_example MAX_SHM_def)

text \<open>
  The life of a segment that this process maps for the first time. The request
  returns a free slot that becomes ACTIVE at the address the kernel gave; the last delete unmaps it, removes the
  segment when nobody else is attached, and frees the slot. A further delete of the handle fails
  with \<open>-EINVAL\<close>, although the comment on \<open>rtapi_shmem_delete\<close> says it returns 0.
\<close>

theorem segment_life:
  assumes "shmem_ok s" "key \<noteq> 0" "sz \<noteq> 0"
    and "\<forall>h \<in> set (sh_array s). live h \<longrightarrow> sh_key h \<noteq> key" "\<exists>h \<in> set (sh_array s). \<not> live h"
    and "os_shmget os key (to_s32 sz) 0 = Inr shmid" "os_shmat os shmid = Inr a"
    and "os_shmdt os' a = None" "os_nattch os' shmid = Inr 0" "os_rmid os' shmid = None"
  shows "\<exists>i t u. rtapi_shmem_new os key m sz s = (int i, t) \<and> i < MAX_SHM \<and> \<not> live (sh_array s ! i) \<and>
    rtapi_shmem_getptr (int i) t = Inr a \<and> rtapi_shmem_getstate (int i) t = SHMEM_S_ACTIVE \<and>
    rtapi_shmem_delete os' (int i) m t = (0, u) \<and>
    k_log u = k_log s @ [K_shmat shmid, K_shmdt a, K_rmid shmid] \<and>
    \<not> live (sh_array u ! i) \<and> (\<forall>j. j \<noteq> i \<longrightarrow> sh_array u ! j = sh_array s ! j) \<and>
    rtapi_shmem_delete os' (int i) m u = (- EINVAL, u)"
proof -
  have len: "length (sh_array s) = MAX_SHM" using assms(1) by auto
  obtain i where free: "find_slot key 0 None (sh_array s) = Free_slot i"
  proof (cases "find_slot key 0 None (sh_array s)")
    case (Existing j)
    then have "j < length (sh_array s)" "live (sh_array s ! j)" "sh_key (sh_array s ! j) = key"
      using find_slot_Existing by fastforce+
    with assms(4) nth_mem [of j "sh_array s"] show ?thesis by auto
  next
    case Full
    with find_slot_Full [OF Full] assms(5) show ?thesis by blast
  qed
  note F = new_Free [OF free assms(2,3) len]
  define h where "h = (sh_array s ! i)\<lparr>sh_owner_pid := os_getpid os, sh_error_code := 0, sh_id := shmid,
      sh_mem := a, sh_state := SHMEM_S_ACTIVE, sh_magic := SHMEM_MAGIC, sh_size := sz, sh_key := key,
      sh_count := 1\<rparr>"
  define t where "t = s\<lparr>sh_array := (sh_array s)[i := h], k_log := k_log s @ [K_shmat shmid]\<rparr>"
  define u where "u = snd (rtapi_shmem_delete os' (int i) m t)"
  have v: "valid_handle (int i)" using F(1) by (simp add: valid_handle_def)
  have ti: "sh_array t ! i = h" using F(1) len by (simp add: t_def)
  have "rtapi_shmem_new os key m sz s = (int i, t)"
    by (simp add: F(4) Let_def shmget_again_granted [OF assms(6)] assms(7) t_def h_def)
  moreover have "rtapi_shmem_getptr (int i) t = Inr a" "rtapi_shmem_getstate (int i) t = SHMEM_S_ACTIVE"
    by (simp_all add: rtapi_shmem_getptr_def rtapi_shmem_getstate_def v ti h_def)
  moreover have u: "rtapi_shmem_delete os' (int i) m t = (0, u)"
    "k_log u = k_log s @ [K_shmat shmid, K_shmdt a, K_rmid shmid]"
    "sh_magic (sh_array u ! i) = 0" "\<forall>j. j \<noteq> i \<longrightarrow> sh_array u ! j = sh_array s ! j"
    using assms(8-10) F(1) len
    by (simp_all add: u_def rtapi_shmem_delete_def shmem_release_def v Let_def sh_array_upd t_def h_def)
  moreover have "rtapi_shmem_delete os' (int i) m u = (- EINVAL, u)"
    using u(3) by (simp add: rtapi_shmem_delete_def v SHMEM_MAGIC_def)
  ultimately show ?thesis using F(1,2) by (auto simp: SHMEM_MAGIC_def)
qed

theorem segment_life_witness:
  "\<exists>i t u. rtapi_shmem_new os_grant 5 0 100 shmem_start = (int i, t) \<and>
    rtapi_shmem_delete os_grant (int i) 0 t = (0, u) \<and> k_log u = [K_shmat 7, K_shmdt 4096, K_rmid 7] \<and>
    rtapi_shmem_delete os_grant (int i) 0 u = (- 22, u)"
  using segment_life [OF shmem_ok_start, of 5 100 os_grant 7 4096 os_grant 0]
  by (fastforce simp: shmem_start_def unborn_def MAX_SHM_def SHMEM_MAGIC_def)

text \<open>
  A request that fails (bad arguments, full table, \<open>shmget\<close> or \<open>shmat\<close> refused)
  leaves every handle in use as it was and puts no new one in use; a segment that could not be
  mapped is handed back to the kernel for removal.
\<close>

theorem failed_new_keeps_handles:
  assumes "shmem_ok s" "rtapi_shmem_new os key m sz s = (r, t)" "r < 0"
  shows "(\<forall>j. live (sh_array s ! j) \<longrightarrow> sh_array t ! j = sh_array s ! j) \<and>
    (\<forall>j < MAX_SHM. live (sh_array t ! j) \<longrightarrow> live (sh_array s ! j)) \<and>
    (k_log t = k_log s \<or> (\<exists>shmid e. os_shmat os shmid = Inl e \<and> r = - e \<and> k_log t = k_log s @ [K_rmid shmid]))"
proof (cases rule: shmem_new_cases [OF assms(1), of key sz os m, case_names bad existing full free])
  case (existing i)
  from new_Existing(4) [OF existing shmem_ok_length [OF assms(1)]] assms(2,3) show ?thesis by simp
next
  case (free i)
  note F = new_Free [OF free shmem_ok_length [OF assms(1)]]
  have len: "length (sh_array s) = MAX_SHM" using assms(1) by auto
  show ?thesis
    using assms(2,3) F(1,2) len
    by (auto simp: F(4) Let_def nth_list_update split: sum.splits if_splits)
qed (use assms in auto)

theorem failed_new_keeps_handles_witness:
  "\<exists>t. rtapi_shmem_new (os_grant\<lparr>os_shmat := (\<lambda>_. Inl 12)\<rparr>) 5 0 100 shmem_start = (- 12, t) \<and>
    k_log t = [K_rmid 7] \<and> \<not> live (sh_array t ! 3)"
proof -
  let ?os = "os_grant\<lparr>os_shmat := (\<lambda>_. Inl 12)\<rparr>"
  let ?t = "snd (rtapi_shmem_new ?os 5 0 100 shmem_start)"
  have "rtapi_shmem_new ?os 5 0 100 shmem_start = (- 12, ?t)" "k_log ?t = [K_rmid 7]"
    by (subst new_Free(4) [OF find_slot_start]; simp add: shmget_again_granted Let_def)+
  moreover from this(1) failed_new_keeps_handles [OF shmem_ok_start this(1)]
  have "\<not> live (sh_array ?t ! 3)"
    by (auto simp: MAX_SHM_def unborn_def SHMEM_MAGIC_def)
  ultimately show ?thesis by blast
qed

section \<open>Properties of the module ids\<close>

text \<open>\<open>rtapi_init\<close> called once per element of the list, without an exit in between.\<close>

fun rtapi_inits :: "os list \<Rightarrow> shmem_st \<Rightarrow> (int list \<times> shmem_st) res" where
  "rtapi_inits [] s = Inr ([], s)"
| "rtapi_inits (os # oss) s =
     bnd (rtapi_init os '''' s) (\<lambda>(i, t). bnd (rtapi_inits oss t) (\<lambda>(is, u). Inr (i # is, u)))"

text \<open>The id segment is mapped, its lock free: the state between two calls of \<open>rtapi_init\<close>.\<close>

definition uuid_ready :: "int \<Rightarrow> shmem_st \<Rightarrow> bool" where
  "uuid_ready v s \<longleftrightarrow> shmem_ok s \<and> uuid_base s \<noteq> 0 \<and> mapped_at s (uuid_base s) \<and>
     (\<exists>h \<in> set (sh_array s). live h \<and> sh_key h = UUID_KEY) \<and>
     \<not> locked (ud_mutex (uuid_mem s (uuid_base s))) \<and> ud_uuid (uuid_mem s (uuid_base s)) = v"

lemma mapped_at_upd:
  assumes "mapped_at s a" "i < length (sh_array s)" "sh_mem (f (sh_array s ! i)) = sh_mem (sh_array s ! i)"
    and "sh_magic (f (sh_array s ! i)) = sh_magic (sh_array s ! i)"
  shows "mapped_at (upd_handle i f s) a"
proof -
  from assms(1) obtain j where j: "j < length (sh_array s)" "live (sh_array s ! j)" "sh_mem (sh_array s ! j) = a"
    by (auto simp: mapped_at_def list_ex_iff in_set_conv_nth)
  have "live (sh_array (upd_handle i f s) ! j)" "sh_mem (sh_array (upd_handle i f s) ! j) = a"
    using j assms(2-4) by (auto simp: sh_array_upd nth_list_update)
  moreover have "sh_array (upd_handle i f s) ! j \<in> set (sh_array (upd_handle i f s))"
    using j by (simp add: sh_array_upd)
  ultimately show ?thesis by (auto simp: mapped_at_def list_ex_iff)
qed

lemma rtapi_init_run:
  assumes "uuid_ready v s" and i: "i < MAX_SHM" "live (sh_array s ! i)" "sh_key (sh_array s ! i) = UUID_KEY"
  obtains t where "rtapi_init os nm s = Inr (to_s32 (v + 1), t)" "uuid_ready (to_s32 (v + 1)) t"
    "uuid_mem_id t = int i" "sh_array t = (sh_array s)[i := (sh_array s ! i)\<lparr>sh_count := sh_count (sh_array s ! i) + 1\<rparr>]"
    "uuid_base t = uuid_base s"
proof -
  have ok: "shmem_ok s" using assms(1) by (simp add: uuid_ready_def)
  have len: "length (sh_array s) = MAX_SHM" using ok by auto
  obtain t0 where new: "rtapi_shmem_new os UUID_KEY 0 16 s = (int i, t0)"
    using shared_new_delete [OF ok i(1,2), of 16 os 0] i(3) by auto
  have E: "find_slot UUID_KEY 0 None (sh_array s) = Existing i"
    using find_slot_live [OF ok i(1,2)] i(3) by simp
  from new_Existing(4) [OF E _ _ len, of 16] new
  have t0: "t0 = upd_handle i (\<lambda>h. h\<lparr>sh_count := sh_count h + 1\<rparr>) s"
    by (simp add: UUID_KEY_def)
  have ok0: "shmem_ok t0" using shmem_ok_new [OF ok new] .
  have count: "sh_count (sh_array t0 ! i) \<noteq> 1" and live0: "live (sh_array t0 ! i)"
    and key0: "sh_key (sh_array t0 ! i) = UUID_KEY"
    using shmem_okD [OF ok i(1,2)] i len by (simp_all add: t0 sh_array_upd)
  have map0: "mapped_at t0 (uuid_base s)"
    using assms(1) len i(1) unfolding t0 by (intro mapped_at_upd) (auto simp: uuid_ready_def)
  let ?b = "uuid_base s"
  define u where "u = t0\<lparr>uuid_mem_id := int i, uuid_mem := (uuid_mem s)(?b :=
      \<lparr>ud_mutex = ud_mutex (uuid_mem s ?b), ud_uuid = to_s32 (v + 1)\<rparr>)\<rparr>"
  have arr: "sh_array u = sh_array t0" by (simp add: u_def)
  have st: "sh_state (sh_array t0 ! i) = SHMEM_S_ACTIVE" using shmem_okD(1) [OF ok0 i(1) live0] .
  have t0m: "uuid_mem t0 = uuid_mem s" "uuid_base t0 = ?b" by (simp_all add: t0)
  have v: "valid_handle (int i)" using i(1) by (simp add: valid_handle_def)
  have free: "\<not> locked (ud_mutex (uuid_mem s ?b))" "ud_uuid (uuid_mem s ?b) = v" "?b \<noteq> 0"
    using assms(1) by (simp_all add: uuid_ready_def)
  have "rtapi_init os nm s = Inr (to_s32 (v + 1), u)"
    using map0 count live0 st free
    by (simp add: rtapi_init_def new rtapi_shmem_getptr_def v Let_def mapped_at_def
        rtapi_mutex_get_free u_def t0m)
  moreover have "shmem_ok u" using shmem_ok_array [OF arr ok0] .
  moreover have "mapped_at u ?b" using map0 by (simp add: mapped_at_def arr)
  moreover have "\<exists>h \<in> set (sh_array u). live h \<and> sh_key h = UUID_KEY"
    using live0 key0 i(1) ok0 by (intro bexI [of _ "sh_array t0 ! i"]) (auto simp: arr shmem_ok_length)
  moreover have "uuid_base u = ?b" by (simp add: u_def t0m)
  moreover have "uuid_mem u ?b = \<lparr>ud_mutex = ud_mutex (uuid_mem s ?b), ud_uuid = to_s32 (v + 1)\<rparr>"
    by (simp add: u_def)
  moreover have "uuid_mem_id u = int i" "sh_array u = (sh_array s)[i := (sh_array s ! i)\<lparr>sh_count := sh_count (sh_array s ! i) + 1\<rparr>]"
    by (simp_all add: u_def t0 sh_array_upd)
  ultimately show ?thesis using free by (intro that [of u]) (auto simp: uuid_ready_def)
qed

lemma rtapi_init_ready:
  assumes "uuid_ready v s"
  obtains t where "rtapi_init os nm s = Inr (to_s32 (v + 1), t)" "uuid_ready (to_s32 (v + 1)) t"
proof -
  from assms obtain i where "i < MAX_SHM" "live (sh_array s ! i)" "sh_key (sh_array s ! i) = UUID_KEY"
    using shmem_ok_length [of s] by (auto simp: uuid_ready_def in_set_conv_nth)
  from rtapi_init_run [OF assms this] that show ?thesis by metis
qed

text \<open>The other segments are untouched.\<close>

definition same_segments :: "shmem_st \<Rightarrow> shmem_st \<Rightarrow> bool" where
  "same_segments s t \<longleftrightarrow> handle_keys (sh_array t) = handle_keys (sh_array s) \<and> uuid_base t = uuid_base s \<and>
     (\<forall>j < length (sh_array s). sh_key (sh_array s ! j) \<noteq> UUID_KEY \<longrightarrow> sh_array t ! j = sh_array s ! j)"

lemma same_segments_refl [simp]: "same_segments s s"
  by (simp add: same_segments_def)

lemma same_segments_trans: "same_segments s t \<Longrightarrow> same_segments t u \<Longrightarrow> same_segments s u"
proof -
  assume a: "same_segments s t" "same_segments t u"
  have "length (sh_array t) = length (sh_array s)"
    using a(1) map_eq_imp_length_eq by (simp add: same_segments_def handle_keys_def) blast
  with a show "same_segments s u" by (simp add: same_segments_def)
qed

text \<open>The id segment is ready and \<open>n\<close> modules hold a reference to it.\<close>

definition module_ids :: "int \<Rightarrow> int \<Rightarrow> shmem_st \<Rightarrow> bool" where
  "module_ids v n s \<longleftrightarrow> uuid_ready v s \<and> (\<exists>i < MAX_SHM. uuid_mem_id s = int i \<and> live (sh_array s ! i) \<and>
     sh_key (sh_array s ! i) = UUID_KEY \<and> sh_count (sh_array s ! i) = n)"

lemma module_ids_init:
  assumes "module_ids v n s"
  obtains t where "rtapi_init os nm s = Inr (to_s32 (v + 1), t)" "module_ids (to_s32 (v + 1)) (n + 1) t"
    "same_segments s t"
proof -
  from assms obtain i where i: "i < MAX_SHM" "live (sh_array s ! i)" "sh_key (sh_array s ! i) = UUID_KEY"
    "sh_count (sh_array s ! i) = n" and r: "uuid_ready v s" by (auto simp: module_ids_def)
  have len: "i < length (sh_array s)" using i(1) r by (auto simp: uuid_ready_def)
  obtain t where t: "rtapi_init os nm s = Inr (to_s32 (v + 1), t)" "uuid_ready (to_s32 (v + 1)) t" "uuid_mem_id t = int i"
    "sh_array t = (sh_array s)[i := (sh_array s ! i)\<lparr>sh_count := sh_count (sh_array s ! i) + 1\<rparr>]"
    "uuid_base t = uuid_base s"
    by (rule rtapi_init_run [OF r i(1-3)])
  have "module_ids (to_s32 (v + 1)) (n + 1) t" using t(2-4) i len by (auto simp: module_ids_def)
  moreover have "handle_keys (sh_array t) = handle_keys (sh_array s)" unfolding t(4) by (rule handle_keys_same) simp_all
  then have "same_segments s t" using t(4,5) i(3) unfolding same_segments_def by (metis nth_list_update_neq)
  ultimately show ?thesis using that [OF t(1)] by blast
qed

lemma module_ids_exit:
  assumes "module_ids v n s" "1 < n"
  shows "module_ids v (n - 1) (snd (rtapi_exit os m s))"
proof -
  from assms obtain i where i: "i < MAX_SHM" "live (sh_array s ! i)" "sh_key (sh_array s ! i) = UUID_KEY"
    "sh_count (sh_array s ! i) = n" "uuid_mem_id s = int i" and r: "uuid_ready v s" by (auto simp: module_ids_def)
  have ok: "shmem_ok s" and len: "i < length (sh_array s)" using i(1) r by (auto simp: uuid_ready_def)
  let ?t = "upd_handle i (\<lambda>h. h\<lparr>sh_count := sh_count h - 1\<rparr>) s"
  have t: "snd (rtapi_exit os m s) = ?t"
    using i len assms(2) by (simp add: rtapi_exit_def rtapi_shmem_delete_def valid_handle_def Let_def sh_array_upd)
  have "shmem_ok ?t" using shmem_ok_exit [OF ok, of os m] by (simp add: t)
  moreover have "mapped_at ?t (uuid_base s)"
    using r len by (intro mapped_at_upd) (auto simp: uuid_ready_def)
  moreover have at: "sh_array ?t ! i = (sh_array s ! i)\<lparr>sh_count := n - 1\<rparr>"
    using len i(4) by (simp add: sh_array_upd)
  moreover have "sh_array ?t ! i \<in> set (sh_array ?t)" using len by (intro nth_mem) (simp add: sh_array_upd)
  moreover have "\<exists>h \<in> set (sh_array ?t). live h \<and> sh_key h = UUID_KEY"
    using calculation(3,4) i by (intro bexI [of _ "sh_array ?t ! i"]) auto
  ultimately show ?thesis using r i by (simp add: module_ids_def uuid_ready_def t)
qed


lemma rtapi_inits_ready:
  "uuid_ready v s \<Longrightarrow> \<exists>t. rtapi_inits oss s =
     Inr (map (\<lambda>k. to_s32 (v + 1 + int k)) [0..<length oss], t)"
proof (induction oss arbitrary: v s)
  case (Cons os oss)
  from Cons.prems obtain t where t: "rtapi_init os '''' s = Inr (to_s32 (v + 1), t)"
    "uuid_ready (to_s32 (v + 1)) t" by (rule rtapi_init_ready)
  from Cons.IH [OF t(2)] obtain u where
    u: "rtapi_inits oss t = Inr (map (\<lambda>k. to_s32 (to_s32 (v + 1) + 1 + int k)) [0..<length oss], u)" by blast
  have shift: "to_s32 (to_s32 x + y) = to_s32 (x + y)" for x y
  proof -
    have "((x + 2 ^ 31) mod 2 ^ 32 + y) mod 2 ^ 32 = (x + 2 ^ 31 + y) mod (2::int) ^ 32"
      by (rule mod_add_left_eq)
    then show ?thesis by (simp add: to_s32_def algebra_simps)
  qed
  have E: "to_s32 (to_s32 (v + 1) + 1 + int k) = to_s32 (v + 1 + int (Suc k))" for k
    using shift [of "v + 1" "1 + int k"] by (simp add: algebra_simps)
  have "[0..<length (os # oss)] = 0 # map Suc [0..<length oss]"
    by (simp add: upt_conv_Cons map_Suc_upt del: upt_Suc)
  with t(1) u show ?case by (simp add: E comp_def del: upt_Suc of_nat_Suc)
qed simp

text \<open>
  The module ids. Once the id segment is mapped, any number of calls of
  \<open>rtapi_init\<close> all return, whatever the kernel answers and whatever names are given, and the ids
  are consecutive 32-bit numbers, so the ids of fewer than \<open>2 ^ 32\<close> modules are distinct.
\<close>

theorem module_ids_consecutive:
  assumes "uuid_ready v s"
  shows "\<exists>ids t. rtapi_inits oss s = Inr (ids, t) \<and>
    ids = map (\<lambda>k. to_s32 (v + 1 + int k)) [0..<length oss] \<and>
    (length oss \<le> 2 ^ 32 \<longrightarrow> distinct ids)"
proof -
  obtain t where t: "rtapi_inits oss s = Inr (map (\<lambda>k. to_s32 (v + 1 + int k)) [0..<length oss], t)"
    using rtapi_inits_ready [OF assms] by blast
  have "k = l" if "to_s32 (v + 1 + int k) = to_s32 (v + 1 + int l)" "k < 2 ^ 32" "l < 2 ^ 32" for k l :: nat
  proof -
    from that(1) have "(v + 1 + int k + 2 ^ 31) mod 2 ^ 32 = (v + 1 + int l + 2 ^ 31) mod 2 ^ 32"
      by (simp add: to_s32_def)
    then have "int k mod 2 ^ 32 = int l mod 2 ^ 32"
      by (simp add: mod_eq_dvd_iff)
    with that(2,3) show ?thesis by simp
  qed
  then have "distinct (map (\<lambda>k. to_s32 (v + 1 + int k)) [0..<length oss])" if "length oss \<le> 2 ^ 32"
    using that by (auto simp: distinct_map inj_on_def)
  with t show ?thesis by blast
qed

definition uuid_example :: shmem_st where
  "uuid_example = shmem_start\<lparr>sh_array := (sh_array shmem_start)[0 := unborn\<lparr>sh_magic := SHMEM_MAGIC,
     sh_key := UUID_KEY, sh_count := 1, sh_mem := 4096, sh_state := SHMEM_S_ACTIVE\<rparr>],
     uuid_base := 4096\<rparr>"

lemma uuid_example_ready: "uuid_ready 0 uuid_example"
proof -
  have "shmem_ok uuid_example"
    by (rule shmem_ok_upd [OF shmem_ok_start, of 0])
      (auto simp: uuid_example_def MAX_SHM_def UUID_KEY_def unborn_def SHMEM_MAGIC_def)
  moreover have "sh_array uuid_example ! 0 \<in> set (sh_array uuid_example)"
    by (intro nth_mem) (simp add: uuid_example_def MAX_SHM_def)
  ultimately show ?thesis
    by (auto simp: uuid_ready_def mapped_at_def list_ex_iff uuid_example_def MAX_SHM_def
        shmem_start_def intro!: bexI [of _ "sh_array uuid_example ! 0"])
qed

theorem module_ids_consecutive_witness:
  "\<exists>t. rtapi_inits [os_grant, os_grant] uuid_example = Inr ([1, 2], t)"
  using module_ids_consecutive [OF uuid_example_ready, of "[os_grant, os_grant]"]
  by (simp add: upt_rec)

text \<open>
  The static pointer to the id segment is never refreshed. When the last
  \<open>rtapi_exit\<close> has unmapped the segment and the next \<open>rtapi_init\<close> maps it at another address,
  the call writes through the stale pointer: undefined behaviour.
\<close>

theorem stale_uuid_pointer:
  assumes "shmem_ok s" "uuid_base s \<noteq> 0" "\<not> mapped_at s (uuid_base s)"
    and "\<forall>h \<in> set (sh_array s). live h \<longrightarrow> sh_key h \<noteq> UUID_KEY" "\<exists>h \<in> set (sh_array s). \<not> live h"
    and "os_shmget os UUID_KEY 16 0 = Inr shmid" "os_shmat os shmid = Inr a" "a \<noteq> uuid_base s"
  shows "rtapi_init os nm s = Inl UB"
proof -
  have len: "length (sh_array s) = MAX_SHM" using assms(1) by auto
  obtain i where free: "find_slot UUID_KEY 0 None (sh_array s) = Free_slot i"
  proof (cases "find_slot UUID_KEY 0 None (sh_array s)")
    case (Existing j)
    then have "j < length (sh_array s)" "live (sh_array s ! j)" "sh_key (sh_array s ! j) = UUID_KEY"
      using find_slot_Existing by fastforce+
    with assms(4) nth_mem [of j "sh_array s"] show ?thesis by auto
  next
    case Full
    with find_slot_Full [OF Full] assms(5) show ?thesis by blast
  qed
  note F = new_Free [OF free _ _ len]
  obtain h where new: "rtapi_shmem_new os UUID_KEY 0 16 s =
      (int i, s\<lparr>sh_array := (sh_array s)[i := h], k_log := k_log s @ [K_shmat shmid]\<rparr>)"
    and h: "live h" "sh_mem h = a" "sh_state h = SHMEM_S_ACTIVE"
    using F(4) [of 16 os 0] shmget_again_granted [OF assms(6)] assms(7)
    by (auto simp: UUID_KEY_def Let_def)
  have i: "i < MAX_SHM" using F(1) [of 16] by (simp add: UUID_KEY_def)
  then have v: "valid_handle (int i)" by (simp add: valid_handle_def)
  have "\<not> list_ex (\<lambda>g. live g \<and> sh_mem g = uuid_base s) ((sh_array s)[i := h])"
    using assms(3,8) h set_update_subset_insert [of "sh_array s" i h]
    by (auto simp: mapped_at_def list_ex_iff)
  with i len h assms(2) show ?thesis
    by (simp add: rtapi_init_def new Let_def rtapi_shmem_getptr_def v mapped_at_def)
qed

theorem stale_uuid_pointer_witness:
  "rtapi_init os_grant ''m'' (shmem_start\<lparr>uuid_base := 8192\<rparr>) = Inl UB"
proof (rule stale_uuid_pointer [of _ _ 7 4096])
  show "shmem_ok (shmem_start\<lparr>uuid_base := 8192\<rparr>)"
    by (rule shmem_ok_array [OF _ shmem_ok_start]) simp
qed (auto simp: mapped_at_def list_ex_iff shmem_start_def unborn_def SHMEM_MAGIC_def MAX_SHM_def)

end
