(* ===== verification/Linked_Lists.thy ===== *)
theory Linked_Lists
  imports Prelude
begin

text \<open>
  The loops of \<open>hal/hal_lib.c\<close> over null-terminated lists, each written once: the search
  (\<open>while (next != 0)\<close>), the search for the place of a name in a sorted list
  (\<open>while (1)\<close> with \<open>prev\<close> and \<open>next\<close>), the search for a node to unlink, and the
  count of a list. A list is reached through a head field and the \<open>next_ptr\<close> fields of its
  nodes; \<open>linked\<close> is the interface of such a list, which the HAL's component, pin, parameter,
  function and thread lists provide.
\<close>

section \<open>The loops\<close>

text \<open>\<open>prev\<close> is the address of a link: the list's head, or the \<open>next_ptr\<close> of a node.\<close>

datatype link = At_head | At_next off

definition link_of :: "off list \<Rightarrow> link" where
  "link_of xs = (if xs = [] then At_head else At_next (last xs))"

lemma link_of_simps [simp]: "link_of [] = At_head" "link_of (xs @ [x]) = At_next x"
  by (simp_all add: link_of_def)

text \<open>\<open>while (next != 0) { if (match) return node; next = node->next_ptr; } return 0\<close>\<close>

partial_function (option) walk :: "(off \<Rightarrow> off) \<Rightarrow> (off \<Rightarrow> bool) \<Rightarrow> off \<Rightarrow> off option" where
  "walk nx match p =
     (if p = 0 then Some 0 else if match p then Some p else walk nx match (nx p))"

text \<open>
  The insertion loop of the sorted lists: \<open>cmp\<close> is the \<open>strcmp\<close> of the node's name and
  the new name. \<open>None\<close> is the duplicate branch; otherwise the link to write and the node that
  will follow.
\<close>

partial_function (option) ins_walk ::
  "(off \<Rightarrow> off) \<Rightarrow> (off \<Rightarrow> int) \<Rightarrow> link \<Rightarrow> off \<Rightarrow> (link \<times> off) option option" where
  "ins_walk nx cmp prev p =
     (if p = 0 then Some (Some (prev, p))
      else if cmp p > 0 then Some (Some (prev, p))
      else if cmp p = 0 then Some None
      else ins_walk nx cmp (At_next p) (nx p))"

text \<open>The search for a node to unlink: the link that points to it, and the node.\<close>

partial_function (option) unlink_walk ::
  "(off \<Rightarrow> off) \<Rightarrow> (off \<Rightarrow> bool) \<Rightarrow> link \<Rightarrow> off \<Rightarrow> (link \<times> off) option option" where
  "unlink_walk nx match prev p =
     (if p = 0 then Some None
      else if match p then Some (Some (prev, p))
      else unlink_walk nx match (At_next p) (nx p))"

text \<open>\<open>while (next != 0) { count++; next = node->next_ptr; }\<close>\<close>

partial_function (option) count_walk :: "(off \<Rightarrow> off) \<Rightarrow> int \<Rightarrow> off \<Rightarrow> int option" where
  "count_walk nx n p = (if p = 0 then Some n else count_walk nx (n + 1) (nx p))"

text \<open>The nodes of a list, in order.\<close>

partial_function (option) collect :: "(off \<Rightarrow> off) \<Rightarrow> off \<Rightarrow> off list option" where
  "collect nx p =
     (if p = 0 then Some [] else Option.bind (collect nx (nx p)) (\<lambda>xs. Some (p # xs)))"

definition nodes :: "(off \<Rightarrow> off) \<Rightarrow> off \<Rightarrow> off list" where
  "nodes nx p = (case collect nx p of None \<Rightarrow> [] | Some xs \<Rightarrow> xs)"

section \<open>What the loops return on a well-formed list\<close>

lemma walk_chain:
  "chain nx p xs \<Longrightarrow> walk nx m p = Some (case find m xs of None \<Rightarrow> 0 | Some x \<Rightarrow> x)"
  by (induction xs arbitrary: p) (simp_all add: walk.simps)

lemma ins_walk_chain:
  assumes "chain nx p ys"
  shows "ins_walk nx cmp (link_of xs) p =
     Some (case dropWhile (\<lambda>q. cmp q < 0) ys of
             [] \<Rightarrow> Some (link_of (xs @ ys), 0)
           | q # _ \<Rightarrow> if cmp q = 0 then None
                    else Some (link_of (xs @ takeWhile (\<lambda>q. cmp q < 0) ys), q))"
  using assms
proof (induction ys arbitrary: p xs)
  case Nil
  then show ?case by (simp add: ins_walk.simps)
next
  case (Cons y ys)
  from Cons.prems have "chain nx (nx y) ys" by simp
  from Cons.IH [OF this, of "xs @ [y]"] Cons.prems show ?case
    by (cases "dropWhile (\<lambda>q. cmp q < 0) ys") (auto simp: ins_walk.simps [of _ _ _ y] simp del: dropWhile_eq_Nil_conv)
qed

lemma unlink_walk_chain:
  assumes "chain nx p ys"
  shows "unlink_walk nx m (link_of xs) p =
     Some (case dropWhile (\<lambda>q. \<not> m q) ys of
             [] \<Rightarrow> None
           | q # _ \<Rightarrow> Some (link_of (xs @ takeWhile (\<lambda>q. \<not> m q) ys), q))"
  using assms
proof (induction ys arbitrary: p xs)
  case Nil
  then show ?case by (simp add: unlink_walk.simps)
next
  case (Cons y ys)
  from Cons.prems have "chain nx (nx y) ys" by simp
  from Cons.IH [OF this, of "xs @ [y]"] Cons.prems show ?case
    by (cases "dropWhile (\<lambda>q. \<not> m q) ys") (auto simp: unlink_walk.simps [of _ _ _ y] simp del: dropWhile_eq_Nil_conv)
qed

lemma count_walk_chain: "chain nx p xs \<Longrightarrow> count_walk nx n p = Some (n + int (length xs))"
  by (induction xs arbitrary: p n) (simp_all add: count_walk.simps)

lemma collect_chain: "chain nx p xs \<Longrightarrow> collect nx p = Some xs"
  by (induction xs arbitrary: p) (simp_all add: collect.simps)

lemma nodes_chain: "chain nx p xs \<Longrightarrow> nodes nx p = xs"
  by (simp add: nodes_def collect_chain)

lemma nodes_zero [simp]: "nodes nx 0 = []"
  by (simp add: nodes_chain)

section \<open>The interface of a linked list\<close>

definition put_link :: "(off \<Rightarrow> 's \<Rightarrow> 's) \<Rightarrow> (off \<Rightarrow> off \<Rightarrow> 's \<Rightarrow> 's) \<Rightarrow> link \<Rightarrow> off \<Rightarrow> 's \<Rightarrow> 's" where
  "put_link set_hd set_nx l v s = (case l of At_head \<Rightarrow> set_hd v s | At_next p \<Rightarrow> set_nx p v s)"

text \<open>\<open>new->next_ptr = next; *prev = SHMOFF(new);\<close>\<close>

definition link_in ::
  "(off \<Rightarrow> 's \<Rightarrow> 's) \<Rightarrow> (off \<Rightarrow> off \<Rightarrow> 's \<Rightarrow> 's) \<Rightarrow> link \<Rightarrow> off \<Rightarrow> off \<Rightarrow> 's \<Rightarrow> 's" where
  "link_in set_hd set_nx prev next n s = put_link set_hd set_nx prev n (set_nx n next s)"

locale linked =
  fixes hd_of :: "'s \<Rightarrow> off" and nx_of :: "'s \<Rightarrow> off \<Rightarrow> off"
    and set_hd :: "off \<Rightarrow> 's \<Rightarrow> 's" and set_nx :: "off \<Rightarrow> off \<Rightarrow> 's \<Rightarrow> 's"
  assumes hd_set_hd: "hd_of (set_hd v s) = v"
    and nx_set_hd: "nx_of (set_hd v s) = nx_of s"
    and hd_set_nx: "hd_of (set_nx p v s) = hd_of s"
    and nx_set_nx: "nx_of (set_nx p v s) = (nx_of s)(p := v)"
begin

lemma link_in_chain:
  assumes "chain (nx_of s) (hd_of s) (xs @ ys)" "n \<noteq> 0" "n \<notin> set (xs @ ys)"
    and "nxt = (case ys of [] \<Rightarrow> 0 | y # _ \<Rightarrow> y)"
  defines "s' \<equiv> link_in set_hd set_nx (link_of xs) nxt n s"
  shows "chain (nx_of s') (hd_of s') (xs @ n # ys)"
proof (cases "xs = []")
  case True
  with assms show ?thesis
    by (cases ys) (auto simp: link_in_def put_link_def hd_set_hd nx_set_hd nx_set_nx hd_set_nx)
next
  case False
  with chain_insert [OF assms(1-3) False] show ?thesis
    by (simp add: s'_def link_in_def put_link_def link_of_def nx_set_nx hd_set_nx assms(4))
qed

lemma unlink_chain:
  assumes "chain (nx_of s) (hd_of s) (xs @ n # ys)"
  defines "s' \<equiv> put_link set_hd set_nx (link_of xs) (nx_of s n) s"
  shows "chain (nx_of s') (hd_of s') (xs @ ys)"
proof (cases "xs = []")
  case True
  with assms show ?thesis
    by (auto simp: put_link_def hd_set_hd nx_set_hd)
next
  case False
  with chain_remove [OF assms(1) False] show ?thesis
    by (simp add: s'_def put_link_def link_of_def nx_set_nx hd_set_nx)
qed

text \<open>\<open>n->next_ptr = head; head = SHMOFF(n);\<close>\<close>

lemma push_chain:
  assumes "chain (nx_of s) (hd_of s) xs" "n \<noteq> 0" "n \<notin> set xs"
  shows "chain (nx_of (set_hd n (set_nx n (hd_of s) s))) (hd_of (set_hd n (set_nx n (hd_of s) s))) (n # xs)"
  using assms by (simp add: hd_set_hd nx_set_hd nx_set_nx)

end

end
