(* ===== verification/Ring_Lists.thy ===== *)
theory Ring_Lists
  imports Prelude
begin

text \<open>
  The circular doubly linked lists of \<open>hal/hal_priv.h\<close> (\<open>hal_list_t\<close>, \<open>list_next\<close>,
  \<open>list_prev\<close>, \<open>list_add_after\<close>, \<open>list_remove_entry\<close>): the list of function entries
  of a thread and the free list of function entries. A list has a root, a \<open>hal_list_t\<close> inside
  another struct, and its members are \<open>hal_funct_entry_t\<close> structs, whose first field is the
  \<open>hal_list_t\<close>.
\<close>

section \<open>Addresses and links\<close>

text \<open>
  The addresses a \<open>hal_list_t *\<close> takes: \<open>&hal_data->funct_entry_free\<close>,
  \<open>&thread->funct_list\<close>, the \<open>links\<close> of an entry, the segment's base (offset \<open>0\<close>, what
  an all-zero link points to), the null pointer, and the pointer \<open>-1\<close> that \<open>list_next\<close> and
  \<open>list_prev\<close> test for.
\<close>

datatype laddr = Free_root | Thread_root off | Entry off | L_base | L_null | L_ones

record hal_list =
  l_next :: laddr
  l_prev :: laddr

type_synonym links = "laddr \<Rightarrow> hal_list"

definition list_next :: "links \<Rightarrow> laddr \<Rightarrow> laddr" where
  "list_next L e = (if e = L_ones then L_null else l_next (L e))"

definition list_prev :: "links \<Rightarrow> laddr \<Rightarrow> laddr" where
  "list_prev L e = (if e = L_ones then L_null else l_prev (L e))"

definition set_next :: "laddr \<Rightarrow> laddr \<Rightarrow> links \<Rightarrow> links" where
  "set_next a v L = L(a := (L a)\<lparr>l_next := v\<rparr>)"

definition set_prev :: "laddr \<Rightarrow> laddr \<Rightarrow> links \<Rightarrow> links" where
  "set_prev a v L = L(a := (L a)\<lparr>l_prev := v\<rparr>)"

definition list_add_after :: "laddr \<Rightarrow> laddr \<Rightarrow> links \<Rightarrow> links" where
  "list_add_after new_entry list_entry L =
     (let L1 = set_next new_entry (l_next (L list_entry)) L;
          L2 = set_prev new_entry list_entry L1;
          L3 = set_next list_entry new_entry L2
      in set_prev (l_next (L3 new_entry)) new_entry L3)"

definition list_remove_entry :: "laddr \<Rightarrow> links \<Rightarrow> laddr \<times> links" where
  "list_remove_entry entry L =
     (let L1 = set_prev (l_next (L entry)) (l_prev (L entry)) L;
          L2 = set_next (l_prev (L1 entry)) (l_next (L1 entry)) L1
      in (l_next (L2 entry), L2))"

lemma link_get [simp]:
  "l_next (set_next a v L b) = (if b = a then v else l_next (L b))"
  "l_prev (set_next a v L b) = l_prev (L b)"
  "l_prev (set_prev a v L b) = (if b = a then v else l_prev (L b))"
  "l_next (set_prev a v L b) = l_next (L b)"
  by (simp_all add: set_next_def set_prev_def)

section \<open>Segments and rings\<close>

text \<open>From \<open>a\<close> through the entries \<open>xs\<close> to \<open>b\<close>, linked both ways.\<close>

fun seg :: "links \<Rightarrow> laddr \<Rightarrow> off list \<Rightarrow> laddr \<Rightarrow> bool" where
  "seg L a [] b \<longleftrightarrow> l_next (L a) = b \<and> l_prev (L b) = a"
| "seg L a (x # xs) b \<longleftrightarrow>
     l_next (L a) = Entry x \<and> l_prev (L (Entry x)) = a \<and> seg L (Entry x) xs b"

definition is_root :: "laddr \<Rightarrow> bool" where
  "is_root r \<longleftrightarrow> (case r of Free_root \<Rightarrow> True | Thread_root _ \<Rightarrow> True | _ \<Rightarrow> False)"

lemma is_root_simps [simp]:
  "is_root Free_root" "is_root (Thread_root t)" "\<not> is_root (Entry e)"
  "\<not> is_root L_base" "\<not> is_root L_null" "\<not> is_root L_ones"
  by (simp_all add: is_root_def)

definition ring :: "links \<Rightarrow> laddr \<Rightarrow> off list \<Rightarrow> bool" where
  "ring L r xs \<longleftrightarrow> is_root r \<and> seg L r xs r \<and> distinct xs"

lemma seg_append: "seg L a (xs @ y # ys) b \<longleftrightarrow> seg L a xs (Entry y) \<and> seg L (Entry y) ys b"
  by (induction xs arbitrary: a) auto

lemma seg_cong:
  assumes "\<And>c. c \<in> insert a (Entry ` set xs) \<Longrightarrow> l_next (L c) = l_next (L' c)"
    and "\<And>c. c \<in> insert b (Entry ` set xs) \<Longrightarrow> l_prev (L c) = l_prev (L' c)"
  shows "seg L a xs b = seg L' a xs b"
  using assms by (induction xs arbitrary: a) auto

lemma seg_frame [simp]:
  "c \<noteq> a \<Longrightarrow> c \<notin> Entry ` set xs \<Longrightarrow> seg (set_next c v L) a xs b = seg L a xs b"
  "c \<noteq> b \<Longrightarrow> c \<notin> Entry ` set xs \<Longrightarrow> seg (set_prev c v L) a xs b = seg L a xs b"
  by (rule seg_cong; auto)+

lemma seg_first: "seg L a xs b \<Longrightarrow> l_next (L a) = (case xs of [] \<Rightarrow> b | x # _ \<Rightarrow> Entry x)"
  by (cases xs) auto

lemma seg_last: "seg L a xs b \<Longrightarrow> l_prev (L b) = (if xs = [] then a else Entry (last xs))"
  by (induction xs arbitrary: a) auto

lemma list_add_after_get:
  assumes "new \<noteq> a"
  shows "l_next (list_add_after new a L c) =
           (if c = a then new else if c = new then l_next (L a) else l_next (L c))"
    and "l_prev (list_add_after new a L c) =
           (if c = l_next (L a) then new else if c = new then a else l_prev (L c))"
  using assms by (auto simp: list_add_after_def Let_def)

lemma list_remove_entry_get:
  assumes "l_next (L e) \<noteq> e" "l_prev (L e) \<noteq> e"
  shows "l_next (snd (list_remove_entry e L) c) =
           (if c = l_prev (L e) then l_next (L e) else l_next (L c))"
    and "l_prev (snd (list_remove_entry e L) c) =
           (if c = l_next (L e) then l_prev (L e) else l_prev (L c))"
    and "fst (list_remove_entry e L) = l_next (L e)"
  using assms by (auto simp: list_remove_entry_def Let_def)

text \<open>The links determine the entries.\<close>

lemma seg_unique:
  assumes "seg L a xs r" "seg L a ys r" "\<forall>x. Entry x \<noteq> r"
  shows "xs = ys"
  using assms
proof (induction xs arbitrary: a ys)
  case Nil
  then show ?case by (cases ys) auto
next
  case (Cons x xs)
  then have "ys \<noteq> []" by auto
  then obtain y zs where "ys = y # zs" by (cases ys) auto
  with Cons show ?case by auto
qed

lemma ring_unique:
  assumes "ring L r xs" "ring L r ys"
  shows "xs = ys"
proof -
  have "is_root r" using assms(1) by (simp add: ring_def)
  then have "\<forall>x. Entry x \<noteq> r" by auto
  with assms show ?thesis by (intro seg_unique [of L r xs r ys]) (simp_all add: ring_def)
qed

section \<open>Adding an entry\<close>

lemma seg_add_first:
  assumes "seg L a ys b" "a \<notin> Entry ` set ys" "b \<notin> Entry ` set ys" "distinct ys"
    and "n \<notin> set ys" "a \<noteq> Entry n" "b \<noteq> Entry n"
  shows "seg (list_add_after (Entry n) a L) a (n # ys) b"
proof -
  note get = list_add_after_get [OF assms(6) [symmetric]]
  show ?thesis
  proof (cases ys)
    case Nil
    with assms show ?thesis by (auto simp: get)
  next
    case (Cons y ys')
    with assms have "seg L (Entry y) ys' b" by simp
    then have "seg (list_add_after (Entry n) a L) (Entry y) ys' b"
      using assms Cons by (subst seg_cong [where L' = L]) (auto simp: get image_iff)
    with assms Cons show ?thesis by (auto simp: get)
  qed
qed

definition addr_at :: "laddr \<Rightarrow> off list \<Rightarrow> nat \<Rightarrow> laddr" where
  "addr_at r xs i = (if i = 0 then r else Entry (xs ! (i - 1)))"

lemma addr_at_0 [simp]: "addr_at r xs 0 = r"
  by (simp add: addr_at_def)

lemma ring_add_after:
  assumes "ring L r xs" "i \<le> length xs" "n \<notin> set xs"
  shows "ring (list_add_after (Entry n) (addr_at r xs i) L) r (take i xs @ n # drop i xs)"
proof (cases "i = 0")
  case True
  from assms have "r \<notin> range Entry" by (auto simp: ring_def)
  with assms have "seg (list_add_after (Entry n) r L) r (n # xs) r"
    by (intro seg_add_first) (auto simp: ring_def)
  with True assms show ?thesis by (simp add: ring_def)
next
  case False
  define y where "y = xs ! (i - 1)"
  define us where "us = take (i - 1) xs"
  define vs where "vs = drop i xs"
  from False obtain j where j: "i = Suc j" by (cases i) auto
  with assms(2) have i: "take i xs = us @ [y]"
    by (simp add: us_def y_def take_Suc_conv_app_nth)
  then have xs: "xs = us @ y # vs"
    using append_take_drop_id [of i xs] by (simp add: vs_def)
  let ?L = "list_add_after (Entry n) (Entry y) L"
  from assms xs have segs: "seg L r us (Entry y)" "seg L (Entry y) vs r"
    by (auto simp: ring_def seg_append)
  have r: "r \<notin> range Entry" "\<forall>x. Entry x \<noteq> r" using assms by (auto simp: ring_def)
  have n: "n \<noteq> y" "n \<notin> set us" "n \<notin> set vs" and d: "distinct (us @ y # vs)"
    using assms xs by (auto simp: ring_def)
  note get = list_add_after_get [of "Entry n" "Entry y" L]
  have "seg ?L (Entry y) (n # vs) r"
    using segs(2) n d r by (intro seg_add_first) auto
  moreover have "seg ?L r us (Entry y)"
    using segs(1) n d r seg_first [OF segs(2)]
    by (subst seg_cong [where L' = L]) (auto simp: get split: list.splits)
  ultimately have "seg ?L r ((us @ [y]) @ n # vs) r"
    by (simp add: seg_append)
  moreover have "addr_at r xs i = Entry y" using False by (simp add: addr_at_def y_def)
  ultimately show ?thesis
    using i n d assms(1) by (auto simp: ring_def vs_def [symmetric])
qed

section \<open>Removing an entry\<close>

lemma seg_remove:
  assumes "seg L a xs (Entry e)" "seg L (Entry e) ys b" "distinct (xs @ e # ys)"
    and "a \<notin> Entry ` set (xs @ e # ys)" "b \<notin> Entry ` set (xs @ e # ys)"
  shows "seg (snd (list_remove_entry (Entry e) L)) a (xs @ ys) b"
  using assms
proof (induction xs arbitrary: a)
  case Nil
  have ne: "l_next (L (Entry e)) \<noteq> Entry e" "l_prev (L (Entry e)) \<noteq> Entry e"
    using Nil seg_first [OF Nil(2)] by (auto split: list.splits)
  note get = list_remove_entry_get [where L = L and e = "Entry e", OF ne]
  show ?case
  proof (cases ys)
    case Nil': Nil
    with Nil show ?thesis by (auto simp: get)
  next
    case (Cons y ys')
    with Nil have "seg L (Entry y) ys' b" by simp
    then have "seg (snd (list_remove_entry (Entry e) L)) (Entry y) ys' b"
      using Nil Cons by (subst seg_cong [where L' = L]) (auto simp: get)
    with Nil Cons show ?thesis by (auto simp: get)
  qed
next
  case (Cons x xs)
  have IH: "seg (snd (list_remove_entry (Entry e) L)) (Entry x) (xs @ ys) b"
    using Cons.prems by (intro Cons.IH) auto
  have nx: "l_next (L (Entry e)) = (case ys of [] \<Rightarrow> b | y # _ \<Rightarrow> Entry y)"
    using seg_first [OF Cons.prems(2)] .
  have pv: "l_prev (L (Entry e)) = Entry (last (x # xs))"
    using seg_last [OF Cons.prems(1)] by simp
  have ne: "l_next (L (Entry e)) \<noteq> Entry e" "l_prev (L (Entry e)) \<noteq> Entry e"
    using nx pv Cons.prems by (auto split: list.splits)
  note get = list_remove_entry_get [where L = L and e = "Entry e", OF ne]
  have "a \<noteq> Entry (last (x # xs))" "Entry x \<noteq> l_next (L (Entry e))"
    using Cons.prems nx by (auto split: list.splits if_splits)
  with IH Cons.prems show ?case by (auto simp: get pv)
qed

lemma ring_remove:
  assumes "ring L r (xs @ e # ys)"
  shows "ring (snd (list_remove_entry (Entry e) L)) r (xs @ ys)"
  using assms by (auto simp: ring_def seg_append intro!: seg_remove)

lemma ring_remove_next:
  assumes "ring L r (xs @ e # ys)"
  shows "fst (list_remove_entry (Entry e) L) = (case ys of [] \<Rightarrow> r | y # _ \<Rightarrow> Entry y)"
proof -
  from assms have s: "seg L (Entry e) ys r" "seg L r xs (Entry e)" and d: "distinct (xs @ e # ys)"
    and r: "is_root r"
    by (auto simp: ring_def seg_append)
  have "l_next (L (Entry e)) \<noteq> Entry e" "l_prev (L (Entry e)) \<noteq> Entry e"
    using seg_first [OF s(1)] seg_last [OF s(2)] d r by (auto split: list.splits if_splits)
  from list_remove_entry_get(3) [where L = L and e = "Entry e", OF this] seg_first [OF s(1)] show ?thesis by simp
qed

section \<open>Frames: what other rings see\<close>

lemma ring_cong:
  assumes "\<And>c. c \<in> insert r (Entry ` set xs) \<Longrightarrow> L c = L' c"
  shows "ring L r xs = ring L' r xs"
proof -
  have "seg L r xs r = seg L' r xs r"
    by (rule seg_cong) (simp_all add: assms)
  then show ?thesis by (simp add: ring_def)
qed

lemma list_add_after_frame:
  assumes "c \<noteq> new" "c \<noteq> e" "c \<noteq> l_next (L e)" "new \<noteq> e"
  shows "list_add_after new e L c = L c"
  using assms by (simp add: list_add_after_def Let_def set_next_def set_prev_def)

lemma list_remove_entry_frame:
  assumes "c \<noteq> l_next (L e)" "c \<noteq> l_prev (L e)" "l_next (L e) \<noteq> e"
  shows "snd (list_remove_entry e L) c = L c"
  using assms by (simp add: list_remove_entry_def Let_def set_next_def set_prev_def)

lemma ring_next_in:
  "ring L r xs \<Longrightarrow> c \<in> insert r (Entry ` set xs) \<Longrightarrow> l_next (L c) \<in> insert r (Entry ` set xs)"
proof -
  have "seg L a xs b \<Longrightarrow> c \<in> insert a (Entry ` set xs) \<Longrightarrow> l_next (L c) \<in> insert b (Entry ` set xs)"
    for a b by (induction xs arbitrary: a) auto
  then show "ring L r xs \<Longrightarrow> c \<in> insert r (Entry ` set xs) \<Longrightarrow> l_next (L c) \<in> insert r (Entry ` set xs)"
    by (auto simp: ring_def)
qed

lemma ring_prev_in:
  "ring L r xs \<Longrightarrow> c \<in> insert r (Entry ` set xs) \<Longrightarrow> l_prev (L c) \<in> insert r (Entry ` set xs)"
proof -
  have "seg L a xs b \<Longrightarrow> c \<in> insert b (Entry ` set xs) \<Longrightarrow> l_prev (L c) \<in> insert a (Entry ` set xs)"
    for a b by (induction xs arbitrary: a) auto
  then show "ring L r xs \<Longrightarrow> c \<in> insert r (Entry ` set xs) \<Longrightarrow> l_prev (L c) \<in> insert r (Entry ` set xs)"
    by (auto simp: ring_def)
qed

lemma ring_add_other:
  assumes "ring L r xs" "ring L q ys" "e \<in> insert r (Entry ` set xs)" "q \<noteq> r"
    and "set xs \<inter> set ys = {}" "n \<notin> set ys" "n \<notin> set xs"
  shows "ring (list_add_after (Entry n) e L) q ys"
proof -
  have "l_next (L e) \<in> insert r (Entry ` set xs)" using ring_next_in assms(1,3) .
  moreover have "is_root q" "is_root r" using assms(1,2) by (auto simp: ring_def)
  ultimately have "list_add_after (Entry n) e L c = L c" if "c \<in> insert q (Entry ` set ys)" for c
    using that assms(3-) by (intro list_add_after_frame) (auto simp: image_iff)
  with assms(2) show ?thesis by (subst ring_cong [where L' = L]) auto
qed

lemma ring_remove_other:
  assumes "ring L r xs" "ring L q ys" "e \<in> set xs" "q \<noteq> r" "set xs \<inter> set ys = {}"
  shows "ring (snd (list_remove_entry (Entry e) L)) q ys"
proof -
  have "l_next (L (Entry e)) \<in> insert r (Entry ` set xs)" "l_prev (L (Entry e)) \<in> insert r (Entry ` set xs)"
    using ring_next_in ring_prev_in assms(1,3) by blast+
  moreover have "\<forall>x. Entry x \<noteq> q" "\<forall>x. Entry x \<noteq> r" using assms(1,2) by (auto simp: ring_def)
  moreover have "l_next (L (Entry e)) \<noteq> Entry e"
  proof -
    obtain us vs where "xs = us @ e # vs" using assms(3) by (meson split_list)
    with assms(1) seg_first [of L "Entry e" vs r] show ?thesis
      by (auto simp: ring_def seg_append split: list.splits)
  qed
  ultimately have "snd (list_remove_entry (Entry e) L) c = L c" if "c \<in> insert q (Entry ` set ys)" for c
    using that assms(3-) by (intro list_remove_entry_frame) (auto simp: image_iff)
  with assms(2) show ?thesis by (subst ring_cong [where L' = L]) auto
qed

section \<open>Moving along a ring\<close>

lemma seg_next_at:
  "seg L a xs b \<Longrightarrow> i \<le> length xs \<Longrightarrow>
   l_next (L (addr_at a xs i)) = (if i < length xs then Entry (xs ! i) else b)"
proof (induction xs arbitrary: a i)
  case (Cons x xs)
  show ?case
  proof (cases i)
    case (Suc j)
    with Cons.prems have "l_next (L (addr_at (Entry x) xs j)) = (if j < length xs then Entry (xs ! j) else b)"
      by (intro Cons.IH) auto
    with Suc show ?thesis by (auto simp: addr_at_def nth_Cons split: nat.splits)
  qed (use Cons.prems in \<open>auto simp: addr_at_def\<close>)
qed (auto simp: addr_at_def)

lemma seg_prev_at:
  "seg L a xs b \<Longrightarrow> i < length xs \<Longrightarrow> l_prev (L (Entry (xs ! i))) = addr_at a xs i"
proof (induction xs arbitrary: a i)
  case (Cons x xs)
  then show ?case
    by (cases i) (auto simp: addr_at_def nth_Cons split: nat.splits)
qed simp

lemma ring_list_next:
  assumes "ring L r xs" "i \<le> length xs"
  shows "list_next L (addr_at r xs i) = (if i < length xs then addr_at r xs (Suc i) else r)"
proof -
  have "addr_at r xs i \<noteq> L_ones" using assms by (auto simp: addr_at_def ring_def)
  with seg_next_at [of L r xs r i] assms show ?thesis
    by (auto simp: list_next_def ring_def addr_at_def)
qed

lemma ring_list_prev:
  assumes "ring L r xs" "i \<le> length xs"
  shows "list_prev L (addr_at r xs i) = (if i = 0 then addr_at r xs (length xs) else addr_at r xs (i - 1))"
proof (cases i)
  case 0
  have "r \<noteq> L_ones" using assms by (auto simp: ring_def)
  with 0 seg_last [of L r xs r] assms show ?thesis
    by (auto simp: list_prev_def ring_def addr_at_def last_conv_nth)
next
  case (Suc j)
  with seg_prev_at [of L r xs r j] assms show ?thesis
    by (auto simp: list_prev_def ring_def addr_at_def)
qed

lemma addr_at_root [simp]: "ring L r xs \<Longrightarrow> i \<le> length xs \<Longrightarrow> addr_at r xs i = r \<longleftrightarrow> i = 0"
  by (auto simp: addr_at_def ring_def)

end
