(* ===== verification/Hal_Data.thy ===== *)
theory Hal_Data
  imports Mutex Linked_Lists Ring_Lists
begin

text \<open>
  The data of the hardware abstraction layer (\<open>hal/hal.h\<close>, \<open>hal/hal_priv.h\<close>): the structs
  in the HAL's shared memory segment, the segment itself, and the allocator
  (\<open>shmalloc_up\<close>, \<open>shmalloc_dn\<close>, \<open>hal_malloc\<close>).

  A struct is named by the offset of its first byte. There is one heap per struct type, a total
  function from offsets to records: the segment is zero-filled when it is created, every
  struct comes from the allocator, and a freed struct only goes to the free list of its own type,
  so bytes never change their type. That blocks of different calls do not overlap is proved of the
  allocator below.
\<close>

section \<open>Types\<close>

datatype hal_type =
  HAL_TYPE_UNSPECIFIED | HAL_TYPE_UNINITIALIZED | HAL_BIT | HAL_FLOAT | HAL_S32 | HAL_U32
| HAL_PORT | HAL_S64 | HAL_U64 | HAL_INT32 | HAL_TYPE_MAX

text \<open>\<open>hal_param_dir_t\<close> is passed as an \<open>int\<close>; these are its two enumerators.\<close>

definition HAL_RO :: int where "HAL_RO = 64"
definition HAL_RW :: int where "HAL_RW = 192"

datatype component_type =
  COMPONENT_TYPE_UNKNOWN | COMPONENT_TYPE_USER | COMPONENT_TYPE_REALTIME | COMPONENT_TYPE_OTHER

datatype hal_state =
  HAL_S_UNINIT | HAL_S_INITIALIZING | HAL_S_ACTIVE | HAL_S_RUNNING | HAL_S_SHUTTING_DOWN
| HAL_S_DESTROYED | HAL_S_ERROR

definition HAL_NAME_LEN :: nat where "HAL_NAME_LEN = 47"
definition HAL_SIZE :: int where "HAL_SIZE = 256 * 4096"

definition HAL_LOCK_NONE :: "8 word" where "HAL_LOCK_NONE = 0"
definition HAL_LOCK_LOAD :: "8 word" where "HAL_LOCK_LOAD = 1"
definition HAL_LOCK_CONFIG :: "8 word" where "HAL_LOCK_CONFIG = 2"
definition HAL_LOCK_PARAMS :: "8 word" where "HAL_LOCK_PARAMS = 4"
definition HAL_LOCK_RUN :: "8 word" where "HAL_LOCK_RUN = 8"

section \<open>Pointers\<close>

text \<open>
  \<open>hal_data\<close> is null before initialisation, and dangles after its segment has been unmapped.
  \<open>comp->shmem_base\<close> is null or the segment's base.
\<close>

datatype seg_ptr = SP_null | SP_mapped | SP_stale

datatype base_ptr = B_null | B_base

text \<open>
  What a cell of type \<open>hal_s32_t *\<close> (the \<open>runtime\<close> of a function or thread, a component's
  pin pointer) holds: null, the address of the dummy signal of a pin, or a wild pointer.
\<close>

datatype dptr = D_null | D_sig off | D_wild

text \<open>
  The cells whose address is passed to \<open>hal_pin_new\<close>: the \<open>runtime\<close> fields of functions and
  threads, and cells of a component, given by their distance from the segment's base (which may lie
  outside the segment).
\<close>

datatype cell = Cell_null | Cell_funct off | Cell_thread off | Cell_user int

text \<open>
  The variables whose address is passed to \<open>hal_param_new\<close>: \<open>maxtime\<close> and
  \<open>maxtime_increased\<close> of functions, \<open>maxtime\<close> of threads, and variables of a component.
\<close>

datatype addr = A_null | A_funct_maxtime off | A_funct_increased off | A_thread_maxtime off | A_user int

section \<open>Structs\<close>

record hal_comp =
  c_next :: off
  c_comp_id :: int
  c_mem_id :: int
  c_type :: component_type
  c_ready :: int
  c_pid :: int
  c_shmem_base :: base_ptr
  c_name :: string
  c_make :: int
  c_insmod_args :: int

record hal_pin =
  p_next :: off
  p_data_ptr_addr :: int
  p_owner :: off
  p_signal :: off
  p_dummysig :: int
  p_oldname :: off
  p_type :: hal_type
  p_name :: string

record hal_param =
  pm_next :: off
  pm_data_ptr :: int
  pm_owner :: off
  pm_oldname :: off
  pm_type :: hal_type
  pm_dir :: int
  pm_name :: string

record hal_funct =
  f_next :: off
  f_uses_fp :: int
  f_owner :: off
  f_reentrant :: int
  f_users :: int
  f_arg :: int
  f_funct :: int
  f_runtime :: dptr
  f_maxtime :: int
  f_maxtime_increased :: bool
  f_name :: string

text \<open>The \<open>funct_list\<close> of a thread is in the heap of links, at \<open>Thread_root\<close>.\<close>

record hal_thread =
  t_next :: off
  t_uses_fp :: int
  t_period :: int
  t_priority :: int
  t_task_id :: int
  t_runtime :: dptr
  t_maxtime :: int
  t_name :: string
  t_comp_id :: int

record hal_funct_entry =
  e_arg :: int
  e_funct :: int
  e_funct_ptr :: off

record hal_oldname =
  o_next :: off
  o_name :: string

text \<open>
  Sizes and field offsets of the structs on a 64-bit machine (LP64, natural alignment), as
  \<open>sizeof\<close> and \<open>offsetof\<close> give them.
\<close>

definition sizeof_hal_data :: int where "sizeof_hal_data = 272"
definition sizeof_hal_comp :: int where "sizeof_hal_comp = 104"
definition sizeof_hal_pin :: int where "sizeof_hal_pin = 104"
definition sizeof_hal_param :: int where "sizeof_hal_param = 88"
definition sizeof_hal_funct :: int where "sizeof_hal_funct = 112"
definition sizeof_hal_thread :: int where "sizeof_hal_thread = 120"
definition sizeof_hal_funct_entry :: int where "sizeof_hal_funct_entry = 40"

text \<open>
  \<open>SHMOFF\<close> of an address, and the test \<open>SHMCHK\<close> that it lies in the segment; the null
  pointer fails the test.
\<close>

fun cell_off :: "cell \<Rightarrow> int" where
  "cell_off Cell_null = 0"
| "cell_off (Cell_funct f) = f + 48"
| "cell_off (Cell_thread t) = t + 32"
| "cell_off (Cell_user x) = x"

fun addr_off :: "addr \<Rightarrow> int" where
  "addr_off A_null = 0"
| "addr_off (A_funct_maxtime f) = f + 56"
| "addr_off (A_funct_increased f) = f + 60"
| "addr_off (A_thread_maxtime t) = t + 40"
| "addr_off (A_user x) = x"

definition SHMCHK :: "int \<Rightarrow> bool" where
  "SHMCHK x \<longleftrightarrow> 0 < x \<and> x < HAL_SIZE"

section \<open>The HAL's state\<close>

text \<open>
  The fields of \<open>hal_data_t\<close>, the heaps of the segment, and the static variables of
  \<open>hal_lib.c\<close> (\<open>hal_data\<close>, \<open>ref_cnt\<close>, \<open>lib_module_id\<close>, \<open>lib_mem_id\<close>).
\<close>

record hal =
  hd_mutex :: ulong
  shmem_avail :: int
  pending_constructor :: int
  constructor_prefix :: string
  shmem_bot :: int
  shmem_top :: int
  comp_list_ptr :: off
  pin_list_ptr :: off
  param_list_ptr :: off
  funct_list_ptr :: off
  thread_list_ptr :: off
  base_period :: int
  threads_running :: int
  oldname_free_ptr :: off
  comp_free_ptr :: off
  pin_free_ptr :: off
  param_free_ptr :: off
  funct_free_ptr :: off
  thread_free_ptr :: off
  exact_base_period :: int
  hd_lock :: "8 word"
  hd_state :: hal_state
  init_pid :: int
  hd_error_code :: int
  comps :: "off \<Rightarrow> hal_comp"
  pins :: "off \<Rightarrow> hal_pin"
  params :: "off \<Rightarrow> hal_param"
  functs :: "off \<Rightarrow> hal_funct"
  threads :: "off \<Rightarrow> hal_thread"
  entries :: "off \<Rightarrow> hal_funct_entry"
  oldnames :: "off \<Rightarrow> hal_oldname"
  links :: links
  ucells :: "int \<Rightarrow> dptr"
  hal_data :: seg_ptr
  ref_cnt :: int
  lib_module_id :: int
  lib_mem_id :: int

text \<open>Updates of one struct.\<close>

definition upd_comp :: "off \<Rightarrow> (hal_comp \<Rightarrow> hal_comp) \<Rightarrow> hal \<Rightarrow> hal" where
  "upd_comp p f h = h\<lparr>comps := (comps h)(p := f (comps h p))\<rparr>"

definition upd_pin :: "off \<Rightarrow> (hal_pin \<Rightarrow> hal_pin) \<Rightarrow> hal \<Rightarrow> hal" where
  "upd_pin p f h = h\<lparr>pins := (pins h)(p := f (pins h p))\<rparr>"

definition upd_param :: "off \<Rightarrow> (hal_param \<Rightarrow> hal_param) \<Rightarrow> hal \<Rightarrow> hal" where
  "upd_param p f h = h\<lparr>params := (params h)(p := f (params h p))\<rparr>"

definition upd_funct :: "off \<Rightarrow> (hal_funct \<Rightarrow> hal_funct) \<Rightarrow> hal \<Rightarrow> hal" where
  "upd_funct p f h = h\<lparr>functs := (functs h)(p := f (functs h p))\<rparr>"

definition upd_thread :: "off \<Rightarrow> (hal_thread \<Rightarrow> hal_thread) \<Rightarrow> hal \<Rightarrow> hal" where
  "upd_thread p f h = h\<lparr>threads := (threads h)(p := f (threads h p))\<rparr>"

definition upd_entry :: "off \<Rightarrow> (hal_funct_entry \<Rightarrow> hal_funct_entry) \<Rightarrow> hal \<Rightarrow> hal" where
  "upd_entry p f h = h\<lparr>entries := (entries h)(p := f (entries h p))\<rparr>"

definition upd_oldname :: "off \<Rightarrow> (hal_oldname \<Rightarrow> hal_oldname) \<Rightarrow> hal \<Rightarrow> hal" where
  "upd_oldname p f h = h\<lparr>oldnames := (oldnames h)(p := f (oldnames h p))\<rparr>"

lemmas upd_defs = upd_comp_def upd_pin_def upd_param_def upd_funct_def upd_thread_def upd_entry_def
  upd_oldname_def

text \<open>All bytes zero, and the static variables as the process starts with them.\<close>

definition zero_hal :: hal where
  "zero_hal = \<lparr>hd_mutex = 0, shmem_avail = 0, pending_constructor = 0, constructor_prefix = [],
     shmem_bot = 0, shmem_top = 0, comp_list_ptr = 0, pin_list_ptr = 0, param_list_ptr = 0,
     funct_list_ptr = 0, thread_list_ptr = 0, base_period = 0, threads_running = 0,
     oldname_free_ptr = 0, comp_free_ptr = 0, pin_free_ptr = 0, param_free_ptr = 0,
     funct_free_ptr = 0, thread_free_ptr = 0, exact_base_period = 0, hd_lock = 0,
     hd_state = HAL_S_UNINIT, init_pid = 0, hd_error_code = 0,
     comps = (\<lambda>_. \<lparr>c_next = 0, c_comp_id = 0, c_mem_id = 0, c_type = COMPONENT_TYPE_USER, c_ready = 0,
                c_pid = 0, c_shmem_base = B_null, c_name = [], c_make = 0, c_insmod_args = 0\<rparr>),
     pins = (\<lambda>_. \<lparr>p_next = 0, p_data_ptr_addr = 0, p_owner = 0, p_signal = 0, p_dummysig = 0,
                p_oldname = 0, p_type = HAL_TYPE_UNINITIALIZED, p_name = []\<rparr>),
     params = (\<lambda>_. \<lparr>pm_next = 0, pm_data_ptr = 0, pm_owner = 0, pm_oldname = 0,
                pm_type = HAL_TYPE_UNINITIALIZED, pm_dir = 0, pm_name = []\<rparr>),
     functs = (\<lambda>_. \<lparr>f_next = 0, f_uses_fp = 0, f_owner = 0, f_reentrant = 0, f_users = 0, f_arg = 0,
                f_funct = 0, f_runtime = D_null, f_maxtime = 0, f_maxtime_increased = False, f_name = []\<rparr>),
     threads = (\<lambda>_. \<lparr>t_next = 0, t_uses_fp = 0, t_period = 0, t_priority = 0, t_task_id = 0,
                t_runtime = D_null, t_maxtime = 0, t_name = [], t_comp_id = 0\<rparr>),
     entries = (\<lambda>_. \<lparr>e_arg = 0, e_funct = 0, e_funct_ptr = 0\<rparr>),
     oldnames = (\<lambda>_. \<lparr>o_next = 0, o_name = []\<rparr>),
     links = (\<lambda>_. \<lparr>l_next = L_base, l_prev = L_base\<rparr>), ucells = (\<lambda>_. D_null),
     hal_data = SP_null, ref_cnt = 0, lib_module_id = - 1, lib_mem_id = 0\<rparr>"

section \<open>The HAL's lock\<close>

text \<open>
  \<open>rtapi_mutex_get(&hal_data->mutex)\<close> by a caller that nobody interferes with: it hangs when the
  lock is held.
\<close>

definition hal_mutex_get :: "hal \<Rightarrow> hal res" where
  "hal_mutex_get h =
     bnd (loop_res (rtapi_mutex_get (\<lambda>_ w. w) 0 (hd_mutex h))) (\<lambda>m. Inr (h\<lparr>hd_mutex := m\<rparr>))"

definition hal_mutex_give :: "hal \<Rightarrow> hal" where
  "hal_mutex_give h = h\<lparr>hd_mutex := rtapi_mutex_give (hd_mutex h)\<rparr>"

lemma hal_mutex_get_free [simp]:
  "\<not> locked (hd_mutex h) \<Longrightarrow> hal_mutex_get h = Inr (h\<lparr>hd_mutex := set_lock (hd_mutex h)\<rparr>)"
  by (simp add: hal_mutex_get_def rtapi_mutex_get_free)

lemma hal_mutex_get_held [simp]: "locked (hd_mutex h) \<Longrightarrow> hal_mutex_get h = Inl Hang"
  by (simp add: hal_mutex_get_def rtapi_mutex_get_held)

section \<open>The allocator\<close>

text \<open>Rounding up and down to a power of two: \<open>(x + (a - 1)) & ~(a - 1)\<close> and \<open>x & ~(a - 1)\<close>.\<close>

definition align_up :: "int \<Rightarrow> int \<Rightarrow> int" where
  "align_up a x = (x + (a - 1)) AND NOT (a - 1)"

definition align_dn :: "int \<Rightarrow> int \<Rightarrow> int" where
  "align_dn a x = x AND NOT (a - 1)"

text \<open>
  Blocks from the bottom of the free area. The result is the offset of the block, or
  \<open>None\<close> for a null pointer. \<open>shmem_bot\<close> and \<open>shmem_avail\<close> are \<open>int\<close>s, the computation
  is in \<open>long\<close>s.
\<close>

definition shmalloc_up :: "int \<Rightarrow> hal \<Rightarrow> off option \<times> hal" where
  "shmalloc_up sz h =
     (let tmp_bot = shmem_bot h;
          tmp_bot = (if sz \<ge> 16 then align_up 16 tmp_bot
                     else if sz \<ge> 8 then align_up 8 tmp_bot
                     else if sz \<ge> 4 then align_up 4 tmp_bot
                     else if sz = 2 then align_up 2 tmp_bot
                     else tmp_bot)
      in if shmem_top h - tmp_bot < sz then (None, h)
         else let bot = to_s32 (tmp_bot + sz)
              in (Some tmp_bot, h\<lparr>shmem_bot := bot, shmem_avail := to_s32 (shmem_top h - bot)\<rparr>))"

text \<open>Blocks from the top, for the HAL's own structs.\<close>

definition shmalloc_dn :: "int \<Rightarrow> hal \<Rightarrow> off option \<times> hal" where
  "shmalloc_dn sz h =
     (let tmp_top = shmem_top h - sz;
          tmp_top = (if sz \<ge> 16 then align_dn 16 tmp_top
                     else if sz \<ge> 8 then align_dn 8 tmp_top
                     else if sz \<ge> 4 then align_dn 4 tmp_top
                     else if sz = 2 then align_dn 2 tmp_top
                     else tmp_top)
      in if tmp_top < shmem_bot h then (None, h)
         else (Some tmp_top, h\<lparr>shmem_top := to_s32 tmp_top, shmem_avail := to_s32 (to_s32 tmp_top - shmem_bot h)\<rparr>))"

definition hal_malloc :: "int \<Rightarrow> hal \<Rightarrow> (off option \<times> hal) res" where
  "hal_malloc sz h =
     (case hal_data h of
        SP_null \<Rightarrow> Inr (None, h)
      | SP_stale \<Rightarrow> Inl UB
      | SP_mapped \<Rightarrow>
          bnd (hal_mutex_get h) (\<lambda>h1.
            case shmalloc_up sz h1 of (r, h2) \<Rightarrow> Inr (r, hal_mutex_give h2)))"

end
