(* ===== verification/Hal_Frames.thy ===== *)
theory Hal_Frames
  imports Hal_Data
begin

text \<open>
  What the updates of one struct leave alone: for each struct type, the other heaps and fields of
  the state, the other structs of the same type, and the fields that the update does not name.
\<close>

lemma upd_comp_sel [simp]:
  "hd_mutex (upd_comp p f h) = hd_mutex h"
  "shmem_avail (upd_comp p f h) = shmem_avail h"
  "pending_constructor (upd_comp p f h) = pending_constructor h"
  "constructor_prefix (upd_comp p f h) = constructor_prefix h"
  "shmem_bot (upd_comp p f h) = shmem_bot h"
  "shmem_top (upd_comp p f h) = shmem_top h"
  "comp_list_ptr (upd_comp p f h) = comp_list_ptr h"
  "pin_list_ptr (upd_comp p f h) = pin_list_ptr h"
  "param_list_ptr (upd_comp p f h) = param_list_ptr h"
  "funct_list_ptr (upd_comp p f h) = funct_list_ptr h"
  "thread_list_ptr (upd_comp p f h) = thread_list_ptr h"
  "base_period (upd_comp p f h) = base_period h"
  "threads_running (upd_comp p f h) = threads_running h"
  "oldname_free_ptr (upd_comp p f h) = oldname_free_ptr h"
  "comp_free_ptr (upd_comp p f h) = comp_free_ptr h"
  "pin_free_ptr (upd_comp p f h) = pin_free_ptr h"
  "param_free_ptr (upd_comp p f h) = param_free_ptr h"
  "funct_free_ptr (upd_comp p f h) = funct_free_ptr h"
  "thread_free_ptr (upd_comp p f h) = thread_free_ptr h"
  "exact_base_period (upd_comp p f h) = exact_base_period h"
  "hd_lock (upd_comp p f h) = hd_lock h"
  "hd_state (upd_comp p f h) = hd_state h"
  "init_pid (upd_comp p f h) = init_pid h"
  "hd_error_code (upd_comp p f h) = hd_error_code h"
  "pins (upd_comp p f h) = pins h"
  "params (upd_comp p f h) = params h"
  "functs (upd_comp p f h) = functs h"
  "threads (upd_comp p f h) = threads h"
  "entries (upd_comp p f h) = entries h"
  "oldnames (upd_comp p f h) = oldnames h"
  "links (upd_comp p f h) = links h"
  "ucells (upd_comp p f h) = ucells h"
  "hal_data (upd_comp p f h) = hal_data h"
  "ref_cnt (upd_comp p f h) = ref_cnt h"
  "lib_module_id (upd_comp p f h) = lib_module_id h"
  "lib_mem_id (upd_comp p f h) = lib_mem_id h"
  by (simp_all add: upd_comp_def)

lemma upd_comp_heap: "comps (upd_comp p f h) = (comps h)(p := f (comps h p))"
  by (simp add: upd_comp_def)

lemma upd_comp_at [simp]:
  "comps (upd_comp p f h) p = f (comps h p)"
  "q \<noteq> p \<Longrightarrow> comps (upd_comp p f h) q = comps h q"
  by (simp_all add: upd_comp_def)

lemma upd_comp_field [simp]:
  "(\<And>c. c_next (f c) = c_next c) \<Longrightarrow> c_next (comps (upd_comp p f h) q) = c_next (comps h q)"
  "(\<And>c. c_comp_id (f c) = c_comp_id c) \<Longrightarrow> c_comp_id (comps (upd_comp p f h) q) = c_comp_id (comps h q)"
  "(\<And>c. c_mem_id (f c) = c_mem_id c) \<Longrightarrow> c_mem_id (comps (upd_comp p f h) q) = c_mem_id (comps h q)"
  "(\<And>c. c_type (f c) = c_type c) \<Longrightarrow> c_type (comps (upd_comp p f h) q) = c_type (comps h q)"
  "(\<And>c. c_ready (f c) = c_ready c) \<Longrightarrow> c_ready (comps (upd_comp p f h) q) = c_ready (comps h q)"
  "(\<And>c. c_pid (f c) = c_pid c) \<Longrightarrow> c_pid (comps (upd_comp p f h) q) = c_pid (comps h q)"
  "(\<And>c. c_shmem_base (f c) = c_shmem_base c) \<Longrightarrow> c_shmem_base (comps (upd_comp p f h) q) = c_shmem_base (comps h q)"
  "(\<And>c. c_name (f c) = c_name c) \<Longrightarrow> c_name (comps (upd_comp p f h) q) = c_name (comps h q)"
  "(\<And>c. c_make (f c) = c_make c) \<Longrightarrow> c_make (comps (upd_comp p f h) q) = c_make (comps h q)"
  "(\<And>c. c_insmod_args (f c) = c_insmod_args c) \<Longrightarrow> c_insmod_args (comps (upd_comp p f h) q) = c_insmod_args (comps h q)"
  by (simp_all add: upd_comp_def)

lemma upd_pin_sel [simp]:
  "hd_mutex (upd_pin p f h) = hd_mutex h"
  "shmem_avail (upd_pin p f h) = shmem_avail h"
  "pending_constructor (upd_pin p f h) = pending_constructor h"
  "constructor_prefix (upd_pin p f h) = constructor_prefix h"
  "shmem_bot (upd_pin p f h) = shmem_bot h"
  "shmem_top (upd_pin p f h) = shmem_top h"
  "comp_list_ptr (upd_pin p f h) = comp_list_ptr h"
  "pin_list_ptr (upd_pin p f h) = pin_list_ptr h"
  "param_list_ptr (upd_pin p f h) = param_list_ptr h"
  "funct_list_ptr (upd_pin p f h) = funct_list_ptr h"
  "thread_list_ptr (upd_pin p f h) = thread_list_ptr h"
  "base_period (upd_pin p f h) = base_period h"
  "threads_running (upd_pin p f h) = threads_running h"
  "oldname_free_ptr (upd_pin p f h) = oldname_free_ptr h"
  "comp_free_ptr (upd_pin p f h) = comp_free_ptr h"
  "pin_free_ptr (upd_pin p f h) = pin_free_ptr h"
  "param_free_ptr (upd_pin p f h) = param_free_ptr h"
  "funct_free_ptr (upd_pin p f h) = funct_free_ptr h"
  "thread_free_ptr (upd_pin p f h) = thread_free_ptr h"
  "exact_base_period (upd_pin p f h) = exact_base_period h"
  "hd_lock (upd_pin p f h) = hd_lock h"
  "hd_state (upd_pin p f h) = hd_state h"
  "init_pid (upd_pin p f h) = init_pid h"
  "hd_error_code (upd_pin p f h) = hd_error_code h"
  "comps (upd_pin p f h) = comps h"
  "params (upd_pin p f h) = params h"
  "functs (upd_pin p f h) = functs h"
  "threads (upd_pin p f h) = threads h"
  "entries (upd_pin p f h) = entries h"
  "oldnames (upd_pin p f h) = oldnames h"
  "links (upd_pin p f h) = links h"
  "ucells (upd_pin p f h) = ucells h"
  "hal_data (upd_pin p f h) = hal_data h"
  "ref_cnt (upd_pin p f h) = ref_cnt h"
  "lib_module_id (upd_pin p f h) = lib_module_id h"
  "lib_mem_id (upd_pin p f h) = lib_mem_id h"
  by (simp_all add: upd_pin_def)

lemma upd_pin_heap: "pins (upd_pin p f h) = (pins h)(p := f (pins h p))"
  by (simp add: upd_pin_def)

lemma upd_pin_at [simp]:
  "pins (upd_pin p f h) p = f (pins h p)"
  "q \<noteq> p \<Longrightarrow> pins (upd_pin p f h) q = pins h q"
  by (simp_all add: upd_pin_def)

lemma upd_pin_field [simp]:
  "(\<And>c. p_next (f c) = p_next c) \<Longrightarrow> p_next (pins (upd_pin p f h) q) = p_next (pins h q)"
  "(\<And>c. p_data_ptr_addr (f c) = p_data_ptr_addr c) \<Longrightarrow> p_data_ptr_addr (pins (upd_pin p f h) q) = p_data_ptr_addr (pins h q)"
  "(\<And>c. p_owner (f c) = p_owner c) \<Longrightarrow> p_owner (pins (upd_pin p f h) q) = p_owner (pins h q)"
  "(\<And>c. p_signal (f c) = p_signal c) \<Longrightarrow> p_signal (pins (upd_pin p f h) q) = p_signal (pins h q)"
  "(\<And>c. p_dummysig (f c) = p_dummysig c) \<Longrightarrow> p_dummysig (pins (upd_pin p f h) q) = p_dummysig (pins h q)"
  "(\<And>c. p_oldname (f c) = p_oldname c) \<Longrightarrow> p_oldname (pins (upd_pin p f h) q) = p_oldname (pins h q)"
  "(\<And>c. p_type (f c) = p_type c) \<Longrightarrow> p_type (pins (upd_pin p f h) q) = p_type (pins h q)"
  "(\<And>c. p_name (f c) = p_name c) \<Longrightarrow> p_name (pins (upd_pin p f h) q) = p_name (pins h q)"
  by (simp_all add: upd_pin_def)

lemma upd_param_sel [simp]:
  "hd_mutex (upd_param p f h) = hd_mutex h"
  "shmem_avail (upd_param p f h) = shmem_avail h"
  "pending_constructor (upd_param p f h) = pending_constructor h"
  "constructor_prefix (upd_param p f h) = constructor_prefix h"
  "shmem_bot (upd_param p f h) = shmem_bot h"
  "shmem_top (upd_param p f h) = shmem_top h"
  "comp_list_ptr (upd_param p f h) = comp_list_ptr h"
  "pin_list_ptr (upd_param p f h) = pin_list_ptr h"
  "param_list_ptr (upd_param p f h) = param_list_ptr h"
  "funct_list_ptr (upd_param p f h) = funct_list_ptr h"
  "thread_list_ptr (upd_param p f h) = thread_list_ptr h"
  "base_period (upd_param p f h) = base_period h"
  "threads_running (upd_param p f h) = threads_running h"
  "oldname_free_ptr (upd_param p f h) = oldname_free_ptr h"
  "comp_free_ptr (upd_param p f h) = comp_free_ptr h"
  "pin_free_ptr (upd_param p f h) = pin_free_ptr h"
  "param_free_ptr (upd_param p f h) = param_free_ptr h"
  "funct_free_ptr (upd_param p f h) = funct_free_ptr h"
  "thread_free_ptr (upd_param p f h) = thread_free_ptr h"
  "exact_base_period (upd_param p f h) = exact_base_period h"
  "hd_lock (upd_param p f h) = hd_lock h"
  "hd_state (upd_param p f h) = hd_state h"
  "init_pid (upd_param p f h) = init_pid h"
  "hd_error_code (upd_param p f h) = hd_error_code h"
  "comps (upd_param p f h) = comps h"
  "pins (upd_param p f h) = pins h"
  "functs (upd_param p f h) = functs h"
  "threads (upd_param p f h) = threads h"
  "entries (upd_param p f h) = entries h"
  "oldnames (upd_param p f h) = oldnames h"
  "links (upd_param p f h) = links h"
  "ucells (upd_param p f h) = ucells h"
  "hal_data (upd_param p f h) = hal_data h"
  "ref_cnt (upd_param p f h) = ref_cnt h"
  "lib_module_id (upd_param p f h) = lib_module_id h"
  "lib_mem_id (upd_param p f h) = lib_mem_id h"
  by (simp_all add: upd_param_def)

lemma upd_param_heap: "params (upd_param p f h) = (params h)(p := f (params h p))"
  by (simp add: upd_param_def)

lemma upd_param_at [simp]:
  "params (upd_param p f h) p = f (params h p)"
  "q \<noteq> p \<Longrightarrow> params (upd_param p f h) q = params h q"
  by (simp_all add: upd_param_def)

lemma upd_param_field [simp]:
  "(\<And>c. pm_next (f c) = pm_next c) \<Longrightarrow> pm_next (params (upd_param p f h) q) = pm_next (params h q)"
  "(\<And>c. pm_data_ptr (f c) = pm_data_ptr c) \<Longrightarrow> pm_data_ptr (params (upd_param p f h) q) = pm_data_ptr (params h q)"
  "(\<And>c. pm_owner (f c) = pm_owner c) \<Longrightarrow> pm_owner (params (upd_param p f h) q) = pm_owner (params h q)"
  "(\<And>c. pm_oldname (f c) = pm_oldname c) \<Longrightarrow> pm_oldname (params (upd_param p f h) q) = pm_oldname (params h q)"
  "(\<And>c. pm_type (f c) = pm_type c) \<Longrightarrow> pm_type (params (upd_param p f h) q) = pm_type (params h q)"
  "(\<And>c. pm_dir (f c) = pm_dir c) \<Longrightarrow> pm_dir (params (upd_param p f h) q) = pm_dir (params h q)"
  "(\<And>c. pm_name (f c) = pm_name c) \<Longrightarrow> pm_name (params (upd_param p f h) q) = pm_name (params h q)"
  by (simp_all add: upd_param_def)

lemma upd_funct_sel [simp]:
  "hd_mutex (upd_funct p f h) = hd_mutex h"
  "shmem_avail (upd_funct p f h) = shmem_avail h"
  "pending_constructor (upd_funct p f h) = pending_constructor h"
  "constructor_prefix (upd_funct p f h) = constructor_prefix h"
  "shmem_bot (upd_funct p f h) = shmem_bot h"
  "shmem_top (upd_funct p f h) = shmem_top h"
  "comp_list_ptr (upd_funct p f h) = comp_list_ptr h"
  "pin_list_ptr (upd_funct p f h) = pin_list_ptr h"
  "param_list_ptr (upd_funct p f h) = param_list_ptr h"
  "funct_list_ptr (upd_funct p f h) = funct_list_ptr h"
  "thread_list_ptr (upd_funct p f h) = thread_list_ptr h"
  "base_period (upd_funct p f h) = base_period h"
  "threads_running (upd_funct p f h) = threads_running h"
  "oldname_free_ptr (upd_funct p f h) = oldname_free_ptr h"
  "comp_free_ptr (upd_funct p f h) = comp_free_ptr h"
  "pin_free_ptr (upd_funct p f h) = pin_free_ptr h"
  "param_free_ptr (upd_funct p f h) = param_free_ptr h"
  "funct_free_ptr (upd_funct p f h) = funct_free_ptr h"
  "thread_free_ptr (upd_funct p f h) = thread_free_ptr h"
  "exact_base_period (upd_funct p f h) = exact_base_period h"
  "hd_lock (upd_funct p f h) = hd_lock h"
  "hd_state (upd_funct p f h) = hd_state h"
  "init_pid (upd_funct p f h) = init_pid h"
  "hd_error_code (upd_funct p f h) = hd_error_code h"
  "comps (upd_funct p f h) = comps h"
  "pins (upd_funct p f h) = pins h"
  "params (upd_funct p f h) = params h"
  "threads (upd_funct p f h) = threads h"
  "entries (upd_funct p f h) = entries h"
  "oldnames (upd_funct p f h) = oldnames h"
  "links (upd_funct p f h) = links h"
  "ucells (upd_funct p f h) = ucells h"
  "hal_data (upd_funct p f h) = hal_data h"
  "ref_cnt (upd_funct p f h) = ref_cnt h"
  "lib_module_id (upd_funct p f h) = lib_module_id h"
  "lib_mem_id (upd_funct p f h) = lib_mem_id h"
  by (simp_all add: upd_funct_def)

lemma upd_funct_heap: "functs (upd_funct p f h) = (functs h)(p := f (functs h p))"
  by (simp add: upd_funct_def)

lemma upd_funct_at [simp]:
  "functs (upd_funct p f h) p = f (functs h p)"
  "q \<noteq> p \<Longrightarrow> functs (upd_funct p f h) q = functs h q"
  by (simp_all add: upd_funct_def)

lemma upd_funct_field [simp]:
  "(\<And>c. f_next (f c) = f_next c) \<Longrightarrow> f_next (functs (upd_funct p f h) q) = f_next (functs h q)"
  "(\<And>c. f_uses_fp (f c) = f_uses_fp c) \<Longrightarrow> f_uses_fp (functs (upd_funct p f h) q) = f_uses_fp (functs h q)"
  "(\<And>c. f_owner (f c) = f_owner c) \<Longrightarrow> f_owner (functs (upd_funct p f h) q) = f_owner (functs h q)"
  "(\<And>c. f_reentrant (f c) = f_reentrant c) \<Longrightarrow> f_reentrant (functs (upd_funct p f h) q) = f_reentrant (functs h q)"
  "(\<And>c. f_users (f c) = f_users c) \<Longrightarrow> f_users (functs (upd_funct p f h) q) = f_users (functs h q)"
  "(\<And>c. f_arg (f c) = f_arg c) \<Longrightarrow> f_arg (functs (upd_funct p f h) q) = f_arg (functs h q)"
  "(\<And>c. f_funct (f c) = f_funct c) \<Longrightarrow> f_funct (functs (upd_funct p f h) q) = f_funct (functs h q)"
  "(\<And>c. f_runtime (f c) = f_runtime c) \<Longrightarrow> f_runtime (functs (upd_funct p f h) q) = f_runtime (functs h q)"
  "(\<And>c. f_maxtime (f c) = f_maxtime c) \<Longrightarrow> f_maxtime (functs (upd_funct p f h) q) = f_maxtime (functs h q)"
  "(\<And>c. f_maxtime_increased (f c) = f_maxtime_increased c) \<Longrightarrow> f_maxtime_increased (functs (upd_funct p f h) q) = f_maxtime_increased (functs h q)"
  "(\<And>c. f_name (f c) = f_name c) \<Longrightarrow> f_name (functs (upd_funct p f h) q) = f_name (functs h q)"
  by (simp_all add: upd_funct_def)

lemma upd_thread_sel [simp]:
  "hd_mutex (upd_thread p f h) = hd_mutex h"
  "shmem_avail (upd_thread p f h) = shmem_avail h"
  "pending_constructor (upd_thread p f h) = pending_constructor h"
  "constructor_prefix (upd_thread p f h) = constructor_prefix h"
  "shmem_bot (upd_thread p f h) = shmem_bot h"
  "shmem_top (upd_thread p f h) = shmem_top h"
  "comp_list_ptr (upd_thread p f h) = comp_list_ptr h"
  "pin_list_ptr (upd_thread p f h) = pin_list_ptr h"
  "param_list_ptr (upd_thread p f h) = param_list_ptr h"
  "funct_list_ptr (upd_thread p f h) = funct_list_ptr h"
  "thread_list_ptr (upd_thread p f h) = thread_list_ptr h"
  "base_period (upd_thread p f h) = base_period h"
  "threads_running (upd_thread p f h) = threads_running h"
  "oldname_free_ptr (upd_thread p f h) = oldname_free_ptr h"
  "comp_free_ptr (upd_thread p f h) = comp_free_ptr h"
  "pin_free_ptr (upd_thread p f h) = pin_free_ptr h"
  "param_free_ptr (upd_thread p f h) = param_free_ptr h"
  "funct_free_ptr (upd_thread p f h) = funct_free_ptr h"
  "thread_free_ptr (upd_thread p f h) = thread_free_ptr h"
  "exact_base_period (upd_thread p f h) = exact_base_period h"
  "hd_lock (upd_thread p f h) = hd_lock h"
  "hd_state (upd_thread p f h) = hd_state h"
  "init_pid (upd_thread p f h) = init_pid h"
  "hd_error_code (upd_thread p f h) = hd_error_code h"
  "comps (upd_thread p f h) = comps h"
  "pins (upd_thread p f h) = pins h"
  "params (upd_thread p f h) = params h"
  "functs (upd_thread p f h) = functs h"
  "entries (upd_thread p f h) = entries h"
  "oldnames (upd_thread p f h) = oldnames h"
  "links (upd_thread p f h) = links h"
  "ucells (upd_thread p f h) = ucells h"
  "hal_data (upd_thread p f h) = hal_data h"
  "ref_cnt (upd_thread p f h) = ref_cnt h"
  "lib_module_id (upd_thread p f h) = lib_module_id h"
  "lib_mem_id (upd_thread p f h) = lib_mem_id h"
  by (simp_all add: upd_thread_def)

lemma upd_thread_heap: "threads (upd_thread p f h) = (threads h)(p := f (threads h p))"
  by (simp add: upd_thread_def)

lemma upd_thread_at [simp]:
  "threads (upd_thread p f h) p = f (threads h p)"
  "q \<noteq> p \<Longrightarrow> threads (upd_thread p f h) q = threads h q"
  by (simp_all add: upd_thread_def)

lemma upd_thread_field [simp]:
  "(\<And>c. t_next (f c) = t_next c) \<Longrightarrow> t_next (threads (upd_thread p f h) q) = t_next (threads h q)"
  "(\<And>c. t_uses_fp (f c) = t_uses_fp c) \<Longrightarrow> t_uses_fp (threads (upd_thread p f h) q) = t_uses_fp (threads h q)"
  "(\<And>c. t_period (f c) = t_period c) \<Longrightarrow> t_period (threads (upd_thread p f h) q) = t_period (threads h q)"
  "(\<And>c. t_priority (f c) = t_priority c) \<Longrightarrow> t_priority (threads (upd_thread p f h) q) = t_priority (threads h q)"
  "(\<And>c. t_task_id (f c) = t_task_id c) \<Longrightarrow> t_task_id (threads (upd_thread p f h) q) = t_task_id (threads h q)"
  "(\<And>c. t_runtime (f c) = t_runtime c) \<Longrightarrow> t_runtime (threads (upd_thread p f h) q) = t_runtime (threads h q)"
  "(\<And>c. t_maxtime (f c) = t_maxtime c) \<Longrightarrow> t_maxtime (threads (upd_thread p f h) q) = t_maxtime (threads h q)"
  "(\<And>c. t_name (f c) = t_name c) \<Longrightarrow> t_name (threads (upd_thread p f h) q) = t_name (threads h q)"
  "(\<And>c. t_comp_id (f c) = t_comp_id c) \<Longrightarrow> t_comp_id (threads (upd_thread p f h) q) = t_comp_id (threads h q)"
  by (simp_all add: upd_thread_def)

lemma upd_entry_sel [simp]:
  "hd_mutex (upd_entry p f h) = hd_mutex h"
  "shmem_avail (upd_entry p f h) = shmem_avail h"
  "pending_constructor (upd_entry p f h) = pending_constructor h"
  "constructor_prefix (upd_entry p f h) = constructor_prefix h"
  "shmem_bot (upd_entry p f h) = shmem_bot h"
  "shmem_top (upd_entry p f h) = shmem_top h"
  "comp_list_ptr (upd_entry p f h) = comp_list_ptr h"
  "pin_list_ptr (upd_entry p f h) = pin_list_ptr h"
  "param_list_ptr (upd_entry p f h) = param_list_ptr h"
  "funct_list_ptr (upd_entry p f h) = funct_list_ptr h"
  "thread_list_ptr (upd_entry p f h) = thread_list_ptr h"
  "base_period (upd_entry p f h) = base_period h"
  "threads_running (upd_entry p f h) = threads_running h"
  "oldname_free_ptr (upd_entry p f h) = oldname_free_ptr h"
  "comp_free_ptr (upd_entry p f h) = comp_free_ptr h"
  "pin_free_ptr (upd_entry p f h) = pin_free_ptr h"
  "param_free_ptr (upd_entry p f h) = param_free_ptr h"
  "funct_free_ptr (upd_entry p f h) = funct_free_ptr h"
  "thread_free_ptr (upd_entry p f h) = thread_free_ptr h"
  "exact_base_period (upd_entry p f h) = exact_base_period h"
  "hd_lock (upd_entry p f h) = hd_lock h"
  "hd_state (upd_entry p f h) = hd_state h"
  "init_pid (upd_entry p f h) = init_pid h"
  "hd_error_code (upd_entry p f h) = hd_error_code h"
  "comps (upd_entry p f h) = comps h"
  "pins (upd_entry p f h) = pins h"
  "params (upd_entry p f h) = params h"
  "functs (upd_entry p f h) = functs h"
  "threads (upd_entry p f h) = threads h"
  "oldnames (upd_entry p f h) = oldnames h"
  "links (upd_entry p f h) = links h"
  "ucells (upd_entry p f h) = ucells h"
  "hal_data (upd_entry p f h) = hal_data h"
  "ref_cnt (upd_entry p f h) = ref_cnt h"
  "lib_module_id (upd_entry p f h) = lib_module_id h"
  "lib_mem_id (upd_entry p f h) = lib_mem_id h"
  by (simp_all add: upd_entry_def)

lemma upd_entry_heap: "entries (upd_entry p f h) = (entries h)(p := f (entries h p))"
  by (simp add: upd_entry_def)

lemma upd_entry_at [simp]:
  "entries (upd_entry p f h) p = f (entries h p)"
  "q \<noteq> p \<Longrightarrow> entries (upd_entry p f h) q = entries h q"
  by (simp_all add: upd_entry_def)

lemma upd_entry_field [simp]:
  "(\<And>c. e_arg (f c) = e_arg c) \<Longrightarrow> e_arg (entries (upd_entry p f h) q) = e_arg (entries h q)"
  "(\<And>c. e_funct (f c) = e_funct c) \<Longrightarrow> e_funct (entries (upd_entry p f h) q) = e_funct (entries h q)"
  "(\<And>c. e_funct_ptr (f c) = e_funct_ptr c) \<Longrightarrow> e_funct_ptr (entries (upd_entry p f h) q) = e_funct_ptr (entries h q)"
  by (simp_all add: upd_entry_def)

lemma upd_oldname_sel [simp]:
  "hd_mutex (upd_oldname p f h) = hd_mutex h"
  "shmem_avail (upd_oldname p f h) = shmem_avail h"
  "pending_constructor (upd_oldname p f h) = pending_constructor h"
  "constructor_prefix (upd_oldname p f h) = constructor_prefix h"
  "shmem_bot (upd_oldname p f h) = shmem_bot h"
  "shmem_top (upd_oldname p f h) = shmem_top h"
  "comp_list_ptr (upd_oldname p f h) = comp_list_ptr h"
  "pin_list_ptr (upd_oldname p f h) = pin_list_ptr h"
  "param_list_ptr (upd_oldname p f h) = param_list_ptr h"
  "funct_list_ptr (upd_oldname p f h) = funct_list_ptr h"
  "thread_list_ptr (upd_oldname p f h) = thread_list_ptr h"
  "base_period (upd_oldname p f h) = base_period h"
  "threads_running (upd_oldname p f h) = threads_running h"
  "oldname_free_ptr (upd_oldname p f h) = oldname_free_ptr h"
  "comp_free_ptr (upd_oldname p f h) = comp_free_ptr h"
  "pin_free_ptr (upd_oldname p f h) = pin_free_ptr h"
  "param_free_ptr (upd_oldname p f h) = param_free_ptr h"
  "funct_free_ptr (upd_oldname p f h) = funct_free_ptr h"
  "thread_free_ptr (upd_oldname p f h) = thread_free_ptr h"
  "exact_base_period (upd_oldname p f h) = exact_base_period h"
  "hd_lock (upd_oldname p f h) = hd_lock h"
  "hd_state (upd_oldname p f h) = hd_state h"
  "init_pid (upd_oldname p f h) = init_pid h"
  "hd_error_code (upd_oldname p f h) = hd_error_code h"
  "comps (upd_oldname p f h) = comps h"
  "pins (upd_oldname p f h) = pins h"
  "params (upd_oldname p f h) = params h"
  "functs (upd_oldname p f h) = functs h"
  "threads (upd_oldname p f h) = threads h"
  "entries (upd_oldname p f h) = entries h"
  "links (upd_oldname p f h) = links h"
  "ucells (upd_oldname p f h) = ucells h"
  "hal_data (upd_oldname p f h) = hal_data h"
  "ref_cnt (upd_oldname p f h) = ref_cnt h"
  "lib_module_id (upd_oldname p f h) = lib_module_id h"
  "lib_mem_id (upd_oldname p f h) = lib_mem_id h"
  by (simp_all add: upd_oldname_def)

lemma upd_oldname_heap: "oldnames (upd_oldname p f h) = (oldnames h)(p := f (oldnames h p))"
  by (simp add: upd_oldname_def)

lemma upd_oldname_at [simp]:
  "oldnames (upd_oldname p f h) p = f (oldnames h p)"
  "q \<noteq> p \<Longrightarrow> oldnames (upd_oldname p f h) q = oldnames h q"
  by (simp_all add: upd_oldname_def)

lemma upd_oldname_field [simp]:
  "(\<And>c. o_next (f c) = o_next c) \<Longrightarrow> o_next (oldnames (upd_oldname p f h) q) = o_next (oldnames h q)"
  "(\<And>c. o_name (f c) = o_name c) \<Longrightarrow> o_name (oldnames (upd_oldname p f h) q) = o_name (oldnames h q)"
  by (simp_all add: upd_oldname_def)


end
