(* ===== verification/Shmalloc.thy ===== *)
theory Shmalloc
  imports Hal_Data
begin

text \<open>
  The allocator of the HAL's segment: what one call returns, and that the blocks of any sequence of
  calls are aligned, inside the segment and disjoint. \<open>carver\<close> is the interface of an allocator
  that cuts blocks off the two ends of a free area; the HAL's two routines provide it.
\<close>

section \<open>Rounding\<close>

lemma align_dn_pow: "align_dn (2 ^ n) x = 2 ^ n * (x div 2 ^ n)"
proof -
  have "x AND NOT (2 ^ n - 1) = push_bit n (drop_bit n x)"
    by (rule bit_eqI) (auto simp: bit_and_iff bit_not_iff bit_push_bit_iff bit_drop_bit_eq
        bit_mask_iff mask_eq_exp_minus_1 [symmetric])
  then show ?thesis by (simp add: align_dn_def push_bit_eq_mult drop_bit_eq_div)
qed

lemma align_up_dn: "align_up a x = align_dn a (x + (a - 1))"
  by (simp add: align_up_def align_dn_def)

lemma align_dn_simps:
  "align_dn 16 x = 16 * (x div 16)" "align_dn 8 x = 8 * (x div 8)"
  "align_dn 4 x = 4 * (x div 4)" "align_dn 2 x = 2 * (x div 2)"
  using align_dn_pow [of 4 x] align_dn_pow [of 3 x] align_dn_pow [of 2 x] align_dn_pow [of 1 x]
  by simp_all

lemma align_up_simps:
  "align_up 16 x = 16 * ((x + 15) div 16)" "align_up 8 x = 8 * ((x + 7) div 8)"
  "align_up 4 x = 4 * ((x + 3) div 4)" "align_up 2 x = 2 * ((x + 1) div 2)"
  by (simp_all add: align_up_dn align_dn_simps)

text \<open>The alignment the comments ask for, as a function of the size.\<close>

definition align_of :: "int \<Rightarrow> int" where
  "align_of sz = (if sz \<ge> 16 then 16 else if sz \<ge> 8 then 8 else if sz \<ge> 4 then 4
                  else if sz = 2 then 2 else 1)"

section \<open>One call\<close>

text \<open>The free area of the segment is \<open>[shmem_bot, shmem_top)\<close>.\<close>

definition area_ok :: "hal \<Rightarrow> bool" where
  "area_ok h \<longleftrightarrow> 0 \<le> shmem_bot h \<and> shmem_bot h \<le> shmem_top h \<and> shmem_top h \<le> HAL_SIZE"

lemma shmalloc_up_Some:
  assumes "area_ok h" "0 \<le> sz" "shmalloc_up sz h = (Some p, h')"
  shows "shmem_bot h \<le> p" "p < shmem_bot h + 16" "p + sz \<le> shmem_top h" "align_of sz dvd p"
    and "h' = h\<lparr>shmem_bot := p + sz, shmem_avail := shmem_top h - (p + sz)\<rparr>"
proof -
  have b: "shmem_bot h \<le> p \<and> p < shmem_bot h + 16 \<and> align_of sz dvd p \<and> p + sz \<le> shmem_top h"
    using assms(2,3)
    by (auto simp: shmalloc_up_def Let_def align_up_simps align_of_def split: if_splits)
  then show "shmem_bot h \<le> p" "p < shmem_bot h + 16" "p + sz \<le> shmem_top h" "align_of sz dvd p" by auto
  from b assms(1,2) have "to_s32 (p + sz) = p + sz" "to_s32 (shmem_top h - (p + sz)) = shmem_top h - (p + sz)"
    by (simp_all add: area_ok_def HAL_SIZE_def)
  with assms(3) show "h' = h\<lparr>shmem_bot := p + sz, shmem_avail := shmem_top h - (p + sz)\<rparr>"
    by (auto simp: shmalloc_up_def Let_def split: if_splits)
qed

lemma shmalloc_dn_Some:
  assumes "area_ok h" "0 \<le> sz" "shmalloc_dn sz h = (Some p, h')"
  shows "shmem_bot h \<le> p" "p + sz \<le> shmem_top h" "align_of sz dvd p"
    and "h' = h\<lparr>shmem_top := p, shmem_avail := p - shmem_bot h\<rparr>"
proof -
  have b: "shmem_bot h \<le> p \<and> align_of sz dvd p \<and> p + sz \<le> shmem_top h"
    using assms(2,3)
    by (auto simp: shmalloc_dn_def Let_def align_dn_simps align_of_def split: if_splits)
  then show "shmem_bot h \<le> p" "p + sz \<le> shmem_top h" "align_of sz dvd p" by auto
  from b assms(1,2) have "to_s32 p = p" "to_s32 (p - shmem_bot h) = p - shmem_bot h"
    by (simp_all add: area_ok_def HAL_SIZE_def)
  with assms(3) show "h' = h\<lparr>shmem_top := p, shmem_avail := p - shmem_bot h\<rparr>"
    by (auto simp: shmalloc_dn_def Let_def split: if_splits)
qed

lemma shmalloc_None:
  "shmalloc_up sz h = (None, h') \<Longrightarrow> h' = h" "shmalloc_dn sz h = (None, h') \<Longrightarrow> h' = h"
  by (auto simp: shmalloc_up_def shmalloc_dn_def Let_def split: if_splits)

lemma area_ok_upd [simp]:
  "area_ok (h\<lparr>shmem_bot := b, shmem_avail := a\<rparr>) \<longleftrightarrow> 0 \<le> b \<and> b \<le> shmem_top h \<and> shmem_top h \<le> HAL_SIZE"
  "area_ok (h\<lparr>shmem_top := t, shmem_avail := a\<rparr>) \<longleftrightarrow> 0 \<le> shmem_bot h \<and> shmem_bot h \<le> t \<and> t \<le> HAL_SIZE"
  by (simp_all add: area_ok_def)

lemma area_ok_cong:
  "shmem_bot h' = shmem_bot h \<Longrightarrow> shmem_top h' = shmem_top h \<Longrightarrow> area_ok h' = area_ok h"
  by (simp add: area_ok_def)

section \<open>The interface of an allocator\<close>

text \<open>
  \<open>carve r s\<close> serves the request \<open>r\<close>: it fails and changes nothing of the free area, or it
  returns a block of the requested size inside the free area and leaves a free area that does not
  meet the block.
\<close>

locale carver =
  fixes ok :: "'s \<Rightarrow> bool" and lo :: "'s \<Rightarrow> int" and hi :: "'s \<Rightarrow> int"
    and len :: "'r \<Rightarrow> int" and carve :: "'r \<Rightarrow> 's \<Rightarrow> off option \<times> 's"
  assumes len_pos: "0 < len r"
    and carve_ok: "ok s \<Longrightarrow> carve r s = (res, t) \<Longrightarrow> ok t \<and> lo s \<le> lo t \<and> hi t \<le> hi s"
    and carve_block: "ok s \<Longrightarrow> carve r s = (Some p, t) \<Longrightarrow>
      lo s \<le> p \<and> p + len r \<le> hi s \<and> (p + len r \<le> lo t \<or> hi t \<le> p)"
begin

fun carve_all :: "'r list \<Rightarrow> 's \<Rightarrow> (int \<times> int) list \<times> 's" where
  "carve_all [] s = ([], s)"
| "carve_all (r # rs) s =
     (case carve r s of (p, t) \<Rightarrow> case carve_all rs t of (bs, u) \<Rightarrow>
        ((case p of None \<Rightarrow> bs | Some q \<Rightarrow> (q, len r) # bs), u))"

lemma carve_all_inside:
  "ok s \<Longrightarrow> carve_all rs s = (bs, u) \<Longrightarrow> (q, n) \<in> set bs \<Longrightarrow> lo s \<le> q \<and> q + n \<le> hi s \<and> 0 < n"
proof (induction rs arbitrary: s bs u)
  case (Cons r rs)
  obtain p t where c: "carve r s = (p, t)" by fastforce
  obtain bs' u' where cs: "carve_all rs t = (bs', u')" by fastforce
  from Cons.prems c cs have bs: "bs = (case p of None \<Rightarrow> bs' | Some q \<Rightarrow> (q, len r) # bs')" by simp
  from carve_ok [OF Cons.prems(1) c] have t: "ok t" "lo s \<le> lo t" "hi t \<le> hi s" by auto
  show ?case
  proof (cases "(q, n) \<in> set bs'")
    case True
    from Cons.IH [OF t(1) cs True] t(2,3) show ?thesis by linarith
  next
    case False
    with Cons.prems(3) bs obtain "p = Some q" "n = len r" by (auto split: option.splits)
    with carve_block [OF Cons.prems(1)] c len_pos [of r] show ?thesis by auto
  qed
qed simp

lemma carve_all_disjoint:
  "ok s \<Longrightarrow> carve_all rs s = (bs, u) \<Longrightarrow> i < j \<Longrightarrow> j < length bs \<Longrightarrow>
   bs ! i = (p, m) \<Longrightarrow> bs ! j = (q, n) \<Longrightarrow> p + m \<le> q \<or> q + n \<le> p"
proof (induction rs arbitrary: s bs u i j)
  case (Cons r rs)
  obtain b t where c: "carve r s = (b, t)" by fastforce
  obtain bs' u' where cs: "carve_all rs t = (bs', u')" by fastforce
  from carve_ok [OF Cons.prems(1) c] have t: "ok t" by auto
  show ?case
  proof (cases b)
    case None
    with Cons.prems c cs have "bs = bs'" by simp
    with Cons.IH [OF t cs] Cons.prems show ?thesis by blast
  next
    case (Some a)
    with Cons.prems c cs have bs: "bs = (a, len r) # bs'" by simp
    show ?thesis
    proof (cases i)
      case 0
      with Cons.prems bs have "p = a" "m = len r" "(q, n) \<in> set bs'"
        by (auto simp: nth_Cons' in_set_conv_nth split: if_splits) (metis Suc_less_eq Suc_pred)
      with carve_all_inside [OF t cs] carve_block [OF Cons.prems(1)] c Some show ?thesis
        by fastforce
    next
      case (Suc i')
      with Cons.prems(3) obtain j' where "j = Suc j'" by (cases j) auto
      with Suc Cons.prems bs Cons.IH [OF t cs, of i' j'] show ?thesis by auto
    qed
  qed
qed simp

end

section \<open>The HAL's allocator provides it\<close>

text \<open>
  A request: \<open>hal_malloc\<close> of a positive size (from the bottom), or a struct (from the top).
  Sizes are given as the predecessor, so that every request is of a positive size.
\<close>

datatype request = Up nat | Dn nat

fun request_size :: "request \<Rightarrow> int" where
  "request_size (Up n) = int n + 1"
| "request_size (Dn n) = int n + 1"

fun serve :: "request \<Rightarrow> hal \<Rightarrow> off option \<times> hal" where
  "serve (Up n) h = shmalloc_up (int n + 1) h"
| "serve (Dn n) h = shmalloc_dn (int n + 1) h"

interpretation shm_alloc: carver area_ok shmem_bot shmem_top request_size serve
proof
  fix r s res t
  show "0 < request_size r" by (cases r) auto
  assume ok: "area_ok s" and c: "serve r s = (res, t)"
  show "area_ok t \<and> shmem_bot s \<le> shmem_bot t \<and> shmem_top t \<le> shmem_top s"
  proof (cases res)
    case None
    with ok c show ?thesis by (cases r) (auto dest: shmalloc_None)
  next
    case (Some p)
    show ?thesis
    proof (cases r)
      case (Up n)
      with c Some have "shmalloc_up (int n + 1) s = (Some p, t)" by simp
      from shmalloc_up_Some [OF ok _ this] ok show ?thesis by (auto simp: area_ok_def)
    next
      case (Dn n)
      with c Some have "shmalloc_dn (int n + 1) s = (Some p, t)" by simp
      from shmalloc_dn_Some [OF ok _ this] ok show ?thesis by (auto simp: area_ok_def)
    qed
  qed
next
  fix r s p t
  assume ok: "area_ok s" and c: "serve r s = (Some p, t)"
  show "shmem_bot s \<le> p \<and> p + request_size r \<le> shmem_top s \<and>
      (p + request_size r \<le> shmem_bot t \<or> shmem_top t \<le> p)"
  proof (cases r)
    case (Up n)
    with c have "shmalloc_up (int n + 1) s = (Some p, t)" by simp
    from shmalloc_up_Some [OF ok _ this] Up show ?thesis by simp
  next
    case (Dn n)
    with c have "shmalloc_dn (int n + 1) s = (Some p, t)" by simp
    from shmalloc_dn_Some [OF ok _ this] Dn show ?thesis by simp
  qed
qed

text \<open>The requests of a list, served one after the other: the blocks handed out, and the end state.\<close>

fun serve_all :: "request list \<Rightarrow> hal \<Rightarrow> (int \<times> int) list \<times> hal" where
  "serve_all [] h = ([], h)"
| "serve_all (r # rs) h =
     (case serve r h of (p, h1) \<Rightarrow> case serve_all rs h1 of (bs, h2) \<Rightarrow>
        ((case p of None \<Rightarrow> bs | Some q \<Rightarrow> (q, request_size r) # bs), h2))"

lemma serve_all_eq: "serve_all rs h = shm_alloc.carve_all rs h"
  by (induction rs arbitrary: h) (auto split: prod.split)


definition area_example :: hal where
  "area_example = zero_hal\<lparr>shmem_bot := 272, shmem_top := HAL_SIZE\<rparr>"




text \<open>
  The size is not checked for its sign. \<open>hal_malloc\<close> of \<open>- n\<close> succeeds and moves
  the bottom of the free area down by \<open>n\<close> bytes, so the next \<open>n\<close> bytes that are handed out
  belong to blocks handed out before.
\<close>

theorem hal_malloc_negative:
  assumes "hal_data h = SP_mapped" "area_ok h" "\<not> locked (hd_mutex h)" "0 < n" "n \<le> shmem_bot h"
  shows "\<exists>h'. hal_malloc (- n) h = Inr (Some (shmem_bot h), h') \<and> shmem_bot h' = shmem_bot h - n \<and>
    shmem_avail h' = shmem_top h - shmem_bot h + n"
proof -
  have "to_s32 (shmem_bot h - n) = shmem_bot h - n"
    "to_s32 (shmem_top h - (shmem_bot h - n)) = shmem_top h - (shmem_bot h - n)"
    using assms(2,4,5) by (auto simp: area_ok_def HAL_SIZE_def)
  with assms show ?thesis
    by (auto simp: hal_malloc_def shmalloc_up_def Let_def area_ok_def hal_mutex_give_def)
qed

theorem hal_malloc_negative_witness:
  "\<exists>h'. hal_malloc (- 100) (area_example\<lparr>hal_data := SP_mapped\<rparr>) = Inr (Some 272, h') \<and> shmem_bot h' = 172"
  using hal_malloc_negative [of "area_example\<lparr>hal_data := SP_mapped\<rparr>" 100]
  by (fastforce simp: area_example_def area_ok_def HAL_SIZE_def zero_hal_def)

end
