(* ===== verification/Sorted_Names.thy ===== *)
theory Sorted_Names
  imports Linked_Lists
begin

text \<open>
  The HAL keeps its pins, parameters and functions in ascending order of their names, in the order
  of \<open>strcmp\<close>. The insertion loop finds a name that is already there, and otherwise the place
  that keeps the list sorted.
\<close>

definition sorted_names :: "(off \<Rightarrow> string) \<Rightarrow> off list \<Rightarrow> bool" where
  "sorted_names nm xs \<longleftrightarrow> sorted_wrt (<) (map nm xs)"

text \<open>The nodes before the place of \<open>n\<close>, and from there on.\<close>

abbreviation names_below :: "(off \<Rightarrow> string) \<Rightarrow> string \<Rightarrow> off list \<Rightarrow> off list" where
  "names_below nm n xs \<equiv> takeWhile (\<lambda>q. nm q < n) xs"

abbreviation names_above :: "(off \<Rightarrow> string) \<Rightarrow> string \<Rightarrow> off list \<Rightarrow> off list" where
  "names_above nm n xs \<equiv> dropWhile (\<lambda>q. nm q < n) xs"

lemma sorted_names_Nil [simp]: "sorted_names nm []"
  by (simp add: sorted_names_def)

lemma sorted_names_cong:
  "(\<And>q. q \<in> set xs \<Longrightarrow> nm q = nm' q) \<Longrightarrow> sorted_names nm xs = sorted_names nm' xs"
  by (simp add: sorted_names_def cong: map_cong)

lemma sorted_names_sub: "sorted_names nm (us @ n # vs) \<Longrightarrow> sorted_names nm (us @ vs)"
  by (simp add: sorted_names_def sorted_wrt_append)

lemma above_ge:
  assumes "sorted_names nm xs" "q \<in> set (names_above nm n xs)"
  shows "n \<le> nm q"
proof -
  from assms(2) obtain a as where a: "names_above nm n xs = a # as" by (cases "names_above nm n xs") auto
  then have na: "n \<le> nm a" using hd_dropWhile [of "\<lambda>q. nm q < n" xs] by force
  have "sorted_names nm (names_below nm n xs @ names_above nm n xs)" using assms(1) by simp
  then have "\<forall>b \<in> set as. nm a < nm b" by (simp add: a sorted_names_def sorted_wrt_append del: takeWhile_dropWhile_id)
  with assms(2) a na show ?thesis by (auto intro: order.trans less_imp_le)
qed

lemma below_lt: "q \<in> set (names_below nm n xs) \<Longrightarrow> nm q < n"
  using set_takeWhileD by fastforce

lemma ins_walk_sorted:
  assumes "chain nx p xs" "sorted_names nm xs"
  shows "ins_walk nx (\<lambda>q. strcmp (nm q) n) At_head p =
     Some (if n \<in> nm ` set xs then None
           else Some (link_of (names_below nm n xs), case names_above nm n xs of [] \<Rightarrow> 0 | q # _ \<Rightarrow> q))"
proof -
  have eq: "(\<lambda>q. strcmp (nm q) n < 0) = (\<lambda>q. nm q < n)" by (simp add: strcmp_neg_iff)
  have "nm ` set xs = nm ` set (names_below nm n xs @ names_above nm n xs)" by simp
  then have "nm ` set xs = nm ` set (names_below nm n xs) \<union> nm ` set (names_above nm n xs)"
    by (simp only: set_append image_Un)
  moreover have "n \<notin> nm ` set (names_below nm n xs)" using below_lt [of _ nm n xs] by force
  ultimately have mem: "n \<in> nm ` set xs \<longleftrightarrow> n \<in> nm ` set (names_above nm n xs)" by blast
  show ?thesis
  proof (cases "names_above nm n xs")
    case Nil
    then have "n \<notin> nm ` set xs" unfolding mem by (simp only: list.set image_empty empty_iff not_False_eq_True)
    moreover from Nil have "names_below nm n xs = xs"
      by (metis append_Nil2 takeWhile_dropWhile_id)
    ultimately show ?thesis
      using Nil ins_walk_chain [OF assms(1), of "\<lambda>q. strcmp (nm q) n" "[]"]
      by (simp add: eq del: dropWhile_eq_Nil_conv takeWhile_eq_all_conv)
  next
    case (Cons a as)
    have "sorted_names nm (names_below nm n xs @ names_above nm n xs)" using assms(2) by simp
    then have "\<forall>b \<in> set as. nm a < nm b"
      by (simp add: Cons sorted_names_def sorted_wrt_append del: takeWhile_dropWhile_id)
    moreover have "n \<le> nm a" using above_ge [OF assms(2), of a n] Cons by simp
    ultimately have "n \<in> nm ` set xs \<longleftrightarrow> nm a = n" unfolding mem Cons by force
    with Cons ins_walk_chain [OF assms(1), of "\<lambda>q. strcmp (nm q) n" "[]"] show ?thesis
      by (simp add: eq)
  qed
qed

lemma sorted_names_insert:
  assumes "sorted_names nm xs" "n \<notin> nm ` set xs" "nm m = n"
  shows "sorted_names nm (names_below nm n xs @ m # names_above nm n xs)"
proof -
  have "sorted_names nm (names_below nm n xs @ names_above nm n xs)" using assms(1) by simp
  moreover have "\<forall>q \<in> set (names_above nm n xs). n < nm q"
    using above_ge [OF assms(1)] assms(2) set_dropWhileD by (fastforce simp: image_iff order.order_iff_strict)
  ultimately show ?thesis using below_lt [of _ nm n xs]
    by (fastforce simp: sorted_names_def sorted_wrt_append assms(3) simp del: takeWhile_dropWhile_id)
qed

lemma names_insert:
  assumes "sorted_names nm xs" "n \<notin> nm ` set xs" "nm m = n"
  shows "map nm (names_below nm n xs @ m # names_above nm n xs) = insort n (map nm xs)"
proof (rule sorted_distinct_set_unique)
  have *: "sorted_names nm (names_below nm n xs @ m # names_above nm n xs)" by (rule sorted_names_insert [OF assms])
  then show "sorted (map nm (names_below nm n xs @ m # names_above nm n xs))"
    "distinct (map nm (names_below nm n xs @ m # names_above nm n xs))"
    unfolding sorted_names_def by (simp_all only: strict_sorted_iff)
  show "sorted (insort n (map nm xs))" "distinct (insort n (map nm xs))"
    using assms(1,2) by (simp_all add: sorted_names_def strict_sorted_iff sorted_insort distinct_insort)
  have "nm ` set xs = nm ` set (names_below nm n xs @ names_above nm n xs)" by simp
  then show "set (map nm (names_below nm n xs @ m # names_above nm n xs)) = set (insort n (map nm xs))"
    by (auto simp: set_insort_key assms(3) image_Un simp del: takeWhile_dropWhile_id)
qed

end
