(* ===== verification/Pools.thy ===== *)
theory Pools
  imports Hal_Frames Shmalloc Sorted_Names
begin

text \<open>
  A pool is how the HAL keeps its structs of one type: a live list and a free list over the same
  \<open>next_ptr\<close> fields. The theory states what the pools of the HAL have in common (taking a struct
  from the free list or the allocator, linking it in, unlinking it, giving it back) once, as the
  locale \<open>pooled\<close>, and interprets it on the pools of components, pins, parameters, functions and
  threads.
\<close>

section \<open>The shape of a pool\<close>

text \<open>
  \<open>xs\<close> are the structs on the live list and \<open>ys\<close> those on the free list: no struct is on both,
  and all of them lie between the top of the free area and the end of the segment.
\<close>

definition pool :: "(off \<Rightarrow> off) \<Rightarrow> off \<Rightarrow> off \<Rightarrow> int \<Rightarrow> int \<Rightarrow> off list \<Rightarrow> off list \<Rightarrow> bool" where
  "pool nx l f lo sz xs ys \<longleftrightarrow>
     chain nx l xs \<and> chain nx f ys \<and> distinct (xs @ ys)
     \<and> (\<forall>p \<in> set (xs @ ys). lo \<le> p \<and> p + sz \<le> HAL_SIZE)"

text \<open>A struct that was taken from the free list, or carved out at an offset of at most \<open>m\<close>.\<close>

definition grown :: "off list \<Rightarrow> off list \<Rightarrow> off \<Rightarrow> int \<Rightarrow> bool" where
  "grown xs ys n m \<longleftrightarrow> set (xs @ n # tl ys) = set (xs @ ys) \<or> set (xs @ n # tl ys) = insert n (set (xs @ ys)) \<and> n \<le> m"

lemma grownI: "(ys = [] \<Longrightarrow> n \<le> m) \<Longrightarrow> (ys \<noteq> [] \<Longrightarrow> n = hd ys) \<Longrightarrow> grown xs ys n m"
  by (cases ys) (auto simp: grown_def)

text \<open>A struct \<open>n\<close> that has been taken from the pool and is on neither list.\<close>

definition spare :: "(off \<Rightarrow> off) \<Rightarrow> off \<Rightarrow> off \<Rightarrow> int \<Rightarrow> int \<Rightarrow> off \<Rightarrow> off list \<Rightarrow> off list \<Rightarrow> bool" where
  "spare nx l f lo sz n xs ys \<longleftrightarrow>
     pool nx l f lo sz xs ys \<and> n \<notin> set (xs @ ys) \<and> n \<noteq> 0 \<and> lo \<le> n \<and> n + sz \<le> HAL_SIZE"

lemma pool_live: "pool nx l f lo sz xs ys \<Longrightarrow> chain nx l xs"
  by (simp add: pool_def)

lemma pool_lower: "pool nx l f lo sz xs ys \<Longrightarrow> lo' \<le> lo \<Longrightarrow> pool nx l f lo' sz xs ys"
  unfolding pool_def by (metis order_trans)

lemma pool_cong:
  "(\<And>p. p \<in> set (xs @ ys) \<Longrightarrow> nx p = nx' p) \<Longrightarrow> pool nx l f lo sz xs ys = pool nx' l f lo sz xs ys"
  unfolding pool_def using chain_cong [of xs nx nx'] chain_cong [of ys nx nx'] by auto

lemma spare_next:
  "spare nx l f lo sz n xs ys \<Longrightarrow> (\<And>p. p \<noteq> n \<Longrightarrow> nx' p = nx p) \<Longrightarrow> spare nx' l f lo sz n xs ys"
  unfolding spare_def by (metis pool_cong)

lemma pool_empty [simp]: "pool nx 0 0 lo sz [] []"
  by (simp add: pool_def)

section \<open>Taking a struct\<close>

text \<open>
  The first half of every \<open>alloc_..._struct\<close>: the head of the free list if there is one,
  otherwise a new block.
\<close>

definition take_struct ::
  "('s \<Rightarrow> off) \<Rightarrow> (off \<Rightarrow> 's \<Rightarrow> 's) \<Rightarrow> ('s \<Rightarrow> off \<Rightarrow> off) \<Rightarrow> (off \<Rightarrow> off \<Rightarrow> 's \<Rightarrow> 's)
   \<Rightarrow> ('s \<Rightarrow> off option \<times> 's) \<Rightarrow> 's \<Rightarrow> off option \<times> 's" where
  "take_struct free_of set_free nx_of set_nx alloc s =
     (if free_of s \<noteq> 0
      then let p = free_of s in (Some p, set_nx p 0 (set_free (nx_of s p) s))
      else alloc s)"

section \<open>The interface\<close>

locale pooled =
  live: linked live_of nx_of set_live set_nx + free: linked free_of nx_of set_free set_nx
  for live_of free_of :: "'s \<Rightarrow> off" and nx_of :: "'s \<Rightarrow> off \<Rightarrow> off"
    and set_live set_free :: "off \<Rightarrow> 's \<Rightarrow> 's" and set_nx :: "off \<Rightarrow> off \<Rightarrow> 's \<Rightarrow> 's" +
  fixes lo_of :: "'s \<Rightarrow> int" and wf :: "'s \<Rightarrow> bool" and alloc :: "'s \<Rightarrow> off option \<times> 's" and sz :: int
  assumes free_set_live: "free_of (set_live v s) = free_of s"
    and live_set_free: "live_of (set_free v s) = live_of s"
    and lo_set_live: "lo_of (set_live v s) = lo_of s"
    and lo_set_free: "lo_of (set_free v s) = lo_of s"
    and lo_set_nx: "lo_of (set_nx p v s) = lo_of s"
    and wf_set_free: "wf (set_free v s) = wf s"
    and wf_set_nx: "wf (set_nx p v s) = wf s"
    and alloc_None: "wf s \<Longrightarrow> alloc s = (None, t) \<Longrightarrow> t = s"
    and alloc_Some: "wf s \<Longrightarrow> alloc s = (Some n, t) \<Longrightarrow>
      wf t \<and> lo_of t = n \<and> 0 < n \<and> n + sz \<le> lo_of s \<and> lo_of s \<le> HAL_SIZE
      \<and> nx_of t = nx_of s \<and> live_of t = live_of s \<and> free_of t = free_of s"
    and sz_pos: "0 < sz"
begin

lemmas frame_simps = live.hd_set_hd live.nx_set_hd live.hd_set_nx live.nx_set_nx free.hd_set_hd
  free.nx_set_hd free.hd_set_nx free.nx_set_nx free_set_live live_set_free lo_set_live lo_set_free
  lo_set_nx wf_set_free wf_set_nx

text \<open>A struct is taken: it is spare, and it was free or is a new block below all others.\<close>

lemma take_Some:
  assumes "wf s" "pool (nx_of s) (live_of s) (free_of s) (lo_of s) sz xs ys"
    and "take_struct free_of set_free nx_of set_nx alloc s = (Some n, t)"
  shows "wf t \<and> lo_of t \<le> lo_of s
    \<and> spare (nx_of t) (live_of t) (free_of t) (lo_of t) sz n xs (tl ys)
    \<and> (if ys = [] then n = lo_of t \<and> n + sz \<le> lo_of s else n = hd ys \<and> lo_of t = lo_of s)"
proof (cases ys)
  case Nil
  with assms have f: "free_of s = 0" by (simp add: pool_def)
  with assms(3) have a: "alloc s = (Some n, t)" by (simp add: take_struct_def)
  from alloc_Some [OF assms(1) a] sz_pos assms(2) Nil show ?thesis
    by (fastforce simp: spare_def pool_def)
next
  case (Cons y ys')
  with assms(2) have f: "free_of s = y" "y \<noteq> 0" "chain (nx_of s) (nx_of s y) ys'" by (auto simp: pool_def)
  with assms(3) have t: "n = y" "t = set_nx y 0 (set_free (nx_of s y) s)"
    by (auto simp: take_struct_def)
  with f assms(1,2) Cons show ?thesis
    by (auto simp: frame_simps spare_def pool_def)
qed

lemma take_None:
  assumes "wf s" "pool (nx_of s) (live_of s) (free_of s) (lo_of s) sz xs ys"
    and "take_struct free_of set_free nx_of set_nx alloc s = (None, t)"
  shows "t = s \<and> ys = []"
  using assms alloc_None by (auto simp: take_struct_def pool_def Let_def split: if_splits)

lemma link_in_pool:
  assumes "spare (nx_of s) (live_of s) (free_of s) (lo_of s) sz n (us @ vs) ys"
    and "nxt = (case vs of [] \<Rightarrow> 0 | v # _ \<Rightarrow> v)"
    and "t = link_in set_live set_nx (link_of us) nxt n s"
  shows "pool (nx_of t) (live_of t) (free_of t) (lo_of t) sz (us @ n # vs) ys"
proof -
  from assms(1) have c: "chain (nx_of s) (live_of s) (us @ vs)" "n \<noteq> 0" "n \<notin> set (us @ vs)"
    by (auto simp: spare_def pool_def)
  from live.link_in_chain [OF c assms(2)] have "chain (nx_of t) (live_of t) (us @ n # vs)"
    by (simp add: assms(3))
  moreover have "us \<noteq> [] \<Longrightarrow> last us \<notin> set ys"
    using assms(1) by (auto simp: spare_def pool_def disjoint_iff)
  then have "chain (nx_of t) (free_of t) ys"
    using assms by (auto simp: spare_def pool_def link_in_def put_link_def link_of_def frame_simps)
  moreover have "lo_of t = lo_of s"
    by (simp add: assms(3) link_in_def put_link_def link_of_def frame_simps)
  ultimately show ?thesis using assms(1) by (auto simp: spare_def pool_def)
qed

lemma free_pool:
  assumes "spare (nx_of s) (live_of s) (free_of s) (lo_of s) sz n xs ys"
    and "t = set_free n (set_nx n (free_of s) s)"
  shows "pool (nx_of t) (live_of t) (free_of t) (lo_of t) sz xs (n # ys)"
  using assms by (auto simp: spare_def pool_def frame_simps)

lemma unlink_pool:
  assumes "pool (nx_of s) (live_of s) (free_of s) (lo_of s) sz (us @ n # vs) ys"
    and "t = put_link set_live set_nx (link_of us) (nx_of s n) s"
  shows "spare (nx_of t) (live_of t) (free_of t) (lo_of t) sz n (us @ vs) ys"
proof -
  from assms(1) have c: "chain (nx_of s) (live_of s) (us @ n # vs)" by (simp add: pool_def)
  from live.unlink_chain [OF c] have "chain (nx_of t) (live_of t) (us @ vs)"
    by (simp add: assms(2))
  moreover have "us \<noteq> [] \<Longrightarrow> last us \<notin> set ys"
    using assms(1) by (auto simp: pool_def disjoint_iff)
  then have "chain (nx_of t) (free_of t) ys"
    using assms by (auto simp: pool_def put_link_def link_of_def frame_simps)
  moreover have "lo_of t = lo_of s"
    by (simp add: assms(2) put_link_def link_of_def frame_simps)
  moreover from c have "n \<noteq> 0" using chain_nz by fastforce
  ultimately show ?thesis using assms(1) by (auto simp: spare_def pool_def)
qed

end

section \<open>Pools whose live list is sorted by name\<close>

locale named_pool = pooled live_of free_of nx_of set_live set_free set_nx lo_of wf alloc sz
  for live_of free_of :: "'s \<Rightarrow> off" and nx_of :: "'s \<Rightarrow> off \<Rightarrow> off"
    and set_live set_free :: "off \<Rightarrow> 's \<Rightarrow> 's" and set_nx :: "off \<Rightarrow> off \<Rightarrow> 's \<Rightarrow> 's"
    and lo_of :: "'s \<Rightarrow> int" and wf :: "'s \<Rightarrow> bool" and alloc :: "'s \<Rightarrow> off option \<times> 's" and sz :: int +
  fixes name_of :: "'s \<Rightarrow> off \<Rightarrow> string"
  assumes name_set_live: "name_of (set_live v s) p = name_of s p"
    and name_set_nx: "name_of (set_nx q v s) p = name_of s p"
begin

lemma name_link_in: "name_of (link_in set_live set_nx prev nxt n s) p = name_of s p"
  by (cases prev) (simp_all add: link_in_def put_link_def name_set_live name_set_nx)

text \<open>The insertion loop, run with a spare struct whose name has been set.\<close>

lemma insert_named:
  assumes sp: "spare (nx_of s) (live_of s) (free_of s) (lo_of s) sz n xs ys"
    and so: "sorted_names (name_of s) xs"
  defines "place \<equiv> ins_walk (nx_of s) (\<lambda>p. strcmp (name_of s p) (name_of s n)) At_head (live_of s)"
  shows "name_of s n \<in> name_of s ` set xs \<Longrightarrow> place = Some None"
    and "name_of s n \<notin> name_of s ` set xs \<Longrightarrow> \<exists>prev nxt us vs. place = Some (Some (prev, nxt)) \<and> xs = us @ vs
      \<and> (let t = link_in set_live set_nx prev nxt n s
          in pool (nx_of t) (live_of t) (free_of t) (lo_of t) sz (us @ n # vs) ys
             \<and> sorted_names (name_of t) (us @ n # vs)
             \<and> map (name_of t) (us @ n # vs) = insort (name_of s n) (map (name_of s) xs))"
proof -
  let ?nm = "name_of s n"
  have ch: "chain (nx_of s) (live_of s) xs" using sp by (simp add: spare_def pool_def)
  note walk = ins_walk_sorted [OF ch so, of ?nm]
  show "place = Some None" if "?nm \<in> name_of s ` set xs"
    using that by (simp only: walk place_def if_True)
  show "\<exists>prev nxt us vs. place = Some (Some (prev, nxt)) \<and> xs = us @ vs
      \<and> (let t = link_in set_live set_nx prev nxt n s
          in pool (nx_of t) (live_of t) (free_of t) (lo_of t) sz (us @ n # vs) ys
             \<and> sorted_names (name_of t) (us @ n # vs)
             \<and> map (name_of t) (us @ n # vs) = insort ?nm (map (name_of s) xs))"
    if new: "?nm \<notin> name_of s ` set xs"
  proof -
    let ?us = "names_below (name_of s) ?nm xs" and ?vs = "names_above (name_of s) ?nm xs"
    let ?nxt = "case ?vs of [] \<Rightarrow> 0 | q # _ \<Rightarrow> q"
    let ?t = "link_in set_live set_nx (link_of ?us) ?nxt n s"
    from sp have "spare (nx_of s) (live_of s) (free_of s) (lo_of s) sz n (?us @ ?vs) ys" by simp
    from link_in_pool [OF this refl refl]
    have "pool (nx_of ?t) (live_of ?t) (free_of ?t) (lo_of ?t) sz (?us @ n # ?vs) ys" .
    moreover have nt: "name_of ?t = name_of s" by (rule ext) (rule name_link_in)
    moreover have "sorted_names (name_of ?t) (?us @ n # ?vs)"
      unfolding nt by (rule sorted_names_insert [OF so new refl])
    moreover have "map (name_of ?t) (?us @ n # ?vs) = insort ?nm (map (name_of s) xs)"
      unfolding nt by (rule names_insert [OF so new refl])
    moreover have "place = Some (Some (link_of ?us, ?nxt))"
      using new by (simp only: walk place_def if_False)
    moreover have "xs = ?us @ ?vs" by simp
    ultimately show ?thesis unfolding Let_def by blast
  qed
qed

end

end
