(* ===== verification/Hal_Structs.thy ===== *)
theory Hal_Structs
  imports Pools
begin

text \<open>
  The structs of the HAL and their pools (\<open>hal/hal_lib.c\<close>): the searches by name and by id,
  the functions that take a struct from its pool and give it back, the list of function entries of a
  thread, and the release of a component with what it owns.
\<close>

section \<open>The lists\<close>

text \<open>Writing \<open>next_ptr\<close> of a struct.\<close>

definition set_c_next :: "off \<Rightarrow> off \<Rightarrow> hal \<Rightarrow> hal" where
  "set_c_next p v = upd_comp p (\<lambda>c. c\<lparr>c_next := v\<rparr>)"

definition set_p_next :: "off \<Rightarrow> off \<Rightarrow> hal \<Rightarrow> hal" where
  "set_p_next p v = upd_pin p (\<lambda>c. c\<lparr>p_next := v\<rparr>)"

definition set_pm_next :: "off \<Rightarrow> off \<Rightarrow> hal \<Rightarrow> hal" where
  "set_pm_next p v = upd_param p (\<lambda>c. c\<lparr>pm_next := v\<rparr>)"

definition set_f_next :: "off \<Rightarrow> off \<Rightarrow> hal \<Rightarrow> hal" where
  "set_f_next p v = upd_funct p (\<lambda>c. c\<lparr>f_next := v\<rparr>)"

definition set_t_next :: "off \<Rightarrow> off \<Rightarrow> hal \<Rightarrow> hal" where
  "set_t_next p v = upd_thread p (\<lambda>c. c\<lparr>t_next := v\<rparr>)"

lemmas set_next_defs = set_c_next_def set_p_next_def set_pm_next_def set_f_next_def set_t_next_def

text \<open>The allocator has been initialised, and \<open>0\<close> is not in its free area.\<close>

definition area_wf :: "hal \<Rightarrow> bool" where
  "area_wf h \<longleftrightarrow> area_ok h \<and> 0 < shmem_bot h"

lemma area_wf_cong:
  "shmem_bot h' = shmem_bot h \<Longrightarrow> shmem_top h' = shmem_top h \<Longrightarrow> area_wf h' = area_wf h"
  by (simp add: area_wf_def area_ok_def)

lemma shmalloc_dn_law:
  assumes "area_wf h" "0 < sz" "shmalloc_dn sz h = (Some n, t)"
  shows "area_wf t \<and> shmem_top t = n \<and> 0 < n \<and> n + sz \<le> shmem_top h \<and> shmem_top h \<le> HAL_SIZE
    \<and> t = h\<lparr>shmem_top := n, shmem_avail := n - shmem_bot h\<rparr>"
proof -
  from assms have a: "area_ok h" "0 \<le> sz" by (auto simp: area_wf_def)
  from shmalloc_dn_Some [OF a assms(3)] assms show ?thesis
    by (auto simp: area_wf_def area_ok_def)
qed

text \<open>The laws of the allocator for a block of one size, as the pools use them.\<close>

lemma shmalloc_dn_pool:
  "0 < sz \<Longrightarrow> area_wf s \<Longrightarrow> shmalloc_dn sz s = (Some n, t) \<Longrightarrow>
     area_wf t \<and> shmem_top t = n \<and> 0 < n \<and> n + sz \<le> shmem_top s \<and> shmem_top s \<le> HAL_SIZE
     \<and> comps t = comps s \<and> pins t = pins s \<and> params t = params s \<and> functs t = functs s
     \<and> threads t = threads s \<and> comp_list_ptr t = comp_list_ptr s \<and> pin_list_ptr t = pin_list_ptr s
     \<and> param_list_ptr t = param_list_ptr s \<and> funct_list_ptr t = funct_list_ptr s
     \<and> thread_list_ptr t = thread_list_ptr s \<and> comp_free_ptr t = comp_free_ptr s
     \<and> pin_free_ptr t = pin_free_ptr s \<and> param_free_ptr t = param_free_ptr s
     \<and> funct_free_ptr t = funct_free_ptr s \<and> thread_free_ptr t = thread_free_ptr s"
  by (drule (2) shmalloc_dn_law [rotated 1]) (elim conjE, simp)

lemmas sizeof_defs = sizeof_hal_comp_def sizeof_hal_pin_def sizeof_hal_param_def sizeof_hal_funct_def
  sizeof_hal_thread_def sizeof_hal_funct_entry_def sizeof_hal_data_def

lemmas heap_defs = upd_comp_heap upd_pin_heap upd_param_heap upd_funct_heap upd_thread_heap

lemma area_wf_upd [simp]:
  "area_wf (upd_comp p f s) = area_wf s" "area_wf (upd_pin p g s) = area_wf s"
  "area_wf (upd_param p k s) = area_wf s" "area_wf (upd_funct p m s) = area_wf s"
  "area_wf (upd_thread p u s) = area_wf s" "area_wf (upd_entry p v s) = area_wf s"
  "area_wf (upd_oldname p w s) = area_wf s"
  by (simp_all add: area_wf_def area_ok_def)

lemma area_wf_set_ptr [simp]:
  "area_wf (s\<lparr>comp_list_ptr := v\<rparr>) = area_wf s" "area_wf (s\<lparr>comp_free_ptr := v\<rparr>) = area_wf s"
  "area_wf (s\<lparr>pin_list_ptr := v\<rparr>) = area_wf s" "area_wf (s\<lparr>pin_free_ptr := v\<rparr>) = area_wf s"
  "area_wf (s\<lparr>param_list_ptr := v\<rparr>) = area_wf s" "area_wf (s\<lparr>param_free_ptr := v\<rparr>) = area_wf s"
  "area_wf (s\<lparr>funct_list_ptr := v\<rparr>) = area_wf s" "area_wf (s\<lparr>funct_free_ptr := v\<rparr>) = area_wf s"
  "area_wf (s\<lparr>thread_list_ptr := v\<rparr>) = area_wf s" "area_wf (s\<lparr>thread_free_ptr := v\<rparr>) = area_wf s"
  "area_wf (s\<lparr>comps := a\<rparr>) = area_wf s" "area_wf (s\<lparr>pins := b\<rparr>) = area_wf s"
  "area_wf (s\<lparr>params := c\<rparr>) = area_wf s" "area_wf (s\<lparr>functs := d\<rparr>) = area_wf s"
  "area_wf (s\<lparr>threads := e\<rparr>) = area_wf s" "area_wf (s\<lparr>entries := f\<rparr>) = area_wf s"
  "area_wf (s\<lparr>links := g\<rparr>) = area_wf s" "area_wf (s\<lparr>ucells := u\<rparr>) = area_wf s"
  "area_wf (s\<lparr>hd_mutex := m\<rparr>) = area_wf s" "area_wf (s\<lparr>hd_state := st\<rparr>) = area_wf s"
  "area_wf (s\<lparr>threads_running := i\<rparr>) = area_wf s" "area_wf (s\<lparr>ref_cnt := i\<rparr>) = area_wf s"
  "area_wf (s\<lparr>hd_lock := l\<rparr>) = area_wf s" "area_wf (s\<lparr>base_period := i\<rparr>) = area_wf s"
  by (simp_all add: area_wf_def area_ok_def)

lemma sizeof_pos [simp]:
  "0 < sizeof_hal_comp" "0 < sizeof_hal_pin" "0 < sizeof_hal_param" "0 < sizeof_hal_funct"
  "0 < sizeof_hal_thread" "0 < sizeof_hal_funct_entry"
  by (simp_all add: sizeof_defs)

lemmas pool_laws = shmalloc_None(2) shmalloc_dn_pool [OF sizeof_pos(1)] shmalloc_dn_pool [OF sizeof_pos(2)]
  shmalloc_dn_pool [OF sizeof_pos(3)] shmalloc_dn_pool [OF sizeof_pos(4)] shmalloc_dn_pool [OF sizeof_pos(5)]

interpretation comp_pool: pooled comp_list_ptr comp_free_ptr "\<lambda>h p. c_next (comps h p)"
  "\<lambda>v h. h\<lparr>comp_list_ptr := v\<rparr>" "\<lambda>v h. h\<lparr>comp_free_ptr := v\<rparr>" set_c_next
  shmem_top area_wf "shmalloc_dn sizeof_hal_comp" sizeof_hal_comp
  by unfold_locales (auto simp: set_c_next_def fun_eq_iff heap_defs dest: pool_laws)

interpretation pin_pool: named_pool pin_list_ptr pin_free_ptr "\<lambda>h p. p_next (pins h p)"
  "\<lambda>v h. h\<lparr>pin_list_ptr := v\<rparr>" "\<lambda>v h. h\<lparr>pin_free_ptr := v\<rparr>" set_p_next
  shmem_top area_wf "shmalloc_dn sizeof_hal_pin" sizeof_hal_pin "\<lambda>h p. p_name (pins h p)"
  by unfold_locales (auto simp: set_p_next_def fun_eq_iff heap_defs dest: pool_laws)

interpretation param_pool: named_pool param_list_ptr param_free_ptr "\<lambda>h p. pm_next (params h p)"
  "\<lambda>v h. h\<lparr>param_list_ptr := v\<rparr>" "\<lambda>v h. h\<lparr>param_free_ptr := v\<rparr>" set_pm_next
  shmem_top area_wf "shmalloc_dn sizeof_hal_param" sizeof_hal_param "\<lambda>h p. pm_name (params h p)"
  by unfold_locales (auto simp: set_pm_next_def fun_eq_iff heap_defs dest: pool_laws)

interpretation funct_pool: named_pool funct_list_ptr funct_free_ptr "\<lambda>h p. f_next (functs h p)"
  "\<lambda>v h. h\<lparr>funct_list_ptr := v\<rparr>" "\<lambda>v h. h\<lparr>funct_free_ptr := v\<rparr>" set_f_next
  shmem_top area_wf "shmalloc_dn sizeof_hal_funct" sizeof_hal_funct "\<lambda>h p. f_name (functs h p)"
  by unfold_locales (auto simp: set_f_next_def fun_eq_iff heap_defs dest: pool_laws)

interpretation thread_pool: pooled thread_list_ptr thread_free_ptr "\<lambda>h p. t_next (threads h p)"
  "\<lambda>v h. h\<lparr>thread_list_ptr := v\<rparr>" "\<lambda>v h. h\<lparr>thread_free_ptr := v\<rparr>" set_t_next
  shmem_top area_wf "shmalloc_dn sizeof_hal_thread" sizeof_hal_thread
  by unfold_locales (auto simp: set_t_next_def fun_eq_iff heap_defs dest: pool_laws)

section \<open>Searches\<close>

definition halpr_find_comp_by_name :: "string \<Rightarrow> hal \<Rightarrow> off res" where
  "halpr_find_comp_by_name name h =
     loop_res (walk (\<lambda>p. c_next (comps h p)) (\<lambda>p. strcmp (c_name (comps h p)) name = 0) (comp_list_ptr h))"

definition halpr_find_comp_by_id :: "int \<Rightarrow> hal \<Rightarrow> off res" where
  "halpr_find_comp_by_id cid h =
     loop_res (walk (\<lambda>p. c_next (comps h p)) (\<lambda>p. c_comp_id (comps h p) = cid) (comp_list_ptr h))"

definition halpr_find_funct_by_name :: "string \<Rightarrow> hal \<Rightarrow> off res" where
  "halpr_find_funct_by_name name h =
     loop_res (walk (\<lambda>p. f_next (functs h p)) (\<lambda>p. strcmp (f_name (functs h p)) name = 0) (funct_list_ptr h))"

definition halpr_find_thread_by_name :: "string \<Rightarrow> hal \<Rightarrow> off res" where
  "halpr_find_thread_by_name name h =
     loop_res (walk (\<lambda>p. t_next (threads h p)) (\<lambda>p. strcmp (t_name (threads h p)) name = 0) (thread_list_ptr h))"

section \<open>Taking and clearing a struct\<close>

definition halpr_alloc_comp_struct :: "hal \<Rightarrow> off option \<times> hal" where
  "halpr_alloc_comp_struct h =
     (case take_struct comp_free_ptr (\<lambda>v h. h\<lparr>comp_free_ptr := v\<rparr>) (\<lambda>h p. c_next (comps h p)) set_c_next
             (shmalloc_dn sizeof_hal_comp) h of
        (None, h) \<Rightarrow> (None, h)
      | (Some p, h) \<Rightarrow> (Some p, upd_comp p (\<lambda>s. s\<lparr>c_next := 0, c_comp_id := 0, c_mem_id := 0,
            c_type := COMPONENT_TYPE_USER, c_shmem_base := B_null, c_name := []\<rparr>) h))"

definition alloc_pin_struct :: "hal \<Rightarrow> off option \<times> hal" where
  "alloc_pin_struct h =
     (case take_struct pin_free_ptr (\<lambda>v h. h\<lparr>pin_free_ptr := v\<rparr>) (\<lambda>h p. p_next (pins h p)) set_p_next
             (shmalloc_dn sizeof_hal_pin) h of
        (None, h) \<Rightarrow> (None, h)
      | (Some p, h) \<Rightarrow> (Some p, upd_pin p (\<lambda>s. s\<lparr>p_next := 0, p_data_ptr_addr := 0, p_owner := 0,
            p_type := HAL_TYPE_UNINITIALIZED, p_signal := 0, p_dummysig := 0, p_name := [], p_oldname := 0\<rparr>) h))"

definition alloc_param_struct :: "hal \<Rightarrow> off option \<times> hal" where
  "alloc_param_struct h =
     (case take_struct param_free_ptr (\<lambda>v h. h\<lparr>param_free_ptr := v\<rparr>) (\<lambda>h p. pm_next (params h p)) set_pm_next
             (shmalloc_dn sizeof_hal_param) h of
        (None, h) \<Rightarrow> (None, h)
      | (Some p, h) \<Rightarrow> (Some p, upd_param p (\<lambda>s. s\<lparr>pm_next := 0, pm_data_ptr := 0, pm_owner := 0,
            pm_type := HAL_TYPE_UNINITIALIZED, pm_name := []\<rparr>) h))"

definition alloc_funct_struct :: "hal \<Rightarrow> off option \<times> hal" where
  "alloc_funct_struct h =
     (case take_struct funct_free_ptr (\<lambda>v h. h\<lparr>funct_free_ptr := v\<rparr>) (\<lambda>h p. f_next (functs h p)) set_f_next
             (shmalloc_dn sizeof_hal_funct) h of
        (None, h) \<Rightarrow> (None, h)
      | (Some p, h) \<Rightarrow> (Some p, upd_funct p (\<lambda>s. s\<lparr>f_next := 0, f_uses_fp := 0, f_owner := 0,
            f_reentrant := 0, f_users := 0, f_arg := 0, f_funct := 0, f_name := []\<rparr>) h))"

text \<open>
  \<open>list_init_entry\<close> is declared in \<open>hal/hal_priv.h\<close> and defined nowhere; \<open>li\<close> stands
  for it. A null entry is passed to it, and written, when there is no memory left.
\<close>

definition alloc_thread_struct :: "(laddr \<Rightarrow> links \<Rightarrow> links) \<Rightarrow> hal \<Rightarrow> off option \<times> hal" where
  "alloc_thread_struct li h =
     (case take_struct thread_free_ptr (\<lambda>v h. h\<lparr>thread_free_ptr := v\<rparr>) (\<lambda>h p. t_next (threads h p)) set_t_next
             (shmalloc_dn sizeof_hal_thread) h of
        (None, h) \<Rightarrow> (None, h)
      | (Some p, h) \<Rightarrow> (Some p,
            upd_thread p (\<lambda>s. s\<lparr>t_next := 0, t_uses_fp := 0, t_period := 0, t_priority := 0,
              t_task_id := 0, t_name := []\<rparr>) (h\<lparr>links := li (Thread_root p) (links h)\<rparr>)))"

text \<open>
  The cast of a \<open>hal_list_t *\<close> to \<open>hal_funct_entry_t *\<close>, meaningful for the links of an
  entry only.
\<close>

fun entry_of :: "laddr \<Rightarrow> off option" where
  "entry_of (Entry p) = Some p"
| "entry_of _ = None"

definition alloc_funct_entry_struct :: "(laddr \<Rightarrow> links \<Rightarrow> links) \<Rightarrow> hal \<Rightarrow> (off \<times> hal) res" where
  "alloc_funct_entry_struct li h =
     (let l = list_next (links h) Free_root;
          clear = (\<lambda>p. upd_entry p (\<lambda>e. e\<lparr>e_funct_ptr := 0, e_arg := 0, e_funct := 0\<rparr>))
      in if l \<noteq> Free_root
         then case entry_of l of
                None \<Rightarrow> Inl UB
              | Some p \<Rightarrow> Inr (p, clear p (h\<lparr>links := snd (list_remove_entry l (links h))\<rparr>))
         else case shmalloc_dn sizeof_hal_funct_entry h of
                (None, _) \<Rightarrow> Inl UB
              | (Some p, h) \<Rightarrow> Inr (p, clear p (h\<lparr>links := li (Entry p) (links h)\<rparr>)))"

section \<open>Giving a struct back\<close>

definition free_oldname_struct :: "off \<Rightarrow> hal \<Rightarrow> hal" where
  "free_oldname_struct p h =
     (let h = upd_oldname p (\<lambda>s. s\<lparr>o_name := []\<rparr>) h;
          h = upd_oldname p (\<lambda>s. s\<lparr>o_next := oldname_free_ptr h\<rparr>) h
      in h\<lparr>oldname_free_ptr := p\<rparr>)"

definition free_pin_struct :: "off \<Rightarrow> hal \<Rightarrow> hal" where
  "free_pin_struct p h =
     (let h = (if p_oldname (pins h p) \<noteq> 0 then free_oldname_struct (p_oldname (pins h p)) h else h);
          h = upd_pin p (\<lambda>s. s\<lparr>p_data_ptr_addr := 0, p_owner := 0, p_type := HAL_TYPE_UNINITIALIZED,
                p_signal := 0, p_dummysig := 0, p_name := []\<rparr>) h;
          h = set_p_next p (pin_free_ptr h) h
      in h\<lparr>pin_free_ptr := p\<rparr>)"

definition free_param_struct :: "off \<Rightarrow> hal \<Rightarrow> hal" where
  "free_param_struct p h =
     (let h = (if pm_oldname (params h p) \<noteq> 0 then free_oldname_struct (pm_oldname (params h p)) h else h);
          h = upd_param p (\<lambda>s. s\<lparr>pm_data_ptr := 0, pm_owner := 0, pm_type := HAL_TYPE_UNINITIALIZED,
                pm_name := []\<rparr>) h;
          h = set_pm_next p (param_free_ptr h) h
      in h\<lparr>param_free_ptr := p\<rparr>)"

definition free_funct_entry_struct :: "off \<Rightarrow> hal \<Rightarrow> hal" where
  "free_funct_entry_struct p h =
     (let f = e_funct_ptr (entries h p);
          h = (if f > 0 then upd_funct f (\<lambda>s. s\<lparr>f_users := f_users s - 1\<rparr>) h else h);
          h = upd_entry p (\<lambda>e. e\<lparr>e_funct_ptr := 0, e_arg := 0, e_funct := 0\<rparr>) h
      in h\<lparr>links := list_add_after (Entry p) Free_root (links h)\<rparr>)"

section \<open>Releasing a function\<close>

text \<open>A loop that does not end hangs; a loop can also end with undefined behaviour.\<close>

fun loop_join :: "'a res option \<Rightarrow> 'a res" where
  "loop_join None = Inl Hang"
| "loop_join (Some r) = r"

text \<open>\<open>while (list_entry != list_root)\<close>: the entries of one thread that call the function.\<close>

partial_function (option) drop_entries :: "off \<Rightarrow> laddr \<Rightarrow> laddr \<Rightarrow> hal \<Rightarrow> hal res option" where
  "drop_entries f root entry h =
     (if entry = root then Some (Inr h)
      else case entry_of entry of
             None \<Rightarrow> Some (Inl UB)
           | Some p \<Rightarrow>
               if e_funct_ptr (entries h p) = f
               then drop_entries f root (fst (list_remove_entry entry (links h)))
                      (free_funct_entry_struct p (h\<lparr>links := snd (list_remove_entry entry (links h))\<rparr>))
               else drop_entries f root (list_next (links h) entry) h)"

text \<open>\<open>while (next_thread != 0)\<close>\<close>

partial_function (option) drop_from_threads :: "off \<Rightarrow> off \<Rightarrow> hal \<Rightarrow> hal res option" where
  "drop_from_threads f thread h =
     (if thread = 0 then Some (Inr h)
      else case drop_entries f (Thread_root thread) (list_next (links h) (Thread_root thread)) h of
             None \<Rightarrow> None
           | Some (Inl e) \<Rightarrow> Some (Inl e)
           | Some (Inr h) \<Rightarrow> drop_from_threads f (t_next (threads h thread)) h)"

definition free_funct_struct :: "off \<Rightarrow> hal \<Rightarrow> hal res" where
  "free_funct_struct f h =
     bnd (if f_users (functs h f) > 0 then loop_join (drop_from_threads f (thread_list_ptr h) h) else Inr h)
       (\<lambda>h. let h = upd_funct f (\<lambda>s. s\<lparr>f_uses_fp := 0, f_owner := 0, f_reentrant := 0, f_users := 0,
                      f_arg := 0, f_funct := 0, f_runtime := D_null, f_name := []\<rparr>) h;
                 h = set_f_next f (funct_free_ptr h) h
             in Inr (h\<lparr>funct_free_ptr := f\<rparr>))"

section \<open>Releasing a component\<close>

text \<open>\<open>*prev\<close> of a list.\<close>

definition get_link :: "('s \<Rightarrow> off) \<Rightarrow> ('s \<Rightarrow> off \<Rightarrow> off) \<Rightarrow> link \<Rightarrow> 's \<Rightarrow> off" where
  "get_link hd_of nx_of l s = (case l of At_head \<Rightarrow> hd_of s | At_next p \<Rightarrow> nx_of s p)"

abbreviation "put_funct_link \<equiv> put_link (\<lambda>v h. h\<lparr>funct_list_ptr := v\<rparr>) set_f_next"
abbreviation "get_funct_link \<equiv> get_link funct_list_ptr (\<lambda>h p. f_next (functs h p))"
abbreviation "put_param_link \<equiv> put_link (\<lambda>v h. h\<lparr>param_list_ptr := v\<rparr>) set_pm_next"
abbreviation "get_param_link \<equiv> get_link param_list_ptr (\<lambda>h p. pm_next (params h p))"

partial_function (option) drop_functs :: "off \<Rightarrow> link \<Rightarrow> off \<Rightarrow> hal \<Rightarrow> hal res option" where
  "drop_functs cp prev next h =
     (if next = 0 then Some (Inr h)
      else if f_owner (functs h next) = cp
      then case free_funct_struct next (put_funct_link prev (f_next (functs h next)) h) of
             Inl e \<Rightarrow> Some (Inl e)
           | Inr h \<Rightarrow> drop_functs cp prev (get_funct_link prev h) h
      else drop_functs cp (At_next next) (f_next (functs h next)) h)"

partial_function (option) drop_params :: "off \<Rightarrow> link \<Rightarrow> off \<Rightarrow> hal \<Rightarrow> hal option" where
  "drop_params cp prev next h =
     (if next = 0 then Some h
      else if pm_owner (params h next) = cp
      then (let h = free_param_struct next (put_param_link prev (pm_next (params h next)) h)
            in drop_params cp prev (get_param_link prev h) h)
      else drop_params cp (At_next next) (pm_next (params h next)) h)"

definition free_comp_struct :: "off \<Rightarrow> hal \<Rightarrow> hal res" where
  "free_comp_struct cp h =
     bnd (loop_join (drop_functs cp At_head (funct_list_ptr h) h)) (\<lambda>h.
     bnd (loop_res (drop_params cp At_head (param_list_ptr h) h)) (\<lambda>h.
     let h = upd_comp cp (\<lambda>c. c\<lparr>c_comp_id := 0, c_mem_id := 0, c_type := COMPONENT_TYPE_USER,
               c_shmem_base := B_null, c_name := []\<rparr>) h;
         h = set_c_next cp (comp_free_ptr h) h
     in Inr (h\<lparr>comp_free_ptr := cp\<rparr>)))"

end
