(* ===== verification/Hal_Inv.thy ===== *)
theory Hal_Inv
  imports Hal_Structs
begin

text \<open>
  The well-formedness of the HAL's segment: what holds between any two calls of \<open>hal/hal_lib.c\<close>.
  A \<open>shape\<close> names the structs on every list; \<open>hal_rep h G\<close> says that the state \<open>h\<close> has
  the shape \<open>G\<close> and keeps the rules of its parts.
\<close>

section \<open>Shapes\<close>

record shape =
  s_comps :: "off list"
  s_comps_free :: "off list"
  s_pins :: "off list"
  s_pins_free :: "off list"
  s_params :: "off list"
  s_params_free :: "off list"
  s_functs :: "off list"
  s_functs_free :: "off list"
  s_threads :: "off list"
  s_threads_free :: "off list"
  s_entries :: "off \<Rightarrow> off list"
  s_entries_free :: "off list"

text \<open>The entries of all threads, in the order of the thread list.\<close>

definition all_entries :: "shape \<Rightarrow> off list" where
  "all_entries G = concat (map (s_entries G) (s_threads G))"

section \<open>The parts\<close>

definition comps_ok :: "hal \<Rightarrow> shape \<Rightarrow> bool" where
  "comps_ok h G \<longleftrightarrow>
     pool (\<lambda>p. c_next (comps h p)) (comp_list_ptr h) (comp_free_ptr h) (shmem_top h) sizeof_hal_comp
       (s_comps G) (s_comps_free G)"

definition pins_ok :: "hal \<Rightarrow> shape \<Rightarrow> bool" where
  "pins_ok h G \<longleftrightarrow>
     pool (\<lambda>p. p_next (pins h p)) (pin_list_ptr h) (pin_free_ptr h) (shmem_top h) sizeof_hal_pin
       (s_pins G) (s_pins_free G)
     \<and> sorted_names (\<lambda>p. p_name (pins h p)) (s_pins G)
     \<and> (\<forall>p. p_oldname (pins h p) = 0)"

definition params_ok :: "hal \<Rightarrow> shape \<Rightarrow> bool" where
  "params_ok h G \<longleftrightarrow>
     pool (\<lambda>p. pm_next (params h p)) (param_list_ptr h) (param_free_ptr h) (shmem_top h) sizeof_hal_param
       (s_params G) (s_params_free G)
     \<and> sorted_names (\<lambda>p. pm_name (params h p)) (s_params G)
     \<and> (\<forall>p. pm_oldname (params h p) = 0)"

definition functs_ok :: "hal \<Rightarrow> shape \<Rightarrow> bool" where
  "functs_ok h G \<longleftrightarrow>
     pool (\<lambda>p. f_next (functs h p)) (funct_list_ptr h) (funct_free_ptr h) (shmem_top h) sizeof_hal_funct
       (s_functs G) (s_functs_free G)
     \<and> sorted_names (\<lambda>p. f_name (functs h p)) (s_functs G)"

definition threads_ok :: "hal \<Rightarrow> shape \<Rightarrow> bool" where
  "threads_ok h G \<longleftrightarrow>
     pool (\<lambda>p. t_next (threads h p)) (thread_list_ptr h) (thread_free_ptr h) (shmem_top h) sizeof_hal_thread
       (s_threads G) (s_threads_free G)"

definition rings_ok :: "hal \<Rightarrow> shape \<Rightarrow> bool" where
  "rings_ok h G \<longleftrightarrow>
     ring (links h) Free_root (s_entries_free G)
     \<and> (\<forall>t \<in> set (s_threads G). ring (links h) (Thread_root t) (s_entries G t))
     \<and> distinct (s_entries_free G @ all_entries G)
     \<and> (\<forall>e \<in> set (s_entries_free G @ all_entries G).
          shmem_top h \<le> e \<and> e + sizeof_hal_funct_entry \<le> HAL_SIZE)"

text \<open>
  The entries of the threads call live functions, \<open>users\<close> counts them, and a function that is not
  re-entrant has one user at most.
\<close>

definition uses :: "hal \<Rightarrow> shape \<Rightarrow> off \<Rightarrow> nat" where
  "uses h G f = length (filter (\<lambda>e. e_funct_ptr (entries h e) = f) (all_entries G))"

definition users_ok :: "hal \<Rightarrow> shape \<Rightarrow> bool" where
  "users_ok h G \<longleftrightarrow>
     (\<forall>e \<in> set (all_entries G). e_funct_ptr (entries h e) \<in> set (s_functs G))
     \<and> (\<forall>f \<in> set (s_functs G). f_users (functs h f) = int (uses h G f)
          \<and> (f_reentrant (functs h f) = 0 \<longrightarrow> uses h G f \<le> 1))"

text \<open>
  The blocks of the segment that are structs. They do not meet: two structs never share a byte,
  whatever their types.
\<close>

definition blocks :: "shape \<Rightarrow> (int \<times> int) set" where
  "blocks G =
     (\<lambda>p. (p, sizeof_hal_comp)) ` set (s_comps G @ s_comps_free G)
     \<union> (\<lambda>p. (p, sizeof_hal_pin)) ` set (s_pins G @ s_pins_free G)
     \<union> (\<lambda>p. (p, sizeof_hal_param)) ` set (s_params G @ s_params_free G)
     \<union> (\<lambda>p. (p, sizeof_hal_funct)) ` set (s_functs G @ s_functs_free G)
     \<union> (\<lambda>p. (p, sizeof_hal_thread)) ` set (s_threads G @ s_threads_free G)
     \<union> (\<lambda>p. (p, sizeof_hal_funct_entry)) ` set (s_entries_free G @ all_entries G)"

definition apart :: "(int \<times> int) set \<Rightarrow> bool" where
  "apart B \<longleftrightarrow> (\<forall>(p, s) \<in> B. \<forall>(q, t) \<in> B. (p, s) \<noteq> (q, t) \<longrightarrow> p + s \<le> q \<or> q + t \<le> p)"

definition hal_rep :: "hal \<Rightarrow> shape \<Rightarrow> bool" where
  "hal_rep h G \<longleftrightarrow> area_wf h \<and> comps_ok h G \<and> pins_ok h G \<and> params_ok h G \<and> functs_ok h G
     \<and> threads_ok h G \<and> rings_ok h G \<and> users_ok h G \<and> apart (blocks G)"

definition hal_inv :: "hal \<Rightarrow> bool" where
  "hal_inv h \<longleftrightarrow> hal_data h = SP_mapped \<and> \<not> locked (hd_mutex h) \<and> (\<exists>G. hal_rep h G)"

lemmas part_defs = comps_ok_def pins_ok_def params_ok_def functs_ok_def threads_ok_def rings_ok_def
  users_ok_def

section \<open>Growing the set of blocks\<close>

lemma apart_insert:
  assumes "apart B" "\<And>p s. (p, s) \<in> B \<Longrightarrow> lo \<le> p" "n + sz \<le> lo"
  shows "apart (insert (n, sz) B)"
proof -
  have "\<forall>x \<in> B. n + sz \<le> fst x" using assms(2,3) by fastforce
  with assms(1) show ?thesis by (simp add: apart_def case_prod_beta)
qed

lemma blocks_above:
  assumes "hal_rep h G" "(p, s) \<in> blocks G"
  shows "shmem_top h \<le> p"
proof -
  from assms(1) have "comps_ok h G" "pins_ok h G" "params_ok h G" "functs_ok h G" "threads_ok h G" "rings_ok h G"
    by (simp_all only: hal_rep_def)
  then have "\<forall>q \<in> set (s_comps G @ s_comps_free G) \<union> set (s_pins G @ s_pins_free G) \<union> set (s_params G @ s_params_free G)
      \<union> set (s_functs G @ s_functs_free G) \<union> set (s_threads G @ s_threads_free G)
      \<union> set (s_entries_free G @ all_entries G). shmem_top h \<le> q"
    by (simp only: part_defs pool_def ball_Un) blast
  with assms(2) show ?thesis unfolding blocks_def by blast
qed

lemma apart_new:
  assumes "hal_rep h G" "n + sz \<le> shmem_top h"
  shows "apart (insert (n, sz) (blocks G))"
  using assms(2) by (intro apart_insert [where lo = "shmem_top h"])
    (use assms(1) in \<open>simp_all add: hal_rep_def blocks_above [OF assms(1)]\<close>)

section \<open>Frames\<close>

text \<open>A part only depends on its own fields and on the top of the free area.\<close>

definition keeps_comps :: "hal \<Rightarrow> hal \<Rightarrow> bool" where
  "keeps_comps h h' \<longleftrightarrow> (\<forall>p. c_next (comps h' p) = c_next (comps h p))
     \<and> comp_list_ptr h' = comp_list_ptr h \<and> comp_free_ptr h' = comp_free_ptr h"

definition keeps_pins :: "hal \<Rightarrow> hal \<Rightarrow> bool" where
  "keeps_pins h h' \<longleftrightarrow> (\<forall>p. p_next (pins h' p) = p_next (pins h p) \<and> p_name (pins h' p) = p_name (pins h p)
       \<and> p_oldname (pins h' p) = p_oldname (pins h p))
     \<and> pin_list_ptr h' = pin_list_ptr h \<and> pin_free_ptr h' = pin_free_ptr h"

definition keeps_params :: "hal \<Rightarrow> hal \<Rightarrow> bool" where
  "keeps_params h h' \<longleftrightarrow> (\<forall>p. pm_next (params h' p) = pm_next (params h p)
       \<and> pm_name (params h' p) = pm_name (params h p) \<and> pm_oldname (params h' p) = pm_oldname (params h p))
     \<and> param_list_ptr h' = param_list_ptr h \<and> param_free_ptr h' = param_free_ptr h"

definition keeps_functs :: "hal \<Rightarrow> hal \<Rightarrow> bool" where
  "keeps_functs h h' \<longleftrightarrow> (\<forall>p. f_next (functs h' p) = f_next (functs h p) \<and> f_name (functs h' p) = f_name (functs h p))
     \<and> funct_list_ptr h' = funct_list_ptr h \<and> funct_free_ptr h' = funct_free_ptr h"

definition keeps_threads :: "hal \<Rightarrow> hal \<Rightarrow> bool" where
  "keeps_threads h h' \<longleftrightarrow> (\<forall>p. t_next (threads h' p) = t_next (threads h p))
     \<and> thread_list_ptr h' = thread_list_ptr h \<and> thread_free_ptr h' = thread_free_ptr h"

definition keeps_rings :: "hal \<Rightarrow> hal \<Rightarrow> bool" where
  "keeps_rings h h' \<longleftrightarrow> links h' = links h"

definition keeps_users :: "hal \<Rightarrow> hal \<Rightarrow> bool" where
  "keeps_users h h' \<longleftrightarrow> (\<forall>e. e_funct_ptr (entries h' e) = e_funct_ptr (entries h e))
     \<and> (\<forall>p. f_users (functs h' p) = f_users (functs h p) \<and> f_reentrant (functs h' p) = f_reentrant (functs h p))"

lemmas keeps_defs = keeps_comps_def keeps_pins_def keeps_params_def keeps_functs_def keeps_threads_def
  keeps_rings_def keeps_users_def

lemma comps_ok_frame:
  assumes "comps_ok h G" "keeps_comps h h'" "shmem_top h' \<le> shmem_top h"
    and "s_comps G' = s_comps G" "s_comps_free G' = s_comps_free G"
  shows "comps_ok h' G'"
  using assms by (auto simp: comps_ok_def keeps_comps_def  intro: pool_lower order.trans)

lemma pins_ok_frame:
  assumes "pins_ok h G" "keeps_pins h h'" "shmem_top h' \<le> shmem_top h"
    and "s_pins G' = s_pins G" "s_pins_free G' = s_pins_free G"
  shows "pins_ok h' G'"
  using assms by (auto simp: pins_ok_def keeps_pins_def  intro: pool_lower order.trans)

lemma params_ok_frame:
  assumes "params_ok h G" "keeps_params h h'" "shmem_top h' \<le> shmem_top h"
    and "s_params G' = s_params G" "s_params_free G' = s_params_free G"
  shows "params_ok h' G'"
  using assms by (auto simp: params_ok_def keeps_params_def  intro: pool_lower order.trans)

lemma functs_ok_frame:
  assumes "functs_ok h G" "keeps_functs h h'" "shmem_top h' \<le> shmem_top h"
    and "s_functs G' = s_functs G" "s_functs_free G' = s_functs_free G"
  shows "functs_ok h' G'"
  using assms by (auto simp: functs_ok_def keeps_functs_def  intro: pool_lower order.trans)

lemma threads_ok_frame:
  assumes "threads_ok h G" "keeps_threads h h'" "shmem_top h' \<le> shmem_top h"
    and "s_threads G' = s_threads G" "s_threads_free G' = s_threads_free G"
  shows "threads_ok h' G'"
  using assms by (auto simp: threads_ok_def keeps_threads_def  intro: pool_lower order.trans)

lemma rings_ok_frame:
  assumes "rings_ok h G" "keeps_rings h h'" "shmem_top h' \<le> shmem_top h"
    and "s_threads G' = s_threads G" "s_entries G' = s_entries G" "s_entries_free G' = s_entries_free G"
  shows "rings_ok h' G'"
  using assms by (auto simp: rings_ok_def keeps_rings_def all_entries_def intro: order.trans)

lemma users_ok_frame:
  assumes "users_ok h G" "keeps_users h h'" 
    and "s_functs G' = s_functs G" "s_threads G' = s_threads G" "s_entries G' = s_entries G"
  shows "users_ok h' G'"
  using assms by (simp add: users_ok_def keeps_users_def uses_def all_entries_def)

text \<open>A step that keeps every part, and takes at most one new block.\<close>

lemma hal_rep_step:
  assumes "hal_rep h G" "area_wf h'"
    and "blocks G' = blocks G \<or> (\<exists>n sz. blocks G' = insert (n, sz) (blocks G) \<and> n + sz \<le> shmem_top h)"
    and "comps_ok h' G'" "pins_ok h' G'" "params_ok h' G'" "functs_ok h' G'" "threads_ok h' G'"
    and "rings_ok h' G'" "users_ok h' G'"
  shows "hal_rep h' G'"
proof -
  have "apart (blocks G')"
    using assms(3) assms(1) apart_new [OF assms(1)] by (auto simp: hal_rep_def)
  with assms(2,4-) show ?thesis by (simp add: hal_rep_def)
qed

lemma hal_rep_parts:
  assumes "hal_rep h G"
  shows "area_wf h" "comps_ok h G" "pins_ok h G" "params_ok h G" "functs_ok h G" "threads_ok h G"
    "rings_ok h G" "users_ok h G" "apart (blocks G)"
  using assms by (simp_all add: hal_rep_def)

text \<open>The lock word, the lifecycle fields and the fields of structs that no part depends on.\<close>

lemma hal_rep_frame:
  assumes "hal_rep h G" "shmem_bot h' = shmem_bot h" "shmem_top h' = shmem_top h"
    and "keeps_comps h h'" "keeps_pins h h'" "keeps_params h h'" "keeps_functs h h'" "keeps_threads h h'"
    and "keeps_rings h h'" "keeps_users h h'"
  shows "hal_rep h' G"
  using assms hal_rep_parts [OF assms(1)]
  by (intro hal_rep_step [OF assms(1)])
    (auto simp: area_wf_cong [OF assms(2,3)] intro: comps_ok_frame pins_ok_frame params_ok_frame functs_ok_frame
      threads_ok_frame rings_ok_frame users_ok_frame)

lemma hal_rep_lock [simp]: "hal_rep (h\<lparr>hd_mutex := m\<rparr>) G = hal_rep h G"
  by (rule iffI; erule hal_rep_frame; simp add: keeps_defs)

lemma hal_rep_give [simp]: "hal_rep (hal_mutex_give h) G = hal_rep h G"
  by (simp add: hal_mutex_give_def)

lemma hal_mutex_give_sel [simp]:
  "hal_data (hal_mutex_give h) = hal_data h" "hd_mutex (hal_mutex_give h) = rtapi_mutex_give (hd_mutex h)"
  by (simp_all add: hal_mutex_give_def)

lemma hal_mutex_give_get [simp]:
  "\<not> locked (hd_mutex h) \<Longrightarrow> hal_mutex_give (h\<lparr>hd_mutex := set_lock (hd_mutex h)\<rparr>) = h"
  by (simp add: hal_mutex_give_def)

lemma hal_inv_give: "hal_rep h G \<Longrightarrow> hal_data h = SP_mapped \<Longrightarrow> hal_inv (hal_mutex_give h)"
  by (auto simp: hal_inv_def)

section \<open>What the searches return\<close>

lemma find_comp_by_id:
  assumes "hal_rep h G"
  shows "halpr_find_comp_by_id i h =
    Inr (case find (\<lambda>p. c_comp_id (comps h p) = i) (s_comps G) of None \<Rightarrow> 0 | Some p \<Rightarrow> p)"
  using assms walk_chain [of "\<lambda>p. c_next (comps h p)" "comp_list_ptr h" "s_comps G"]
  by (simp add: hal_rep_def comps_ok_def pool_def halpr_find_comp_by_id_def)

lemma comps_nonzero: "hal_rep h G \<Longrightarrow> p \<in> set (s_comps G) \<Longrightarrow> p \<noteq> 0"
  using chain_nz by (fastforce simp: hal_rep_def comps_ok_def pool_def)

text \<open>The component with an id, \<open>0\<close> when there is none.\<close>

definition comp_of :: "int \<Rightarrow> hal \<Rightarrow> off" where
  "comp_of i h =
     (case find (\<lambda>p. c_comp_id (comps h p) = i) (nodes (\<lambda>p. c_next (comps h p)) (comp_list_ptr h)) of
        None \<Rightarrow> 0 | Some p \<Rightarrow> p)"

lemma find_comp_of: "hal_rep h G \<Longrightarrow> halpr_find_comp_by_id i h = Inr (comp_of i h)"
  using nodes_chain [of "\<lambda>p. c_next (comps h p)" "comp_list_ptr h" "s_comps G"]
  by (simp add: find_comp_by_id comp_of_def) (simp add: hal_rep_def comps_ok_def pool_def)

lemma comp_of_lock [simp]: "comp_of i (h\<lparr>hd_mutex := m\<rparr>) = comp_of i h"
  by (simp add: comp_of_def)

end
