(* ===== verification/Hal_Pins.thy ===== *)
theory Hal_Pins
  imports Hal_Inv
begin

text \<open>
  Pins and parameters (\<open>hal_pin_new\<close>, \<open>hal_pin_newfv\<close>, \<open>hal_pin_newf\<close>,
  \<open>hal_param_new\<close>, \<open>hal_param_bit_new\<close>, \<open>hal_param_s32_new\<close> of \<open>hal/hal_lib.c\<close>).
\<close>

unbundle bit_operations_syntax

section \<open>Pins\<close>

text \<open>\<open>*data_ptr_addr = v\<close>\<close>

fun put_cell :: "cell \<Rightarrow> dptr \<Rightarrow> hal \<Rightarrow> hal" where
  "put_cell Cell_null v h = h"
| "put_cell (Cell_funct f) v h = upd_funct f (\<lambda>s. s\<lparr>f_runtime := v\<rparr>) h"
| "put_cell (Cell_thread t) v h = upd_thread t (\<lambda>s. s\<lparr>t_runtime := v\<rparr>) h"
| "put_cell (Cell_user x) v h = h\<lparr>ucells := (ucells h)(x := v)\<rparr>"

text \<open>The search for the place of the new pin, and what is done there.\<close>

definition pin_insert :: "off \<Rightarrow> hal \<Rightarrow> (int \<times> hal) res" where
  "pin_insert new h =
     bnd (loop_res (ins_walk (\<lambda>p. p_next (pins h p))
            (\<lambda>p. strcmp (p_name (pins h p)) (p_name (pins h new))) At_head (pin_list_ptr h)))
       (\<lambda>place. case place of
          Some (prev, next) \<Rightarrow>
            Inr (0, hal_mutex_give (link_in (\<lambda>v h. h\<lparr>pin_list_ptr := v\<rparr>) set_p_next prev next new h))
        | None \<Rightarrow> Inr (- EINVAL, hal_mutex_give (free_pin_struct new h)))"

definition hal_pin_new :: "string \<Rightarrow> hal_type \<Rightarrow> cell \<Rightarrow> int \<Rightarrow> hal \<Rightarrow> (int \<times> hal) res" where
  "hal_pin_new name type data_ptr_addr comp_id h =
     (if hal_data h = SP_null then Inr (- EINVAL, h)
      else if hal_data h = SP_stale \<or> data_ptr_addr = Cell_null then Inl UB
      else if type \<noteq> HAL_BIT \<and> type \<noteq> HAL_FLOAT \<and> type \<noteq> HAL_S32 \<and> type \<noteq> HAL_U32
           \<and> type \<noteq> HAL_S64 \<and> type \<noteq> HAL_U64 \<and> type \<noteq> HAL_PORT then Inr (- EINVAL, h)
      else if length name > HAL_NAME_LEN then Inr (- EINVAL, h)
      else if hd_lock h AND HAL_LOCK_LOAD \<noteq> 0 then Inr (- EPERM, h)
      else
        bnd (hal_mutex_get h) (\<lambda>h.
        bnd (halpr_find_comp_by_id comp_id h) (\<lambda>cp.
          if cp = 0 then Inr (- EINVAL, hal_mutex_give h)
          else if \<not> SHMCHK (cell_off data_ptr_addr) then Inr (- EINVAL, hal_mutex_give h)
          else if c_ready (comps h cp) \<noteq> 0 then Inr (- EINVAL, hal_mutex_give h)
          else case alloc_pin_struct h of
            (None, h) \<Rightarrow> Inr (- ENOMEM, hal_mutex_give h)
          | (Some new, h) \<Rightarrow>
              let h = upd_pin new (\<lambda>s. s\<lparr>p_data_ptr_addr := cell_off data_ptr_addr, p_owner := cp,
                        p_type := type, p_signal := 0, p_dummysig := 0,
                        p_name := snprintf_s (HAL_NAME_LEN + 1) name\<rparr>) h;
                  h = put_cell data_ptr_addr
                        (if c_shmem_base (comps h cp) = B_base then D_sig new else D_wild) h
              in pin_insert new h)))"

text \<open>
  \<open>txt\<close> is the text that the format and its arguments describe, before \<open>rt_vsnprintf\<close> cuts
  it to the buffer; the result of \<open>rt_vsnprintf\<close> is its full length.
\<close>

definition hal_pin_newfv :: "hal_type \<Rightarrow> cell \<Rightarrow> int \<Rightarrow> string \<Rightarrow> hal \<Rightarrow> (int \<times> hal) res" where
  "hal_pin_newfv type data_ptr_addr comp_id txt h =
     (let name = snprintf_s (HAL_NAME_LEN + 1) txt; sz = int (length txt)
      in if sz = - 1 \<or> sz > int HAL_NAME_LEN then Inr (- ENOMEM, h)
         else hal_pin_new name type data_ptr_addr comp_id h)"

definition hal_pin_newf :: "hal_type \<Rightarrow> cell \<Rightarrow> int \<Rightarrow> string \<Rightarrow> hal \<Rightarrow> (int \<times> hal) res" where
  "hal_pin_newf type data_ptr_addr comp_id txt h = hal_pin_newfv type data_ptr_addr comp_id txt h"

section \<open>Parameters\<close>

definition param_insert :: "off \<Rightarrow> hal \<Rightarrow> (int \<times> hal) res" where
  "param_insert new h =
     bnd (loop_res (ins_walk (\<lambda>p. pm_next (params h p))
            (\<lambda>p. strcmp (pm_name (params h p)) (pm_name (params h new))) At_head (param_list_ptr h)))
       (\<lambda>place. case place of
          Some (prev, next) \<Rightarrow>
            Inr (0, hal_mutex_give (link_in (\<lambda>v h. h\<lparr>param_list_ptr := v\<rparr>) set_pm_next prev next new h))
        | None \<Rightarrow> Inr (- EINVAL, hal_mutex_give (free_param_struct new h)))"

definition hal_param_new :: "string \<Rightarrow> hal_type \<Rightarrow> int \<Rightarrow> addr \<Rightarrow> int \<Rightarrow> hal \<Rightarrow> (int \<times> hal) res" where
  "hal_param_new name type dir data_addr comp_id h =
     (if hal_data h = SP_null then Inr (- EINVAL, h)
      else if type \<noteq> HAL_BIT \<and> type \<noteq> HAL_FLOAT \<and> type \<noteq> HAL_S32 \<and> type \<noteq> HAL_U32
           \<and> type \<noteq> HAL_S64 \<and> type \<noteq> HAL_U64 then Inr (- EINVAL, h)
      else if dir \<noteq> HAL_RO \<and> dir \<noteq> HAL_RW then Inr (- EINVAL, h)
      else if length name > HAL_NAME_LEN then Inr (- EINVAL, h)
      else if hal_data h = SP_stale then Inl UB
      else if hd_lock h AND HAL_LOCK_LOAD \<noteq> 0 then Inr (- EPERM, h)
      else
        bnd (hal_mutex_get h) (\<lambda>h.
        bnd (halpr_find_comp_by_id comp_id h) (\<lambda>cp.
          if cp = 0 then Inr (- EINVAL, hal_mutex_give h)
          else if \<not> SHMCHK (addr_off data_addr) then Inr (- EINVAL, hal_mutex_give h)
          else if c_ready (comps h cp) \<noteq> 0 then Inr (- EINVAL, hal_mutex_give h)
          else case alloc_param_struct h of
            (None, h) \<Rightarrow> Inr (- ENOMEM, hal_mutex_give h)
          | (Some new, h) \<Rightarrow>
              let h = upd_param new (\<lambda>s. s\<lparr>pm_owner := cp, pm_data_ptr := addr_off data_addr,
                        pm_type := type, pm_dir := dir,
                        pm_name := snprintf_s (HAL_NAME_LEN + 1) name\<rparr>) h
              in param_insert new h)))"

definition hal_param_bit_new :: "string \<Rightarrow> int \<Rightarrow> hal_type \<Rightarrow> addr \<Rightarrow> int \<Rightarrow> hal \<Rightarrow> (int \<times> hal) res" where
  "hal_param_bit_new name dir type data_addr comp_id h = hal_param_new name type dir data_addr comp_id h"

definition hal_param_s32_new :: "string \<Rightarrow> int \<Rightarrow> hal_type \<Rightarrow> addr \<Rightarrow> int \<Rightarrow> hal \<Rightarrow> (int \<times> hal) res" where
  "hal_param_s32_new name dir type data_addr comp_id h = hal_param_new name type dir data_addr comp_id h"

section \<open>Frames\<close>

text \<open>What writing a pin pointer leaves alone.\<close>

lemma put_cell_sel [simp]:
  "hd_mutex (put_cell c v h) = hd_mutex h"
  "shmem_avail (put_cell c v h) = shmem_avail h"
  "pending_constructor (put_cell c v h) = pending_constructor h"
  "constructor_prefix (put_cell c v h) = constructor_prefix h"
  "shmem_bot (put_cell c v h) = shmem_bot h"
  "shmem_top (put_cell c v h) = shmem_top h"
  "comp_list_ptr (put_cell c v h) = comp_list_ptr h"
  "pin_list_ptr (put_cell c v h) = pin_list_ptr h"
  "param_list_ptr (put_cell c v h) = param_list_ptr h"
  "funct_list_ptr (put_cell c v h) = funct_list_ptr h"
  "thread_list_ptr (put_cell c v h) = thread_list_ptr h"
  "base_period (put_cell c v h) = base_period h"
  "threads_running (put_cell c v h) = threads_running h"
  "oldname_free_ptr (put_cell c v h) = oldname_free_ptr h"
  "comp_free_ptr (put_cell c v h) = comp_free_ptr h"
  "pin_free_ptr (put_cell c v h) = pin_free_ptr h"
  "param_free_ptr (put_cell c v h) = param_free_ptr h"
  "funct_free_ptr (put_cell c v h) = funct_free_ptr h"
  "thread_free_ptr (put_cell c v h) = thread_free_ptr h"
  "exact_base_period (put_cell c v h) = exact_base_period h"
  "hd_lock (put_cell c v h) = hd_lock h"
  "hd_state (put_cell c v h) = hd_state h"
  "init_pid (put_cell c v h) = init_pid h"
  "hd_error_code (put_cell c v h) = hd_error_code h"
  "comps (put_cell c v h) = comps h"
  "pins (put_cell c v h) = pins h"
  "params (put_cell c v h) = params h"
  "entries (put_cell c v h) = entries h"
  "oldnames (put_cell c v h) = oldnames h"
  "links (put_cell c v h) = links h"
  "hal_data (put_cell c v h) = hal_data h"
  "ref_cnt (put_cell c v h) = ref_cnt h"
  "lib_module_id (put_cell c v h) = lib_module_id h"
  "lib_mem_id (put_cell c v h) = lib_mem_id h"
  by (cases c; simp)+

lemma put_cell_field [simp]:
  "f_next (functs (put_cell c v h) q) = f_next (functs h q)"
  "f_uses_fp (functs (put_cell c v h) q) = f_uses_fp (functs h q)"
  "f_owner (functs (put_cell c v h) q) = f_owner (functs h q)"
  "f_reentrant (functs (put_cell c v h) q) = f_reentrant (functs h q)"
  "f_users (functs (put_cell c v h) q) = f_users (functs h q)"
  "f_arg (functs (put_cell c v h) q) = f_arg (functs h q)"
  "f_funct (functs (put_cell c v h) q) = f_funct (functs h q)"
  "f_maxtime (functs (put_cell c v h) q) = f_maxtime (functs h q)"
  "f_maxtime_increased (functs (put_cell c v h) q) = f_maxtime_increased (functs h q)"
  "f_name (functs (put_cell c v h) q) = f_name (functs h q)"
  "t_next (threads (put_cell c v h) q) = t_next (threads h q)"
  "t_uses_fp (threads (put_cell c v h) q) = t_uses_fp (threads h q)"
  "t_period (threads (put_cell c v h) q) = t_period (threads h q)"
  "t_priority (threads (put_cell c v h) q) = t_priority (threads h q)"
  "t_task_id (threads (put_cell c v h) q) = t_task_id (threads h q)"
  "t_maxtime (threads (put_cell c v h) q) = t_maxtime (threads h q)"
  "t_name (threads (put_cell c v h) q) = t_name (threads h q)"
  "t_comp_id (threads (put_cell c v h) q) = t_comp_id (threads h q)"
  by (cases c; simp)+

lemma area_wf_put_cell [simp]: "area_wf (put_cell c v h) = area_wf h"
  by (simp add: area_wf_def area_ok_def)

text \<open>What taking a block leaves alone.\<close>

lemma shmalloc_dn_frame:
  "shmalloc_dn sz h = (r, t) \<Longrightarrow> \<exists>tp av. t = h\<lparr>shmem_top := tp, shmem_avail := av\<rparr>"
  by (rule exI [of _ "shmem_top t"], rule exI [of _ "shmem_avail t"])
    (auto simp: shmalloc_dn_def Let_def split: if_splits)

text \<open>A block costs at most 15 bytes more than its size, and is served while there is room for that.\<close>

lemma shmalloc_dn_room:
  assumes "area_wf h" "0 < sz"
  shows "shmalloc_dn sz h = (Some n, t) \<Longrightarrow> shmem_top h - sz - 15 \<le> shmem_top t"
    and "shmem_bot h + sz + 15 \<le> shmem_top h \<Longrightarrow> fst (shmalloc_dn sz h) \<noteq> None"
proof -
  define x where "x = (let y = shmem_top h - sz in if sz \<ge> 16 then align_dn 16 y else if sz \<ge> 8 then align_dn 8 y
     else if sz \<ge> 4 then align_dn 4 y else if sz = 2 then align_dn 2 y else y)"
  have x: "shmem_top h - sz - 15 \<le> x" "x \<le> shmem_top h - sz"
    by (simp_all add: x_def Let_def align_dn_simps) linarith+
  have sh: "shmalloc_dn sz h = (if x < shmem_bot h then (None, h)
      else (Some x, h\<lparr>shmem_top := to_s32 x, shmem_avail := to_s32 (to_s32 x - shmem_bot h)\<rparr>))"
    by (simp add: shmalloc_dn_def x_def Let_def)
  have s32: "shmem_bot h \<le> x \<Longrightarrow> to_s32 x = x"
    using x(2) assms by (intro to_s32_id) (auto simp: area_wf_def area_ok_def HAL_SIZE_def)
  show "shmalloc_dn sz h = (Some n, t) \<Longrightarrow> shmem_top h - sz - 15 \<le> shmem_top t"
    using x(1) s32 by (auto simp: sh split: if_splits)
  show "shmem_bot h + sz + 15 \<le> shmem_top h \<Longrightarrow> fst (shmalloc_dn sz h) \<noteq> None"
    using x(1) by (simp add: sh)
qed

section \<open>Pins: the steps\<close>

lemma alloc_pin_Some:
  assumes "hal_rep h G" "alloc_pin_struct h = (Some n, t)"
  obtains pn fr tp av where "t = h\<lparr>shmem_avail := av, shmem_top := tp, pin_free_ptr := fr, pins := pn\<rparr>"
    and "spare (\<lambda>p. p_next (pn p)) (pin_list_ptr h) fr tp sizeof_hal_pin n (s_pins G) (tl (s_pins_free G))"
    and "\<forall>p. p \<noteq> n \<longrightarrow> pn p = pins h p" "p_oldname (pn n) = 0"
    and "area_wf t" "tp \<le> shmem_top h" "shmem_top h - 128 \<le> tp"
    and "if s_pins_free G = [] then n = tp \<and> n + sizeof_hal_pin \<le> shmem_top h
         else n = hd (s_pins_free G) \<and> tp = shmem_top h"
proof -
  from assms(2) obtain t' where t': "take_struct pin_free_ptr (\<lambda>v h. h\<lparr>pin_free_ptr := v\<rparr>)
      (\<lambda>h p. p_next (pins h p)) set_p_next (shmalloc_dn sizeof_hal_pin) h = (Some n, t')"
    and t: "t = upd_pin n (\<lambda>s. s\<lparr>p_next := 0, p_data_ptr_addr := 0, p_owner := 0, p_type := HAL_TYPE_UNINITIALIZED,
      p_signal := 0, p_dummysig := 0, p_name := [], p_oldname := 0\<rparr>) t'"
    by (auto simp: alloc_pin_struct_def split: prod.splits option.splits)
  from assms(1) have a: "area_wf h" and p: "pool (\<lambda>p. p_next (pins h p)) (pin_list_ptr h) (pin_free_ptr h)
      (shmem_top h) sizeof_hal_pin (s_pins G) (s_pins_free G)" and o: "p_oldname (pins h n) = 0"
    by (auto simp: hal_rep_def pins_ok_def)
  note T = pin_pool.take_Some [OF a p t']
  have "t' = h\<lparr>shmem_avail := shmem_avail t', shmem_top := shmem_top t', pin_free_ptr := pin_free_ptr t',
      pins := pins t'\<rparr> \<and> (\<forall>p. p \<noteq> n \<longrightarrow> pins t' p = pins h p) \<and> p_oldname (pins t' n) = 0 \<and> shmem_top h - 128 \<le> shmem_top t'"
  proof (cases "pin_free_ptr h = 0")
    case True
    with t' have "shmalloc_dn sizeof_hal_pin h = (Some n, t')" by (simp add: take_struct_def)
    then show ?thesis using shmalloc_dn_room(1) [OF a sizeof_pos(2), of n t']
      by (auto dest!: shmalloc_dn_frame simp: o sizeof_hal_pin_def)
  next
    case False
    with t' have "n = pin_free_ptr h \<and> t' = set_p_next n 0 (h\<lparr>pin_free_ptr := p_next (pins h n)\<rparr>)"
      by (auto simp: take_struct_def Let_def)
    then show ?thesis using o by (auto simp: set_p_next_def upd_pin_def)
  qed
  then obtain av tp fr pn where f: "t' = h\<lparr>shmem_avail := av, shmem_top := tp, pin_free_ptr := fr, pins := pn\<rparr>"
    "\<And>p. p \<noteq> n \<Longrightarrow> pn p = pins h p" "p_oldname (pn n) = 0" "shmem_top h - 128 \<le> tp" by auto
  show ?thesis
  proof (rule that)
    show "t = h\<lparr>shmem_avail := av, shmem_top := tp, pin_free_ptr := fr, pins := pins t\<rparr>"
      by (simp add: t f(1) upd_pin_def)
    show "spare (\<lambda>p. p_next (pins t p)) (pin_list_ptr h) fr tp sizeof_hal_pin n (s_pins G) (tl (s_pins_free G))"
      using T by (auto simp: t f(1) upd_pin_heap elim!: spare_next)
  qed (use T f(2-4) in \<open>auto simp: t f(1) split: if_splits\<close>)
qed

lemma alloc_pin_None:
  assumes "hal_rep h G" "alloc_pin_struct h = (None, t)"
  shows "t = h"
  using assms pin_pool.take_None [of h "s_pins G" "s_pins_free G"]
  by (auto simp: alloc_pin_struct_def hal_rep_def pins_ok_def split: prod.splits option.splits)

lemma alloc_pin_lock: "fst (alloc_pin_struct (h\<lparr>hd_mutex := m\<rparr>)) = fst (alloc_pin_struct h)"
  by (simp add: alloc_pin_struct_def take_struct_def shmalloc_dn_def Let_def split: prod.splits option.splits)

text \<open>The other parts stay as they are.\<close>

lemma hal_rep_pins:
  assumes rep: "hal_rep h G" and "area_wf h'" "shmem_top h' \<le> shmem_top h"
    and gr: "set (xs @ ys) = set (s_pins G @ s_pins_free G)
      \<or> (\<exists>n. set (xs @ ys) = insert n (set (s_pins G @ s_pins_free G)) \<and> n + sizeof_hal_pin \<le> shmem_top h)"
    and "pins_ok h' (G\<lparr>s_pins := xs, s_pins_free := ys\<rparr>)"
    and "keeps_comps h h'" "keeps_params h h'" "keeps_functs h h'" "keeps_threads h h'" "keeps_rings h h'"
    and "keeps_users h h'"
  shows "hal_rep h' (G\<lparr>s_pins := xs, s_pins_free := ys\<rparr>)"
proof (rule hal_rep_step [OF rep])
  let ?G = "G\<lparr>s_pins := xs, s_pins_free := ys\<rparr>"
  note parts = hal_rep_parts [OF rep]
  show "blocks ?G = blocks G \<or> (\<exists>n sz. blocks ?G = insert (n, sz) (blocks G) \<and> n + sz \<le> shmem_top h)"
    using gr
  proof
    assume g: "set (xs @ ys) = set (s_pins G @ s_pins_free G)"
    show ?thesis by (intro disjI1) (simp add: blocks_def all_entries_def g del: set_append)
  next
    assume "\<exists>n. set (xs @ ys) = insert n (set (s_pins G @ s_pins_free G)) \<and> n + sizeof_hal_pin \<le> shmem_top h"
    then obtain n where g: "set (xs @ ys) = insert n (set (s_pins G @ s_pins_free G))" and l: "n + sizeof_hal_pin \<le> shmem_top h"
      by blast
    have "blocks ?G = insert (n, sizeof_hal_pin) (blocks G)"
      by (simp add: blocks_def all_entries_def g del: set_append)
    with l show ?thesis by blast
  qed
  show "comps_ok h' ?G" by (rule comps_ok_frame [OF parts(2)]) (simp_all add: assms)
  show "params_ok h' ?G" by (rule params_ok_frame [OF parts(4)]) (simp_all add: assms)
  show "functs_ok h' ?G" by (rule functs_ok_frame [OF parts(5)]) (simp_all add: assms)
  show "threads_ok h' ?G" by (rule threads_ok_frame [OF parts(6)]) (simp_all add: assms)
  show "rings_ok h' ?G" by (rule rings_ok_frame [OF parts(7)]) (simp_all add: assms)
  show "users_ok h' ?G" by (rule users_ok_frame [OF parts(8)]) (simp_all add: assms)
qed (use assms in simp_all)

text \<open>Linking a struct in only writes links, and giving it back only the struct and the free list.\<close>

lemma pin_next_id: "\<exists>v. (s :: hal_pin) = s\<lparr>p_next := v\<rparr>"
  by (rule exI [of _ "p_next s"]) simp

lemma link_in_pin:
  obtains pn pl where
    "link_in (\<lambda>v h. h\<lparr>pin_list_ptr := v\<rparr>) set_p_next prev nxt n s = s\<lparr>pin_list_ptr := pl, pins := pn\<rparr>"
    "\<forall>q. \<exists>v. pn q = (pins s q)\<lparr>p_next := v\<rparr>"
proof -
  let ?t = "link_in (\<lambda>v h. h\<lparr>pin_list_ptr := v\<rparr>) set_p_next prev nxt n s"
  have "\<exists>pl pn. ?t = s\<lparr>pin_list_ptr := pl, pins := pn\<rparr>"
    by (rule exI [of _ "pin_list_ptr ?t"], rule exI [of _ "pins ?t"], cases prev)
      (simp_all add: link_in_def put_link_def set_p_next_def upd_pin_def)
  then obtain pl pn where t: "?t = s\<lparr>pin_list_ptr := pl, pins := pn\<rparr>" by blast
  then have "pn = pins ?t" by simp
  moreover have "\<forall>q. \<exists>v. pins ?t q = (pins s q)\<lparr>p_next := v\<rparr>"
    by (cases prev; auto simp: link_in_def put_link_def set_p_next_def upd_pin_heap intro: pin_next_id)
  ultimately show ?thesis using that [of pn pl] t by blast
qed

lemma free_pin_pool:
  assumes sp: "spare (\<lambda>p. p_next (pins h p)) (pin_list_ptr h) (pin_free_ptr h) (shmem_top h) sizeof_hal_pin n xs ys"
    and o: "p_oldname (pins h n) = 0"
  obtains pn where "free_pin_struct n h = h\<lparr>pin_free_ptr := n, pins := pn\<rparr>"
    "pool (\<lambda>p. p_next (pn p)) (pin_list_ptr h) n (shmem_top h) sizeof_hal_pin xs (n # ys)"
    "\<forall>p. p \<noteq> n \<longrightarrow> pn p = pins h p" "p_oldname (pn n) = 0"
proof -
  let ?k = "upd_pin n (\<lambda>s. s\<lparr>p_data_ptr_addr := 0, p_owner := 0, p_type := HAL_TYPE_UNINITIALIZED,
                p_signal := 0, p_dummysig := 0, p_name := []\<rparr>) h"
  let ?h3 = "free_pin_struct n h"
  have h3: "?h3 = (set_p_next n (pin_free_ptr ?k) ?k)\<lparr>pin_free_ptr := n\<rparr>"
    by (simp add: free_pin_struct_def o)
  from sp have "spare (\<lambda>p. p_next (pins ?k p)) (pin_list_ptr ?k) (pin_free_ptr ?k) (shmem_top ?k)
      sizeof_hal_pin n xs ys" by simp
  from pin_pool.free_pool [OF this h3]
  have po: "pool (\<lambda>p. p_next (pins ?h3 p)) (pin_list_ptr ?h3) (pin_free_ptr ?h3) (shmem_top ?h3) sizeof_hal_pin
      xs (n # ys)" .
  have e: "?h3 = h\<lparr>pin_free_ptr := n, pins := pins ?h3\<rparr>"
    unfolding h3 by (simp add: set_p_next_def upd_pin_def)
  have "pool (\<lambda>p. p_next (pins ?h3 p)) (pin_list_ptr h) n (shmem_top h) sizeof_hal_pin xs (n # ys)"
    using po by (simp add: h3 set_p_next_def)
  moreover have "\<forall>p. p \<noteq> n \<longrightarrow> pins ?h3 p = pins h p" "p_oldname (pins ?h3 n) = 0"
    using o by (simp_all add: h3 set_p_next_def)
  ultimately show ?thesis using that e by blast
qed

text \<open>The names, in the order of the list.\<close>

definition pin_names :: "hal \<Rightarrow> string list" where
  "pin_names h = map (\<lambda>p. p_name (pins h p)) (nodes (\<lambda>p. p_next (pins h p)) (pin_list_ptr h))"

lemma pin_names_rep: "hal_rep h G \<Longrightarrow> pin_names h = map (\<lambda>p. p_name (pins h p)) (s_pins G)"
  using nodes_chain [of "\<lambda>p. p_next (pins h p)" "pin_list_ptr h" "s_pins G"]
  by (simp add: pin_names_def hal_rep_def pins_ok_def pool_def)

text \<open>The pins in the list.\<close>

definition pin_set :: "hal \<Rightarrow> off set" where
  "pin_set h = set (nodes (\<lambda>p. p_next (pins h p)) (pin_list_ptr h))"

lemma pin_set_rep: "hal_rep h G \<Longrightarrow> pin_set h = set (s_pins G)"
  using nodes_chain [of "\<lambda>p. p_next (pins h p)" "pin_list_ptr h" "s_pins G"]
  by (simp add: pin_set_def hal_rep_def pins_ok_def pool_def)

lemma pin_set_lock [simp]: "pin_set (h\<lparr>hd_mutex := m\<rparr>) = pin_set h" "pin_set (hal_mutex_give h) = pin_set h"
  by (simp_all add: pin_set_def hal_mutex_give_def)

text \<open>What is registered under a name.\<close>

definition pin_info :: "hal_pin \<Rightarrow> hal_type \<times> off \<times> int" where
  "pin_info s = (p_type s, p_owner s, p_data_ptr_addr s)"

definition pin_table :: "hal \<Rightarrow> string \<rightharpoonup> hal_type \<times> off \<times> int" where
  "pin_table h = map_of (map (\<lambda>p. (p_name (pins h p), pin_info (pins h p)))
     (nodes (\<lambda>p. p_next (pins h p)) (pin_list_ptr h)))"

lemma pin_table_rep:
  "hal_rep h G \<Longrightarrow> pin_table h = map_of (map (\<lambda>p. (p_name (pins h p), pin_info (pins h p))) (s_pins G))"
  using nodes_chain [of "\<lambda>p. p_next (pins h p)" "pin_list_ptr h" "s_pins G"]
  by (simp add: pin_table_def hal_rep_def pins_ok_def pool_def)

lemma pin_table_lock [simp]: "pin_table (h\<lparr>hd_mutex := m\<rparr>) = pin_table h"
  by (simp add: pin_table_def)

lemma pin_table_give [simp]: "pin_table (hal_mutex_give h) = pin_table h"
  by (simp add: hal_mutex_give_def)

lemma pin_names_lock [simp]: "pin_names (h\<lparr>hd_mutex := m\<rparr>) = pin_names h"
  by (simp add: pin_names_def)

lemma pin_names_give [simp]: "pin_names (hal_mutex_give h) = pin_names h"
  by (simp add: hal_mutex_give_def)

text \<open>
  A struct \<open>n\<close> has been taken and filled, which gave \<open>h2\<close>. It goes to its place, or back to
  the free list when its name is taken.
\<close>

definition pin_filled :: "off \<Rightarrow> hal_pin \<Rightarrow> hal \<Rightarrow> shape \<Rightarrow> hal \<Rightarrow> bool" where
  "pin_filled n x h G h2 \<longleftrightarrow> (\<forall>p. pins h2 p = (if p = n then x else pins h p)) \<and> (\<forall>p. p_oldname (pins h2 p) = 0) \<and>
     spare (\<lambda>p. p_next (pins h2 p)) (pin_list_ptr h2) (pin_free_ptr h2) (shmem_top h2) sizeof_hal_pin n (s_pins G) (tl (s_pins_free G)) \<and>
     grown (s_pins G) (s_pins_free G) n (shmem_top h - sizeof_hal_pin) \<and> shmem_top h2 \<le> shmem_top h \<and> area_wf h2 \<and>
     keeps_comps h h2 \<and> keeps_params h h2 \<and> keeps_functs h h2 \<and> keeps_threads h h2 \<and> keeps_rings h h2 \<and> keeps_users h h2"

lemma pin_filledI:
  assumes rep: "hal_rep h G" and al: "alloc_pin_struct h = (Some n, t)"
    and h2: "pins h2 = (pins t)(n := x)" "pin_list_ptr h2 = pin_list_ptr t" "pin_free_ptr h2 = pin_free_ptr t"
    and x: "p_oldname x = 0"
    and top: "shmem_top h2 = shmem_top t" "area_wf h2"
    and ks: "keeps_comps h h2" "keeps_params h h2" "keeps_functs h h2" "keeps_threads h h2" "keeps_rings h h2"
      "keeps_users h h2"
  shows "pin_filled n x h G h2"
proof -
  obtain pn fr tp av where t: "t = h\<lparr>shmem_avail := av, shmem_top := tp, pin_free_ptr := fr, pins := pn\<rparr>"
    and sp: "spare (\<lambda>p. p_next (pn p)) (pin_list_ptr h) fr tp sizeof_hal_pin n (s_pins G) (tl (s_pins_free G))"
    and pn: "\<forall>p. p \<noteq> n \<longrightarrow> pn p = pins h p" "p_oldname (pn n) = 0" and tp: "tp \<le> shmem_top h"
    and n: "if s_pins_free G = [] then n = tp \<and> n + sizeof_hal_pin \<le> shmem_top h
         else n = hd (s_pins_free G) \<and> tp = shmem_top h"
    by (rule alloc_pin_Some [OF rep al])
  have "pins_ok h G" using rep by (simp add: hal_rep_def)
  moreover have ps: "pins h2 p = (if p = n then x else pins h p)" for p
    using pn by (simp add: h2 t)
  ultimately have "p_oldname (pins h2 p) = 0" for p using x by (simp add: pins_ok_def)
  moreover have "spare (\<lambda>p. p_next (pins h2 p)) (pin_list_ptr h2) (pin_free_ptr h2) (shmem_top h2) sizeof_hal_pin n
      (s_pins G) (tl (s_pins_free G))"
    using sp by (auto simp: h2 top t elim: spare_next)
  moreover have "grown (s_pins G) (s_pins_free G) n (shmem_top h - sizeof_hal_pin)"
    by (rule grownI) (use n in \<open>auto split: if_splits\<close>)
  ultimately show ?thesis using ps tp top ks by (simp add: pin_filled_def t)
qed

lemma pin_filled_names:
  assumes rep: "hal_rep h G" and f: "pin_filled n x h G h2"
  shows "map (\<lambda>p. p_name (pins h2 p)) (s_pins G) = pin_names h" "n \<notin> set (s_pins G)"
    "(\<lambda>p. p_name (pins h2 p)) ` set (s_pins G) = set (pin_names h)"
    "sorted_names (\<lambda>p. p_name (pins h2 p)) (s_pins G)"
proof -
  show nin: "n \<notin> set (s_pins G)" using f by (simp add: pin_filled_def spare_def)
  then show mp: "map (\<lambda>p. p_name (pins h2 p)) (s_pins G) = pin_names h"
    using f by (auto simp: pin_names_rep [OF rep] pin_filled_def)
  show "(\<lambda>p. p_name (pins h2 p)) ` set (s_pins G) = set (pin_names h)"
    using arg_cong [OF mp, of set] by simp
  show "sorted_names (\<lambda>p. p_name (pins h2 p)) (s_pins G)"
    unfolding sorted_names_def mp using hal_rep_parts(3) [OF rep]
    by (simp add: pins_ok_def sorted_names_def pin_names_rep [OF rep])
qed

lemma pin_filled_rep:
  assumes "hal_rep h G" "pin_filled n x h G h2" "pins_ok h3 (G\<lparr>s_pins := xs, s_pins_free := ys\<rparr>)"
    and "set (xs @ ys) = set (s_pins G @ n # tl (s_pins_free G))" "h3 = h2\<lparr>pin_list_ptr := pl, pin_free_ptr := fr, pins := pn\<rparr>"
  shows "hal_rep h3 (G\<lparr>s_pins := xs, s_pins_free := ys\<rparr>)"
proof (rule hal_rep_pins [OF assms(1) _ _ _ assms(3)])
  show "set (xs @ ys) = set (s_pins G @ s_pins_free G) \<or>
      (\<exists>n. set (xs @ ys) = insert n (set (s_pins G @ s_pins_free G)) \<and> n + sizeof_hal_pin \<le> shmem_top h)"
    using assms(2) unfolding assms(4) by (auto simp: pin_filled_def grown_def)
qed (use assms(2) in \<open>simp_all add: assms(5) pin_filled_def keeps_defs\<close>)

text \<open>The name is taken: back to the free list.\<close>

lemma pin_insert_back:
  assumes rep: "hal_rep h G" and f: "pin_filled n x h G h2" and nm: "p_name x = nm" "nm \<in> set (pin_names h)"
  shows "\<exists>h3 pn. pin_insert n h2 = Inr (- EINVAL, hal_mutex_give h3) \<and> h3 = h2\<lparr>pin_free_ptr := n, pins := pn\<rparr> \<and>
    (\<exists>G'. hal_rep h3 G') \<and> pin_names h3 = pin_names h \<and> pin_table h3 = pin_table h"
proof -
  note F = f [unfolded pin_filled_def] and N = pin_filled_names [OF rep f]
  from F have ps: "pins h2 p = (if p = n then x else pins h p)" and o2: "p_oldname (pins h2 p) = 0" for p by blast+
  from F have sp: "spare (\<lambda>p. p_next (pins h2 p)) (pin_list_ptr h2) (pin_free_ptr h2) (shmem_top h2) sizeof_hal_pin n
      (s_pins G) (tl (s_pins_free G))" by blast
  have nmn: "p_name (pins h2 n) = nm" by (simp add: ps nm)
  have w: "ins_walk (\<lambda>p. p_next (pins h2 p)) (\<lambda>p. strcmp (p_name (pins h2 p)) nm) At_head (pin_list_ptr h2) = Some None"
    by (rule pin_pool.insert_named(1) [OF sp N(4), unfolded N(3) nmn N(1), OF nm(2)])
  obtain pn3 where h3: "free_pin_struct n h2 = h2\<lparr>pin_free_ptr := n, pins := pn3\<rparr>"
    and po: "pool (\<lambda>p. p_next (pn3 p)) (pin_list_ptr h2) n (shmem_top h2) sizeof_hal_pin (s_pins G) (n # tl (s_pins_free G))"
    and pn3: "\<forall>p. p \<noteq> n \<longrightarrow> pn3 p = pins h2 p" "p_oldname (pn3 n) = 0"
    by (rule free_pin_pool [OF sp o2])
  let ?h3 = "h2\<lparr>pin_free_ptr := n, pins := pn3\<rparr>" and ?G = "G\<lparr>s_pins := s_pins G, s_pins_free := n # tl (s_pins_free G)\<rparr>"
  have old: "pn3 p = pins h p" if "p \<in> set (s_pins G)" for p
    by (cases "p = n") (use that N(2) pn3 ps in auto)
  have mp3: "map (\<lambda>p. p_name (pn3 p)) (s_pins G) = pin_names h"
    unfolding pin_names_rep [OF rep] by (rule map_cong [OF refl]) (simp add: old)
  have tb3: "map (\<lambda>p. (p_name (pn3 p), pin_info (pn3 p))) (s_pins G) = map (\<lambda>p. (p_name (pins h p), pin_info (pins h p))) (s_pins G)"
    by (rule map_cong [OF refl]) (simp add: old)
  have "p_oldname (pn3 p) = 0" for p using o2 pn3 by (cases "p = n") auto
  then have ok3: "pins_ok ?h3 ?G"
    using po N(4) [unfolded sorted_names_def N(1)] by (simp add: pins_ok_def sorted_names_def mp3)
  have rep3: "hal_rep ?h3 ?G"
    by (rule pin_filled_rep [OF rep f ok3, where pl = "pin_list_ptr h2" and fr = n and pn = pn3]) simp_all
  have "pin_table ?h3 = pin_table h" "pin_names ?h3 = pin_names h"
    using tb3 [THEN arg_cong, of map_of] mp3 by (simp_all add: pin_table_rep [OF rep3] pin_table_rep [OF rep] pin_names_rep [OF rep3])
  then show ?thesis
    by (rule_tac exI [of _ ?h3], rule_tac exI [of _ pn3]) (use rep3 w h3 nm in \<open>auto simp: pin_insert_def ps\<close>)
qed

text \<open>The name is new: in its place of the list.\<close>

lemma pin_insert_place:
  assumes rep: "hal_rep h G" and f: "pin_filled n x h G h2" and nm: "p_name x = nm" "nm \<notin> set (pin_names h)"
  shows "\<exists>h3 pl pn. pin_insert n h2 = Inr (0, hal_mutex_give h3) \<and> h3 = h2\<lparr>pin_list_ptr := pl, pins := pn\<rparr> \<and>
    (\<exists>G'. hal_rep h3 G') \<and> pin_names h3 = insort nm (pin_names h) \<and> pin_table h3 = (pin_table h)(nm \<mapsto> pin_info x) \<and>
    n \<notin> pin_set h \<and> pin_set h3 = insert n (pin_set h) \<and>
    (\<forall>q. p_dummysig (pn q) = p_dummysig (if q = n then x else pins h q))"
proof -
  note F = f [unfolded pin_filled_def] and N = pin_filled_names [OF rep f]
  from F have ps: "pins h2 p = (if p = n then x else pins h p)" and o2: "p_oldname (pins h2 p) = 0" for p by blast+
  from F have sp: "spare (\<lambda>p. p_next (pins h2 p)) (pin_list_ptr h2) (pin_free_ptr h2) (shmem_top h2) sizeof_hal_pin n
      (s_pins G) (tl (s_pins_free G))" by blast
  have nmn: "p_name (pins h2 n) = nm" by (simp add: ps nm)
  from pin_pool.insert_named(2) [OF sp N(4), unfolded N(3) nmn N(1), OF nm(2)] obtain prev nxt us vs where
    w: "ins_walk (\<lambda>p. p_next (pins h2 p)) (\<lambda>p. strcmp (p_name (pins h2 p)) nm) At_head (pin_list_ptr h2)
        = Some (Some (prev, nxt))" and uv: "s_pins G = us @ vs"
    and po: "pool (\<lambda>p. p_next (pins (link_in (\<lambda>v h. h\<lparr>pin_list_ptr := v\<rparr>) set_p_next prev nxt n h2) p))
          (pin_list_ptr (link_in (\<lambda>v h. h\<lparr>pin_list_ptr := v\<rparr>) set_p_next prev nxt n h2))
          (pin_free_ptr (link_in (\<lambda>v h. h\<lparr>pin_list_ptr := v\<rparr>) set_p_next prev nxt n h2))
          (shmem_top (link_in (\<lambda>v h. h\<lparr>pin_list_ptr := v\<rparr>) set_p_next prev nxt n h2)) sizeof_hal_pin
          (us @ n # vs) (tl (s_pins_free G))"
      "sorted_names (\<lambda>p. p_name (pins (link_in (\<lambda>v h. h\<lparr>pin_list_ptr := v\<rparr>) set_p_next prev nxt n h2) p)) (us @ n # vs)"
      "map (\<lambda>p. p_name (pins (link_in (\<lambda>v h. h\<lparr>pin_list_ptr := v\<rparr>) set_p_next prev nxt n h2) p)) (us @ n # vs)
         = insort nm (pin_names h)"
    by (auto simp only: Let_def)
  obtain pn3 pl3 where h3: "link_in (\<lambda>v h. h\<lparr>pin_list_ptr := v\<rparr>) set_p_next prev nxt n h2
      = h2\<lparr>pin_list_ptr := pl3, pins := pn3\<rparr>" and l3: "\<forall>q. \<exists>v. pn3 q = (pins h2 q)\<lparr>p_next := v\<rparr>"
    by (rule link_in_pin)
  have s3: "p_oldname (pn3 q) = p_oldname (pins h2 q)" "pin_info (pn3 q) = pin_info (pins h2 q)"
    "p_name (pn3 q) = p_name (pins h2 q)" "p_dummysig (pn3 q) = p_dummysig (pins h2 q)" for q
    using spec [OF l3, of q] by (auto simp: pin_info_def)
  let ?h3 = "h2\<lparr>pin_list_ptr := pl3, pins := pn3\<rparr>" and ?G = "G\<lparr>s_pins := us @ n # vs, s_pins_free := tl (s_pins_free G)\<rparr>"
  have ok3: "pins_ok ?h3 ?G" using po(1,2) by (simp add: pins_ok_def h3 s3 o2)
  have rep3: "hal_rep ?h3 ?G"
    by (rule pin_filled_rep [OF rep f ok3, where pl = pl3 and fr = "pin_free_ptr h2" and pn = pn3]) (auto simp: uv)
  have "pin_set ?h3 = insert n (pin_set h)" "n \<notin> pin_set h"
    using N(2) by (auto simp: pin_set_rep [OF rep3] pin_set_rep [OF rep] uv)
  moreover have "pin_names ?h3 = insort nm (pin_names h)" using po(3) by (simp add: pin_names_rep [OF rep3] h3)
  moreover have "map_of (map (\<lambda>p. (p_name (pn3 p), pin_info (pn3 p))) (us @ n # vs)) =
      (map_of (map (\<lambda>p. (p_name (pins h p), pin_info (pins h p))) (us @ vs)))(nm \<mapsto> pin_info x)"
    by (rule map_of_place) (use N(2) nm in \<open>auto simp: uv s3 ps pin_names_rep [OF rep]\<close>)
  then have "pin_table ?h3 = (pin_table h)(nm \<mapsto> pin_info x)" by (simp add: pin_table_rep [OF rep3] pin_table_rep [OF rep] uv)
  moreover have "p_dummysig (pn3 q) = p_dummysig (if q = n then x else pins h q)" for q by (simp add: s3 ps)
  moreover have "pin_insert n h2 = Inr (0, hal_mutex_give ?h3)" by (simp add: pin_insert_def nmn w h3)
  ultimately show ?thesis
    by (rule_tac exI [of _ ?h3], rule_tac exI [of _ pl3], rule_tac exI [of _ pn3]) (use rep3 in auto)
qed

lemma pin_insert_result:
  assumes rep: "hal_rep h G" and al: "alloc_pin_struct h = (Some n, t)"
    and h2: "pins h2 = (pins t)(n := x)" "pin_list_ptr h2 = pin_list_ptr t" "pin_free_ptr h2 = pin_free_ptr t"
    and x: "p_oldname x = 0" "p_name x = nm"
    and top: "shmem_top h2 = shmem_top t" "area_wf h2"
    and ks: "keeps_comps h h2" "keeps_params h h2" "keeps_functs h h2" "keeps_threads h h2" "keeps_rings h h2"
      "keeps_users h h2"
  shows "\<exists>h3 pl fr pn. pin_insert n h2 = Inr (if nm \<in> set (pin_names h) then - EINVAL else 0, hal_mutex_give h3)
      \<and> h3 = h2\<lparr>pin_list_ptr := pl, pin_free_ptr := fr, pins := pn\<rparr> \<and> (\<exists>G'. hal_rep h3 G')
      \<and> pin_names h3 = (if nm \<in> set (pin_names h) then pin_names h else insort nm (pin_names h))
      \<and> pin_table h3 = (if nm \<in> set (pin_names h) then pin_table h else (pin_table h)(nm \<mapsto> pin_info x))
      \<and> (nm \<notin> set (pin_names h) \<longrightarrow> n \<notin> pin_set h \<and> pin_set h3 = insert n (pin_set h) \<and>
           (\<forall>q. p_dummysig (pn q) = p_dummysig (if q = n then x else pins h q)))"
proof -
  have f: "pin_filled n x h G h2" by (rule pin_filledI [OF rep al h2 x(1) top ks])
  show ?thesis
  proof (cases "nm \<in> set (pin_names h)")
    case True
    obtain h3 pn where b: "pin_insert n h2 = Inr (- EINVAL, hal_mutex_give h3)" "h3 = h2\<lparr>pin_free_ptr := n, pins := pn\<rparr>"
      "\<exists>G'. hal_rep h3 G'" "pin_names h3 = pin_names h" "pin_table h3 = pin_table h"
      using pin_insert_back [OF rep f x(2) True] by blast
    show ?thesis
      by (rule exI [of _ h3], rule exI [of _ "pin_list_ptr h2"], rule exI [of _ n], rule exI [of _ pn])
        (use b True in simp)
  next
    case False
    obtain h3 pl pn where b: "pin_insert n h2 = Inr (0, hal_mutex_give h3)" "h3 = h2\<lparr>pin_list_ptr := pl, pins := pn\<rparr>"
      "\<exists>G'. hal_rep h3 G'" "pin_names h3 = insort nm (pin_names h)" "pin_table h3 = (pin_table h)(nm \<mapsto> pin_info x)"
      "n \<notin> pin_set h" "pin_set h3 = insert n (pin_set h)"
      "\<forall>q. p_dummysig (pn q) = p_dummysig (if q = n then x else pins h q)"
      using pin_insert_place [OF rep f x(2) False] by blast
    show ?thesis
      by (rule exI [of _ h3], rule exI [of _ pl], rule exI [of _ "pin_free_ptr h2"], rule exI [of _ pn])
        (use b False in simp)
  qed
qed

section \<open>Parameters: the steps\<close>

lemma alloc_param_Some:
  assumes "hal_rep h G" "alloc_param_struct h = (Some n, t)"
  obtains pn fr tp av where "t = h\<lparr>shmem_avail := av, shmem_top := tp, param_free_ptr := fr, params := pn\<rparr>"
    and "spare (\<lambda>p. pm_next (pn p)) (param_list_ptr h) fr tp sizeof_hal_param n (s_params G) (tl (s_params_free G))"
    and "\<forall>p. p \<noteq> n \<longrightarrow> pn p = params h p" "pm_oldname (pn n) = 0"
    and "area_wf t" "tp \<le> shmem_top h"
    and "if s_params_free G = [] then n = tp \<and> n + sizeof_hal_param \<le> shmem_top h
         else n = hd (s_params_free G) \<and> tp = shmem_top h"
    and "shmem_top h - 128 \<le> tp"
proof -
  from assms(2) obtain t' where t': "take_struct param_free_ptr (\<lambda>v h. h\<lparr>param_free_ptr := v\<rparr>)
      (\<lambda>h p. pm_next (params h p)) set_pm_next (shmalloc_dn sizeof_hal_param) h = (Some n, t')"
    and t: "t = upd_param n (\<lambda>s. s\<lparr>pm_next := 0, pm_data_ptr := 0, pm_owner := 0,
            pm_type := HAL_TYPE_UNINITIALIZED, pm_name := []\<rparr>) t'"
    by (auto simp: alloc_param_struct_def split: prod.splits option.splits)
  from assms(1) have a: "area_wf h" and p: "pool (\<lambda>p. pm_next (params h p)) (param_list_ptr h) (param_free_ptr h)
      (shmem_top h) sizeof_hal_param (s_params G) (s_params_free G)" and o: "pm_oldname (params h n) = 0"
    by (auto simp: hal_rep_def params_ok_def)
  note T = param_pool.take_Some [OF a p t']
  have "t' = h\<lparr>shmem_avail := shmem_avail t', shmem_top := shmem_top t', param_free_ptr := param_free_ptr t',
      params := params t'\<rparr> \<and> (\<forall>p. p \<noteq> n \<longrightarrow> params t' p = params h p) \<and> pm_oldname (params t' n) = 0 \<and> shmem_top h - 128 \<le> shmem_top t'"
  proof (cases "param_free_ptr h = 0")
    case True
    with t' have "shmalloc_dn sizeof_hal_param h = (Some n, t')" by (simp add: take_struct_def)
    then show ?thesis using shmalloc_dn_room(1) [OF a sizeof_pos(3), of n t']
      by (auto dest!: shmalloc_dn_frame simp: o sizeof_hal_param_def)
  next
    case False
    with t' have "n = param_free_ptr h \<and> t' = set_pm_next n 0 (h\<lparr>param_free_ptr := pm_next (params h n)\<rparr>)"
      by (auto simp: take_struct_def Let_def)
    then show ?thesis using o by (auto simp: set_pm_next_def upd_param_def)
  qed
  then obtain av tp fr pn where f: "t' = h\<lparr>shmem_avail := av, shmem_top := tp, param_free_ptr := fr, params := pn\<rparr>"
    "\<And>p. p \<noteq> n \<Longrightarrow> pn p = params h p" "pm_oldname (pn n) = 0" "shmem_top h - 128 \<le> tp" by auto
  show ?thesis
  proof (rule that)
    show "t = h\<lparr>shmem_avail := av, shmem_top := tp, param_free_ptr := fr, params := params t\<rparr>"
      by (simp add: t f(1) upd_param_def)
    show "spare (\<lambda>p. pm_next (params t p)) (param_list_ptr h) fr tp sizeof_hal_param n (s_params G) (tl (s_params_free G))"
      using T by (auto simp: t f(1) upd_param_heap elim!: spare_next)
  qed (use T f(2-4) in \<open>auto simp: t f(1) split: if_splits\<close>)
qed

lemma alloc_param_None:
  assumes "hal_rep h G" "alloc_param_struct h = (None, t)"
  shows "t = h"
  using assms param_pool.take_None [of h "s_params G" "s_params_free G"]
  by (auto simp: alloc_param_struct_def hal_rep_def params_ok_def split: prod.splits option.splits)

lemma alloc_param_lock: "fst (alloc_param_struct (h\<lparr>hd_mutex := m\<rparr>)) = fst (alloc_param_struct h)"
  by (simp add: alloc_param_struct_def take_struct_def shmalloc_dn_def Let_def split: prod.splits option.splits)

text \<open>The other parts stay as they are.\<close>

lemma hal_rep_params:
  assumes rep: "hal_rep h G" and "area_wf h'" "shmem_top h' \<le> shmem_top h"
    and gr: "set (xs @ ys) = set (s_params G @ s_params_free G)
      \<or> (\<exists>n. set (xs @ ys) = insert n (set (s_params G @ s_params_free G)) \<and> n + sizeof_hal_param \<le> shmem_top h)"
    and "params_ok h' (G\<lparr>s_params := xs, s_params_free := ys\<rparr>)"
    and "keeps_comps h h'" "keeps_pins h h'" "keeps_functs h h'" "keeps_threads h h'" "keeps_rings h h'"
    and "keeps_users h h'"
  shows "hal_rep h' (G\<lparr>s_params := xs, s_params_free := ys\<rparr>)"
proof (rule hal_rep_step [OF rep])
  let ?G = "G\<lparr>s_params := xs, s_params_free := ys\<rparr>"
  note parts = hal_rep_parts [OF rep]
  show "blocks ?G = blocks G \<or> (\<exists>n sz. blocks ?G = insert (n, sz) (blocks G) \<and> n + sz \<le> shmem_top h)"
    using gr
  proof
    assume g: "set (xs @ ys) = set (s_params G @ s_params_free G)"
    show ?thesis by (intro disjI1) (simp add: blocks_def all_entries_def g del: set_append)
  next
    assume "\<exists>n. set (xs @ ys) = insert n (set (s_params G @ s_params_free G)) \<and> n + sizeof_hal_param \<le> shmem_top h"
    then obtain n where g: "set (xs @ ys) = insert n (set (s_params G @ s_params_free G))" and l: "n + sizeof_hal_param \<le> shmem_top h"
      by blast
    have "blocks ?G = insert (n, sizeof_hal_param) (blocks G)"
      by (simp add: blocks_def all_entries_def g del: set_append)
    with l show ?thesis by blast
  qed
  show "comps_ok h' ?G" by (rule comps_ok_frame [OF parts(2)]) (simp_all add: assms)
  show "pins_ok h' ?G" by (rule pins_ok_frame [OF parts(3)]) (simp_all add: assms)
  show "functs_ok h' ?G" by (rule functs_ok_frame [OF parts(5)]) (simp_all add: assms)
  show "threads_ok h' ?G" by (rule threads_ok_frame [OF parts(6)]) (simp_all add: assms)
  show "rings_ok h' ?G" by (rule rings_ok_frame [OF parts(7)]) (simp_all add: assms)
  show "users_ok h' ?G" by (rule users_ok_frame [OF parts(8)]) (simp_all add: assms)
qed (use assms in simp_all)

text \<open>Linking a struct in only writes links, and giving it back only the struct and the free list.\<close>

lemma param_next_id: "\<exists>v. (s :: hal_param) = s\<lparr>pm_next := v\<rparr>"
  by (rule exI [of _ "pm_next s"]) simp

lemma link_in_param:
  obtains pn pl where
    "link_in (\<lambda>v h. h\<lparr>param_list_ptr := v\<rparr>) set_pm_next prev nxt n s = s\<lparr>param_list_ptr := pl, params := pn\<rparr>"
    "\<forall>q. \<exists>v. pn q = (params s q)\<lparr>pm_next := v\<rparr>"
proof -
  let ?t = "link_in (\<lambda>v h. h\<lparr>param_list_ptr := v\<rparr>) set_pm_next prev nxt n s"
  have "\<exists>pl pn. ?t = s\<lparr>param_list_ptr := pl, params := pn\<rparr>"
    by (rule exI [of _ "param_list_ptr ?t"], rule exI [of _ "params ?t"], cases prev)
      (simp_all add: link_in_def put_link_def set_pm_next_def upd_param_def)
  then obtain pl pn where t: "?t = s\<lparr>param_list_ptr := pl, params := pn\<rparr>" by blast
  then have "pn = params ?t" by simp
  moreover have "\<forall>q. \<exists>v. params ?t q = (params s q)\<lparr>pm_next := v\<rparr>"
    by (cases prev; auto simp: link_in_def put_link_def set_pm_next_def upd_param_heap intro: param_next_id)
  ultimately show ?thesis using that [of pn pl] t by blast
qed

lemma free_param_pool:
  assumes sp: "spare (\<lambda>p. pm_next (params h p)) (param_list_ptr h) (param_free_ptr h) (shmem_top h) sizeof_hal_param n xs ys"
    and o: "pm_oldname (params h n) = 0"
  obtains pn where "free_param_struct n h = h\<lparr>param_free_ptr := n, params := pn\<rparr>"
    "pool (\<lambda>p. pm_next (pn p)) (param_list_ptr h) n (shmem_top h) sizeof_hal_param xs (n # ys)"
    "\<forall>p. p \<noteq> n \<longrightarrow> pn p = params h p" "pm_oldname (pn n) = 0"
proof -
  let ?k = "upd_param n (\<lambda>s. s\<lparr>pm_data_ptr := 0, pm_owner := 0, pm_type := HAL_TYPE_UNINITIALIZED,
                pm_name := []\<rparr>) h"
  let ?h3 = "free_param_struct n h"
  have h3: "?h3 = (set_pm_next n (param_free_ptr ?k) ?k)\<lparr>param_free_ptr := n\<rparr>"
    by (simp add: free_param_struct_def o)
  from sp have "spare (\<lambda>p. pm_next (params ?k p)) (param_list_ptr ?k) (param_free_ptr ?k) (shmem_top ?k)
      sizeof_hal_param n xs ys" by simp
  from param_pool.free_pool [OF this h3]
  have po: "pool (\<lambda>p. pm_next (params ?h3 p)) (param_list_ptr ?h3) (param_free_ptr ?h3) (shmem_top ?h3) sizeof_hal_param
      xs (n # ys)" .
  have e: "?h3 = h\<lparr>param_free_ptr := n, params := params ?h3\<rparr>"
    unfolding h3 by (simp add: set_pm_next_def upd_param_def)
  have "pool (\<lambda>p. pm_next (params ?h3 p)) (param_list_ptr h) n (shmem_top h) sizeof_hal_param xs (n # ys)"
    using po by (simp add: h3 set_pm_next_def)
  moreover have "\<forall>p. p \<noteq> n \<longrightarrow> params ?h3 p = params h p" "pm_oldname (params ?h3 n) = 0"
    using o by (simp_all add: h3 set_pm_next_def)
  ultimately show ?thesis using that e by blast
qed

text \<open>The names, in the order of the list.\<close>

definition param_names :: "hal \<Rightarrow> string list" where
  "param_names h = map (\<lambda>p. pm_name (params h p)) (nodes (\<lambda>p. pm_next (params h p)) (param_list_ptr h))"

lemma param_names_rep: "hal_rep h G \<Longrightarrow> param_names h = map (\<lambda>p. pm_name (params h p)) (s_params G)"
  using nodes_chain [of "\<lambda>p. pm_next (params h p)" "param_list_ptr h" "s_params G"]
  by (simp add: param_names_def hal_rep_def params_ok_def pool_def)

text \<open>What is registered under a name.\<close>

definition param_info :: "hal_param \<Rightarrow> hal_type \<times> int \<times> off \<times> int" where
  "param_info s = (pm_type s, pm_dir s, pm_owner s, pm_data_ptr s)"

definition param_table :: "hal \<Rightarrow> string \<rightharpoonup> hal_type \<times> int \<times> off \<times> int" where
  "param_table h = map_of (map (\<lambda>p. (pm_name (params h p), param_info (params h p)))
     (nodes (\<lambda>p. pm_next (params h p)) (param_list_ptr h)))"

lemma param_table_rep:
  "hal_rep h G \<Longrightarrow> param_table h = map_of (map (\<lambda>p. (pm_name (params h p), param_info (params h p))) (s_params G))"
  using nodes_chain [of "\<lambda>p. pm_next (params h p)" "param_list_ptr h" "s_params G"]
  by (simp add: param_table_def hal_rep_def params_ok_def pool_def)

lemma param_table_lock [simp]: "param_table (h\<lparr>hd_mutex := m\<rparr>) = param_table h"
  by (simp add: param_table_def)

lemma param_table_give [simp]: "param_table (hal_mutex_give h) = param_table h"
  by (simp add: hal_mutex_give_def)

lemma param_names_lock [simp]: "param_names (h\<lparr>hd_mutex := m\<rparr>) = param_names h"
  by (simp add: param_names_def)

lemma param_names_give [simp]: "param_names (hal_mutex_give h) = param_names h"
  by (simp add: hal_mutex_give_def)

text \<open>
  A struct \<open>n\<close> has been taken and filled, which gave \<open>h2\<close>. It goes to its place, or back to
  the free list when its name is taken.
\<close>

definition param_filled :: "off \<Rightarrow> hal_param \<Rightarrow> hal \<Rightarrow> shape \<Rightarrow> hal \<Rightarrow> bool" where
  "param_filled n x h G h2 \<longleftrightarrow> (\<forall>p. params h2 p = (if p = n then x else params h p)) \<and> (\<forall>p. pm_oldname (params h2 p) = 0) \<and>
     spare (\<lambda>p. pm_next (params h2 p)) (param_list_ptr h2) (param_free_ptr h2) (shmem_top h2) sizeof_hal_param n (s_params G) (tl (s_params_free G)) \<and>
     grown (s_params G) (s_params_free G) n (shmem_top h - sizeof_hal_param) \<and> shmem_top h2 \<le> shmem_top h \<and> area_wf h2 \<and>
     keeps_comps h h2 \<and> keeps_pins h h2 \<and> keeps_functs h h2 \<and> keeps_threads h h2 \<and> keeps_rings h h2 \<and> keeps_users h h2"

lemma param_filledI:
  assumes rep: "hal_rep h G" and al: "alloc_param_struct h = (Some n, t)"
    and h2: "params h2 = (params t)(n := x)" "param_list_ptr h2 = param_list_ptr t" "param_free_ptr h2 = param_free_ptr t"
    and x: "pm_oldname x = 0"
    and top: "shmem_top h2 = shmem_top t" "area_wf h2"
    and ks: "keeps_comps h h2" "keeps_pins h h2" "keeps_functs h h2" "keeps_threads h h2" "keeps_rings h h2"
      "keeps_users h h2"
  shows "param_filled n x h G h2"
proof -
  obtain pn fr tp av where t: "t = h\<lparr>shmem_avail := av, shmem_top := tp, param_free_ptr := fr, params := pn\<rparr>"
    and sp: "spare (\<lambda>p. pm_next (pn p)) (param_list_ptr h) fr tp sizeof_hal_param n (s_params G) (tl (s_params_free G))"
    and pn: "\<forall>p. p \<noteq> n \<longrightarrow> pn p = params h p" "pm_oldname (pn n) = 0" and tp: "tp \<le> shmem_top h"
    and n: "if s_params_free G = [] then n = tp \<and> n + sizeof_hal_param \<le> shmem_top h
         else n = hd (s_params_free G) \<and> tp = shmem_top h"
    by (rule alloc_param_Some [OF rep al])
  have "params_ok h G" using rep by (simp add: hal_rep_def)
  moreover have ps: "params h2 p = (if p = n then x else params h p)" for p
    using pn by (simp add: h2 t)
  ultimately have "pm_oldname (params h2 p) = 0" for p using x by (simp add: params_ok_def)
  moreover have "spare (\<lambda>p. pm_next (params h2 p)) (param_list_ptr h2) (param_free_ptr h2) (shmem_top h2) sizeof_hal_param n
      (s_params G) (tl (s_params_free G))"
    using sp by (auto simp: h2 top t elim: spare_next)
  moreover have "grown (s_params G) (s_params_free G) n (shmem_top h - sizeof_hal_param)"
    by (rule grownI) (use n in \<open>auto split: if_splits\<close>)
  ultimately show ?thesis using ps tp top ks by (simp add: param_filled_def t)
qed

lemma param_filled_names:
  assumes rep: "hal_rep h G" and f: "param_filled n x h G h2"
  shows "map (\<lambda>p. pm_name (params h2 p)) (s_params G) = param_names h" "n \<notin> set (s_params G)"
    "(\<lambda>p. pm_name (params h2 p)) ` set (s_params G) = set (param_names h)"
    "sorted_names (\<lambda>p. pm_name (params h2 p)) (s_params G)"
proof -
  show nin: "n \<notin> set (s_params G)" using f by (simp add: param_filled_def spare_def)
  then show mp: "map (\<lambda>p. pm_name (params h2 p)) (s_params G) = param_names h"
    using f by (auto simp: param_names_rep [OF rep] param_filled_def)
  show "(\<lambda>p. pm_name (params h2 p)) ` set (s_params G) = set (param_names h)"
    using arg_cong [OF mp, of set] by simp
  show "sorted_names (\<lambda>p. pm_name (params h2 p)) (s_params G)"
    unfolding sorted_names_def mp using hal_rep_parts(4) [OF rep]
    by (simp add: params_ok_def sorted_names_def param_names_rep [OF rep])
qed

lemma param_filled_rep:
  assumes "hal_rep h G" "param_filled n x h G h2" "params_ok h3 (G\<lparr>s_params := xs, s_params_free := ys\<rparr>)"
    and "set (xs @ ys) = set (s_params G @ n # tl (s_params_free G))" "h3 = h2\<lparr>param_list_ptr := pl, param_free_ptr := fr, params := pn\<rparr>"
  shows "hal_rep h3 (G\<lparr>s_params := xs, s_params_free := ys\<rparr>)"
proof (rule hal_rep_params [OF assms(1) _ _ _ assms(3)])
  show "set (xs @ ys) = set (s_params G @ s_params_free G) \<or>
      (\<exists>n. set (xs @ ys) = insert n (set (s_params G @ s_params_free G)) \<and> n + sizeof_hal_param \<le> shmem_top h)"
    using assms(2) unfolding assms(4) by (auto simp: param_filled_def grown_def)
qed (use assms(2) in \<open>simp_all add: assms(5) param_filled_def keeps_defs\<close>)

text \<open>The name is taken: back to the free list.\<close>

lemma param_insert_back:
  assumes rep: "hal_rep h G" and f: "param_filled n x h G h2" and nm: "pm_name x = nm" "nm \<in> set (param_names h)"
  shows "\<exists>h3 pn. param_insert n h2 = Inr (- EINVAL, hal_mutex_give h3) \<and> h3 = h2\<lparr>param_free_ptr := n, params := pn\<rparr> \<and>
    (\<exists>G'. hal_rep h3 G') \<and> param_names h3 = param_names h \<and> param_table h3 = param_table h"
proof -
  note F = f [unfolded param_filled_def] and N = param_filled_names [OF rep f]
  from F have ps: "params h2 p = (if p = n then x else params h p)" and o2: "pm_oldname (params h2 p) = 0" for p by blast+
  from F have sp: "spare (\<lambda>p. pm_next (params h2 p)) (param_list_ptr h2) (param_free_ptr h2) (shmem_top h2) sizeof_hal_param n
      (s_params G) (tl (s_params_free G))" by blast
  have nmn: "pm_name (params h2 n) = nm" by (simp add: ps nm)
  have w: "ins_walk (\<lambda>p. pm_next (params h2 p)) (\<lambda>p. strcmp (pm_name (params h2 p)) nm) At_head (param_list_ptr h2) = Some None"
    by (rule param_pool.insert_named(1) [OF sp N(4), unfolded N(3) nmn N(1), OF nm(2)])
  obtain pn3 where h3: "free_param_struct n h2 = h2\<lparr>param_free_ptr := n, params := pn3\<rparr>"
    and po: "pool (\<lambda>p. pm_next (pn3 p)) (param_list_ptr h2) n (shmem_top h2) sizeof_hal_param (s_params G) (n # tl (s_params_free G))"
    and pn3: "\<forall>p. p \<noteq> n \<longrightarrow> pn3 p = params h2 p" "pm_oldname (pn3 n) = 0"
    by (rule free_param_pool [OF sp o2])
  let ?h3 = "h2\<lparr>param_free_ptr := n, params := pn3\<rparr>" and ?G = "G\<lparr>s_params := s_params G, s_params_free := n # tl (s_params_free G)\<rparr>"
  have old: "pn3 p = params h p" if "p \<in> set (s_params G)" for p
    by (cases "p = n") (use that N(2) pn3 ps in auto)
  have mp3: "map (\<lambda>p. pm_name (pn3 p)) (s_params G) = param_names h"
    unfolding param_names_rep [OF rep] by (rule map_cong [OF refl]) (simp add: old)
  have tb3: "map (\<lambda>p. (pm_name (pn3 p), param_info (pn3 p))) (s_params G) = map (\<lambda>p. (pm_name (params h p), param_info (params h p))) (s_params G)"
    by (rule map_cong [OF refl]) (simp add: old)
  have "pm_oldname (pn3 p) = 0" for p using o2 pn3 by (cases "p = n") auto
  then have ok3: "params_ok ?h3 ?G"
    using po N(4) [unfolded sorted_names_def N(1)] by (simp add: params_ok_def sorted_names_def mp3)
  have rep3: "hal_rep ?h3 ?G"
    by (rule param_filled_rep [OF rep f ok3, where pl = "param_list_ptr h2" and fr = n and pn = pn3]) simp_all
  have "param_table ?h3 = param_table h" "param_names ?h3 = param_names h"
    using tb3 [THEN arg_cong, of map_of] mp3 by (simp_all add: param_table_rep [OF rep3] param_table_rep [OF rep] param_names_rep [OF rep3])
  then show ?thesis
    by (rule_tac exI [of _ ?h3], rule_tac exI [of _ pn3]) (use rep3 w h3 nm in \<open>auto simp: param_insert_def ps\<close>)
qed

text \<open>The name is new: in its place of the list.\<close>

lemma param_insert_place:
  assumes rep: "hal_rep h G" and f: "param_filled n x h G h2" and nm: "pm_name x = nm" "nm \<notin> set (param_names h)"
  shows "\<exists>h3 pl pn. param_insert n h2 = Inr (0, hal_mutex_give h3) \<and> h3 = h2\<lparr>param_list_ptr := pl, params := pn\<rparr> \<and>
    (\<exists>G'. hal_rep h3 G') \<and> param_names h3 = insort nm (param_names h) \<and> param_table h3 = (param_table h)(nm \<mapsto> param_info x)"
proof -
  note F = f [unfolded param_filled_def] and N = param_filled_names [OF rep f]
  from F have ps: "params h2 p = (if p = n then x else params h p)" and o2: "pm_oldname (params h2 p) = 0" for p by blast+
  from F have sp: "spare (\<lambda>p. pm_next (params h2 p)) (param_list_ptr h2) (param_free_ptr h2) (shmem_top h2) sizeof_hal_param n
      (s_params G) (tl (s_params_free G))" by blast
  have nmn: "pm_name (params h2 n) = nm" by (simp add: ps nm)
  from param_pool.insert_named(2) [OF sp N(4), unfolded N(3) nmn N(1), OF nm(2)] obtain prev nxt us vs where
    w: "ins_walk (\<lambda>p. pm_next (params h2 p)) (\<lambda>p. strcmp (pm_name (params h2 p)) nm) At_head (param_list_ptr h2)
        = Some (Some (prev, nxt))" and uv: "s_params G = us @ vs"
    and po: "pool (\<lambda>p. pm_next (params (link_in (\<lambda>v h. h\<lparr>param_list_ptr := v\<rparr>) set_pm_next prev nxt n h2) p))
          (param_list_ptr (link_in (\<lambda>v h. h\<lparr>param_list_ptr := v\<rparr>) set_pm_next prev nxt n h2))
          (param_free_ptr (link_in (\<lambda>v h. h\<lparr>param_list_ptr := v\<rparr>) set_pm_next prev nxt n h2))
          (shmem_top (link_in (\<lambda>v h. h\<lparr>param_list_ptr := v\<rparr>) set_pm_next prev nxt n h2)) sizeof_hal_param
          (us @ n # vs) (tl (s_params_free G))"
      "sorted_names (\<lambda>p. pm_name (params (link_in (\<lambda>v h. h\<lparr>param_list_ptr := v\<rparr>) set_pm_next prev nxt n h2) p)) (us @ n # vs)"
      "map (\<lambda>p. pm_name (params (link_in (\<lambda>v h. h\<lparr>param_list_ptr := v\<rparr>) set_pm_next prev nxt n h2) p)) (us @ n # vs)
         = insort nm (param_names h)"
    by (auto simp only: Let_def)
  obtain pn3 pl3 where h3: "link_in (\<lambda>v h. h\<lparr>param_list_ptr := v\<rparr>) set_pm_next prev nxt n h2
      = h2\<lparr>param_list_ptr := pl3, params := pn3\<rparr>" and l3: "\<forall>q. \<exists>v. pn3 q = (params h2 q)\<lparr>pm_next := v\<rparr>"
    by (rule link_in_param)
  have s3: "pm_oldname (pn3 q) = pm_oldname (params h2 q)" "param_info (pn3 q) = param_info (params h2 q)"
    "pm_name (pn3 q) = pm_name (params h2 q)" for q
    using spec [OF l3, of q] by (auto simp: param_info_def)
  let ?h3 = "h2\<lparr>param_list_ptr := pl3, params := pn3\<rparr>" and ?G = "G\<lparr>s_params := us @ n # vs, s_params_free := tl (s_params_free G)\<rparr>"
  have ok3: "params_ok ?h3 ?G" using po(1,2) by (simp add: params_ok_def h3 s3 o2)
  have rep3: "hal_rep ?h3 ?G"
    by (rule param_filled_rep [OF rep f ok3, where pl = pl3 and fr = "param_free_ptr h2" and pn = pn3]) (auto simp: uv)
  have "param_names ?h3 = insort nm (param_names h)" using po(3) by (simp add: param_names_rep [OF rep3] h3)
  moreover have "map_of (map (\<lambda>p. (pm_name (pn3 p), param_info (pn3 p))) (us @ n # vs)) =
      (map_of (map (\<lambda>p. (pm_name (params h p), param_info (params h p))) (us @ vs)))(nm \<mapsto> param_info x)"
    by (rule map_of_place) (use N(2) nm in \<open>auto simp: uv s3 ps param_names_rep [OF rep]\<close>)
  then have "param_table ?h3 = (param_table h)(nm \<mapsto> param_info x)" by (simp add: param_table_rep [OF rep3] param_table_rep [OF rep] uv)
  moreover have "param_insert n h2 = Inr (0, hal_mutex_give ?h3)" by (simp add: param_insert_def nmn w h3)
  ultimately show ?thesis
    by (rule_tac exI [of _ ?h3], rule_tac exI [of _ pl3], rule_tac exI [of _ pn3]) (use rep3 in auto)
qed

lemma param_insert_result:
  assumes rep: "hal_rep h G" and al: "alloc_param_struct h = (Some n, t)"
    and h2: "params h2 = (params t)(n := x)" "param_list_ptr h2 = param_list_ptr t" "param_free_ptr h2 = param_free_ptr t"
    and x: "pm_oldname x = 0" "pm_name x = nm"
    and top: "shmem_top h2 = shmem_top t" "area_wf h2"
    and ks: "keeps_comps h h2" "keeps_pins h h2" "keeps_functs h h2" "keeps_threads h h2" "keeps_rings h h2"
      "keeps_users h h2"
  shows "\<exists>h3 pl fr pn. param_insert n h2 = Inr (if nm \<in> set (param_names h) then - EINVAL else 0, hal_mutex_give h3)
      \<and> h3 = h2\<lparr>param_list_ptr := pl, param_free_ptr := fr, params := pn\<rparr> \<and> (\<exists>G'. hal_rep h3 G')
      \<and> param_names h3 = (if nm \<in> set (param_names h) then param_names h else insort nm (param_names h))
      \<and> param_table h3 = (if nm \<in> set (param_names h) then param_table h else (param_table h)(nm \<mapsto> param_info x))"
proof -
  have f: "param_filled n x h G h2" by (rule param_filledI [OF rep al h2 x(1) top ks])
  show ?thesis
  proof (cases "nm \<in> set (param_names h)")
    case True
    obtain h3 pn where b: "param_insert n h2 = Inr (- EINVAL, hal_mutex_give h3)" "h3 = h2\<lparr>param_free_ptr := n, params := pn\<rparr>"
      "\<exists>G'. hal_rep h3 G'" "param_names h3 = param_names h" "param_table h3 = param_table h"
      using param_insert_back [OF rep f x(2) True] by blast
    show ?thesis
      by (rule exI [of _ h3], rule exI [of _ "param_list_ptr h2"], rule exI [of _ n], rule exI [of _ pn])
        (use b True in simp)
  next
    case False
    obtain h3 pl pn where b: "param_insert n h2 = Inr (0, hal_mutex_give h3)" "h3 = h2\<lparr>param_list_ptr := pl, params := pn\<rparr>"
      "\<exists>G'. hal_rep h3 G'" "param_names h3 = insort nm (param_names h)" "param_table h3 = (param_table h)(nm \<mapsto> param_info x)"
      using param_insert_place [OF rep f x(2) False] by blast
    show ?thesis
      by (rule exI [of _ h3], rule exI [of _ pl], rule exI [of _ "param_free_ptr h2"], rule exI [of _ pn])
        (use b False in simp)
  qed
qed

section \<open>What \<open>hal_pin_new\<close> does\<close>

definition pin_type_ok :: "hal_type \<Rightarrow> bool" where
  "pin_type_ok type \<longleftrightarrow> type \<in> {HAL_BIT, HAL_FLOAT, HAL_S32, HAL_U32, HAL_S64, HAL_U64, HAL_PORT}"

text \<open>
  The result, as a decision list: bad type or name, locked HAL, unknown or ready component, pointer
  outside the segment, no memory, duplicate name.
\<close>

definition pin_verdict :: "string \<Rightarrow> hal_type \<Rightarrow> cell \<Rightarrow> int \<Rightarrow> hal \<Rightarrow> int" where
  "pin_verdict name type c i h =
     (if \<not> pin_type_ok type \<or> length name > 47 then - EINVAL
      else if hd_lock h AND 1 \<noteq> 0 then - EPERM
      else if comp_of i h = 0 \<or> \<not> SHMCHK (cell_off c) \<or> c_ready (comps h (comp_of i h)) \<noteq> 0 then - EINVAL
      else if fst (alloc_pin_struct h) = None then - ENOMEM
      else if name \<in> set (pin_names h) then - EINVAL
      else 0)"

lemma pin_type_guard:
  "(type \<noteq> HAL_BIT \<and> type \<noteq> HAL_FLOAT \<and> type \<noteq> HAL_S32 \<and> type \<noteq> HAL_U32
    \<and> type \<noteq> HAL_S64 \<and> type \<noteq> HAL_U64 \<and> type \<noteq> HAL_PORT) \<longleftrightarrow> \<not> pin_type_ok type"
  by (auto simp: pin_type_ok_def)

text \<open>
  What the call may change: the memory bounds, the pins, and the cell of the caller, which gets the
  address of the new pin's dummy signal.
\<close>

definition pin_step :: "int \<Rightarrow> cell \<Rightarrow> hal \<Rightarrow> hal \<Rightarrow> bool" where
  "pin_step i c h h' \<longleftrightarrow> (\<exists>n av tp pl fr pn.
     h' = (put_cell c (if c_shmem_base (comps h (comp_of i h)) = B_base then D_sig n else D_wild) h)\<lparr>shmem_avail := av, shmem_top := tp, pin_list_ptr := pl, pin_free_ptr := fr, pins := pn\<rparr>)"

text \<open>
  After a success the new pin \<open>n\<close> is in the list and was not before, its signal is 0, the signals of the
  other pins are as before, and the cell has its address.
\<close>

definition pin_made :: "int \<Rightarrow> cell \<Rightarrow> hal \<Rightarrow> hal \<Rightarrow> bool" where
  "pin_made i c h h' \<longleftrightarrow> (\<exists>n av tp pl fr pn.
     h' = (put_cell c (if c_shmem_base (comps h (comp_of i h)) = B_base then D_sig n else D_wild) h)\<lparr>shmem_avail := av, shmem_top := tp, pin_list_ptr := pl, pin_free_ptr := fr, pins := pn\<rparr> \<and>
     n \<notin> pin_set h \<and> pin_set h' = insert n (pin_set h) \<and> shmem_top h - 128 \<le> tp \<and>
     (\<forall>q. p_dummysig (pn q) = (if q = n then 0 else p_dummysig (pins h q))))"

lemma hal_pin_new_run:
  assumes inv: "hal_inv h" and c: "c \<noteq> Cell_null"
  shows "\<exists>h'. hal_pin_new name type c i h = Inr (pin_verdict name type c i h, h') \<and> hal_inv h'
    \<and> (if pin_verdict name type c i h = 0 then pin_step i c h h' else h' = h \<or> pin_step i c h h')
    \<and> pin_names h' = (if pin_verdict name type c i h = 0 then insort name (pin_names h) else pin_names h)
    \<and> pin_table h' = (if pin_verdict name type c i h = 0
         then (pin_table h)(name \<mapsto> (type, comp_of i h, cell_off c)) else pin_table h)
    \<and> (pin_verdict name type c i h = 0 \<longrightarrow> pin_made i c h h')"
proof -
  from inv obtain G where G: "hal_rep h G" "hal_data h = SP_mapped" "\<not> locked (hd_mutex h)"
    by (auto simp: hal_inv_def)
  let ?h = "h\<lparr>hd_mutex := set_lock (hd_mutex h)\<rparr>" and ?cp = "comp_of i h"
  have G1: "hal_rep ?h G" using G by simp
  note fc = find_comp_of [OF G1, of i]
  note run = hal_pin_new_def [of name type c i h, unfolded pin_type_guard HAL_NAME_LEN_def HAL_LOCK_LOAD_def]
  show ?thesis
  proof (cases "pin_type_ok type \<and> length name \<le> 47 \<and> hd_lock h AND 1 = 0 \<and> ?cp \<noteq> 0 \<and> SHMCHK (cell_off c)
      \<and> c_ready (comps h ?cp) = 0")
    case False
    with inv c G fc show ?thesis
      by (auto simp: run pin_verdict_def)
  next
    case ok: True
    show ?thesis
    proof (cases "alloc_pin_struct ?h")
      case (Pair r t)
      show ?thesis
      proof (cases r)
        case None
        with Pair alloc_pin_None [OF G1] have "t = ?h" by simp
        with None Pair ok G c fc inv alloc_pin_lock [of "set_lock (hd_mutex h)" h] show ?thesis
          by (simp add: run pin_verdict_def)
      next
        case (Some n)
        have al: "alloc_pin_struct ?h = (Some n, t)" using Pair Some by simp
        have alh: "fst (alloc_pin_struct h) \<noteq> None"
          using al alloc_pin_lock [of "set_lock (hd_mutex h)" h] by (metis fst_conv option.distinct(1))
        obtain pn fr tp av where t: "t = ?h\<lparr>shmem_avail := av, shmem_top := tp, pin_free_ptr := fr, pins := pn\<rparr>"
          and o: "p_oldname (pn n) = 0" and a: "area_wf t" and low: "shmem_top ?h - 128 \<le> tp"
            and pnn: "\<forall>p. p \<noteq> n \<longrightarrow> pn p = pins ?h p"
          by (rule alloc_pin_Some [OF G1 al])
        have comps_t: "comps t = comps h" by (simp add: t)
        let ?f = "\<lambda>s :: hal_pin. s\<lparr>p_data_ptr_addr := cell_off c, p_owner := ?cp, p_type := type, p_signal := 0,
                p_dummysig := 0, p_name := snprintf_s 48 name\<rparr>"
        let ?d = "if c_shmem_base (comps t ?cp) = B_base then D_sig n else D_wild"
        let ?h2 = "put_cell c ?d (upd_pin n ?f t)"
        have nm: "snprintf_s 48 name = name" using ok by (simp add: snprintf_s_def)
        have "\<exists>h3 pl fr pn'. pin_insert n ?h2
              = Inr (if name \<in> set (pin_names ?h) then - EINVAL else 0, hal_mutex_give h3)
            \<and> h3 = ?h2\<lparr>pin_list_ptr := pl, pin_free_ptr := fr, pins := pn'\<rparr> \<and> (\<exists>G'. hal_rep h3 G')
            \<and> pin_names h3 = (if name \<in> set (pin_names ?h) then pin_names ?h else insort name (pin_names ?h))
            \<and> pin_table h3 = (if name \<in> set (pin_names ?h) then pin_table ?h
                 else (pin_table ?h)(name \<mapsto> pin_info (?f (pn n))))
            \<and> (name \<notin> set (pin_names ?h) \<longrightarrow> n \<notin> pin_set ?h \<and> pin_set h3 = insert n (pin_set ?h) \<and>
                 (\<forall>q. p_dummysig (pn' q) = p_dummysig (if q = n then ?f (pn n) else pins ?h q)))"
          by (rule pin_insert_result [OF G1 al])
            (use a o in \<open>simp_all add: t upd_pin_heap keeps_defs nm\<close>)
        then obtain h3 pl fr3 pn3 where h3: "pin_insert n ?h2
              = Inr (if name \<in> set (pin_names ?h) then - EINVAL else 0, hal_mutex_give h3)"
          and e: "h3 = ?h2\<lparr>pin_list_ptr := pl, pin_free_ptr := fr3, pins := pn3\<rparr>" and r: "\<exists>G'. hal_rep h3 G'"
          and ns: "pin_names h3 = (if name \<in> set (pin_names ?h) then pin_names ?h else insort name (pin_names ?h))"
          and tb: "pin_table h3 = (if name \<in> set (pin_names ?h) then pin_table ?h
                     else (pin_table ?h)(name \<mapsto> pin_info (?f (pn n))))"
          and mk: "name \<notin> set (pin_names ?h) \<longrightarrow> n \<notin> pin_set ?h \<and> pin_set h3 = insert n (pin_set ?h) \<and>
                 (\<forall>q. p_dummysig (pn3 q) = p_dummysig (if q = n then ?f (pn n) else pins ?h q))" by blast
        have eq: "hal_mutex_give h3 = (put_cell c ?d h)\<lparr>shmem_avail := av, shmem_top := tp, pin_list_ptr := pl,
            pin_free_ptr := fr3, pins := pn3\<rparr>"
          unfolding e hal_mutex_give_def t using G(3)
          by (cases c) (auto simp: upd_pin_def upd_funct_def upd_thread_def intro!: hal.equality)
        then have st: "pin_step i c h (hal_mutex_give h3)" unfolding pin_step_def comps_t by blast
        have made: "pin_made i c h (hal_mutex_give h3)" if "name \<notin> set (pin_names h)"
        proof -
          have m: "n \<notin> pin_set h" "pin_set (hal_mutex_give h3) = insert n (pin_set h)"
            "\<forall>q. p_dummysig (pn3 q) = (if q = n then 0 else p_dummysig (pins h q))" "shmem_top h - 128 \<le> tp"
            using mk that low by simp_all
          show ?thesis unfolding pin_made_def using eq [unfolded comps_t] m by blast
        qed
        have "hal_data h3 = SP_mapped" using G(2) by (simp add: e t)
        with r have "hal_inv (hal_mutex_give h3)" by (auto intro: hal_inv_give)
        with ok G c fc al alh h3 ns tb st made show ?thesis
          by (simp add: run pin_verdict_def pin_info_def)
      qed
    qed
  qed
qed

section \<open>What \<open>hal_param_new\<close> does\<close>

definition param_type_ok :: "hal_type \<Rightarrow> bool" where
  "param_type_ok type \<longleftrightarrow> type \<in> {HAL_BIT, HAL_FLOAT, HAL_S32, HAL_U32, HAL_S64, HAL_U64}"

definition param_verdict :: "string \<Rightarrow> hal_type \<Rightarrow> int \<Rightarrow> addr \<Rightarrow> int \<Rightarrow> hal \<Rightarrow> int" where
  "param_verdict name type dir c i h =
     (if \<not> param_type_ok type \<or> dir \<notin> {HAL_RO, HAL_RW} \<or> length name > 47 then - EINVAL
      else if hd_lock h AND 1 \<noteq> 0 then - EPERM
      else if comp_of i h = 0 \<or> \<not> SHMCHK (addr_off c) \<or> c_ready (comps h (comp_of i h)) \<noteq> 0 then - EINVAL
      else if fst (alloc_param_struct h) = None then - ENOMEM
      else if name \<in> set (param_names h) then - EINVAL
      else 0)"

lemma param_type_guard:
  "(type \<noteq> HAL_BIT \<and> type \<noteq> HAL_FLOAT \<and> type \<noteq> HAL_S32 \<and> type \<noteq> HAL_U32
    \<and> type \<noteq> HAL_S64 \<and> type \<noteq> HAL_U64) \<longleftrightarrow> \<not> param_type_ok type"
  "(dir \<noteq> HAL_RO \<and> dir \<noteq> HAL_RW) \<longleftrightarrow> dir \<notin> {HAL_RO, HAL_RW}"
  by (auto simp: param_type_ok_def)

text \<open>What the call may change: the memory bounds and the parameters.\<close>

definition param_step :: "hal \<Rightarrow> hal \<Rightarrow> bool" where
  "param_step h h' \<longleftrightarrow> (\<exists>av tp pl fr pn.
     h' = h\<lparr>shmem_avail := av, shmem_top := tp, param_list_ptr := pl, param_free_ptr := fr, params := pn\<rparr>
     \<and> shmem_top h - 128 \<le> tp)"

lemma param_step_refl: "param_step h h"
  unfolding param_step_def
  by (rule exI [of _ "shmem_avail h"], rule exI [of _ "shmem_top h"], rule exI [of _ "param_list_ptr h"],
      rule exI [of _ "param_free_ptr h"], rule exI [of _ "params h"]) simp

lemma hal_param_new_run:
  assumes inv: "hal_inv h"
  shows "\<exists>h'. hal_param_new name type dir c i h = Inr (param_verdict name type dir c i h, h') \<and> hal_inv h'
    \<and> param_step h h'
    \<and> param_names h' = (if param_verdict name type dir c i h = 0 then insort name (param_names h) else param_names h)
    \<and> param_table h' = (if param_verdict name type dir c i h = 0
         then (param_table h)(name \<mapsto> (type, dir, comp_of i h, addr_off c)) else param_table h)"
proof -
  from inv obtain G where G: "hal_rep h G" "hal_data h = SP_mapped" "\<not> locked (hd_mutex h)"
    by (auto simp: hal_inv_def)
  let ?h = "h\<lparr>hd_mutex := set_lock (hd_mutex h)\<rparr>" and ?cp = "comp_of i h"
  have G1: "hal_rep ?h G" using G by simp
  note fc = find_comp_of [OF G1, of i]
  note run = hal_param_new_def [of name type dir c i h, unfolded param_type_guard HAL_NAME_LEN_def HAL_LOCK_LOAD_def]
  show ?thesis
  proof (cases "param_type_ok type \<and> dir \<in> {HAL_RO, HAL_RW} \<and> length name \<le> 47 \<and> hd_lock h AND 1 = 0
      \<and> ?cp \<noteq> 0 \<and> SHMCHK (addr_off c) \<and> c_ready (comps h ?cp) = 0")
    case False
    with inv G fc show ?thesis
      by (cases "dir \<in> {HAL_RO, HAL_RW}") (auto simp: run param_verdict_def param_step_refl)
  next
    case ok: True
    show ?thesis
    proof (cases "alloc_param_struct ?h")
      case (Pair r t)
      show ?thesis
      proof (cases r)
        case None
        with Pair alloc_param_None [OF G1] have "t = ?h" by simp
        with None Pair ok G fc inv alloc_param_lock [of "set_lock (hd_mutex h)" h] show ?thesis
          by (simp add: run param_verdict_def param_step_refl)
      next
        case (Some n)
        have al: "alloc_param_struct ?h = (Some n, t)" using Pair Some by simp
        have alh: "fst (alloc_param_struct h) \<noteq> None"
          using al alloc_param_lock [of "set_lock (hd_mutex h)" h] by (metis fst_conv option.distinct(1))
        obtain pn fr tp av where t: "t = ?h\<lparr>shmem_avail := av, shmem_top := tp, param_free_ptr := fr, params := pn\<rparr>"
          and o: "pm_oldname (pn n) = 0" and a: "area_wf t" and low: "shmem_top ?h - 128 \<le> tp"
          by (rule alloc_param_Some [OF G1 al])
        let ?f = "\<lambda>s :: hal_param. s\<lparr>pm_owner := ?cp, pm_data_ptr := addr_off c, pm_type := type, pm_dir := dir,
                pm_name := snprintf_s 48 name\<rparr>"
        let ?h2 = "upd_param n ?f t"
        have nm: "snprintf_s 48 name = name" using ok by (simp add: snprintf_s_def)
        have "\<exists>h3 pl fr pn'. param_insert n ?h2
              = Inr (if name \<in> set (param_names ?h) then - EINVAL else 0, hal_mutex_give h3)
            \<and> h3 = ?h2\<lparr>param_list_ptr := pl, param_free_ptr := fr, params := pn'\<rparr> \<and> (\<exists>G'. hal_rep h3 G')
            \<and> param_names h3 = (if name \<in> set (param_names ?h) then param_names ?h else insort name (param_names ?h))
            \<and> param_table h3 = (if name \<in> set (param_names ?h) then param_table ?h
                 else (param_table ?h)(name \<mapsto> param_info (?f (pn n))))"
          by (rule param_insert_result [OF G1 al])
            (use a o in \<open>simp_all add: t upd_param_heap keeps_defs nm\<close>)
        then obtain h3 pl fr3 pn3 where h3: "param_insert n ?h2
              = Inr (if name \<in> set (param_names ?h) then - EINVAL else 0, hal_mutex_give h3)"
          and e: "h3 = ?h2\<lparr>param_list_ptr := pl, param_free_ptr := fr3, params := pn3\<rparr>" and r: "\<exists>G'. hal_rep h3 G'"
          and ns: "param_names h3 = (if name \<in> set (param_names ?h) then param_names ?h else insort name (param_names ?h))"
          and tb: "param_table h3 = (if name \<in> set (param_names ?h) then param_table ?h
                     else (param_table ?h)(name \<mapsto> param_info (?f (pn n))))" by blast
        have "hal_mutex_give h3 = h\<lparr>shmem_avail := av, shmem_top := tp, param_list_ptr := pl,
            param_free_ptr := fr3, params := pn3\<rparr>"
          unfolding e hal_mutex_give_def t using G(3)
          by (auto simp: upd_param_def intro!: hal.equality)
        moreover have "shmem_top h - 128 \<le> tp" using low by simp
        ultimately have st: "param_step h (hal_mutex_give h3)" unfolding param_step_def by blast
        have "hal_data h3 = SP_mapped" using G(2) by (simp add: e t)
        with r have "hal_inv (hal_mutex_give h3)" by (auto intro: hal_inv_give)
        with ok G fc al alh h3 ns tb st show ?thesis
          by (auto simp: run param_verdict_def param_info_def)
      qed
    qed
  qed
qed

section \<open>The properties\<close>

text \<open>A segment with one component, for the examples.\<close>

definition one_comp :: hal where
  "one_comp = zero_hal\<lparr>shmem_bot := 272, shmem_top := 1048464, comp_list_ptr := 1048464,
     comps := (comps zero_hal)(1048464 := (comps zero_hal 0)\<lparr>c_comp_id := 1, c_shmem_base := B_base,
                c_type := COMPONENT_TYPE_REALTIME\<rparr>),
     links := (\<lambda>_. \<lparr>l_next = Free_root, l_prev = Free_root\<rparr>), hal_data := SP_mapped, hd_state := HAL_S_ACTIVE\<rparr>"

lemma one_comp_inv: "hal_inv one_comp"
proof -
  have "hal_rep one_comp \<lparr>s_comps = [1048464], s_comps_free = [], s_pins = [], s_pins_free = [], s_params = [],
    s_params_free = [], s_functs = [], s_functs_free = [], s_threads = [], s_threads_free = [],
    s_entries = (\<lambda>_. []), s_entries_free = []\<rparr>"
    by (simp add: hal_rep_def part_defs pool_def one_comp_def zero_hal_def area_wf_def area_ok_def HAL_SIZE_def
        all_entries_def sizeof_defs ring_def is_root_def blocks_def apart_def)
  then show ?thesis by (auto simp: hal_inv_def one_comp_def zero_hal_def)
qed

lemma one_comp_sel:
  "hal_data one_comp = SP_mapped" "hd_lock one_comp = 0" "hd_state one_comp = HAL_S_ACTIVE"
  "threads_running one_comp = 0" "comp_list_ptr one_comp = 1048464" "c_comp_id (comps one_comp 1048464) = 1"
  "c_ready (comps one_comp 1048464) = 0" "c_shmem_base (comps one_comp 1048464) = B_base"
  "c_type (comps one_comp 1048464) = COMPONENT_TYPE_REALTIME" "c_next (comps one_comp 1048464) = 0"
  by (simp_all add: one_comp_def zero_hal_def)

lemma one_comp_nodes: "nodes (\<lambda>p. c_next (comps one_comp p)) 1048464 = [1048464]"
  by (rule nodes_chain) (simp add: one_comp_sel)

lemma one_comp_comp: "comp_of 1 one_comp = 1048464"
  by (simp add: comp_of_def one_comp_sel one_comp_nodes)

lemma one_comp_names: "pin_names one_comp = []" "param_names one_comp = []"
  by (simp_all add: pin_names_def param_names_def one_comp_def zero_hal_def)

lemma one_comp_alloc: "fst (alloc_pin_struct one_comp) = Some 1048352" "fst (alloc_param_struct one_comp) = Some 1048368"
  by (simp_all add: alloc_pin_struct_def alloc_param_struct_def take_struct_def shmalloc_dn_def one_comp_def zero_hal_def
      sizeof_defs align_dn_simps)

text \<open>
  Property C2: \<open>hal_pin_new\<close> on a well-formed segment returns, with the result of the
  decision list \<open>pin_verdict\<close>, and keeps the segment well-formed. When it succeeds the new name is
  in its place in the sorted list and the table of pins maps it to the type, the owner and the
  address given; in every other case the names and the table are as before.
\<close>

theorem hal_pin_new_correct:
  fixes name :: string and type :: hal_type and i :: int
  assumes "hal_inv h" "c \<noteq> Cell_null"
  defines "v \<equiv> pin_verdict name type c i h"
  shows "\<exists>h'. hal_pin_new name type c i h = Inr (v, h') \<and> hal_inv h'
    \<and> pin_names h' = (if v = 0 then insort name (pin_names h) else pin_names h)
    \<and> pin_table h' = (if v = 0 then (pin_table h)(name \<mapsto> (type, comp_of i h, cell_off c)) else pin_table h)"
  unfolding v_def using hal_pin_new_run [OF assms(1,2), of name type i] by blast

theorem hal_pin_new_correct_witness:
  "\<exists>h'. hal_pin_new ''p'' HAL_BIT (Cell_user 300) 1 one_comp = Inr (0, h') \<and> hal_inv h' \<and> pin_names h' = [''p'']"
proof -
  have "pin_verdict ''p'' HAL_BIT (Cell_user 300) 1 one_comp = 0"
    by (simp add: pin_verdict_def pin_type_ok_def one_comp_comp one_comp_names one_comp_alloc SHMCHK_def HAL_SIZE_def
        one_comp_sel)
  with hal_pin_new_correct [OF one_comp_inv, of "Cell_user 300" "''p''" HAL_BIT 1] show ?thesis
    by (auto simp: one_comp_names)
qed

text \<open>
  Property C3: the same of \<open>hal_param_new\<close>, with the direction of the parameter checked and
  recorded.
\<close>

theorem hal_param_new_correct:
  fixes name :: string and type :: hal_type and dir i :: int and a :: addr
  assumes "hal_inv h"
  defines "v \<equiv> param_verdict name type dir a i h"
  shows "\<exists>h'. hal_param_new name type dir a i h = Inr (v, h') \<and> hal_inv h'
    \<and> param_names h' = (if v = 0 then insort name (param_names h) else param_names h)
    \<and> param_table h' = (if v = 0 then (param_table h)(name \<mapsto> (type, dir, comp_of i h, addr_off a)) else param_table h)"
  unfolding v_def using hal_param_new_run [OF assms(1), of name type dir a i] by blast

theorem hal_param_new_correct_witness:
  "\<exists>h'. hal_param_new ''q'' HAL_S32 HAL_RW (A_user 300) 1 one_comp = Inr (0, h') \<and> hal_inv h' \<and> param_names h' = [''q'']"
proof -
  have "param_verdict ''q'' HAL_S32 HAL_RW (A_user 300) 1 one_comp = 0"
    by (simp add: param_verdict_def param_type_ok_def one_comp_comp one_comp_names one_comp_alloc SHMCHK_def HAL_SIZE_def
        one_comp_sel)
  with hal_param_new_correct [OF one_comp_inv, of "''q''" HAL_S32 HAL_RW "A_user 300" 1] show ?thesis
    by (auto simp: one_comp_names)
qed

end
