(* ===== verification/Hal_Comp.thy ===== *)
theory Hal_Comp
  imports Hal_Pins
begin

text \<open>
  Components, the lock level, and the life cycle of the HAL (\<open>hal_set_constructor\<close>,
  \<open>hal_set_unready\<close>, \<open>hal_ready\<close>, \<open>hal_unready\<close>, \<open>hal_comp_name\<close>,
  \<open>hal_set_lock\<close>, \<open>hal_get_lock\<close>, \<open>hal_start_threads\<close>, \<open>hal_stop_threads\<close>,
  \<open>hal_get_state\<close>, \<open>hal_get_stats\<close>, \<open>init_hal_data\<close> of \<open>hal/hal_lib.c\<close>).
\<close>

unbundle bit_operations_syntax

section \<open>Components\<close>

text \<open>
  These functions do not test \<open>hal_data\<close>: without a mapped segment they dereference an invalid
  pointer. Each has its own loop over the component list.
\<close>

definition hal_set_constructor :: "int \<Rightarrow> int \<Rightarrow> hal \<Rightarrow> (int \<times> hal) res" where
  "hal_set_constructor comp_id ctor h =
     (if hal_data h \<noteq> SP_mapped then Inl UB
      else bnd (hal_mutex_get h) (\<lambda>h.
           bnd (loop_res (walk (\<lambda>p. c_next (comps h p)) (\<lambda>p. c_comp_id (comps h p) = comp_id) (comp_list_ptr h)))
             (\<lambda>cp. if cp = 0 then Inr (- EINVAL, hal_mutex_give h)
                    else Inr (0, hal_mutex_give (upd_comp cp (\<lambda>c. c\<lparr>c_make := ctor\<rparr>) h)))))"

definition hal_set_unready :: "int \<Rightarrow> hal \<Rightarrow> (int \<times> hal) res" where
  "hal_set_unready comp_id h =
     (if hal_data h \<noteq> SP_mapped then Inl UB
      else bnd (hal_mutex_get h) (\<lambda>h.
           bnd (halpr_find_comp_by_id comp_id h) (\<lambda>cp.
             let h = (if cp \<noteq> 0 then upd_comp cp (\<lambda>c. c\<lparr>c_ready := 0\<rparr>) h else h);
                 h = hal_mutex_give h
             in if cp \<noteq> 0 then Inr (0, h) else Inr (- EINVAL, h))))"

definition hal_ready :: "int \<Rightarrow> hal \<Rightarrow> (int \<times> hal) res" where
  "hal_ready comp_id h =
     (if hal_data h \<noteq> SP_mapped then Inl UB
      else bnd (hal_mutex_get h) (\<lambda>h.
           bnd (loop_res (walk (\<lambda>p. c_next (comps h p)) (\<lambda>p. c_comp_id (comps h p) = comp_id) (comp_list_ptr h)))
             (\<lambda>cp. if cp = 0 then Inr (- EINVAL, hal_mutex_give h)
                    else if c_ready (comps h cp) > 0 then Inr (- EINVAL, hal_mutex_give h)
                    else Inr (0, hal_mutex_give (upd_comp cp (\<lambda>c. c\<lparr>c_ready := 1\<rparr>) h)))))"

definition hal_unready :: "int \<Rightarrow> hal \<Rightarrow> (int \<times> hal) res" where
  "hal_unready comp_id h =
     (if hal_data h \<noteq> SP_mapped then Inl UB
      else bnd (hal_mutex_get h) (\<lambda>h.
           bnd (loop_res (walk (\<lambda>p. c_next (comps h p)) (\<lambda>p. c_comp_id (comps h p) = comp_id) (comp_list_ptr h)))
             (\<lambda>cp. if cp = 0 then Inr (- EINVAL, hal_mutex_give h)
                    else if c_ready (comps h cp) < 1 then Inr (- EINVAL, hal_mutex_give h)
                    else Inr (0, hal_mutex_give (upd_comp cp (\<lambda>c. c\<lparr>c_ready := 0\<rparr>) h)))))"

definition hal_comp_name :: "int \<Rightarrow> hal \<Rightarrow> (string option \<times> hal) res" where
  "hal_comp_name comp_id h =
     (if hal_data h \<noteq> SP_mapped then Inl UB
      else bnd (hal_mutex_get h) (\<lambda>h.
           bnd (halpr_find_comp_by_id comp_id h) (\<lambda>cp.
             Inr (if cp \<noteq> 0 then Some (c_name (comps h cp)) else None, hal_mutex_give h))))"

section \<open>The lock level\<close>

definition hal_set_lock :: "8 word \<Rightarrow> hal \<Rightarrow> (int \<times> hal) res" where
  "hal_set_lock lock_type h =
     (if hal_data h = SP_null then Inr (- EINVAL, h)
      else if hal_data h = SP_stale then Inl UB
      else Inr (0, h\<lparr>hd_lock := lock_type\<rparr>))"

text \<open>The error code is returned as an \<open>unsigned char\<close>.\<close>

definition hal_get_lock :: "hal \<Rightarrow> 8 word res" where
  "hal_get_lock h =
     (if hal_data h = SP_null then Inr (word_of_int (- EINVAL))
      else if hal_data h = SP_stale then Inl UB
      else Inr (hd_lock h))"

section \<open>The life cycle\<close>

definition hal_start_threads :: "hal \<Rightarrow> (int \<times> hal) res" where
  "hal_start_threads h =
     (if hal_data h = SP_null then Inr (- EINVAL, h)
      else if hal_data h = SP_stale then Inl UB
      else if hd_lock h AND HAL_LOCK_RUN \<noteq> 0 then Inr (- EPERM, h)
      else if hd_state h = HAL_S_RUNNING then Inr (- EALREADY, h)
      else if hd_state h \<noteq> HAL_S_ACTIVE then Inr (- EINVAL, h)
      else Inr (0, h\<lparr>threads_running := 1, hd_state := HAL_S_RUNNING\<rparr>))"

definition hal_stop_threads :: "hal \<Rightarrow> (int \<times> hal) res" where
  "hal_stop_threads h =
     (if hal_data h = SP_null then Inr (- EINVAL, h)
      else if hal_data h = SP_stale then Inl UB
      else if hd_lock h AND HAL_LOCK_RUN \<noteq> 0 then Inr (- EPERM, h)
      else if hd_state h = HAL_S_ACTIVE then Inr (- EALREADY, h)
      else if hd_state h \<noteq> HAL_S_RUNNING then Inr (- EINVAL, h)
      else Inr (0, h\<lparr>threads_running := 0, hd_state := HAL_S_ACTIVE\<rparr>))"

definition hal_get_state :: "hal \<Rightarrow> hal_state res" where
  "hal_get_state h =
     (if hal_data h = SP_null then Inr HAL_S_UNINIT
      else if hal_data h = SP_stale then Inl UB
      else Inr (hd_state h))"

record hal_stats =
  st_state :: hal_state
  st_comp_count :: int
  st_pin_count :: int
  st_param_count :: int
  st_funct_count :: int
  st_thread_count :: int
  st_threads_running :: int
  st_shmem_avail :: int
  st_shmem_total :: int
  st_init_pid :: int
  st_error_code :: int

text \<open>\<open>stats\<close> says whether the caller passed a buffer; the result is what is written to it.\<close>

definition hal_get_stats :: "bool \<Rightarrow> hal \<Rightarrow> (int \<times> hal_stats option \<times> hal) res" where
  "hal_get_stats stats h =
     (if hal_data h = SP_null \<or> \<not> stats then Inr (- EINVAL, None, h)
      else if hal_data h = SP_stale then Inl UB
      else bnd (hal_mutex_get h) (\<lambda>h.
           bnd (loop_res (count_walk (\<lambda>p. c_next (comps h p)) 0 (comp_list_ptr h))) (\<lambda>nc.
           bnd (loop_res (count_walk (\<lambda>p. p_next (pins h p)) 0 (pin_list_ptr h))) (\<lambda>np.
           bnd (loop_res (count_walk (\<lambda>p. pm_next (params h p)) 0 (param_list_ptr h))) (\<lambda>nm.
           bnd (loop_res (count_walk (\<lambda>p. f_next (functs h p)) 0 (funct_list_ptr h))) (\<lambda>nf.
           bnd (loop_res (count_walk (\<lambda>p. t_next (threads h p)) 0 (thread_list_ptr h))) (\<lambda>nt.
             Inr (0, Some \<lparr>st_state = hd_state h, st_comp_count = nc, st_pin_count = np, st_param_count = nm,
                       st_funct_count = nf, st_thread_count = nt, st_threads_running = threads_running h,
                       st_shmem_avail = shmem_avail h, st_shmem_total = HAL_SIZE,
                       st_init_pid = init_pid h, st_error_code = hd_error_code h\<rparr>,
                  hal_mutex_give h))))))))"

text \<open>
  \<open>init_hal_data\<close>, with \<open>list_init_entry\<close> and the process id as arguments. It does not
  touch \<open>pin_list_ptr\<close>, \<open>pin_free_ptr\<close> and \<open>shmem_avail\<close>.
\<close>

definition init_hal_data :: "(laddr \<Rightarrow> links \<Rightarrow> links) \<Rightarrow> int \<Rightarrow> hal \<Rightarrow> (int \<times> hal) res" where
  "init_hal_data li pid h =
     bnd (hal_mutex_get h) (\<lambda>h.
       let h = h\<lparr>comp_list_ptr := 0, param_list_ptr := 0, funct_list_ptr := 0, thread_list_ptr := 0,
                 base_period := 0, threads_running := 0, oldname_free_ptr := 0, comp_free_ptr := 0,
                 param_free_ptr := 0, funct_free_ptr := 0, pending_constructor := 0, constructor_prefix := []\<rparr>;
           h = h\<lparr>links := li Free_root (links h)\<rparr>;
           h = h\<lparr>thread_free_ptr := 0, exact_base_period := 0, shmem_bot := sizeof_hal_data,
                 shmem_top := HAL_SIZE, hd_lock := HAL_LOCK_NONE, hd_state := HAL_S_ACTIVE,
                 init_pid := pid, hd_error_code := 0\<rparr>
       in Inr (0, hal_mutex_give h))"

section \<open>Lemmas\<close>

lemma walk_comp:
  "hal_rep h G \<Longrightarrow> loop_res (walk (\<lambda>p. c_next (comps h p)) (\<lambda>p. c_comp_id (comps h p) = i) (comp_list_ptr h))
     = Inr (comp_of i h)"
  using find_comp_of [of h G i] by (simp add: halpr_find_comp_by_id_def)

lemma hal_rep_upd_comp:
  "hal_rep h G \<Longrightarrow> (\<And>c. c_next (f c) = c_next c) \<Longrightarrow> hal_rep (upd_comp p f h) G"
  by (erule hal_rep_frame) (simp_all add: keeps_defs)

lemma hal_inv_lock_cases:
  assumes "hal_inv h"
  obtains G where "hal_rep h G" "hal_data h = SP_mapped" "\<not> locked (hd_mutex h)"
    "hal_rep (h\<lparr>hd_mutex := set_lock (hd_mutex h)\<rparr>) G"
  using assms by (auto simp: hal_inv_def)

lemma give_upd_comp [simp]:
  "\<not> locked (hd_mutex h) \<Longrightarrow>
     hal_mutex_give (upd_comp p f (h\<lparr>hd_mutex := set_lock (hd_mutex h)\<rparr>)) = upd_comp p f h"
  by (simp add: hal_mutex_give_def upd_comp_def)

lemma hal_inv_upd_comp:
  "hal_inv h \<Longrightarrow> (\<And>c. c_next (f c) = c_next c) \<Longrightarrow> hal_inv (upd_comp p f h)"
  by (auto simp: hal_inv_def intro: hal_rep_upd_comp)

lemma comp_of_upd [simp]:
  assumes "\<And>c. c_next (f c) = c_next c" "\<And>c. c_comp_id (f c) = c_comp_id c"
  shows "comp_of i (upd_comp p f h) = comp_of i h"
  using assms by (simp add: comp_of_def)

lemma hal_ready_eq:
  assumes "hal_inv h"
  shows "hal_ready i h = Inr (if comp_of i h = 0 \<or> c_ready (comps h (comp_of i h)) > 0 then (- EINVAL, h)
      else (0, upd_comp (comp_of i h) (\<lambda>c. c\<lparr>c_ready := 1\<rparr>) h))"
  by (rule hal_inv_lock_cases [OF assms]) (auto simp: hal_ready_def walk_comp)

lemma hal_unready_eq:
  assumes "hal_inv h"
  shows "hal_unready i h = Inr (if comp_of i h = 0 \<or> c_ready (comps h (comp_of i h)) < 1 then (- EINVAL, h)
      else (0, upd_comp (comp_of i h) (\<lambda>c. c\<lparr>c_ready := 0\<rparr>) h))"
  by (rule hal_inv_lock_cases [OF assms]) (auto simp: hal_unready_def walk_comp)

lemma hal_set_unready_eq:
  assumes "hal_inv h"
  shows "hal_set_unready i h = Inr (if comp_of i h = 0 then (- EINVAL, h)
      else (0, upd_comp (comp_of i h) (\<lambda>c. c\<lparr>c_ready := 0\<rparr>) h))"
  by (rule hal_inv_lock_cases [OF assms]) (auto simp: hal_set_unready_def find_comp_of)

lemma hal_set_constructor_eq:
  assumes "hal_inv h"
  shows "hal_set_constructor i m h = Inr (if comp_of i h = 0 then (- EINVAL, h)
      else (0, upd_comp (comp_of i h) (\<lambda>c. c\<lparr>c_make := m\<rparr>) h))"
  by (rule hal_inv_lock_cases [OF assms]) (auto simp: hal_set_constructor_def walk_comp)

lemma hal_comp_name_eq:
  assumes "hal_inv h"
  shows "hal_comp_name i h = Inr (if comp_of i h = 0 then None else Some (c_name (comps h (comp_of i h))), h)"
  by (rule hal_inv_lock_cases [OF assms]) (auto simp: hal_comp_name_def find_comp_of)

lemma hal_inv_frame:
  assumes "hal_inv h" "hal_data h' = hal_data h" "hd_mutex h' = hd_mutex h"
    "shmem_bot h' = shmem_bot h" "shmem_top h' = shmem_top h"
    "keeps_comps h h'" "keeps_pins h h'" "keeps_params h h'" "keeps_functs h h'" "keeps_threads h h'"
    "keeps_rings h h'" "keeps_users h h'"
  shows "hal_inv h'"
  using assms by (auto simp: hal_inv_def intro: hal_rep_frame)

lemma hal_start_inv: "hal_inv h \<Longrightarrow> hal_start_threads h = Inr (r, h') \<Longrightarrow> hal_inv h'"
  by (erule hal_inv_frame) (auto simp: hal_start_threads_def keeps_defs split: if_splits)

lemma hal_stop_inv: "hal_inv h \<Longrightarrow> hal_stop_threads h = Inr (r, h') \<Longrightarrow> hal_inv h'"
  by (erule hal_inv_frame) (auto simp: hal_stop_threads_def keeps_defs split: if_splits)

text \<open>The contract of \<open>list_init_entry\<close> that its callers rely on: the entry becomes a ring of its own.\<close>

definition init_entry_ok :: "(laddr \<Rightarrow> links \<Rightarrow> links) \<Rightarrow> bool" where
  "init_entry_ok li \<longleftrightarrow> (\<forall>e L. li e L = L(e := \<lparr>l_next = e, l_prev = e\<rparr>))"

lemma init_hal_data_eq:
  assumes "\<not> locked (hd_mutex h)"
  shows "init_hal_data li pid h = Inr (0, h\<lparr>comp_list_ptr := 0, param_list_ptr := 0, funct_list_ptr := 0, thread_list_ptr := 0,
                 base_period := 0, threads_running := 0, oldname_free_ptr := 0, comp_free_ptr := 0,
                 param_free_ptr := 0, funct_free_ptr := 0, pending_constructor := 0, constructor_prefix := [],
                 links := li Free_root (links h), thread_free_ptr := 0, exact_base_period := 0,
                 shmem_bot := sizeof_hal_data,
                 shmem_top := HAL_SIZE, hd_lock := HAL_LOCK_NONE, hd_state := HAL_S_ACTIVE,
                 init_pid := pid, hd_error_code := 0\<rparr>)"
  using assms by (simp add: init_hal_data_def hal_mutex_give_def)

lemma init_hal_data_inv:
  assumes "\<not> locked (hd_mutex h)" "hal_data h = SP_mapped" "init_entry_ok li"
    and "pin_list_ptr h = 0" "pin_free_ptr h = 0"
    and "\<forall>p. p_oldname (pins h p) = 0" "\<forall>p. pm_oldname (params h p) = 0"
    and "init_hal_data li pid h = Inr (r, h')"
  shows "hal_inv h'"
proof -
  have "hal_rep h' \<lparr>s_comps = [], s_comps_free = [], s_pins = [], s_pins_free = [], s_params = [],
    s_params_free = [], s_functs = [], s_functs_free = [], s_threads = [], s_threads_free = [],
    s_entries = (\<lambda>_. []), s_entries_free = []\<rparr>"
    using assms(3-8) unfolding init_hal_data_eq [OF assms(1)]
    by (auto simp: hal_rep_def part_defs area_wf_def area_ok_def HAL_SIZE_def sizeof_hal_data_def
        all_entries_def ring_def blocks_def apart_def init_entry_ok_def)
  moreover have "hal_data h' = SP_mapped" "\<not> locked (hd_mutex h')"
    using assms(1,2,8) unfolding init_hal_data_eq [OF assms(1)] by auto
  ultimately show ?thesis by (auto simp: hal_inv_def)
qed

section \<open>The properties\<close>

text \<open>
  The ready protocol of a component. Each of the calls returns and keeps the segment
  well-formed; \<open>hal_ready\<close> succeeds exactly for a registered component that is not ready, after it
  the same call fails and \<open>hal_unready\<close> succeeds, and the two together restore the segment.
\<close>

theorem ready_protocol:
  assumes "hal_inv h" "comp_of i h \<noteq> 0" "c_ready (comps h (comp_of i h)) = 0"
  shows "\<exists>h1. hal_ready i h = Inr (0, h1) \<and> hal_inv h1 \<and> hal_ready i h1 = Inr (- EINVAL, h1)
    \<and> hal_unready i h1 = Inr (0, h) \<and> hal_set_unready i h1 = Inr (0, h) \<and> hal_unready i h = Inr (- EINVAL, h)"
proof -
  let ?h1 = "upd_comp (comp_of i h) (\<lambda>c. c\<lparr>c_ready := 1\<rparr>) h"
  have i1: "hal_inv ?h1" by (rule hal_inv_upd_comp [OF assms(1)]) simp
  have "upd_comp (comp_of i h) (\<lambda>c. c\<lparr>c_ready := 0\<rparr>) ?h1 = h"
  proof -
    have "(comps h (comp_of i h))\<lparr>c_ready := 0\<rparr> = comps h (comp_of i h)"
      using assms(3) by (intro hal_comp.equality) simp_all
    then show ?thesis by (simp add: upd_comp_def)
  qed
  with assms i1 show ?thesis
    by (simp add: hal_ready_eq hal_unready_eq hal_set_unready_eq)
qed

theorem ready_protocol_witness:
  "\<exists>h1. hal_ready 1 one_comp = Inr (0, h1) \<and> hal_unready 1 h1 = Inr (0, one_comp)"
  using ready_protocol [OF one_comp_inv, of 1] by (auto simp: one_comp_comp one_comp_sel)

text \<open>
  The life cycle calls. On a mapped segment whose run lock is off,
  \<open>hal_start_threads\<close> and \<open>hal_stop_threads\<close> move between ACTIVE and RUNNING, set and clear
  \<open>threads_running\<close>, undo each other, and refuse with \<open>-EALREADY\<close> a transition already made
  and with \<open>-EINVAL\<close> every other state, changing nothing.
\<close>

theorem start_stop_machine:
  assumes "hal_data h = SP_mapped" "hd_lock h AND HAL_LOCK_RUN = 0"
  shows "hd_state h = HAL_S_ACTIVE \<Longrightarrow> threads_running h = 0 \<Longrightarrow>
      \<exists>h1. hal_start_threads h = Inr (0, h1) \<and> hd_state h1 = HAL_S_RUNNING \<and> threads_running h1 = 1
        \<and> hal_start_threads h1 = Inr (- EALREADY, h1) \<and> hal_stop_threads h1 = Inr (0, h)
        \<and> hal_stop_threads h = Inr (- EALREADY, h)
        \<and> (\<forall>s. s \<noteq> HAL_S_ACTIVE \<and> s \<noteq> HAL_S_RUNNING \<longrightarrow>
             hal_start_threads (h\<lparr>hd_state := s\<rparr>) = Inr (- EINVAL, h\<lparr>hd_state := s\<rparr>)
             \<and> hal_stop_threads (h\<lparr>hd_state := s\<rparr>) = Inr (- EINVAL, h\<lparr>hd_state := s\<rparr>))"
  using assms by (auto simp: hal_start_threads_def hal_stop_threads_def)

theorem start_stop_machine_witness:
  "\<exists>h1. hal_start_threads one_comp = Inr (0, h1) \<and> hd_state h1 = HAL_S_RUNNING \<and> hal_stop_threads h1 = Inr (0, one_comp)"
proof -
  have "hal_data one_comp = SP_mapped" "hd_lock one_comp AND HAL_LOCK_RUN = 0" "hd_state one_comp = HAL_S_ACTIVE"
    "threads_running one_comp = 0" by (simp_all add: one_comp_sel)
  from start_stop_machine [OF this] show ?thesis by blast
qed

text \<open>
  \<open>hal_get_stats\<close> on a well-formed segment returns \<open>0\<close>, the counts are the
  lengths of the lists, the other fields are those of the segment, and nothing is changed.
\<close>

theorem hal_get_stats_counts:
  assumes "hal_inv h"
  shows "\<exists>s. hal_get_stats True h = Inr (0, Some s, h) \<and> st_state s = hd_state h
    \<and> st_comp_count s = int (length (nodes (\<lambda>p. c_next (comps h p)) (comp_list_ptr h)))
    \<and> st_pin_count s = int (length (pin_names h)) \<and> st_param_count s = int (length (param_names h))
    \<and> st_funct_count s = int (length (nodes (\<lambda>p. f_next (functs h p)) (funct_list_ptr h)))
    \<and> st_thread_count s = int (length (nodes (\<lambda>p. t_next (threads h p)) (thread_list_ptr h)))
    \<and> st_threads_running s = threads_running h \<and> st_shmem_avail s = shmem_avail h \<and> st_shmem_total s = 1048576
    \<and> st_init_pid s = init_pid h \<and> st_error_code s = hd_error_code h"
proof -
  obtain G where G: "hal_rep h G" "hal_data h = SP_mapped" "\<not> locked (hd_mutex h)"
    by (rule hal_inv_lock_cases [OF assms])
  then have c: "chain (\<lambda>p. c_next (comps h p)) (comp_list_ptr h) (s_comps G)"
    "chain (\<lambda>p. p_next (pins h p)) (pin_list_ptr h) (s_pins G)"
    "chain (\<lambda>p. pm_next (params h p)) (param_list_ptr h) (s_params G)"
    "chain (\<lambda>p. f_next (functs h p)) (funct_list_ptr h) (s_functs G)"
    "chain (\<lambda>p. t_next (threads h p)) (thread_list_ptr h) (s_threads G)"
    by (simp_all add: hal_rep_def part_defs pool_def)
  from G(2,3) show ?thesis
    by (simp add: hal_get_stats_def c [THEN count_walk_chain] c [THEN nodes_chain] pin_names_def param_names_def
        HAL_SIZE_def)
qed

theorem hal_get_stats_counts_witness:
  "\<exists>s. hal_get_stats True one_comp = Inr (0, Some s, one_comp) \<and> st_comp_count s = 1 \<and> st_pin_count s = 0"
  using hal_get_stats_counts [OF one_comp_inv]
  by (auto simp: one_comp_names one_comp_sel one_comp_nodes)



text \<open>
  \<open>init_hal_data\<close> does not reset the pin list. Run again on a segment that has pins, it
  gives the memory of the pins back to the free area and leaves them on the list: the segment is not
  well-formed any more.
\<close>

theorem init_hal_data_keeps_pins:
  assumes "hal_inv h" "pin_names h \<noteq> []"
  shows "\<exists>h'. init_hal_data li pid h = Inr (0, h') \<and> pin_names h' = pin_names h \<and> \<not> hal_inv h'"
proof -
  obtain G where G: "hal_rep h G" "hal_data h = SP_mapped" "\<not> locked (hd_mutex h)"
    by (rule hal_inv_lock_cases [OF assms(1)])
  obtain h' where h': "init_hal_data li pid h = Inr (0, h')" using init_hal_data_eq [OF G(3)] by blast
  then have same: "pin_list_ptr h' = pin_list_ptr h" "pins h' = pins h" "shmem_top h' = HAL_SIZE"
    unfolding init_hal_data_eq [OF G(3)] by auto
  then have names: "pin_names h' = pin_names h" by (simp add: pin_names_def)
  have "\<not> hal_inv h'"
  proof
    assume "hal_inv h'"
    then obtain G' where G': "hal_rep h' G'" by (auto simp: hal_inv_def)
    with names assms(2) have "s_pins G' \<noteq> []" by (auto simp: pin_names_rep)
    then obtain p where "p \<in> set (s_pins G')" by (cases "s_pins G'") auto
    with G' same(3) show False by (fastforce simp: hal_rep_def pins_ok_def pool_def sizeof_hal_pin_def)
  qed
  with h' names show ?thesis by blast
qed

theorem init_hal_data_keeps_pins_witness:
  "\<exists>h h'. pin_names h = [''p''] \<and> init_hal_data (\<lambda>e L. L) 42 h = Inr (0, h') \<and> pin_names h' = [''p''] \<and> \<not> hal_inv h'"
proof -
  have "pin_verdict ''p'' HAL_BIT (Cell_user 300) 1 one_comp = 0"
    by (simp add: pin_verdict_def pin_type_ok_def one_comp_comp one_comp_names one_comp_alloc SHMCHK_def HAL_SIZE_def
        one_comp_sel)
  then obtain h where h: "hal_inv h" "pin_names h = [''p'']"
    using hal_pin_new_run [OF one_comp_inv, of "Cell_user 300" "''p''" HAL_BIT 1] by (auto simp: one_comp_names)
  moreover obtain h' where "init_hal_data (\<lambda>e L. L) 42 h = Inr (0, h')" "pin_names h' = [''p'']" "\<not> hal_inv h'"
    using init_hal_data_keeps_pins [OF h(1), of "\<lambda>e L. L" 42] h(2) by auto
  ultimately show ?thesis by blast
qed

end
