(* ===== verification/Hal_Funct.thy ===== *)
theory Hal_Funct
  imports Hal_Comp
begin

text \<open>
  Exporting a function (\<open>hal_export_funct\<close>, \<open>hal_export_functf\<close>, \<open>hal_export_functfv\<close> of
  \<open>hal/hal_lib.c\<close>): the function is registered under its name, and then gets a pin for its run
  time and two parameters.
\<close>

unbundle bit_operations_syntax

section \<open>The code\<close>

text \<open>The search for the place of the new function: \<open>False\<close> is the duplicate branch.\<close>

definition funct_insert :: "off \<Rightarrow> hal \<Rightarrow> (bool \<times> hal) res" where
  "funct_insert new h =
     bnd (loop_res (ins_walk (\<lambda>p. f_next (functs h p))
            (\<lambda>p. strcmp (f_name (functs h p)) (f_name (functs h new))) At_head (funct_list_ptr h)))
       (\<lambda>place. case place of
          Some (prev, next) \<Rightarrow> Inr (True, link_in (\<lambda>v h. h\<lparr>funct_list_ptr := v\<rparr>) set_f_next prev next new h)
        | None \<Rightarrow> bnd (free_funct_struct new h) (\<lambda>h. Inr (False, h)))"

text \<open>\<open>*runtime = 0\<close>\<close>

definition clear_runtime :: "dptr \<Rightarrow> hal \<Rightarrow> hal res" where
  "clear_runtime d h =
     (case d of D_sig p \<Rightarrow> Inr (upd_pin p (\<lambda>s. s\<lparr>p_dummysig := 0\<rparr>) h) | _ \<Rightarrow> Inl UB)"

text \<open>The pin and the parameters of a new function.\<close>

definition funct_items :: "string \<Rightarrow> int \<Rightarrow> off \<Rightarrow> hal \<Rightarrow> (int \<times> hal) res" where
  "funct_items name comp_id new h =
     bnd (hal_pin_newf HAL_S32 (Cell_funct new) comp_id (name @ ''.time'') h) (\<lambda>(r, h).
       if r \<noteq> 0 then Inr (- EINVAL, h)
       else bnd (clear_runtime (f_runtime (functs h new)) h) (\<lambda>h.
         let buf = snprintf_s (HAL_NAME_LEN + 1) (name @ ''.tmax'');
             h = upd_funct new (\<lambda>s. s\<lparr>f_maxtime := 0\<rparr>) h
         in bnd (hal_param_s32_new buf HAL_RW HAL_S32 (A_funct_maxtime new) comp_id h) (\<lambda>(_, h).
         let buf = snprintf_s (HAL_NAME_LEN + 1) (name @ ''.tmax-increased'');
             h = upd_funct new (\<lambda>s. s\<lparr>f_maxtime_increased := False\<rparr>) h
         in bnd (hal_param_bit_new buf HAL_RO HAL_BIT (A_funct_increased new) comp_id h) (\<lambda>(_, h).
         Inr (0, h)))))"

definition hal_export_funct :: "string \<Rightarrow> int \<Rightarrow> int \<Rightarrow> int \<Rightarrow> int \<Rightarrow> int \<Rightarrow> hal \<Rightarrow> (int \<times> hal) res" where
  "hal_export_funct name funct arg uses_fp reentrant comp_id h =
     (if hal_data h = SP_null then Inr (- EINVAL, h)
      else if length name > HAL_NAME_LEN then Inr (- EINVAL, h)
      else if hal_data h = SP_stale then Inl UB
      else if hd_lock h AND HAL_LOCK_LOAD \<noteq> 0 then Inr (- EPERM, h)
      else
        bnd (hal_mutex_get h) (\<lambda>h.
        bnd (halpr_find_comp_by_id comp_id h) (\<lambda>cp.
          if cp = 0 then Inr (- EINVAL, hal_mutex_give h)
          else if c_type (comps h cp) = COMPONENT_TYPE_USER then Inr (- EINVAL, hal_mutex_give h)
          else if c_ready (comps h cp) \<noteq> 0 then Inr (- EINVAL, hal_mutex_give h)
          else case alloc_funct_struct h of
            (None, h) \<Rightarrow> Inr (- ENOMEM, hal_mutex_give h)
          | (Some new, h) \<Rightarrow>
              let h = upd_funct new (\<lambda>s. s\<lparr>f_uses_fp := uses_fp, f_owner := cp, f_reentrant := reentrant,
                        f_users := 0, f_arg := arg, f_funct := funct,
                        f_name := snprintf_s (HAL_NAME_LEN + 1) name\<rparr>) h
              in bnd (funct_insert new h) (\<lambda>(inserted, h).
                   if \<not> inserted then Inr (- EINVAL, hal_mutex_give h)
                   else funct_items name comp_id new (hal_mutex_give h)))))"

text \<open>
  The variadic variant never formats the name: \<open>sz\<close> and \<open>name\<close> are read uninitialised, and
  are arguments here.
\<close>

definition hal_export_functfv ::
  "int \<Rightarrow> string \<Rightarrow> int \<Rightarrow> int \<Rightarrow> int \<Rightarrow> int \<Rightarrow> int \<Rightarrow> hal \<Rightarrow> (int \<times> hal) res" where
  "hal_export_functfv sz name funct arg uses_fp reentrant comp_id h =
     (if sz = - 1 \<or> sz > int HAL_NAME_LEN then Inr (- ENOMEM, h)
      else hal_export_funct name funct arg uses_fp reentrant comp_id h)"

definition hal_export_functf ::
  "int \<Rightarrow> string \<Rightarrow> int \<Rightarrow> int \<Rightarrow> int \<Rightarrow> int \<Rightarrow> int \<Rightarrow> hal \<Rightarrow> (int \<times> hal) res" where
  "hal_export_functf sz name funct arg uses_fp reentrant comp_id h =
     hal_export_functfv sz name funct arg uses_fp reentrant comp_id h"

section \<open>Taking a function struct\<close>

lemma alloc_funct_Some:
  assumes "hal_rep h G" "alloc_funct_struct h = (Some n, t)"
  obtains pn fr tp av where "t = h\<lparr>shmem_avail := av, shmem_top := tp, funct_free_ptr := fr, functs := pn\<rparr>"
    and "spare (\<lambda>p. f_next (pn p)) (funct_list_ptr h) fr tp sizeof_hal_funct n (s_functs G) (tl (s_functs_free G))"
    and "\<forall>p. p \<noteq> n \<longrightarrow> pn p = functs h p"
    and "area_wf t" "tp \<le> shmem_top h"
    and "if s_functs_free G = [] then n = tp \<and> n + sizeof_hal_funct \<le> shmem_top h
         else n = hd (s_functs_free G) \<and> tp = shmem_top h"
    and "shmem_top h - 128 \<le> tp"
proof -
  from assms(2) obtain t' where t': "take_struct funct_free_ptr (\<lambda>v h. h\<lparr>funct_free_ptr := v\<rparr>)
      (\<lambda>h p. f_next (functs h p)) set_f_next (shmalloc_dn sizeof_hal_funct) h = (Some n, t')"
    and t: "t = upd_funct n (\<lambda>s. s\<lparr>f_next := 0, f_uses_fp := 0, f_owner := 0,
            f_reentrant := 0, f_users := 0, f_arg := 0, f_funct := 0, f_name := []\<rparr>) t'"
    by (auto simp: alloc_funct_struct_def split: prod.splits option.splits)
  from assms(1) have a: "area_wf h" and p: "pool (\<lambda>p. f_next (functs h p)) (funct_list_ptr h) (funct_free_ptr h)
      (shmem_top h) sizeof_hal_funct (s_functs G) (s_functs_free G)"
    by (auto simp: hal_rep_def functs_ok_def)
  note T = funct_pool.take_Some [OF a p t']
  have "t' = h\<lparr>shmem_avail := shmem_avail t', shmem_top := shmem_top t', funct_free_ptr := funct_free_ptr t',
      functs := functs t'\<rparr> \<and> (\<forall>p. p \<noteq> n \<longrightarrow> functs t' p = functs h p) \<and> shmem_top h - 128 \<le> shmem_top t'"
  proof (cases "funct_free_ptr h = 0")
    case True
    with t' have "shmalloc_dn sizeof_hal_funct h = (Some n, t')" by (simp add: take_struct_def)
    then show ?thesis using shmalloc_dn_room(1) [OF a sizeof_pos(4), of n t']
      by (auto dest!: shmalloc_dn_frame simp: sizeof_hal_funct_def)
  next
    case False
    with t' have "n = funct_free_ptr h \<and> t' = set_f_next n 0 (h\<lparr>funct_free_ptr := f_next (functs h n)\<rparr>)"
      by (auto simp: take_struct_def Let_def)
    then show ?thesis by (simp add: set_f_next_def upd_funct_def)
  qed
  then obtain av tp fr pn where f: "t' = h\<lparr>shmem_avail := av, shmem_top := tp, funct_free_ptr := fr, functs := pn\<rparr>"
    "\<And>p. p \<noteq> n \<Longrightarrow> pn p = functs h p" "shmem_top h - 128 \<le> tp" by auto
  show ?thesis
  proof (rule that)
    show "t = h\<lparr>shmem_avail := av, shmem_top := tp, funct_free_ptr := fr, functs := functs t\<rparr>"
      by (simp add: t f(1) upd_funct_def)
    show "spare (\<lambda>p. f_next (functs t p)) (funct_list_ptr h) fr tp sizeof_hal_funct n (s_functs G) (tl (s_functs_free G))"
      using T by (auto simp: t f(1) upd_funct_heap elim!: spare_next)
  qed (use T f(2,3) in \<open>auto simp: t f(1) split: if_splits\<close>)
qed

lemma alloc_funct_None:
  assumes "hal_rep h G" "alloc_funct_struct h = (None, t)"
  shows "t = h"
  using assms funct_pool.take_None [of h "s_functs G" "s_functs_free G"]
  by (auto simp: alloc_funct_struct_def hal_rep_def functs_ok_def split: prod.splits option.splits)

lemma alloc_funct_lock: "fst (alloc_funct_struct (h\<lparr>hd_mutex := m\<rparr>)) = fst (alloc_funct_struct h)"
  by (simp add: alloc_funct_struct_def take_struct_def shmalloc_dn_def Let_def split: prod.splits option.splits)

lemma hal_rep_functs:
  assumes rep: "hal_rep h G" and "area_wf h'" "shmem_top h' \<le> shmem_top h"
    and gr: "set (xs @ ys) = set (s_functs G @ s_functs_free G)
      \<or> (\<exists>n. set (xs @ ys) = insert n (set (s_functs G @ s_functs_free G)) \<and> n + sizeof_hal_funct \<le> shmem_top h)"
    and "functs_ok h' (G\<lparr>s_functs := xs, s_functs_free := ys\<rparr>)" "users_ok h' (G\<lparr>s_functs := xs, s_functs_free := ys\<rparr>)"
    and "keeps_comps h h'" "keeps_pins h h'" "keeps_params h h'" "keeps_threads h h'" "keeps_rings h h'"
  shows "hal_rep h' (G\<lparr>s_functs := xs, s_functs_free := ys\<rparr>)"
proof (rule hal_rep_step [OF rep])
  let ?G = "G\<lparr>s_functs := xs, s_functs_free := ys\<rparr>"
  note parts = hal_rep_parts [OF rep]
  show "blocks ?G = blocks G \<or> (\<exists>n sz. blocks ?G = insert (n, sz) (blocks G) \<and> n + sz \<le> shmem_top h)"
    using gr
  proof
    assume g: "set (xs @ ys) = set (s_functs G @ s_functs_free G)"
    show ?thesis by (intro disjI1) (simp add: blocks_def all_entries_def g del: set_append)
  next
    assume "\<exists>n. set (xs @ ys) = insert n (set (s_functs G @ s_functs_free G)) \<and> n + sizeof_hal_funct \<le> shmem_top h"
    then obtain n where g: "set (xs @ ys) = insert n (set (s_functs G @ s_functs_free G))" and l: "n + sizeof_hal_funct \<le> shmem_top h"
      by blast
    have "blocks ?G = insert (n, sizeof_hal_funct) (blocks G)"
      by (simp add: blocks_def all_entries_def g del: set_append)
    with l show ?thesis by blast
  qed
  show "comps_ok h' ?G" by (rule comps_ok_frame [OF parts(2)]) (simp_all add: assms)
  show "pins_ok h' ?G" by (rule pins_ok_frame [OF parts(3)]) (simp_all add: assms)
  show "params_ok h' ?G" by (rule params_ok_frame [OF parts(4)]) (simp_all add: assms)
  show "threads_ok h' ?G" by (rule threads_ok_frame [OF parts(6)]) (simp_all add: assms)
  show "rings_ok h' ?G" by (rule rings_ok_frame [OF parts(7)]) (simp_all add: assms)
qed (use assms in simp_all)

lemma link_in_funct:
  obtains pn pl where
    "link_in (\<lambda>v h. h\<lparr>funct_list_ptr := v\<rparr>) set_f_next prev nxt n s = s\<lparr>funct_list_ptr := pl, functs := pn\<rparr>"
    "\<forall>q. \<exists>v. pn q = (functs s q)\<lparr>f_next := v\<rparr>"
proof -
  let ?t = "link_in (\<lambda>v h. h\<lparr>funct_list_ptr := v\<rparr>) set_f_next prev nxt n s"
  have "\<exists>pl pn. ?t = s\<lparr>funct_list_ptr := pl, functs := pn\<rparr>"
    by (rule exI [of _ "funct_list_ptr ?t"], rule exI [of _ "functs ?t"], cases prev)
      (simp_all add: link_in_def put_link_def set_f_next_def upd_funct_def)
  then obtain pl pn where t: "?t = s\<lparr>funct_list_ptr := pl, functs := pn\<rparr>" by blast
  then have "pn = functs ?t" by simp
  moreover have "\<exists>v. x = x\<lparr>f_next := v\<rparr>" for x :: hal_funct by (rule exI [of _ "f_next x"]) simp
  then have "\<forall>q. \<exists>v. functs ?t q = (functs s q)\<lparr>f_next := v\<rparr>"
    by (cases prev; auto simp: link_in_def put_link_def set_f_next_def upd_funct_heap)
  ultimately show ?thesis using that [of pn pl] t by blast
qed

definition funct_names :: "hal \<Rightarrow> string list" where
  "funct_names h = map (\<lambda>p. f_name (functs h p)) (nodes (\<lambda>p. f_next (functs h p)) (funct_list_ptr h))"

text \<open>The functions that are listed.\<close>

definition funct_set :: "hal \<Rightarrow> off set" where
  "funct_set h = set (nodes (\<lambda>p. f_next (functs h p)) (funct_list_ptr h))"

lemma funct_set_rep: "hal_rep h G \<Longrightarrow> funct_set h = set (s_functs G)"
  using nodes_chain [of "\<lambda>p. f_next (functs h p)" "funct_list_ptr h" "s_functs G"]
  by (simp add: funct_set_def hal_rep_def functs_ok_def pool_def)

lemma funct_set_frame [simp]:
  "funct_set (h\<lparr>hd_mutex := m\<rparr>) = funct_set h" "funct_set (hal_mutex_give h) = funct_set h"
  by (simp_all add: funct_set_def hal_mutex_give_def)

lemma funct_names_rep: "hal_rep h G \<Longrightarrow> funct_names h = map (\<lambda>p. f_name (functs h p)) (s_functs G)"
  using nodes_chain [of "\<lambda>p. f_next (functs h p)" "funct_list_ptr h" "s_functs G"]
  by (simp add: funct_names_def hal_rep_def functs_ok_def pool_def)

lemma funct_names_frame [simp]:
  "funct_names (h\<lparr>hd_mutex := m\<rparr>) = funct_names h" "funct_names (hal_mutex_give h) = funct_names h"
  by (simp_all add: funct_names_def hal_mutex_give_def)

section \<open>The insertion\<close>

lemma free_funct_pool:
  assumes sp: "spare (\<lambda>p. f_next (functs h p)) (funct_list_ptr h) (funct_free_ptr h) (shmem_top h) sizeof_hal_funct n xs ys"
    and u: "f_users (functs h n) = 0"
  obtains pn where "free_funct_struct n h = Inr (h\<lparr>funct_free_ptr := n, functs := pn\<rparr>)"
    "pool (\<lambda>p. f_next (pn p)) (funct_list_ptr h) n (shmem_top h) sizeof_hal_funct xs (n # ys)"
    "\<forall>p. p \<noteq> n \<longrightarrow> pn p = functs h p"
proof -
  let ?k = "upd_funct n (\<lambda>s. s\<lparr>f_uses_fp := 0, f_owner := 0, f_reentrant := 0, f_users := 0,
                      f_arg := 0, f_funct := 0, f_runtime := D_null, f_name := []\<rparr>) h"
  let ?h3 = "(set_f_next n (funct_free_ptr ?k) ?k)\<lparr>funct_free_ptr := n\<rparr>"
  have f: "free_funct_struct n h = Inr ?h3"
    by (simp add: free_funct_struct_def u)
  from sp have "spare (\<lambda>p. f_next (functs ?k p)) (funct_list_ptr ?k) (funct_free_ptr ?k) (shmem_top ?k)
      sizeof_hal_funct n xs ys" by simp
  from funct_pool.free_pool [OF this refl]
  have po: "pool (\<lambda>p. f_next (functs ?h3 p)) (funct_list_ptr ?h3) (funct_free_ptr ?h3) (shmem_top ?h3) sizeof_hal_funct
      xs (n # ys)" .
  have e: "?h3 = h\<lparr>funct_free_ptr := n, functs := functs ?h3\<rparr>"
    by (simp add: set_f_next_def upd_funct_def)
  have "pool (\<lambda>p. f_next (functs ?h3 p)) (funct_list_ptr h) n (shmem_top h) sizeof_hal_funct xs (n # ys)"
    using po by (simp add: set_f_next_def)
  moreover have "\<forall>p. p \<noteq> n \<longrightarrow> functs ?h3 p = functs h p"
    by (simp add: set_f_next_def)
  ultimately show ?thesis using that [of "functs ?h3"] e f by metis
qed

text \<open>
  The users of the functions do not change when a function that no entry calls comes or goes.
\<close>

lemma users_ok_functs:
  assumes "users_ok h G" "entries h' = entries h"
    and "\<And>p. p \<in> set (s_functs G) \<Longrightarrow> f_users (functs h' p) = f_users (functs h p)
           \<and> f_reentrant (functs h' p) = f_reentrant (functs h p)"
    and "s_threads G' = s_threads G" "s_entries G' = s_entries G"
    and "set (s_functs G') = set (s_functs G) \<or> (set (s_functs G') = insert n (set (s_functs G))
           \<and> n \<notin> set (s_functs G) \<and> f_users (functs h' n) = 0)"
  shows "users_ok h' G'"
proof -
  have ae: "all_entries G' = all_entries G" by (simp add: all_entries_def assms)
  have us: "uses h' G' f = uses h G f" for f by (simp add: uses_def ae assms)
  have "uses h G n = 0" if "n \<notin> set (s_functs G)"
    using assms(1) that by (auto simp: users_ok_def uses_def filter_empty_conv)
  with assms show ?thesis by (auto simp: users_ok_def ae us)
qed

definition funct_filled :: "off \<Rightarrow> hal_funct \<Rightarrow> hal \<Rightarrow> shape \<Rightarrow> hal \<Rightarrow> bool" where
  "funct_filled n x h G h2 \<longleftrightarrow> (\<forall>p. functs h2 p = (if p = n then x else functs h p)) \<and> f_users x = 0 \<and> entries h2 = entries h \<and>
     spare (\<lambda>p. f_next (functs h2 p)) (funct_list_ptr h2) (funct_free_ptr h2) (shmem_top h2) sizeof_hal_funct n
       (s_functs G) (tl (s_functs_free G)) \<and>
     grown (s_functs G) (s_functs_free G) n (shmem_top h - sizeof_hal_funct) \<and> shmem_top h2 \<le> shmem_top h \<and> area_wf h2 \<and>
     keeps_comps h h2 \<and> keeps_pins h h2 \<and> keeps_params h h2 \<and> keeps_threads h h2 \<and> keeps_rings h h2"

lemma funct_filledI:
  assumes rep: "hal_rep h G" and al: "alloc_funct_struct h = (Some n, t)"
    and h2: "functs h2 = (functs t)(n := x)" "funct_list_ptr h2 = funct_list_ptr t" "funct_free_ptr h2 = funct_free_ptr t"
    and x: "f_users x = 0"
    and top: "shmem_top h2 = shmem_top t" "area_wf h2" "entries h2 = entries h"
    and ks: "keeps_comps h h2" "keeps_pins h h2" "keeps_params h h2" "keeps_threads h h2" "keeps_rings h h2"
  shows "funct_filled n x h G h2" "0 < n" "n + sizeof_hal_funct \<le> HAL_SIZE"
proof -
  obtain pn fr tp av where t: "t = h\<lparr>shmem_avail := av, shmem_top := tp, funct_free_ptr := fr, functs := pn\<rparr>"
    and sp: "spare (\<lambda>p. f_next (pn p)) (funct_list_ptr h) fr tp sizeof_hal_funct n (s_functs G) (tl (s_functs_free G))"
    and pn: "\<forall>p. p \<noteq> n \<longrightarrow> pn p = functs h p" and a: "area_wf t" "tp \<le> shmem_top h"
    and n: "if s_functs_free G = [] then n = tp \<and> n + sizeof_hal_funct \<le> shmem_top h
         else n = hd (s_functs_free G) \<and> tp = shmem_top h"
    by (rule alloc_funct_Some [OF rep al])
  have "spare (\<lambda>p. f_next (functs h2 p)) (funct_list_ptr h2) (funct_free_ptr h2) (shmem_top h2) sizeof_hal_funct n
      (s_functs G) (tl (s_functs_free G))"
    using sp by (auto simp: h2 top t elim: spare_next)
  moreover have "grown (s_functs G) (s_functs_free G) n (shmem_top h - sizeof_hal_funct)"
    by (rule grownI) (use n in \<open>auto split: if_splits\<close>)
  ultimately show "funct_filled n x h G h2" using pn x a top ks by (simp add: funct_filled_def h2 t)
  show "0 < n" "n + sizeof_hal_funct \<le> HAL_SIZE"
    using sp a by (simp_all add: spare_def t area_wf_def area_ok_def)
qed

lemma funct_filled_names:
  assumes rep: "hal_rep h G" and f: "funct_filled n x h G h2"
  shows "map (\<lambda>p. f_name (functs h2 p)) (s_functs G) = funct_names h" "n \<notin> set (s_functs G)"
    "(\<lambda>p. f_name (functs h2 p)) ` set (s_functs G) = set (funct_names h)"
    "sorted_names (\<lambda>p. f_name (functs h2 p)) (s_functs G)"
proof -
  show nin: "n \<notin> set (s_functs G)" using f by (simp add: funct_filled_def spare_def)
  then show mp: "map (\<lambda>p. f_name (functs h2 p)) (s_functs G) = funct_names h"
    using f by (auto simp: funct_names_rep [OF rep] funct_filled_def)
  show "(\<lambda>p. f_name (functs h2 p)) ` set (s_functs G) = set (funct_names h)"
    using arg_cong [OF mp, of set] by simp
  show "sorted_names (\<lambda>p. f_name (functs h2 p)) (s_functs G)"
    unfolding sorted_names_def mp using hal_rep_parts(5) [OF rep]
    by (simp add: functs_ok_def sorted_names_def funct_names_rep [OF rep])
qed

lemma funct_filled_rep:
  assumes "hal_rep h G" "funct_filled n x h G h2" "functs_ok h3 (G\<lparr>s_functs := xs, s_functs_free := ys\<rparr>)"
    and "users_ok h3 (G\<lparr>s_functs := xs, s_functs_free := ys\<rparr>)" "set (xs @ ys) = set (s_functs G @ n # tl (s_functs_free G))"
    and "h3 = h2\<lparr>funct_list_ptr := pl, funct_free_ptr := fr, functs := pn\<rparr>"
  shows "hal_rep h3 (G\<lparr>s_functs := xs, s_functs_free := ys\<rparr>)"
proof (rule hal_rep_functs [OF assms(1) _ _ _ assms(3,4)])
  show "set (xs @ ys) = set (s_functs G @ s_functs_free G) \<or>
      (\<exists>n. set (xs @ ys) = insert n (set (s_functs G @ s_functs_free G)) \<and> n + sizeof_hal_funct \<le> shmem_top h)"
    using assms(2) unfolding assms(5) by (auto simp: funct_filled_def grown_def)
qed (use assms(2) in \<open>simp_all add: assms(6) funct_filled_def keeps_defs\<close>)

text \<open>The name is taken: back to the free list.\<close>

lemma funct_insert_back:
  assumes rep: "hal_rep h G" and f: "funct_filled n x h G h2" and nm: "f_name x = nm" "nm \<in> set (funct_names h)"
  shows "\<exists>h3 pn. funct_insert n h2 = Inr (False, h3) \<and> h3 = h2\<lparr>funct_free_ptr := n, functs := pn\<rparr> \<and>
    (\<exists>G'. hal_rep h3 G') \<and> funct_names h3 = funct_names h"
proof -
  note F = f [unfolded funct_filled_def] and N = funct_filled_names [OF rep f]
  from F have ps: "functs h2 p = (if p = n then x else functs h p)" for p by blast
  from F have x: "f_users x = 0" and en: "entries h2 = entries h" by blast+
  from F have sp: "spare (\<lambda>p. f_next (functs h2 p)) (funct_list_ptr h2) (funct_free_ptr h2) (shmem_top h2) sizeof_hal_funct n
      (s_functs G) (tl (s_functs_free G))" by blast
  have nmn: "f_name (functs h2 n) = nm" by (simp add: ps nm)
  have w: "ins_walk (\<lambda>p. f_next (functs h2 p)) (\<lambda>p. strcmp (f_name (functs h2 p)) nm) At_head (funct_list_ptr h2) = Some None"
    by (rule funct_pool.insert_named(1) [OF sp N(4), unfolded N(3) nmn N(1), OF nm(2)])
  obtain pn3 where h3: "free_funct_struct n h2 = Inr (h2\<lparr>funct_free_ptr := n, functs := pn3\<rparr>)"
    and po: "pool (\<lambda>p. f_next (pn3 p)) (funct_list_ptr h2) n (shmem_top h2) sizeof_hal_funct (s_functs G) (n # tl (s_functs_free G))"
    and pn3: "\<forall>p. p \<noteq> n \<longrightarrow> pn3 p = functs h2 p"
    by (rule free_funct_pool [OF sp]) (simp add: ps x)
  let ?h3 = "h2\<lparr>funct_free_ptr := n, functs := pn3\<rparr>" and ?G = "G\<lparr>s_functs := s_functs G, s_functs_free := n # tl (s_functs_free G)\<rparr>"
  have old: "pn3 p = functs h p" if "p \<in> set (s_functs G)" for p
    by (cases "p = n") (use that N(2) pn3 ps in auto)
  have mp3: "map (\<lambda>p. f_name (pn3 p)) (s_functs G) = funct_names h"
    unfolding funct_names_rep [OF rep] by (rule map_cong [OF refl]) (simp add: old)
  have ok3: "functs_ok ?h3 ?G"
    using po N(4) [unfolded sorted_names_def N(1)] by (simp add: functs_ok_def sorted_names_def mp3)
  have us3: "users_ok ?h3 ?G"
    by (rule users_ok_functs [OF hal_rep_parts(8) [OF rep]]) (use en in \<open>auto simp: old\<close>)
  have rep3: "hal_rep ?h3 ?G"
    by (rule funct_filled_rep [OF rep f ok3 us3, where pl = "funct_list_ptr h2" and fr = n and pn = pn3]) simp_all
  have "funct_names ?h3 = funct_names h" using mp3 by (simp add: funct_names_rep [OF rep3])
  moreover have "funct_insert n h2 = Inr (False, ?h3)" by (simp add: funct_insert_def nmn w h3)
  ultimately show ?thesis
    by (rule_tac exI [of _ ?h3], rule_tac exI [of _ pn3]) (use rep3 in auto)
qed

text \<open>The name is new: in its place of the list.\<close>

lemma funct_insert_place:
  assumes rep: "hal_rep h G" and f: "funct_filled n x h G h2" and nm: "f_name x = nm" "nm \<notin> set (funct_names h)"
  shows "\<exists>h3 pl pn. funct_insert n h2 = Inr (True, h3) \<and> h3 = h2\<lparr>funct_list_ptr := pl, functs := pn\<rparr> \<and>
    (\<exists>G'. hal_rep h3 G') \<and> funct_names h3 = insort nm (funct_names h) \<and> n \<notin> funct_set h \<and> funct_set h3 = insert n (funct_set h) \<and>
    (\<forall>q. \<exists>v. pn q = (if q = n then x else functs h q)\<lparr>f_next := v\<rparr>)"
proof -
  note F = f [unfolded funct_filled_def] and N = funct_filled_names [OF rep f]
  from F have ps: "functs h2 p = (if p = n then x else functs h p)" for p by blast
  from F have x: "f_users x = 0" and en: "entries h2 = entries h" by blast+
  from F have sp: "spare (\<lambda>p. f_next (functs h2 p)) (funct_list_ptr h2) (funct_free_ptr h2) (shmem_top h2) sizeof_hal_funct n
      (s_functs G) (tl (s_functs_free G))" by blast
  have nmn: "f_name (functs h2 n) = nm" by (simp add: ps nm)
  from funct_pool.insert_named(2) [OF sp N(4), unfolded N(3) nmn N(1), OF nm(2)] obtain prev nxt us vs where
    w: "ins_walk (\<lambda>p. f_next (functs h2 p)) (\<lambda>p. strcmp (f_name (functs h2 p)) nm) At_head (funct_list_ptr h2)
        = Some (Some (prev, nxt))" and uv: "s_functs G = us @ vs"
    and po: "pool (\<lambda>p. f_next (functs (link_in (\<lambda>v h. h\<lparr>funct_list_ptr := v\<rparr>) set_f_next prev nxt n h2) p))
          (funct_list_ptr (link_in (\<lambda>v h. h\<lparr>funct_list_ptr := v\<rparr>) set_f_next prev nxt n h2))
          (funct_free_ptr (link_in (\<lambda>v h. h\<lparr>funct_list_ptr := v\<rparr>) set_f_next prev nxt n h2))
          (shmem_top (link_in (\<lambda>v h. h\<lparr>funct_list_ptr := v\<rparr>) set_f_next prev nxt n h2)) sizeof_hal_funct
          (us @ n # vs) (tl (s_functs_free G))"
      "sorted_names (\<lambda>p. f_name (functs (link_in (\<lambda>v h. h\<lparr>funct_list_ptr := v\<rparr>) set_f_next prev nxt n h2) p)) (us @ n # vs)"
      "map (\<lambda>p. f_name (functs (link_in (\<lambda>v h. h\<lparr>funct_list_ptr := v\<rparr>) set_f_next prev nxt n h2) p)) (us @ n # vs)
         = insort nm (funct_names h)"
    by (auto simp only: Let_def)
  obtain pn3 pl3 where h3: "link_in (\<lambda>v h. h\<lparr>funct_list_ptr := v\<rparr>) set_f_next prev nxt n h2
      = h2\<lparr>funct_list_ptr := pl3, functs := pn3\<rparr>" and l3: "\<forall>q. \<exists>v. pn3 q = (functs h2 q)\<lparr>f_next := v\<rparr>"
    by (rule link_in_funct)
  have s3: "f_users (pn3 q) = f_users (functs h2 q)" "f_reentrant (pn3 q) = f_reentrant (functs h2 q)" for q
    using spec [OF l3, of q] by auto
  let ?h3 = "h2\<lparr>funct_list_ptr := pl3, functs := pn3\<rparr>" and ?G = "G\<lparr>s_functs := us @ n # vs, s_functs_free := tl (s_functs_free G)\<rparr>"
  have ok3: "functs_ok ?h3 ?G" using po(1,2) by (simp add: functs_ok_def h3)
  have us3: "users_ok ?h3 ?G"
  proof (rule users_ok_functs [OF hal_rep_parts(8) [OF rep], where n = n])
    fix p assume "p \<in> set (s_functs G)"
    with N(2) have "p \<noteq> n" by auto
    then show "f_users (functs ?h3 p) = f_users (functs h p) \<and> f_reentrant (functs ?h3 p) = f_reentrant (functs h p)"
      by (simp add: s3 ps)
  qed (use N(2) en ps s3 x in \<open>auto simp: uv\<close>)
  have rep3: "hal_rep ?h3 ?G"
    by (rule funct_filled_rep [OF rep f ok3 us3, where pl = pl3 and fr = "funct_free_ptr h2" and pn = pn3]) (auto simp: uv)
  have "funct_names ?h3 = insort nm (funct_names h)" using po(3) by (simp add: funct_names_rep [OF rep3] h3)
  moreover have "n \<notin> funct_set h" "funct_set ?h3 = insert n (funct_set h)"
    using N(2) by (auto simp: funct_set_rep [OF rep] funct_set_rep [OF rep3] uv)
  moreover have "\<forall>q. \<exists>v. pn3 q = (if q = n then x else functs h q)\<lparr>f_next := v\<rparr>" using l3 by (simp add: ps)
  moreover have "funct_insert n h2 = Inr (True, ?h3)" by (simp add: funct_insert_def nmn w h3)
  ultimately show ?thesis
    by (rule_tac exI [of _ ?h3], rule_tac exI [of _ pl3], rule_tac exI [of _ pn3]) (use rep3 in auto)
qed

lemma funct_insert_result:
  assumes rep: "hal_rep h G" and al: "alloc_funct_struct h = (Some n, t)"
    and h2: "functs h2 = (functs t)(n := x)" "funct_list_ptr h2 = funct_list_ptr t" "funct_free_ptr h2 = funct_free_ptr t"
    and x: "f_users x = 0" "f_name x = nm"
    and top: "shmem_top h2 = shmem_top t" "area_wf h2" "entries h2 = entries h"
    and ks: "keeps_comps h h2" "keeps_pins h h2" "keeps_params h h2" "keeps_threads h h2" "keeps_rings h h2"
  shows "\<exists>h3 pl fr pn. funct_insert n h2 = Inr (nm \<notin> set (funct_names h), h3)
      \<and> h3 = h2\<lparr>funct_list_ptr := pl, funct_free_ptr := fr, functs := pn\<rparr> \<and> (\<exists>G'. hal_rep h3 G')
      \<and> funct_names h3 = (if nm \<in> set (funct_names h) then funct_names h else insort nm (funct_names h))
      \<and> 0 < n \<and> n + sizeof_hal_funct \<le> HAL_SIZE
      \<and> (nm \<notin> set (funct_names h) \<longrightarrow> n \<notin> funct_set h \<and> funct_set h3 = insert n (funct_set h)
           \<and> (\<forall>q. \<exists>v. pn q = (if q = n then x else functs h q)\<lparr>f_next := v\<rparr>))"
proof -
  have f: "funct_filled n x h G h2" and n: "0 < n" "n + sizeof_hal_funct \<le> HAL_SIZE"
    using funct_filledI [OF rep al h2 x(1) top ks] by blast+
  show ?thesis
  proof (cases "nm \<in> set (funct_names h)")
    case True
    obtain h3 pn where b: "funct_insert n h2 = Inr (False, h3)" "h3 = h2\<lparr>funct_free_ptr := n, functs := pn\<rparr>"
      "\<exists>G'. hal_rep h3 G'" "funct_names h3 = funct_names h"
      using funct_insert_back [OF rep f x(2) True] by blast
    show ?thesis
      by (rule exI [of _ h3], rule exI [of _ "funct_list_ptr h2"], rule exI [of _ n], rule exI [of _ pn])
        (use b True n in simp)
  next
    case False
    obtain h3 pl pn where b: "funct_insert n h2 = Inr (True, h3)" "h3 = h2\<lparr>funct_list_ptr := pl, functs := pn\<rparr>"
      "\<exists>G'. hal_rep h3 G'" "funct_names h3 = insort nm (funct_names h)" "n \<notin> funct_set h" "funct_set h3 = insert n (funct_set h)"
      "\<forall>q. \<exists>v. pn q = (if q = n then x else functs h q)\<lparr>f_next := v\<rparr>"
      using funct_insert_place [OF rep f x(2) False] by blast
    show ?thesis
      by (rule exI [of _ h3], rule exI [of _ pl], rule exI [of _ "funct_free_ptr h2"], rule exI [of _ pn])
        (use b False n in simp)
  qed
qed

section \<open>The pin and the parameters of a function\<close>

lemma pin_step_functs:
  assumes "pin_step i c h h'"
  shows "funct_names h' = funct_names h" "param_names h' = param_names h" "comps h' = comps h" "comp_list_ptr h' = comp_list_ptr h"
  using assms by (auto simp: pin_step_def funct_names_def param_names_def)

lemma param_step_functs:
  assumes "param_step h h'"
  shows "funct_names h' = funct_names h" "pin_names h' = pin_names h"
  using assms by (auto simp: param_step_def funct_names_def pin_names_def)

lemma hal_param_new_keeps:
  assumes "hal_inv h"
  obtains r h' where "hal_param_new name type dir c i h = Inr (r, h')" "hal_inv h'"
    "funct_names h' = funct_names h" "pin_names h' = pin_names h"
  using hal_param_new_run [OF assms, of name type dir c i] param_step_functs by metis

lemma hal_inv_upd_dummysig: "hal_inv h \<Longrightarrow> hal_inv (upd_pin p (\<lambda>s. s\<lparr>p_dummysig := v\<rparr>) h)"
  by (erule hal_inv_frame) (simp_all add: keeps_defs)

lemma hal_inv_upd_funct:
  assumes "hal_inv h" "\<And>s. f_next (f s) = f_next s" "\<And>s. f_name (f s) = f_name s" "\<And>s. f_users (f s) = f_users s"
    "\<And>s. f_reentrant (f s) = f_reentrant s"
  shows "hal_inv (upd_funct p f h)"
  by (rule hal_inv_frame [OF assms(1)]) (use assms(2-) in \<open>simp_all add: keeps_defs\<close>)

lemma pin_names_upd [simp]:
  "pin_names (upd_pin p (\<lambda>s. s\<lparr>p_dummysig := v\<rparr>) h) = pin_names h" "pin_names (upd_funct q f h) = pin_names h"
  by (simp_all add: pin_names_def)

lemma funct_names_upd [simp]:
  assumes "\<And>s. f_next (f s) = f_next s" "\<And>s. f_name (f s) = f_name s"
  shows "funct_names (upd_funct q f h) = funct_names h" 
  using assms by (simp add: funct_names_def)

lemma funct_names_upd_pin [simp]: "funct_names (upd_pin p g h) = funct_names h"
  by (simp add: funct_names_def)

lemma funct_items_run:
  assumes inv: "hal_inv h" and base: "c_shmem_base (comps h (comp_of i h)) = B_base"
  shows "\<exists>r h'. funct_items name i n h = Inr (r, h') \<and> hal_inv h' \<and> r \<in> {0, - EINVAL}
    \<and> funct_names h' = funct_names h
    \<and> pin_names h' = (if r = 0 then insort (name @ ''.time'') (pin_names h) else pin_names h)
    \<and> (r \<noteq> 0 \<longrightarrow> param_names h' = param_names h) \<and> (length name > 42 \<longrightarrow> r = - EINVAL)"
proof (cases "length name > 42")
  case True
  with inv show ?thesis
    by (simp add: funct_items_def hal_pin_newf_def hal_pin_newfv_def HAL_NAME_LEN_def)
next
  case short: False
  let ?v = "pin_verdict (name @ ''.time'') HAL_S32 (Cell_funct n) i h"
  from hal_pin_new_run [OF inv, of "Cell_funct n" "name @ ''.time''" HAL_S32 i] obtain h1 where
    h1: "hal_pin_new (name @ ''.time'') HAL_S32 (Cell_funct n) i h = Inr (?v, h1)" "hal_inv h1"
    and st: "if ?v = 0 then pin_step i (Cell_funct n) h h1 else h1 = h \<or> pin_step i (Cell_funct n) h h1"
    and pn: "pin_names h1 = (if ?v = 0 then insort (name @ ''.time'') (pin_names h) else pin_names h)"
    by auto
  have new: "hal_pin_newf HAL_S32 (Cell_funct n) i (name @ ''.time'') h = Inr (?v, h1)"
    using short h1(1) by (simp add: hal_pin_newf_def hal_pin_newfv_def HAL_NAME_LEN_def snprintf_s_def)
  show ?thesis
  proof (cases "?v = 0")
    case False
    with st have "funct_names h1 = funct_names h" "param_names h1 = param_names h"
      using pin_step_functs by auto
    with False h1 new pn short show ?thesis by (simp add: funct_items_def)
  next
    case True
    with st base obtain m where rt: "f_runtime (functs h1 n) = D_sig m"
      by (auto simp: pin_step_def)
    let ?h2 = "upd_funct n (\<lambda>s. s\<lparr>f_maxtime := 0\<rparr>) (upd_pin m (\<lambda>s. s\<lparr>p_dummysig := 0\<rparr>) h1)"
    have i2: "hal_inv ?h2" by (intro hal_inv_upd_funct hal_inv_upd_dummysig h1(2)) simp_all
    obtain r3 h3 where h3: "hal_param_new (snprintf_s (HAL_NAME_LEN + 1) (name @ ''.tmax'')) HAL_S32 HAL_RW
        (A_funct_maxtime n) i ?h2 = Inr (r3, h3)" "hal_inv h3" "funct_names h3 = funct_names ?h2" "pin_names h3 = pin_names ?h2"
      by (rule hal_param_new_keeps [OF i2])
    let ?h4 = "upd_funct n (\<lambda>s. s\<lparr>f_maxtime_increased := False\<rparr>) h3"
    have i4: "hal_inv ?h4" by (intro hal_inv_upd_funct h3(2)) simp_all
    obtain r5 h5 where h5: "hal_param_new (snprintf_s (HAL_NAME_LEN + 1) (name @ ''.tmax-increased'')) HAL_BIT HAL_RO
        (A_funct_increased n) i ?h4 = Inr (r5, h5)" "hal_inv h5" "funct_names h5 = funct_names ?h4" "pin_names h5 = pin_names ?h4"
      by (rule hal_param_new_keeps [OF i4])
    have f1: "funct_names h1 = funct_names h" using st True pin_step_functs by auto
    have "funct_items name i n h = Inr (0, h5)"
      using new True rt h3(1) h5(1)
      by (simp add: funct_items_def clear_runtime_def hal_param_s32_new_def hal_param_bit_new_def Let_def)
    moreover have "funct_names h5 = funct_names h" "pin_names h5 = insort (name @ ''.time'') (pin_names h)"
      using h5(3,4) h3(3,4) f1 pn True by simp_all
    ultimately show ?thesis using h5(2) short by auto
  qed
qed

section \<open>What \<open>hal_export_funct\<close> does\<close>

definition funct_verdict :: "string \<Rightarrow> int \<Rightarrow> hal \<Rightarrow> int" where
  "funct_verdict name i h =
     (if length name > 47 then - EINVAL
      else if hd_lock h AND 1 \<noteq> 0 then - EPERM
      else if comp_of i h = 0 \<or> c_type (comps h (comp_of i h)) = COMPONENT_TYPE_USER
              \<or> c_ready (comps h (comp_of i h)) \<noteq> 0 then - EINVAL
      else if fst (alloc_funct_struct h) = None then - ENOMEM
      else if name \<in> set (funct_names h) then - EINVAL
      else 0)"

lemma hal_export_funct_run:
  fixes name :: string and i :: int
  assumes inv: "hal_inv h" and base: "c_shmem_base (comps h (comp_of i h)) = B_base"
  defines "v \<equiv> funct_verdict name i h"
  shows "\<exists>r h'. hal_export_funct name fn arg fp re i h = Inr (r, h') \<and> hal_inv h'
    \<and> (v \<noteq> 0 \<longrightarrow> r = v \<and> funct_names h' = funct_names h \<and> pin_names h' = pin_names h)
    \<and> (v = 0 \<longrightarrow> r \<in> {0, - EINVAL} \<and> funct_names h' = insort name (funct_names h)
         \<and> pin_names h' = (if r = 0 then insort (name @ ''.time'') (pin_names h) else pin_names h)
         \<and> (length name > 42 \<longrightarrow> r = - EINVAL))"
proof -
  from inv obtain G where G: "hal_rep h G" "hal_data h = SP_mapped" "\<not> locked (hd_mutex h)"
    by (auto simp: hal_inv_def)
  let ?h = "h\<lparr>hd_mutex := set_lock (hd_mutex h)\<rparr>" and ?cp = "comp_of i h"
  have G1: "hal_rep ?h G" using G by simp
  note fc = find_comp_of [OF G1, of i]
  note run = hal_export_funct_def [of name fn arg fp re i h, unfolded HAL_NAME_LEN_def HAL_LOCK_LOAD_def]
  show ?thesis
  proof (cases "length name \<le> 47 \<and> hd_lock h AND 1 = 0 \<and> ?cp \<noteq> 0 \<and> c_type (comps h ?cp) \<noteq> COMPONENT_TYPE_USER
      \<and> c_ready (comps h ?cp) = 0")
    case False
    with inv G fc show ?thesis
      by (auto simp: run v_def funct_verdict_def)
  next
    case ok: True
    show ?thesis
    proof (cases "alloc_funct_struct ?h")
      case (Pair r t)
      show ?thesis
      proof (cases r)
        case None
        with Pair alloc_funct_None [OF G1] have "t = ?h" by simp
        with None Pair ok G fc inv alloc_funct_lock [of "set_lock (hd_mutex h)" h] show ?thesis
          by (simp add: run v_def funct_verdict_def)
      next
        case (Some n)
        have al: "alloc_funct_struct ?h = (Some n, t)" using Pair Some by simp
        have alh: "fst (alloc_funct_struct h) \<noteq> None"
          using al alloc_funct_lock [of "set_lock (hd_mutex h)" h] by (metis fst_conv option.distinct(1))
        obtain pn fr tp av where t: "t = ?h\<lparr>shmem_avail := av, shmem_top := tp, funct_free_ptr := fr, functs := pn\<rparr>"
          and a: "area_wf t"
          by (rule alloc_funct_Some [OF G1 al])
        let ?f = "\<lambda>s :: hal_funct. s\<lparr>f_uses_fp := fp, f_owner := ?cp, f_reentrant := re,
                        f_users := 0, f_arg := arg, f_funct := fn, f_name := snprintf_s 48 name\<rparr>"
        let ?h2 = "upd_funct n ?f t"
        have nm: "snprintf_s 48 name = name" using ok by (simp add: snprintf_s_def)
        have "\<exists>h3 pl fr pn'. funct_insert n ?h2 = Inr (name \<notin> set (funct_names ?h), h3)
            \<and> h3 = ?h2\<lparr>funct_list_ptr := pl, funct_free_ptr := fr, functs := pn'\<rparr> \<and> (\<exists>G'. hal_rep h3 G')
            \<and> funct_names h3 = (if name \<in> set (funct_names ?h) then funct_names ?h else insort name (funct_names ?h))
            \<and> 0 < n \<and> n + sizeof_hal_funct \<le> HAL_SIZE
            \<and> (name \<notin> set (funct_names ?h) \<longrightarrow> n \<notin> funct_set ?h \<and> funct_set h3 = insert n (funct_set ?h)
                 \<and> (\<forall>q. \<exists>v. pn' q = (if q = n then ?f (pn n) else functs ?h q)\<lparr>f_next := v\<rparr>))"
          by (rule funct_insert_result [OF G1 al, where x = "?f (pn n)"])
            (use a in \<open>simp_all add: t upd_funct_heap keeps_defs nm\<close>)
        then obtain h3 pl fr3 pn3 where h3: "funct_insert n ?h2 = Inr (name \<notin> set (funct_names h), h3)"
          and e: "h3 = ?h2\<lparr>funct_list_ptr := pl, funct_free_ptr := fr3, functs := pn3\<rparr>" and r: "\<exists>G'. hal_rep h3 G'"
          and ns: "funct_names h3 = (if name \<in> set (funct_names h) then funct_names h else insort name (funct_names h))"
          unfolding funct_names_frame by blast
        have sel: "hal_data h3 = SP_mapped" "comps h3 = comps h" "comp_list_ptr h3 = comp_list_ptr h" "pin_names h3 = pin_names h"
          using G(2) by (simp_all add: e t pin_names_def)
        with r have i3: "hal_inv (hal_mutex_give h3)" by (auto intro: hal_inv_give)
        have c3: "comp_of i (hal_mutex_give h3) = comp_of i h" "comps (hal_mutex_give h3) = comps h"
          using sel by (simp_all add: comp_of_def hal_mutex_give_def)
        show ?thesis
        proof (cases "name \<in> set (funct_names h)")
          case True
          with ok G fc al alh h3 ns i3 sel show ?thesis
            by (simp add: run v_def funct_verdict_def)
        next
          case False
          from funct_items_run [OF i3, of i name n] base c3 obtain r5 h5 where
            "funct_items name i n (hal_mutex_give h3) = Inr (r5, h5)" "hal_inv h5" "r5 \<in> {0, - EINVAL}"
            "funct_names h5 = funct_names (hal_mutex_give h3)"
            "pin_names h5 = (if r5 = 0 then insort (name @ ''.time'') (pin_names (hal_mutex_give h3)) else pin_names (hal_mutex_give h3))"
            "length name > 42 \<longrightarrow> r5 = - EINVAL" by auto
          with False ok G fc al alh h3 ns sel show ?thesis
            by (auto simp: run v_def funct_verdict_def)
        qed
      qed
    qed
  qed
qed

section \<open>The properties\<close>

lemma one_comp_funct:
  "c_shmem_base (comps one_comp (comp_of 1 one_comp)) = B_base" "funct_names one_comp = []"
  by (simp add: one_comp_comp one_comp_sel) (simp add: funct_names_def one_comp_def zero_hal_def)

lemma one_comp_funct_verdict: "length n \<le> 47 \<Longrightarrow> funct_verdict n 1 one_comp = 0"
  by (simp add: funct_verdict_def one_comp_comp one_comp_funct one_comp_sel)
    (simp add: one_comp_def zero_hal_def alloc_funct_struct_def take_struct_def shmalloc_dn_def sizeof_defs align_dn_simps)



text \<open>
  Names of 43 to 47 characters. The length check of \<open>hal_export_funct\<close> lets them pass,
  but the name of the run-time pin is then too long: the call reports \<open>-EINVAL\<close> and leaves the
  function registered without its pin and parameters.
\<close>

theorem hal_export_funct_long_name:
  fixes name :: string and i :: int
  assumes "hal_inv h" "c_shmem_base (comps h (comp_of i h)) = B_base"
    and "funct_verdict name i h = 0" "43 \<le> length name"
  shows "\<exists>h'. hal_export_funct name fn arg fp re i h = Inr (- EINVAL, h')
    \<and> name \<in> set (funct_names h') \<and> pin_names h' = pin_names h"
proof -
  obtain r h' where "hal_export_funct name fn arg fp re i h = Inr (r, h')" "r = - EINVAL"
    "funct_names h' = insort name (funct_names h)" "pin_names h' = (if r = 0 then insort (name @ ''.time'') (pin_names h) else pin_names h)"
    using hal_export_funct_run [OF assms(1,2), of name fn arg fp re] assms(3,4) by auto
  then show ?thesis by (auto simp: set_insort_key)
qed

theorem hal_export_funct_long_name_witness:
  "\<exists>h'. hal_export_funct (replicate 45 (CHR ''x'')) 1 2 0 0 1 one_comp = Inr (- EINVAL, h')
     \<and> replicate 45 (CHR ''x'') \<in> set (funct_names h')"
  using hal_export_funct_long_name [OF one_comp_inv, of 1 "replicate 45 (CHR ''x'')" 1 2 0 0]
    one_comp_funct(1) one_comp_funct_verdict [of "replicate 45 (CHR ''x'')"] by auto

end
