(* ===== verification/Hal_Release.thy ===== *)
theory Hal_Release
  imports Hal_Funct
begin

text \<open>
  What is released with a component or a function (\<open>free_funct_entry_struct\<close>,
  \<open>free_funct_struct\<close>, \<open>free_comp_struct\<close> of \<open>hal/hal_lib.c\<close>): the entries of the threads
  that call a function go with it, and the functions and parameters of a component go with the
  component.
\<close>

section \<open>Entries\<close>

text \<open>The rule of \<open>users_ok\<close>, for a set of functions that need not be the live list.\<close>

definition users_on :: "hal \<Rightarrow> shape \<Rightarrow> off set \<Rightarrow> bool" where
  "users_on h G F \<longleftrightarrow>
     (\<forall>e \<in> set (all_entries G). e_funct_ptr (entries h e) \<in> F)
     \<and> (\<forall>f \<in> F. f_users (functs h f) = int (uses h G f)
          \<and> (f_reentrant (functs h f) = 0 \<longrightarrow> uses h G f \<le> 1))"

lemma users_ok_on: "users_ok h G = users_on h G (set (s_functs G))"
  by (simp add: users_ok_def users_on_def)

text \<open>What the release of entries changes.\<close>

definition only_entries :: "hal \<Rightarrow> hal \<Rightarrow> bool" where
  "only_entries h h' \<longleftrightarrow> (\<exists>fn en L. h' = h\<lparr>functs := fn, entries := en, links := L\<rparr>
     \<and> (\<forall>p. \<exists>u. fn p = (functs h p)\<lparr>f_users := u\<rparr>))"

lemma funct_users_id: "\<exists>u. (s :: hal_funct) = s\<lparr>f_users := u\<rparr>"
  by (rule exI [of _ "f_users s"]) simp

lemma only_entries_refl [simp]: "only_entries h h"
  unfolding only_entries_def
  by (rule exI [of _ "functs h"], rule exI [of _ "entries h"], rule exI [of _ "links h"]) (simp add: funct_users_id)

lemma only_entries_trans:
  assumes "only_entries h1 h2" "only_entries h2 h3"
  shows "only_entries h1 h3"
proof -
  from assms(1) obtain fn en L where 1: "h2 = h1\<lparr>functs := fn, entries := en, links := L\<rparr>"
    "\<forall>p. \<exists>u. fn p = (functs h1 p)\<lparr>f_users := u\<rparr>" by (auto simp: only_entries_def)
  from assms(2) 1(1) obtain fn' en' L' where 2: "h3 = h1\<lparr>functs := fn', entries := en', links := L'\<rparr>"
    "\<forall>p. \<exists>u. fn' p = (fn p)\<lparr>f_users := u\<rparr>" by (auto simp: only_entries_def)
  have "\<exists>u. fn' p = (functs h1 p)\<lparr>f_users := u\<rparr>" for p
    using spec [OF 1(2), of p] spec [OF 2(2), of p] by auto
  with 2(1) show ?thesis unfolding only_entries_def by blast
qed

lemma only_entries_keeps:
  assumes "only_entries h h'"
  shows "keeps_comps h h'" "keeps_pins h h'" "keeps_params h h'" "keeps_functs h h'" "keeps_threads h h'"
    "shmem_top h' = shmem_top h" "shmem_bot h' = shmem_bot h" "hal_data h' = hal_data h" "hd_mutex h' = hd_mutex h"
    "threads h' = threads h" "comps h' = comps h" "params h' = params h" "pins h' = pins h"
    "thread_list_ptr h' = thread_list_ptr h" "funct_list_ptr h' = funct_list_ptr h" "param_list_ptr h' = param_list_ptr h"
    "funct_free_ptr h' = funct_free_ptr h" "hd_state h' = hd_state h"
proof -
  from assms obtain fn en L where h': "h' = h\<lparr>functs := fn, entries := en, links := L\<rparr>"
    and fn: "\<forall>p. \<exists>u. fn p = (functs h p)\<lparr>f_users := u\<rparr>" by (auto simp: only_entries_def)
  have "f_next (fn p) = f_next (functs h p)" "f_name (fn p) = f_name (functs h p)" for p
    using spec [OF fn, of p] by auto
  then show "keeps_functs h h'" by (simp add: h' keeps_defs)
qed (use assms in \<open>auto simp: only_entries_def keeps_defs\<close>)

lemma only_entries_owner:
  assumes "only_entries h h'"
  shows "f_owner (functs h' p) = f_owner (functs h p)" "f_reentrant (functs h' p) = f_reentrant (functs h p)"
    "f_next (functs h' p) = f_next (functs h p)" "f_name (functs h' p) = f_name (functs h p)"
proof -
  from assms have "\<forall>p. \<exists>u. functs h' p = (functs h p)\<lparr>f_users := u\<rparr>" by (auto simp: only_entries_def)
  then obtain u where "functs h' p = (functs h p)\<lparr>f_users := u\<rparr>" by blast
  then show "f_owner (functs h' p) = f_owner (functs h p)" "f_reentrant (functs h' p) = f_reentrant (functs h p)"
    "f_next (functs h' p) = f_next (functs h p)" "f_name (functs h' p) = f_name (functs h p)" by simp_all
qed

text \<open>The entries of one thread within the entries of all.\<close>

lemma all_entries_at:
  assumes "t \<in> set (s_threads G)" "distinct (s_threads G)"
  obtains A B where "all_entries G = A @ s_entries G t @ B"
    "\<forall>zs ef. all_entries (G\<lparr>s_entries := (s_entries G)(t := zs), s_entries_free := ef\<rparr>) = A @ zs @ B"
proof -
  from assms(1) obtain as bs where ts: "s_threads G = as @ t # bs" by (meson split_list)
  with assms(2) have n: "t \<notin> set as" "t \<notin> set bs" by auto
  have m: "map ((s_entries G)(t := zs)) as = map (s_entries G) as"
    "map ((s_entries G)(t := zs)) bs = map (s_entries G) bs" for zs
    using n by (auto intro!: map_cong)
  show ?thesis
    by (rule that [of "concat (map (s_entries G) as)" "concat (map (s_entries G) bs)"])
      (simp_all add: all_entries_def ts m del: map_eq_conv)
qed

text \<open>Taking an entry out of a thread, and freeing it.\<close>

definition unhook :: "off \<Rightarrow> hal \<Rightarrow> hal" where
  "unhook e h = free_funct_entry_struct e (h\<lparr>links := snd (list_remove_entry (Entry e) (links h))\<rparr>)"

lemma unhook_only: "only_entries h (unhook e h)"
proof -
  let ?f = "e_funct_ptr (entries h e)"
  have "unhook e h = h\<lparr>functs := (if ?f > 0 then (functs h)(?f := (functs h ?f)\<lparr>f_users := f_users (functs h ?f) - 1\<rparr>) else functs h),
     entries := (entries h)(e := (entries h e)\<lparr>e_funct_ptr := 0, e_arg := 0, e_funct := 0\<rparr>),
     links := list_add_after (Entry e) Free_root (snd (list_remove_entry (Entry e) (links h)))\<rparr>"
    by (simp add: unhook_def free_funct_entry_struct_def Let_def upd_funct_def upd_entry_def)
  then show ?thesis
    unfolding only_entries_def by (intro exI conjI) (auto simp: funct_users_id)
qed

lemma unhook_sel:
  "links (unhook e h) = list_add_after (Entry e) Free_root (snd (list_remove_entry (Entry e) (links h)))"
  "e' \<noteq> e \<Longrightarrow> entries (unhook e h) e' = entries h e'"
  "f_users (functs (unhook e h) p) = f_users (functs h p) - (if e_funct_ptr (entries h e) > 0 \<and> e_funct_ptr (entries h e) = p then 1 else 0)"
  by (simp_all add: unhook_def free_funct_entry_struct_def Let_def upd_funct_heap)

definition unhooked :: "off \<Rightarrow> off list \<Rightarrow> off \<Rightarrow> shape \<Rightarrow> shape" where
  "unhooked t zs e G = G\<lparr>s_entries := (s_entries G)(t := zs), s_entries_free := e # s_entries_free G\<rparr>"

lemma unhook_rings:
  assumes ok: "rings_ok h G" and t: "t \<in> set (s_threads G)" "distinct (s_threads G)"
    and es: "s_entries G t = xs @ e # ys"
  shows "rings_ok (unhook e h) (unhooked t (xs @ ys) e G)"
proof -
  obtain A B where ae: "all_entries G = A @ s_entries G t @ B"
    and ae': "\<forall>zs ef. all_entries (G\<lparr>s_entries := (s_entries G)(t := zs), s_entries_free := ef\<rparr>) = A @ zs @ B"
    by (rule all_entries_at [OF t])
  have d: "distinct (s_entries_free G @ A @ (xs @ e # ys) @ B)"
    using ok by (simp add: rings_ok_def ae es)
  have rt: "ring (links h) (Thread_root t) (xs @ e # ys)" and rf: "ring (links h) Free_root (s_entries_free G)"
    using ok t es by (auto simp: rings_ok_def)
  let ?L1 = "snd (list_remove_entry (Entry e) (links h))" and ?L = "links (unhook e h)"
  have f1: "ring ?L1 Free_root (s_entries_free G)"
    by (rule ring_remove_other [OF rt rf]) (use d in auto)
  have free: "ring ?L Free_root (e # s_entries_free G)"
    using ring_add_after [OF f1, of 0 e] d by (simp add: unhook_sel)
  have other: "ring ?L (Thread_root u) zs" if "ring ?L1 (Thread_root u) zs" "set zs \<inter> set (s_entries_free G) = {}" "e \<notin> set zs" for u zs
    unfolding unhook_sel by (rule ring_add_other [OF f1 that(1)]) (use d that in auto)
  have thr: "ring ?L (Thread_root t) (xs @ ys)"
    by (rule other [OF ring_remove [OF rt]]) (use d in auto)
  have rest: "ring ?L (Thread_root u) (s_entries G u)" if u: "u \<in> set (s_threads G)" "u \<noteq> t" for u
  proof (rule other)
    have "set (s_entries G u) \<subseteq> set A \<union> set B"
    proof -
      have "set (s_entries G u) \<subseteq> set (all_entries (G\<lparr>s_entries := (s_entries G)(t := []), s_entries_free := []\<rparr>))"
        using u by (auto simp: all_entries_def)
      then show ?thesis by (simp add: ae')
    qed
    with d have dis: "set (s_entries G u) \<inter> set (xs @ e # ys) = {}" "set (s_entries G u) \<inter> set (s_entries_free G) = {}" by auto
    then show "set (s_entries G u) \<inter> set (s_entries_free G) = {}" "e \<notin> set (s_entries G u)" by auto
    have "ring (links h) (Thread_root u) (s_entries G u)" using ok u by (auto simp: rings_ok_def)
    then show "ring ?L1 (Thread_root u) (s_entries G u)"
      by (rule ring_remove_other [OF rt]) (use u dis in auto)
  qed
  have "\<forall>x \<in> set (s_entries_free G @ A @ (xs @ e # ys) @ B). shmem_top h \<le> x \<and> x + sizeof_hal_funct_entry \<le> HAL_SIZE"
    using ok unfolding rings_ok_def ae es by blast
  with free thr rest d show ?thesis
    by (auto simp: rings_ok_def unhooked_def ae' only_entries_keeps(6) [OF unhook_only])
qed

lemma unhook_users:
  assumes us: "users_on h G F" and ok: "rings_ok h G" and t: "t \<in> set (s_threads G)" "distinct (s_threads G)"
    and es: "s_entries G t = xs @ e # ys" and pos: "\<forall>f \<in> F. 0 < f"
  shows "users_on (unhook e h) (unhooked t (xs @ ys) e G) F"
proof -
  obtain A B where ae: "all_entries G = A @ s_entries G t @ B"
    and ae': "\<forall>zs ef. all_entries (G\<lparr>s_entries := (s_entries G)(t := zs), s_entries_free := ef\<rparr>) = A @ zs @ B"
    by (rule all_entries_at [OF t])
  have d: "distinct (A @ (xs @ e # ys) @ B)" using ok by (auto simp: rings_ok_def ae es)
  let ?G = "unhooked t (xs @ ys) e G"
  have aG: "all_entries ?G = A @ (xs @ ys) @ B" by (simp add: unhooked_def ae')
  have en: "entries (unhook e h) x = entries h x" if "x \<in> set (A @ (xs @ ys) @ B)" for x
    using that d by (intro unhook_sel) auto
  have eF: "e_funct_ptr (entries h e) \<in> F" using us by (auto simp: users_on_def ae es)
  have u: "uses (unhook e h) ?G f = uses h G f - (if e_funct_ptr (entries h e) = f then 1 else 0)"
    and u1: "e_funct_ptr (entries h e) = f \<Longrightarrow> 1 \<le> uses h G f" for f
  proof -
    have "filter (\<lambda>x. e_funct_ptr (entries (unhook e h) x) = f) (all_entries ?G)
        = filter (\<lambda>x. e_funct_ptr (entries h x) = f) (A @ (xs @ ys) @ B)"
      unfolding aG by (rule filter_cong [OF refl]) (simp add: en)
    then show "uses (unhook e h) ?G f = uses h G f - (if e_funct_ptr (entries h e) = f then 1 else 0)"
      by (simp add: uses_def ae es)
    show "e_funct_ptr (entries h e) = f \<Longrightarrow> 1 \<le> uses h G f" by (simp add: uses_def ae es)
  qed
  have "e_funct_ptr (entries (unhook e h) x) \<in> F" if "x \<in> set (all_entries ?G)" for x
    using us that en [of x] by (auto simp: users_on_def ae es aG)
  moreover have "f_users (functs (unhook e h) f) = int (uses (unhook e h) ?G f)" if "f \<in> F" for f
    using us that pos u1 [of f] by (auto simp: users_on_def unhook_sel u)
  moreover have "f_reentrant (functs (unhook e h) f) = 0 \<longrightarrow> uses (unhook e h) ?G f \<le> 1" if "f \<in> F" for f
    using us that by (auto simp: users_on_def u only_entries_owner [OF unhook_only])
  ultimately show ?thesis by (simp add: users_on_def)
qed

section \<open>The loops of \<open>free_funct_struct\<close>\<close>

lemma drop_entries_run:
  assumes "rings_ok h G" "users_on h G F" "t \<in> set (s_threads G)" "distinct (s_threads G)"
    and "s_entries G t = xs @ ys" "f \<in> F" "\<forall>f \<in> F. 0 < f"
  shows "\<exists>h' ef. drop_entries f (Thread_root t) (case ys of [] \<Rightarrow> Thread_root t | y # _ \<Rightarrow> Entry y) h = Some (Inr h')
    \<and> only_entries h h' \<and> (\<forall>e \<in> set (xs @ ys). e_funct_ptr (entries h e) \<noteq> f \<longrightarrow> entries h' e = entries h e)
    \<and> (\<forall>e. e \<notin> set ys \<longrightarrow> entries h' e = entries h e)
    \<and> (let G' = G\<lparr>s_entries := (s_entries G)(t := xs @ filter (\<lambda>e. e_funct_ptr (entries h e) \<noteq> f) ys), s_entries_free := ef\<rparr>
        in rings_ok h' G' \<and> users_on h' G' F \<and> set (ef @ all_entries G') = set (s_entries_free G @ all_entries G))"
  using assms
proof (induction ys arbitrary: h G xs)
  case Nil
  then have "(s_entries G)(t := xs) = s_entries G" by auto
  with Nil show ?case
    by (intro exI [of _ h] exI [of _ "s_entries_free G"])
      (simp add: drop_entries.simps Let_def del: fun_upd_apply)
next
  case (Cons y ys)
  have rt: "ring (links h) (Thread_root t) (xs @ y # ys)" using Cons.prems by (auto simp: rings_ok_def)
  have dy: "y \<notin> set xs" "y \<notin> set ys" using rt by (auto simp: ring_def)
  show ?case
  proof (cases "e_funct_ptr (entries h y) = f")
    case True
    let ?h1 = "unhook y h" and ?G1 = "unhooked t (xs @ ys) y G"
    have r1: "rings_ok ?h1 ?G1" by (rule unhook_rings) (use Cons.prems in auto)
    have u1: "users_on ?h1 ?G1 F" by (rule unhook_users) (use Cons.prems in auto)
    have nx: "fst (list_remove_entry (Entry y) (links h)) = (case ys of [] \<Rightarrow> Thread_root t | y # _ \<Rightarrow> Entry y)"
      by (rule ring_remove_next [OF rt])
    have en: "entries ?h1 e = entries h e" if "e \<noteq> y" for e using that by (rule unhook_sel(2))
    have en': "entries ?h1 e = entries h e" if "e \<in> set xs \<union> set ys" for e
      using that dy by (intro en) auto
    have m: "t \<in> set (s_threads ?G1)" "distinct (s_threads ?G1)" "s_entries ?G1 t = xs @ ys"
      using Cons.prems by (simp_all add: unhooked_def)
    from Cons.IH [OF r1 u1 m Cons.prems(6,7)] obtain h' ef where
      run: "drop_entries f (Thread_root t) (case ys of [] \<Rightarrow> Thread_root t | y # _ \<Rightarrow> Entry y) ?h1 = Some (Inr h')"
      and oe: "only_entries ?h1 h'" and e1: "\<forall>e \<in> set (xs @ ys). e_funct_ptr (entries ?h1 e) \<noteq> f \<longrightarrow> entries h' e = entries ?h1 e"
      and e2: "\<forall>e. e \<notin> set ys \<longrightarrow> entries h' e = entries ?h1 e"
      and rep: "let G' = ?G1\<lparr>s_entries := (s_entries ?G1)(t := xs @ filter (\<lambda>e. e_funct_ptr (entries ?h1 e) \<noteq> f) ys), s_entries_free := ef\<rparr>
        in rings_ok h' G' \<and> users_on h' G' F \<and> set (ef @ all_entries G') = set (s_entries_free ?G1 @ all_entries ?G1)"
      by blast
    have fl: "filter (\<lambda>e. e_funct_ptr (entries ?h1 e) \<noteq> f) ys = filter (\<lambda>e. e_funct_ptr (entries h e) \<noteq> f) ys"
      by (rule filter_cong [OF refl]) (simp add: en')
    have G': "?G1\<lparr>s_entries := (s_entries ?G1)(t := xs @ filter (\<lambda>e. e_funct_ptr (entries ?h1 e) \<noteq> f) ys), s_entries_free := ef\<rparr>
       = G\<lparr>s_entries := (s_entries G)(t := xs @ filter (\<lambda>e. e_funct_ptr (entries h e) \<noteq> f) (y # ys)), s_entries_free := ef\<rparr>"
      unfolding fl by (simp add: unhooked_def True)
    obtain A B where ae: "all_entries G = A @ s_entries G t @ B"
      and ae': "\<forall>zs ef. all_entries (G\<lparr>s_entries := (s_entries G)(t := zs), s_entries_free := ef\<rparr>) = A @ zs @ B"
      by (rule all_entries_at [OF Cons.prems(3,4)])
    have "set (s_entries_free ?G1 @ all_entries ?G1) = set (s_entries_free G @ all_entries G)"
      using Cons.prems(5) by (auto simp: unhooked_def ae ae')
    with rep have rep': "let G' = G\<lparr>s_entries := (s_entries G)(t := xs @ filter (\<lambda>e. e_funct_ptr (entries h e) \<noteq> f) (y # ys)), s_entries_free := ef\<rparr>
        in rings_ok h' G' \<and> users_on h' G' F \<and> set (ef @ all_entries G') = set (s_entries_free G @ all_entries G)"
      unfolding G' by simp
    have "drop_entries f (Thread_root t) (Entry y) h = Some (Inr h')"
      using run by (subst drop_entries.simps) (simp add: True nx unhook_def)
    moreover have "only_entries h h'" by (rule only_entries_trans [OF unhook_only oe])
    moreover have "\<forall>e \<in> set (xs @ y # ys). e_funct_ptr (entries h e) \<noteq> f \<longrightarrow> entries h' e = entries h e"
      using e1 en' True by simp
    moreover have "\<forall>e. e \<notin> set (y # ys) \<longrightarrow> entries h' e = entries h e" using e2 en by simp
    ultimately show ?thesis using rep' unfolding list.case by blast
  next
    case False
    have nx: "list_next (links h) (Entry y) = (case ys of [] \<Rightarrow> Thread_root t | y # _ \<Rightarrow> Entry y)"
      using rt seg_first [of "links h" "Entry y" ys "Thread_root t"] by (simp add: ring_def seg_append list_next_def)
    have m: "s_entries G t = (xs @ [y]) @ ys" using Cons.prems(5) by simp
    from Cons.IH [OF Cons.prems(1,2,3,4) m Cons.prems(6,7)] obtain h' ef where
      run: "drop_entries f (Thread_root t) (list_next (links h) (Entry y)) h = Some (Inr h')"
      and oe: "only_entries h h'" "\<forall>e \<in> set ((xs @ [y]) @ ys). e_funct_ptr (entries h e) \<noteq> f \<longrightarrow> entries h' e = entries h e"
        "\<forall>e. e \<notin> set ys \<longrightarrow> entries h' e = entries h e"
      and rep: "let G' = G\<lparr>s_entries := (s_entries G)(t := (xs @ [y]) @ filter (\<lambda>e. e_funct_ptr (entries h e) \<noteq> f) ys), s_entries_free := ef\<rparr>
        in rings_ok h' G' \<and> users_on h' G' F \<and> set (ef @ all_entries G') = set (s_entries_free G @ all_entries G)"
      unfolding nx by blast
    have fl: "(xs @ [y]) @ filter (\<lambda>e. e_funct_ptr (entries h e) \<noteq> f) ys = xs @ filter (\<lambda>e. e_funct_ptr (entries h e) \<noteq> f) (y # ys)"
      using False by simp
    have "drop_entries f (Thread_root t) (Entry y) h = Some (Inr h')"
      using run False by (subst drop_entries.simps) simp
    moreover have "\<forall>e \<in> set (xs @ y # ys). e_funct_ptr (entries h e) \<noteq> f \<longrightarrow> entries h' e = entries h e"
      using oe(2) by simp
    moreover have "\<forall>e. e \<notin> set (y # ys) \<longrightarrow> entries h' e = entries h e" using oe(3) by simp
    ultimately show ?thesis using oe(1) rep [unfolded fl] unfolding list.case by blast
  qed
qed

lemma entries_apart:
  assumes "rings_ok h G" "t \<in> set (s_threads G)" "u \<in> set (s_threads G)" "t \<noteq> u" "distinct (s_threads G)"
  shows "set (s_entries G t) \<inter> set (s_entries G u) = {}"
proof -
  obtain A B where ae: "all_entries G = A @ s_entries G t @ B"
    and ae': "\<forall>zs ef. all_entries (G\<lparr>s_entries := (s_entries G)(t := zs), s_entries_free := ef\<rparr>) = A @ zs @ B"
    by (rule all_entries_at [OF assms(2,5)])
  have "set (s_entries G u) \<subseteq> set (all_entries (G\<lparr>s_entries := (s_entries G)(t := []), s_entries_free := []\<rparr>))"
    using assms(3,4) by (auto simp: all_entries_def)
  then have "set (s_entries G u) \<subseteq> set A \<union> set B" by (simp add: ae')
  moreover have "distinct (A @ s_entries G t @ B)" using assms(1) by (simp add: rings_ok_def ae)
  ultimately show ?thesis by auto
qed

lemma drop_from_threads_run:
  assumes "rings_ok h G" "users_on h G F" "distinct (s_threads G)" "f \<in> F" "\<forall>f \<in> F. 0 < f"
    and "chain (\<lambda>p. t_next (threads h p)) p ts" "set ts \<subseteq> set (s_threads G)" "distinct ts"
  shows "\<exists>h' es ef. drop_from_threads f p h = Some (Inr h') \<and> only_entries h h'
    \<and> (\<forall>e \<in> set (all_entries G). e_funct_ptr (entries h e) \<noteq> f \<longrightarrow> entries h' e = entries h e)
    \<and> (\<forall>u. es u = (if u \<in> set ts then filter (\<lambda>e. e_funct_ptr (entries h e) \<noteq> f) (s_entries G u) else s_entries G u))
    \<and> (let G' = G\<lparr>s_entries := es, s_entries_free := ef\<rparr>
        in rings_ok h' G' \<and> users_on h' G' F \<and> set (ef @ all_entries G') = set (s_entries_free G @ all_entries G))"
  using assms
proof (induction ts arbitrary: h G p)
  case Nil
  then show ?case
    by (intro exI [of _ h] exI [of _ "s_entries G"] exI [of _ "s_entries_free G"]) (simp add: drop_from_threads.simps)
next
  case (Cons t ts)
  have t: "p = t" "t \<noteq> 0" "t \<in> set (s_threads G)" "t \<notin> set ts" using Cons.prems by auto
  have rt: "ring (links h) (Thread_root t) (s_entries G t)" using Cons.prems(1) t by (auto simp: rings_ok_def)
  have nx: "list_next (links h) (Thread_root t) = (case s_entries G t of [] \<Rightarrow> Thread_root t | y # _ \<Rightarrow> Entry y)"
    using rt seg_first [of "links h" "Thread_root t" "s_entries G t" "Thread_root t"] by (simp add: ring_def list_next_def)
  have m: "s_entries G t = [] @ s_entries G t" by simp
  let ?fl = "\<lambda>u. filter (\<lambda>e. e_funct_ptr (entries h e) \<noteq> f) (s_entries G u)"
  from drop_entries_run [OF Cons.prems(1,2) t(3) Cons.prems(3) m Cons.prems(4,5)] obtain h1 ef1 where
    run1: "drop_entries f (Thread_root t) (list_next (links h) (Thread_root t)) h = Some (Inr h1)"
    and oe1: "only_entries h h1"
    and e1: "\<forall>e \<in> set ([] @ s_entries G t). e_funct_ptr (entries h e) \<noteq> f \<longrightarrow> entries h1 e = entries h e"
    and e2: "\<forall>e. e \<notin> set (s_entries G t) \<longrightarrow> entries h1 e = entries h e"
    and rep1: "let G' = G\<lparr>s_entries := (s_entries G)(t := [] @ ?fl t), s_entries_free := ef1\<rparr>
        in rings_ok h1 G' \<and> users_on h1 G' F \<and> set (ef1 @ all_entries G') = set (s_entries_free G @ all_entries G)"
    unfolding nx by blast
  let ?G1 = "G\<lparr>s_entries := (s_entries G)(t := ?fl t), s_entries_free := ef1\<rparr>"
  have r1: "rings_ok h1 ?G1" "users_on h1 ?G1 F" "set (ef1 @ all_entries ?G1) = set (s_entries_free G @ all_entries G)"
    using rep1 by (simp_all add: Let_def)
  have th: "threads h1 = threads h" by (rule only_entries_keeps(10) [OF oe1])
  have ch: "chain (\<lambda>p. t_next (threads h1 p)) (t_next (threads h t)) ts" using Cons.prems(6) t by (simp add: th)
  have c: "distinct (s_threads ?G1)" "set ts \<subseteq> set (s_threads ?G1)" "distinct ts" using Cons.prems by simp_all
  from Cons.IH [OF r1(1,2) c(1) Cons.prems(4,5) ch c(2,3)] obtain h' es ef where
    run2: "drop_from_threads f (t_next (threads h t)) h1 = Some (Inr h')" and oe2: "only_entries h1 h'"
    and e3: "\<forall>e \<in> set (all_entries ?G1). e_funct_ptr (entries h1 e) \<noteq> f \<longrightarrow> entries h' e = entries h1 e"
    and es: "\<forall>u. es u = (if u \<in> set ts then filter (\<lambda>e. e_funct_ptr (entries h1 e) \<noteq> f) (s_entries ?G1 u) else s_entries ?G1 u)"
    and rep2: "let G' = ?G1\<lparr>s_entries := es, s_entries_free := ef\<rparr>
        in rings_ok h' G' \<and> users_on h' G' F \<and> set (ef @ all_entries G') = set (s_entries_free ?G1 @ all_entries ?G1)"
    by blast
  have keep1: "entries h1 e = entries h e" if "e \<in> set (all_entries G)" "e_funct_ptr (entries h e) \<noteq> f" for e
    using e1 e2 that by (cases "e \<in> set (s_entries G t)") auto
  have in1: "e \<in> set (all_entries ?G1)" if e: "e \<in> set (all_entries G)" "e_funct_ptr (entries h e) \<noteq> f" for e
    using e by (auto simp: all_entries_def)
  have "es u = (if u \<in> set (t # ts) then ?fl u else s_entries G u)" for u
  proof (cases "u \<in> set ts")
    case True
    with t Cons.prems(7) have ut: "u \<noteq> t" "u \<in> set (s_threads G)" by auto
    with entries_apart [OF Cons.prems(1) t(3), of u] Cons.prems(3) have "\<forall>e \<in> set (s_entries G u). e \<notin> set (s_entries G t)" by auto
    with e2 have "filter (\<lambda>e. e_funct_ptr (entries h1 e) \<noteq> f) (s_entries G u) = ?fl u"
      by (intro filter_cong) auto
    with True es ut show ?thesis by simp
  next
    case False
    with es show ?thesis by simp
  qed
  moreover have "\<forall>e \<in> set (all_entries G). e_funct_ptr (entries h e) \<noteq> f \<longrightarrow> entries h' e = entries h e"
    using e3 keep1 in1 by metis
  moreover have "drop_from_threads f p h = Some (Inr h')"
    using run1 run2 t by (subst drop_from_threads.simps) (simp add: th)
  moreover have "only_entries h h'" by (rule only_entries_trans [OF oe1 oe2])
  moreover have "let G' = G\<lparr>s_entries := es, s_entries_free := ef\<rparr>
        in rings_ok h' G' \<and> users_on h' G' F \<and> set (ef @ all_entries G') = set (s_entries_free G @ all_entries G)"
    using rep2 r1(3) by (simp add: Let_def)
  ultimately show ?case by blast
qed

end
