(* ===== verification/Hal_Free.thy ===== *)
theory Hal_Free
  imports Hal_Release
begin

text \<open>
  \<open>free_funct_struct\<close> and \<open>free_comp_struct\<close> of \<open>hal/hal_lib.c\<close> as wholes: a function that
  is released leaves its list and every thread, a component that is released takes its functions and
  parameters with it, and the segment stays well-formed.
\<close>

section \<open>What a release leaves alone\<close>

text \<open>
  A release changes the heaps of functions, entries and parameters and the pointers to their lists;
  every other field keeps its value.
\<close>

definition same_rest :: "hal \<Rightarrow> hal \<Rightarrow> bool" where
  "same_rest h h' \<longleftrightarrow> (\<exists>fn en L pm a b c d. h' = h\<lparr>functs := fn, entries := en, links := L, params := pm,
     funct_list_ptr := a, funct_free_ptr := b, param_list_ptr := c, param_free_ptr := d\<rparr>)"

lemma same_restI:
  "h\<lparr>functs := functs h', entries := entries h', links := links h', params := params h',
     funct_list_ptr := funct_list_ptr h', funct_free_ptr := funct_free_ptr h',
     param_list_ptr := param_list_ptr h', param_free_ptr := param_free_ptr h'\<rparr> = h' \<Longrightarrow> same_rest h h'"
  unfolding same_rest_def by (intro exI, erule sym)

lemma same_rest_refl [simp]: "same_rest h h"
  by (rule same_restI) simp

lemma same_rest_trans: "same_rest h1 h2 \<Longrightarrow> same_rest h2 h3 \<Longrightarrow> same_rest h1 h3"
  by (rule same_restI) (auto simp: same_rest_def)

lemma same_rest_sel:
  assumes "same_rest h h'"
  shows "comps h' = comps h" "pins h' = pins h" "threads h' = threads h" "hal_data h' = hal_data h"
    "hd_mutex h' = hd_mutex h" "hd_state h' = hd_state h" "comp_list_ptr h' = comp_list_ptr h"
    "comp_free_ptr h' = comp_free_ptr h" "thread_list_ptr h' = thread_list_ptr h"
    "shmem_top h' = shmem_top h" "shmem_bot h' = shmem_bot h" "ref_cnt h' = ref_cnt h"
    "pin_list_ptr h' = pin_list_ptr h" "pin_free_ptr h' = pin_free_ptr h" "thread_free_ptr h' = thread_free_ptr h"
    "lib_mem_id h' = lib_mem_id h"
  using assms by (auto simp: same_rest_def)

lemma same_rest_only_entries: "only_entries h h' \<Longrightarrow> same_rest h h'"
  by (rule same_restI) (auto simp: only_entries_def)

lemma same_rest_put_funct: "same_rest h (put_funct_link l v h)"
  by (rule same_restI) (cases l; simp add: put_link_def set_f_next_def upd_funct_def)

lemma same_rest_put_param: "same_rest h (put_param_link l v h)"
  by (rule same_restI) (cases l; simp add: put_link_def set_pm_next_def upd_param_def)

section \<open>One function\<close>

lemma functs_pos: "hal_rep h G \<Longrightarrow> f \<in> set (s_functs G) \<Longrightarrow> 0 < f"
proof -
  assume a: "hal_rep h G" "f \<in> set (s_functs G)"
  then have "\<forall>p \<in> set (s_functs G @ s_functs_free G). shmem_top h \<le> p"
    by (simp add: hal_rep_def functs_ok_def pool_def)
  with a(2) have "shmem_top h \<le> f" by simp
  moreover have "0 < shmem_top h" using a(1) by (simp add: hal_rep_def area_wf_def area_ok_def)
  ultimately show ?thesis by simp
qed

lemma threads_chain: "hal_rep h G \<Longrightarrow> chain (\<lambda>p. t_next (threads h p)) (thread_list_ptr h) (s_threads G)"
  and threads_distinct: "hal_rep h G \<Longrightarrow> distinct (s_threads G)"
  by (simp_all add: hal_rep_def threads_ok_def pool_def)

lemma put_funct_link_keeps:
  "keeps_comps h (put_funct_link l v h) \<and> keeps_pins h (put_funct_link l v h) \<and>
   keeps_params h (put_funct_link l v h) \<and> keeps_threads h (put_funct_link l v h) \<and>
   keeps_rings h (put_funct_link l v h) \<and> keeps_users h (put_funct_link l v h) \<and>
   shmem_top (put_funct_link l v h) = shmem_top h \<and> shmem_bot (put_funct_link l v h) = shmem_bot h"
  by (cases l) (auto simp: put_link_def keeps_defs set_f_next_def upd_funct_heap)

lemma put_funct_link_sel:
  "entries (put_funct_link l v h) = entries h" "threads (put_funct_link l v h) = threads h"
  "thread_list_ptr (put_funct_link l v h) = thread_list_ptr h" "links (put_funct_link l v h) = links h"
  "f_users (functs (put_funct_link l v h) p) = f_users (functs h p)"
  "f_reentrant (functs (put_funct_link l v h) p) = f_reentrant (functs h p)"
  "f_owner (functs (put_funct_link l v h) p) = f_owner (functs h p)"
  "f_name (functs (put_funct_link l v h) p) = f_name (functs h p)"
  "comps (put_funct_link l v h) = comps h" "pins (put_funct_link l v h) = pins h"
  "params (put_funct_link l v h) = params h" "hal_data (put_funct_link l v h) = hal_data h"
  "hd_mutex (put_funct_link l v h) = hd_mutex h" "hd_state (put_funct_link l v h) = hd_state h"
  by (cases l; simp add: put_link_def set_f_next_def upd_funct_heap)+

text \<open>A function with no use left may leave the set of functions.\<close>

lemma users_on_minus: "users_on h G F \<Longrightarrow> uses h G f = 0 \<Longrightarrow> users_on h G (F - {f})"
  by (auto simp: users_on_def uses_def filter_empty_conv)

lemma users_on_frame:
  "users_on h G F \<Longrightarrow> entries h' = entries h \<Longrightarrow> (\<And>p. p \<in> F \<Longrightarrow> functs h' p = functs h p) \<Longrightarrow> users_on h' G F"
  by (simp add: users_on_def uses_def)

text \<open>The threads are cleared of a function, whether its count of users is zero or not.\<close>

lemma clear_threads:
  assumes "rings_ok h G" "users_on h G F" "distinct (s_threads G)" "f \<in> F" "\<forall>f \<in> F. 0 < f"
    and "chain (\<lambda>p. t_next (threads h p)) (thread_list_ptr h) (s_threads G)"
  shows "\<exists>h' es ef. (if f_users (functs h f) > 0 then loop_join (drop_from_threads f (thread_list_ptr h) h) else Inr h) = Inr h'
    \<and> only_entries h h'
    \<and> (\<forall>u \<in> set (s_threads G). es u = filter (\<lambda>e. e_funct_ptr (entries h e) \<noteq> f) (s_entries G u))
    \<and> (\<forall>e \<in> set (all_entries G). e_funct_ptr (entries h e) \<noteq> f \<longrightarrow> entries h' e = entries h e)
    \<and> (let G' = G\<lparr>s_entries := es, s_entries_free := ef\<rparr>
        in rings_ok h' G' \<and> users_on h' G' (F - {f})
           \<and> set (ef @ all_entries G') = set (s_entries_free G @ all_entries G))"
proof (cases "f_users (functs h f) > 0")
  case True
  from drop_from_threads_run [OF assms(1-6) order_refl assms(3)] obtain h' es ef where
    run: "drop_from_threads f (thread_list_ptr h) h = Some (Inr h')" and oe: "only_entries h h'"
    and en: "\<forall>e \<in> set (all_entries G). e_funct_ptr (entries h e) \<noteq> f \<longrightarrow> entries h' e = entries h e"
    and es: "\<forall>u. es u = (if u \<in> set (s_threads G) then filter (\<lambda>e. e_funct_ptr (entries h e) \<noteq> f) (s_entries G u) else s_entries G u)"
    and rep: "let G' = G\<lparr>s_entries := es, s_entries_free := ef\<rparr>
        in rings_ok h' G' \<and> users_on h' G' F \<and> set (ef @ all_entries G') = set (s_entries_free G @ all_entries G)"
    by blast
  let ?G = "G\<lparr>s_entries := es, s_entries_free := ef\<rparr>"
  have "e_funct_ptr (entries h' e) \<noteq> f" if "e \<in> set (all_entries ?G)" for e
  proof -
    from that have "e \<in> set (all_entries G)" "e_funct_ptr (entries h e) \<noteq> f"
      using es by (auto simp: all_entries_def)
    with en show ?thesis by simp
  qed
  then have "uses h' ?G f = 0" by (simp add: uses_def filter_empty_conv)
  with rep have "users_on h' ?G (F - {f})" by (simp add: Let_def users_on_minus)
  moreover have "\<forall>u \<in> set (s_threads G). es u = filter (\<lambda>e. e_funct_ptr (entries h e) \<noteq> f) (s_entries G u)"
    using es by simp
  moreover have "loop_join (drop_from_threads f (thread_list_ptr h) h) = Inr h'" by (simp add: run)
  ultimately show ?thesis using True oe en rep unfolding Let_def if_P [OF True] by blast
next
  case False
  have z: "uses h G f = 0" using assms(2,4) False by (auto simp: users_on_def)
  have fl: "filter (\<lambda>e. e_funct_ptr (entries h e) \<noteq> f) (s_entries G u) = s_entries G u"
    if "u \<in> set (s_threads G)" for u
  proof -
    have "e_funct_ptr (entries h e) \<noteq> f" if "e \<in> set (s_entries G u)" for e
      using z that \<open>u \<in> set (s_threads G)\<close> by (auto simp: uses_def filter_empty_conv all_entries_def)
    then show ?thesis by (simp add: filter_id_conv)
  qed
  have G: "G\<lparr>s_entries := s_entries G, s_entries_free := s_entries_free G\<rparr> = G" by simp
  show ?thesis
    by (rule exI [of _ h], rule exI [of _ "s_entries G"], rule exI [of _ "s_entries_free G"])
      (use False assms(1) users_on_minus [OF assms(2) z] in \<open>simp add: fl Let_def\<close>)
qed


text \<open>What \<open>free_funct_struct\<close> does after the loops: clear the struct and put it on the free list.\<close>

definition recycle_funct :: "off \<Rightarrow> hal \<Rightarrow> hal" where
  "recycle_funct f h =
     (set_f_next f (funct_free_ptr h) (upd_funct f (\<lambda>s. s\<lparr>f_uses_fp := 0, f_owner := 0, f_reentrant := 0, f_users := 0,
        f_arg := 0, f_funct := 0, f_runtime := D_null, f_name := []\<rparr>) h))\<lparr>funct_free_ptr := f\<rparr>"

lemma recycle_funct_sel:
  "p \<noteq> f \<Longrightarrow> functs (recycle_funct f h) p = functs h p" "entries (recycle_funct f h) = entries h"
  "links (recycle_funct f h) = links h" "threads (recycle_funct f h) = threads h"
  "comps (recycle_funct f h) = comps h" "pins (recycle_funct f h) = pins h" "params (recycle_funct f h) = params h"
  "shmem_top (recycle_funct f h) = shmem_top h" "shmem_bot (recycle_funct f h) = shmem_bot h"
  "hal_data (recycle_funct f h) = hal_data h" "hd_mutex (recycle_funct f h) = hd_mutex h"
  "hd_state (recycle_funct f h) = hd_state h"
  "keeps_comps h (recycle_funct f h)" "keeps_pins h (recycle_funct f h)" "keeps_params h (recycle_funct f h)"
  "keeps_threads h (recycle_funct f h)" "keeps_rings h (recycle_funct f h)"
  by (simp_all add: recycle_funct_def set_f_next_def upd_funct_heap keeps_defs)

lemma same_rest_recycle: "same_rest h (recycle_funct f h)"
  by (rule same_restI) (simp add: recycle_funct_def set_f_next_def upd_funct_def)

lemma recycle_funct_pool:
  assumes "spare (\<lambda>p. f_next (functs h p)) (funct_list_ptr h) (funct_free_ptr h) (shmem_top h) sizeof_hal_funct f xs ys"
  shows "pool (\<lambda>p. f_next (functs (recycle_funct f h) p)) (funct_list_ptr (recycle_funct f h))
    (funct_free_ptr (recycle_funct f h)) (shmem_top (recycle_funct f h)) sizeof_hal_funct xs (f # ys)"
proof -
  let ?h = "upd_funct f (\<lambda>s. s\<lparr>f_uses_fp := 0, f_owner := 0, f_reentrant := 0, f_users := 0,
        f_arg := 0, f_funct := 0, f_runtime := D_null, f_name := []\<rparr>) h"
  have "spare (\<lambda>p. f_next (functs ?h p)) (funct_list_ptr ?h) (funct_free_ptr ?h) (shmem_top ?h) sizeof_hal_funct f xs ys"
    by (rule spare_next [where nx = "\<lambda>p. f_next (functs h p)"]) (use assms in \<open>simp_all add: upd_funct_heap\<close>)
  from funct_pool.free_pool [OF this refl] show ?thesis
    by (simp add: recycle_funct_def)
qed

lemma free_funct_unlinked:
  assumes rep: "hal_rep h G" and fs: "s_functs G = us @ f # vs"
  defines "h1 \<equiv> put_funct_link (link_of us) (f_next (functs h f)) h"
  shows "\<exists>h' es ef. free_funct_struct f h1 = Inr h'
    \<and> hal_rep h' (G\<lparr>s_functs := us @ vs, s_functs_free := f # s_functs_free G, s_entries := es, s_entries_free := ef\<rparr>)
    \<and> (\<forall>p. p \<noteq> f \<longrightarrow> f_owner (functs h' p) = f_owner (functs h p) \<and> f_name (functs h' p) = f_name (functs h p))
    \<and> (\<forall>u \<in> set (s_threads G). es u = filter (\<lambda>e. e_funct_ptr (entries h e) \<noteq> f) (s_entries G u))
    \<and> (\<forall>e \<in> set (all_entries G). e_funct_ptr (entries h e) \<noteq> f \<longrightarrow> entries h' e = entries h e)
    \<and> same_rest h h' \<and> params h' = params h \<and> param_list_ptr h' = param_list_ptr h
    \<and> blocks (G\<lparr>s_functs := us @ vs, s_functs_free := f # s_functs_free G, s_entries := es, s_entries_free := ef\<rparr>) = blocks G"
proof -
  note P = hal_rep_parts [OF rep] and S1 = put_funct_link_sel [of "link_of us" "f_next (functs h f)" h, folded h1_def]
    and K1 = put_funct_link_keeps [of h "link_of us" "f_next (functs h f)", folded h1_def]
  let ?F = "set (s_functs G)"
  have r1: "rings_ok h1 G" by (rule rings_ok_frame [OF P(7)]) (use K1 in auto)
  have u1: "users_on h1 G ?F" using P(8)
    by (simp add: users_ok_on users_on_def uses_def S1)
  have ch: "chain (\<lambda>p. t_next (threads h1 p)) (thread_list_ptr h1) (s_threads G)"
    using threads_chain [OF rep] by (simp add: S1)
  have fF: "f \<in> ?F" by (simp add: fs)
  from clear_threads [OF r1 u1 threads_distinct [OF rep] fF _ ch] functs_pos [OF rep] obtain h2 es ef where
    run: "(if f_users (functs h1 f) > 0 then loop_join (drop_from_threads f (thread_list_ptr h1) h1) else Inr h1) = Inr h2"
    and oe: "only_entries h1 h2"
    and es: "\<forall>u \<in> set (s_threads G). es u = filter (\<lambda>e. e_funct_ptr (entries h1 e) \<noteq> f) (s_entries G u)"
    and en: "\<forall>e \<in> set (all_entries G). e_funct_ptr (entries h1 e) \<noteq> f \<longrightarrow> entries h2 e = entries h1 e"
    and rep2: "let G' = G\<lparr>s_entries := es, s_entries_free := ef\<rparr>
        in rings_ok h2 G' \<and> users_on h2 G' (?F - {f})
           \<and> set (ef @ all_entries G') = set (s_entries_free G @ all_entries G)"
    by blast
  note K2 = only_entries_keeps [OF oe] and O2 = only_entries_owner [OF oe]
  let ?h = "recycle_funct f h2"
  let ?G = "G\<lparr>s_functs := us @ vs, s_functs_free := f # s_functs_free G, s_entries := es, s_entries_free := ef\<rparr>"
  note S3 = recycle_funct_sel [where f = f and h = h2]
  have free: "free_funct_struct f h1 = Inr ?h"
    by (simp add: free_funct_struct_def run recycle_funct_def Let_def)
  have sp1: "spare (\<lambda>p. f_next (functs h1 p)) (funct_list_ptr h1) (funct_free_ptr h1) (shmem_top h1) sizeof_hal_funct f (us @ vs) (s_functs_free G)"
    using funct_pool.unlink_pool [of h us f vs "s_functs_free G" h1] P(5)
    by (simp add: functs_ok_def fs h1_def)
  then have "spare (\<lambda>p. f_next (functs h2 p)) (funct_list_ptr h2) (funct_free_ptr h2) (shmem_top h2) sizeof_hal_funct f (us @ vs) (s_functs_free G)"
    by (simp add: K2 O2)
  from recycle_funct_pool [OF this] have pl: "pool (\<lambda>p. f_next (functs ?h p)) (funct_list_ptr ?h) (funct_free_ptr ?h)
    (shmem_top ?h) sizeof_hal_funct (us @ vs) (f # s_functs_free G)" .
  have fn: "f \<notin> set (us @ vs)" using sp1 by (auto simp: spare_def)
  have nm: "f_name (functs ?h p) = f_name (functs h p)" "f_owner (functs ?h p) = f_owner (functs h p)" if "p \<noteq> f" for p
    using that by (simp_all add: S3 O2 S1)
  have "map (\<lambda>p. f_name (functs ?h p)) (us @ vs) = map (\<lambda>p. f_name (functs h p)) (us @ vs)"
    by (rule map_cong [OF refl], rule nm) (use fn in auto)
  then have "sorted_names (\<lambda>p. f_name (functs ?h p)) (us @ vs)"
    using P(5) unfolding functs_ok_def fs sorted_names_def by (simp only: sorted_wrt_append map_append list.map) auto
  with pl have fok: "functs_ok ?h ?G" by (simp add: functs_ok_def)
  have "rings_ok h2 (G\<lparr>s_entries := es, s_entries_free := ef\<rparr>)" using rep2 by (simp add: Let_def)
  then have rok: "rings_ok ?h ?G"
    by (rule rings_ok_frame) (simp_all add: S3)
  have ae: "all_entries ?G = all_entries (G\<lparr>s_entries := es, s_entries_free := ef\<rparr>)" by (simp add: all_entries_def)
  have "users_on h2 (G\<lparr>s_entries := es, s_entries_free := ef\<rparr>) (?F - {f})" using rep2 by (simp add: Let_def)
  moreover have "?F - {f} = set (us @ vs)" using fn by (auto simp: fs)
  ultimately have "users_on h2 ?G (set (us @ vs))" by (simp add: users_on_def uses_def ae)
  then have "users_on ?h ?G (set (us @ vs))"
  proof (rule users_on_frame)
    show "functs ?h p = functs h2 p" if "p \<in> set (us @ vs)" for p
      using that fn by (intro S3(1)) auto
  qed (simp add: S3)
  then have uok: "users_ok ?h ?G" by (simp add: users_ok_on)
  have "set (ef @ all_entries ?G) = set (s_entries_free G @ all_entries G)" using rep2 by (simp add: Let_def ae)
  then have bl: "blocks ?G = blocks G" by (auto simp: blocks_def fs)
  have top: "shmem_top ?h = shmem_top h" "shmem_bot ?h = shmem_bot h" by (simp_all add: S3 K2 K1)
  have kp: "keeps_comps h ?h" "keeps_pins h ?h" "keeps_params h ?h" "keeps_threads h ?h"
    using K1 K2(1-5) S3(13-16) by (simp_all add: keeps_defs)
  have "hal_rep ?h ?G"
    by (rule hal_rep_step [OF rep])
      (use P bl kp fok rok uok top in \<open>auto simp: area_wf_cong [OF top(2,1)]
        intro: comps_ok_frame pins_ok_frame params_ok_frame threads_ok_frame\<close>)
  moreover have "\<forall>u \<in> set (s_threads G). es u = filter (\<lambda>e. e_funct_ptr (entries h e) \<noteq> f) (s_entries G u)"
    using es by (simp add: S1)
  moreover have "\<forall>e \<in> set (all_entries G). e_funct_ptr (entries h e) \<noteq> f \<longrightarrow> entries ?h e = entries h e"
    using en by (simp add: S1 S3)
  moreover have "same_rest h ?h" unfolding h1_def [symmetric]
    using same_rest_trans [OF same_rest_trans [OF same_rest_put_funct same_rest_only_entries [OF oe, unfolded h1_def]] same_rest_recycle] .
  moreover have "param_list_ptr ?h = param_list_ptr h"
    using kp(3) by (simp add: keeps_params_def)
  ultimately show ?thesis using free nm bl
    by (rule_tac exI [of _ ?h], rule_tac exI [of _ es], rule_tac exI [of _ ef]) (simp add: S3 K2 S1)
qed


section \<open>The functions of a component\<close>

lemma get_link_chain:
  assumes "chain (nx_of s) (hd_of s) (us @ vs)"
  shows "get_link hd_of nx_of (link_of us) s = (case vs of [] \<Rightarrow> 0 | v # _ \<Rightarrow> v)"
proof (cases us rule: rev_cases)
  case Nil
  with assms show ?thesis by (cases vs) (auto simp: get_link_def link_of_def)
next
  case (snoc ws w)
  with assms chain_next_of [of "nx_of s" "hd_of s" ws w vs] show ?thesis
    by (simp add: get_link_def link_of_def)
qed

lemma functs_chain: "hal_rep h G \<Longrightarrow> chain (\<lambda>p. f_next (functs h p)) (funct_list_ptr h) (s_functs G)"
  by (simp add: hal_rep_def functs_ok_def pool_def)

lemma entry_functs: "hal_rep h G \<Longrightarrow> e \<in> set (all_entries G) \<Longrightarrow> e_funct_ptr (entries h e) \<in> set (s_functs G)"
  by (simp add: hal_rep_def users_ok_def)

text \<open>The functions of \<open>cp\<close> among \<open>vs\<close> are gone, with the entries that called them; the rest is kept.\<close>

definition functs_dropped :: "off \<Rightarrow> off list \<Rightarrow> off list \<Rightarrow> hal \<Rightarrow> shape \<Rightarrow> hal \<Rightarrow> (off \<Rightarrow> off list) \<Rightarrow> off list \<Rightarrow> off list \<Rightarrow> bool" where
  "functs_dropped cp us vs h G h' es ef fr \<longleftrightarrow>
    (let G' = G\<lparr>s_functs := us @ filter (\<lambda>f. f_owner (functs h f) \<noteq> cp) vs, s_functs_free := fr, s_entries := es, s_entries_free := ef\<rparr>
     in hal_rep h' G' \<and> blocks G' = blocks G)
    \<and> same_rest h h' \<and> params h' = params h \<and> param_list_ptr h' = param_list_ptr h
    \<and> (\<forall>f \<in> set (us @ filter (\<lambda>f. f_owner (functs h f) \<noteq> cp) vs).
         f_owner (functs h' f) = f_owner (functs h f) \<and> f_name (functs h' f) = f_name (functs h f))
    \<and> (\<forall>u \<in> set (s_threads G). es u = filter (\<lambda>e. \<not> (e_funct_ptr (entries h e) \<in> set vs \<and>
         f_owner (functs h (e_funct_ptr (entries h e))) = cp)) (s_entries G u)
         \<and> (\<forall>e \<in> set (es u). entries h' e = entries h e))"

lemma functs_dropped_none:
  assumes "hal_rep h G"
  shows "functs_dropped cp (s_functs G) [] h G h (s_entries G) (s_entries_free G) (s_functs_free G)"
  using assms by (simp add: functs_dropped_def same_rest_def)

lemma functs_dropped_keep:
  assumes "f_owner (functs h v) \<noteq> cp" "functs_dropped cp (us @ [v]) vs h G h' es ef fr"
  shows "functs_dropped cp us (v # vs) h G h' es ef fr"
proof -
  have "filter (\<lambda>e. \<not> (e_funct_ptr (entries h e) \<in> set vs \<and> f_owner (functs h (e_funct_ptr (entries h e))) = cp)) es =
      filter (\<lambda>e. \<not> (e_funct_ptr (entries h e) \<in> set (v # vs) \<and> f_owner (functs h (e_funct_ptr (entries h e))) = cp)) es" for es
    using assms(1) by (auto intro!: filter_cong)
  then show ?thesis using assms unfolding functs_dropped_def by simp
qed

lemma functs_dropped_free:
  assumes own: "f_owner (functs h v) = cp" and d: "v \<notin> set vs" "v \<notin> set us"
    and ow1: "\<forall>p. p \<noteq> v \<longrightarrow> f_owner (functs h1 p) = f_owner (functs h p) \<and> f_name (functs h1 p) = f_name (functs h p)"
    and es1: "\<forall>u \<in> set (s_threads G). es1 u = filter (\<lambda>e. e_funct_ptr (entries h e) \<noteq> v) (s_entries G u)"
    and en1: "\<forall>e \<in> set (all_entries G). e_funct_ptr (entries h e) \<noteq> v \<longrightarrow> entries h1 e = entries h e"
    and sr1: "same_rest h h1" "params h1 = params h" "param_list_ptr h1 = param_list_ptr h"
    and bl1: "blocks (G\<lparr>s_functs := us @ vs, s_functs_free := fr1, s_entries := es1, s_entries_free := ef1\<rparr>) = blocks G"
    and dr: "functs_dropped cp us vs h1 (G\<lparr>s_functs := us @ vs, s_functs_free := fr1, s_entries := es1, s_entries_free := ef1\<rparr>) h' es ef fr"
  shows "functs_dropped cp us (v # vs) h G h' es ef fr"
proof -
  have fl: "filter (\<lambda>f. f_owner (functs h1 f) \<noteq> cp) vs = filter (\<lambda>f. f_owner (functs h f) \<noteq> cp) (v # vs)"
    using ow1 d own by (auto intro!: filter_cong)
  note D = dr [unfolded functs_dropped_def fl]
  have ue: "es u = filter (\<lambda>e. \<not> (e_funct_ptr (entries h e) \<in> set (v # vs) \<and>
       f_owner (functs h (e_funct_ptr (entries h e))) = cp)) (s_entries G u)
       \<and> (\<forall>e \<in> set (es u). entries h' e = entries h e)" if u: "u \<in> set (s_threads G)" for u
  proof -
    have k: "entries h1 e = entries h e" if "e \<in> set (es1 u)" for e
      using that es1 en1 u by (auto simp: all_entries_def)
    have eu: "es u = filter (\<lambda>e. \<not> (e_funct_ptr (entries h1 e) \<in> set vs \<and>
         f_owner (functs h1 (e_funct_ptr (entries h1 e))) = cp)) (es1 u)" "\<forall>e \<in> set (es u). entries h' e = entries h1 e"
      using D u by simp_all
    have "es u = filter (\<lambda>e. \<not> (e_funct_ptr (entries h e) \<in> set vs \<and>
         f_owner (functs h (e_funct_ptr (entries h e))) = cp)) (es1 u)"
      using eu(1) u k ow1 es1 by (auto intro!: filter_cong)
    moreover have "\<forall>e \<in> set (es u). entries h' e = entries h e"
      using eu(2) k calculation by auto
    ultimately show ?thesis using es1 u own by (auto intro: filter_cong)
  qed
  have "\<forall>f \<in> set (us @ filter (\<lambda>f. f_owner (functs h f) \<noteq> cp) (v # vs)).
       f_owner (functs h' f) = f_owner (functs h f) \<and> f_name (functs h' f) = f_name (functs h f)"
    using D ow1 d own by auto
  then show ?thesis
    using D bl1 sr1 ue same_rest_trans [OF sr1(1)] unfolding functs_dropped_def by (simp add: Let_def)
qed

lemma drop_functs_run:
  assumes "hal_rep h G" "s_functs G = us @ vs"
  shows "\<exists>h' es ef fr. drop_functs cp (link_of us) (case vs of [] \<Rightarrow> 0 | v # _ \<Rightarrow> v) h = Some (Inr h') \<and>
    functs_dropped cp us vs h G h' es ef fr"
  using assms
proof (induction vs arbitrary: us h G)
  case Nil
  then have "us = s_functs G" by simp
  with functs_dropped_none [OF Nil(1), of cp] show ?case by (auto simp: drop_functs.simps)
next
  case (Cons v vs)
  have v0: "v \<noteq> 0" using functs_pos [OF Cons.prems(1), of v] Cons.prems(2) by simp
  have nx: "f_next (functs h v) = (case vs of [] \<Rightarrow> 0 | v # _ \<Rightarrow> v)"
    using functs_chain [OF Cons.prems(1)] chain_next_of [of "\<lambda>p. f_next (functs h p)" "funct_list_ptr h" us v vs]
    by (simp add: Cons.prems(2))
  have d: "v \<notin> set vs" "v \<notin> set us"
    using chain_distinct [OF functs_chain [OF Cons.prems(1)]] by (simp_all add: Cons.prems(2))
  show ?case
  proof (cases "f_owner (functs h v) = cp")
    case False
    have "s_functs G = (us @ [v]) @ vs" using Cons.prems(2) by simp
    from Cons.IH [OF Cons.prems(1) this] obtain h' es ef fr where
      run: "drop_functs cp (link_of (us @ [v])) (case vs of [] \<Rightarrow> 0 | v # _ \<Rightarrow> v) h = Some (Inr h')"
      and dr: "functs_dropped cp (us @ [v]) vs h G h' es ef fr" by blast
    have "drop_functs cp (link_of us) v h = Some (Inr h')"
      using run v0 False by (subst drop_functs.simps) (simp add: nx)
    with functs_dropped_keep [OF False dr] show ?thesis by auto
  next
    case True
    from free_funct_unlinked [OF Cons.prems(1), of us v vs] Cons.prems(2) obtain h1 es1 ef1 where
      run1: "free_funct_struct v (put_funct_link (link_of us) (f_next (functs h v)) h) = Inr h1"
      and rep1: "hal_rep h1 (G\<lparr>s_functs := us @ vs, s_functs_free := v # s_functs_free G, s_entries := es1, s_entries_free := ef1\<rparr>)"
      and ow1: "\<forall>p. p \<noteq> v \<longrightarrow> f_owner (functs h1 p) = f_owner (functs h p) \<and> f_name (functs h1 p) = f_name (functs h p)"
      and es1: "\<forall>u \<in> set (s_threads G). es1 u = filter (\<lambda>e. e_funct_ptr (entries h e) \<noteq> v) (s_entries G u)"
      and en1: "\<forall>e \<in> set (all_entries G). e_funct_ptr (entries h e) \<noteq> v \<longrightarrow> entries h1 e = entries h e"
      and sr1: "same_rest h h1" "params h1 = params h" "param_list_ptr h1 = param_list_ptr h"
      and bl1: "blocks (G\<lparr>s_functs := us @ vs, s_functs_free := v # s_functs_free G, s_entries := es1, s_entries_free := ef1\<rparr>) = blocks G"
      by blast
    let ?G1 = "G\<lparr>s_functs := us @ vs, s_functs_free := v # s_functs_free G, s_entries := es1, s_entries_free := ef1\<rparr>"
    have nx1: "get_funct_link (link_of us) h1 = (case vs of [] \<Rightarrow> 0 | v # _ \<Rightarrow> v)"
      by (rule get_link_chain) (use functs_chain [OF rep1] in simp)
    have f1: "s_functs ?G1 = us @ vs" by simp
    from Cons.IH [OF rep1 f1] obtain h' es ef fr where
      run: "drop_functs cp (link_of us) (case vs of [] \<Rightarrow> 0 | v # _ \<Rightarrow> v) h1 = Some (Inr h')"
      and dr: "functs_dropped cp us vs h1 ?G1 h' es ef fr" by blast
    have "drop_functs cp (link_of us) v h = Some (Inr h')"
      using v0 True by (subst drop_functs.simps) (simp add: run1 nx1 run)
    with functs_dropped_free [OF True d ow1 es1 en1 sr1 bl1 dr] show ?thesis by auto
  qed
qed


section \<open>The parameters of a component\<close>

lemma params_chain: "hal_rep h G \<Longrightarrow> chain (\<lambda>p. pm_next (params h p)) (param_list_ptr h) (s_params G)"
  by (simp add: hal_rep_def params_ok_def pool_def)

lemma put_param_link_sel:
  "pm_owner (params (put_param_link l v h) p) = pm_owner (params h p)"
  "pm_name (params (put_param_link l v h) p) = pm_name (params h p)"
  "pm_oldname (params (put_param_link l v h) p) = pm_oldname (params h p)"
  "functs (put_param_link l v h) = functs h" "entries (put_param_link l v h) = entries h"
  "links (put_param_link l v h) = links h" "funct_list_ptr (put_param_link l v h) = funct_list_ptr h"
  "funct_free_ptr (put_param_link l v h) = funct_free_ptr h"
  by (cases l; simp add: put_link_def set_pm_next_def upd_param_heap)+

lemma free_param_unlinked:
  assumes rep: "hal_rep h G" and ps: "s_params G = us @ p # vs"
  shows "\<exists>h'. free_param_struct p (put_param_link (link_of us) (pm_next (params h p)) h) = h'
    \<and> hal_rep h' (G\<lparr>s_params := us @ vs, s_params_free := p # s_params_free G\<rparr>)
    \<and> (\<forall>q. q \<noteq> p \<longrightarrow> pm_owner (params h' q) = pm_owner (params h q) \<and> pm_name (params h' q) = pm_name (params h q))
    \<and> same_rest h h' \<and> functs h' = functs h \<and> entries h' = entries h \<and> links h' = links h"
proof -
  define h1 where "h1 = put_param_link (link_of us) (pm_next (params h p)) h"
  note P = hal_rep_parts [OF rep] and S1 = put_param_link_sel [of "link_of us" "pm_next (params h p)" h, folded h1_def]
  have sr1: "same_rest h h1" unfolding h1_def by (rule same_rest_put_param)
  have sp: "spare (\<lambda>p. pm_next (params h1 p)) (param_list_ptr h1) (param_free_ptr h1) (shmem_top h1) sizeof_hal_param p (us @ vs) (s_params_free G)"
    using param_pool.unlink_pool [of h us p vs "s_params_free G" h1] P(4)
    by (simp add: params_ok_def ps h1_def)
  have "pm_oldname (params h1 p) = 0" using P(4) by (simp add: params_ok_def S1)
  from free_param_pool [OF sp this] obtain pn where
    h2: "free_param_struct p h1 = h1\<lparr>param_free_ptr := p, params := pn\<rparr>"
    and pl: "pool (\<lambda>p. pm_next (pn p)) (param_list_ptr h1) p (shmem_top h1) sizeof_hal_param (us @ vs) (p # s_params_free G)"
    and same: "\<forall>q. q \<noteq> p \<longrightarrow> pn q = params h1 q" and o: "pm_oldname (pn p) = 0" by blast
  let ?h = "h1\<lparr>param_free_ptr := p, params := pn\<rparr>" and ?G = "G\<lparr>s_params := us @ vs, s_params_free := p # s_params_free G\<rparr>"
  have nn: "p \<notin> set (us @ vs)" using sp by (auto simp: spare_def)
  have nm: "pm_name (pn q) = pm_name (params h q)" "pm_owner (pn q) = pm_owner (params h q)" if "q \<noteq> p" for q
    using same that by (simp_all add: S1)
  have "map (\<lambda>q. pm_name (pn q)) (us @ vs) = map (\<lambda>q. pm_name (params h q)) (us @ vs)"
    by (rule map_cong [OF refl], rule nm) (use nn in auto)
  then have "sorted_names (\<lambda>q. pm_name (pn q)) (us @ vs)"
    using P(4) unfolding params_ok_def ps sorted_names_def by (simp only: sorted_wrt_append map_append list.map) auto
  moreover have "pm_oldname (pn q) = 0" for q
    using same o P(4) by (cases "q = p") (simp_all add: S1 params_ok_def)
  ultimately have pok: "params_ok ?h ?G" using pl by (simp add: params_ok_def)
  have top: "shmem_top ?h = shmem_top h" "shmem_bot ?h = shmem_bot h" using same_rest_sel [OF sr1] by simp_all
  have kp: "keeps_comps h ?h" "keeps_pins h ?h" "keeps_functs h ?h" "keeps_threads h ?h" "keeps_rings h ?h" "keeps_users h ?h"
    using same_rest_sel [OF sr1] by (simp_all add: keeps_defs S1)
  have bl: "blocks ?G = blocks G" by (auto simp: blocks_def ps all_entries_def)
  have aw: "area_wf ?h" using P(1) by (simp only: area_wf_cong [OF top(2,1)])
  have "hal_rep ?h ?G"
    by (rule hal_rep_step [OF rep aw])
      (use P bl kp pok top in \<open>auto
        intro: comps_ok_frame pins_ok_frame functs_ok_frame threads_ok_frame rings_ok_frame users_ok_frame\<close>)
  moreover have "same_rest h ?h"
    by (rule same_rest_trans [OF sr1], rule same_restI) simp
  ultimately show ?thesis using h2 nm unfolding h1_def [symmetric]
    by (rule_tac exI [of _ ?h]) (simp add: S1)
qed

lemma drop_params_run:
  assumes "hal_rep h G" "s_params G = us @ vs"
  shows "\<exists>h' fr. drop_params cp (link_of us) (case vs of [] \<Rightarrow> 0 | v # _ \<Rightarrow> v) h = Some h'
    \<and> hal_rep h' (G\<lparr>s_params := us @ filter (\<lambda>p. pm_owner (params h p) \<noteq> cp) vs, s_params_free := fr\<rparr>)
    \<and> same_rest h h' \<and> functs h' = functs h \<and> entries h' = entries h \<and> links h' = links h
    \<and> set (us @ filter (\<lambda>p. pm_owner (params h p) \<noteq> cp) vs @ fr) = set (s_params G @ s_params_free G)
    \<and> (\<forall>p \<in> set (us @ filter (\<lambda>p. pm_owner (params h p) \<noteq> cp) vs).
         pm_owner (params h' p) = pm_owner (params h p) \<and> pm_name (params h' p) = pm_name (params h p))"
  using assms
proof (induction vs arbitrary: us h G)
  case Nil
  then have "us = s_params G" by simp
  with Nil(1) show ?case
    by (rule_tac exI [of _ h], rule_tac exI [of _ "s_params_free G"]) (simp add: drop_params.simps)
next
  case (Cons v vs)
  have v0: "v \<noteq> 0" using chain_nz [OF params_chain [OF Cons.prems(1)]] Cons.prems(2) by auto
  have nx: "pm_next (params h v) = (case vs of [] \<Rightarrow> 0 | v # _ \<Rightarrow> v)"
    using params_chain [OF Cons.prems(1)] chain_next_of [of "\<lambda>p. pm_next (params h p)" "param_list_ptr h" us v vs]
    by (simp add: Cons.prems(2))
  have d: "distinct (us @ v # vs)"
    using chain_distinct [OF params_chain [OF Cons.prems(1)]] by (simp add: Cons.prems(2))
  show ?case
  proof (cases "pm_owner (params h v) = cp")
    case False
    have "s_params G = (us @ [v]) @ vs" using Cons.prems(2) by simp
    from Cons.IH [OF Cons.prems(1) this] obtain h' fr where
      run: "drop_params cp (link_of (us @ [v])) (case vs of [] \<Rightarrow> 0 | v # _ \<Rightarrow> v) h = Some h'"
      and rest: "hal_rep h' (G\<lparr>s_params := (us @ [v]) @ filter (\<lambda>p. pm_owner (params h p) \<noteq> cp) vs, s_params_free := fr\<rparr>)"
        "same_rest h h' \<and> functs h' = functs h \<and> entries h' = entries h \<and> links h' = links h"
        "set ((us @ [v]) @ filter (\<lambda>p. pm_owner (params h p) \<noteq> cp) vs @ fr) = set (s_params G @ s_params_free G)"
        "\<forall>p \<in> set ((us @ [v]) @ filter (\<lambda>p. pm_owner (params h p) \<noteq> cp) vs).
           pm_owner (params h' p) = pm_owner (params h p) \<and> pm_name (params h' p) = pm_name (params h p)"
      by blast
    have "drop_params cp (link_of us) v h = Some h'"
      using run v0 False by (subst drop_params.simps) (simp add: nx)
    with rest False show ?thesis
      by (rule_tac exI [of _ h'], rule_tac exI [of _ fr]) simp
  next
    case True
    from free_param_unlinked [OF Cons.prems(1), of us v vs] Cons.prems(2) obtain h1 where
      run1: "free_param_struct v (put_param_link (link_of us) (pm_next (params h v)) h) = h1"
      and rep1: "hal_rep h1 (G\<lparr>s_params := us @ vs, s_params_free := v # s_params_free G\<rparr>)"
      and ow1: "\<forall>q. q \<noteq> v \<longrightarrow> pm_owner (params h1 q) = pm_owner (params h q) \<and> pm_name (params h1 q) = pm_name (params h q)"
      and sr1: "same_rest h h1" "functs h1 = functs h" "entries h1 = entries h" "links h1 = links h"
      by blast
    let ?G1 = "G\<lparr>s_params := us @ vs, s_params_free := v # s_params_free G\<rparr>"
    have nx1: "get_param_link (link_of us) h1 = (case vs of [] \<Rightarrow> 0 | v # _ \<Rightarrow> v)"
      by (rule get_link_chain) (use params_chain [OF rep1] in simp)
    have f1: "s_params ?G1 = us @ vs" by simp
    from Cons.IH [OF rep1 f1] obtain h' fr where
      run: "drop_params cp (link_of us) (case vs of [] \<Rightarrow> 0 | v # _ \<Rightarrow> v) h1 = Some h'"
      and rep: "hal_rep h' (?G1\<lparr>s_params := us @ filter (\<lambda>p. pm_owner (params h1 p) \<noteq> cp) vs, s_params_free := fr\<rparr>)"
      and sr: "same_rest h1 h'" "functs h' = functs h1" "entries h' = entries h1" "links h' = links h1"
      and st: "set (us @ filter (\<lambda>p. pm_owner (params h1 p) \<noteq> cp) vs @ fr) = set (s_params ?G1 @ s_params_free ?G1)"
      and ow: "\<forall>p \<in> set (us @ filter (\<lambda>p. pm_owner (params h1 p) \<noteq> cp) vs).
           pm_owner (params h' p) = pm_owner (params h1 p) \<and> pm_name (params h' p) = pm_name (params h1 p)"
      by blast
    have fl: "filter (\<lambda>p. pm_owner (params h1 p) \<noteq> cp) vs = filter (\<lambda>p. pm_owner (params h p) \<noteq> cp) (v # vs)"
      using ow1 d True by (auto intro!: filter_cong)
    have "drop_params cp (link_of us) v h = Some h'"
      using v0 True by (subst drop_params.simps) (simp add: run1 nx1 run Let_def)
    moreover have "same_rest h h'" by (rule same_rest_trans [OF sr1(1) sr(1)])
    moreover have "\<forall>p \<in> set (us @ filter (\<lambda>p. pm_owner (params h p) \<noteq> cp) (v # vs)).
         pm_owner (params h' p) = pm_owner (params h p) \<and> pm_name (params h' p) = pm_name (params h p)"
      using ow ow1 d True unfolding fl by auto
    moreover have "set (us @ filter (\<lambda>p. pm_owner (params h p) \<noteq> cp) (v # vs) @ fr) = set (s_params G @ s_params_free G)"
      using st Cons.prems(2) unfolding fl by auto
    ultimately show ?thesis using rep sr sr1 unfolding fl
      by (rule_tac exI [of _ h'], rule_tac exI [of _ fr]) simp
  qed
qed


section \<open>A component\<close>

abbreviation "put_comp_link \<equiv> put_link (\<lambda>v h. h\<lparr>comp_list_ptr := v\<rparr>) set_c_next"

text \<open>A component that has been taken from the list: everything but the list of components is as before.\<close>

definition comp_unlinked :: "off \<Rightarrow> off list \<Rightarrow> off list \<Rightarrow> hal \<Rightarrow> hal \<Rightarrow> bool" where
  "comp_unlinked c us vs h h1 \<longleftrightarrow> (\<exists>cs l. h1 = h\<lparr>comps := cs, comp_list_ptr := l\<rparr>
     \<and> (\<forall>p. \<exists>v. cs p = (comps h p)\<lparr>c_next := v\<rparr>))"

lemma comp_next_id: "\<exists>v. (s :: hal_comp) = s\<lparr>c_next := v\<rparr>"
  by (rule exI [of _ "c_next s"]) simp

lemma put_comp_link_unlinked: "comp_unlinked c us vs h (put_comp_link l v h)"
proof (cases l)
  case At_head
  then have "put_comp_link l v h = h\<lparr>comps := comps h, comp_list_ptr := v\<rparr>" by (simp add: put_link_def)
  then show ?thesis unfolding comp_unlinked_def using comp_next_id by blast
next
  case (At_next q)
  then have "put_comp_link l v h =
      h\<lparr>comps := (comps h)(q := (comps h q)\<lparr>c_next := v\<rparr>), comp_list_ptr := comp_list_ptr h\<rparr>"
    by (simp add: put_link_def set_c_next_def upd_comp_def)
  moreover have "\<exists>w. ((comps h)(q := (comps h q)\<lparr>c_next := v\<rparr>)) p = (comps h p)\<lparr>c_next := w\<rparr>" for p
    using comp_next_id [of "comps h p"] by auto
  ultimately show ?thesis unfolding comp_unlinked_def by blast
qed

lemma blocks_less_comp:
  "s_comps G = us @ c # vs \<Longrightarrow>
     blocks G = insert (c, sizeof_hal_comp) (blocks (G\<lparr>s_comps := us @ vs\<rparr>))"
  by (auto simp: blocks_def all_entries_def)

lemma apart_insert_less: "apart (insert x B) \<Longrightarrow> apart B"
  unfolding apart_def by blast

lemma comp_unlink_rep:
  assumes rep: "hal_rep h G" and cs: "s_comps G = us @ c # vs"
  defines "h1 \<equiv> put_comp_link (link_of us) (c_next (comps h c)) h"
  shows "hal_rep h1 (G\<lparr>s_comps := us @ vs\<rparr>)"
    and "spare (\<lambda>p. c_next (comps h1 p)) (comp_list_ptr h1) (comp_free_ptr h1) (shmem_top h1) sizeof_hal_comp c (us @ vs) (s_comps_free G)"
proof -
  note P = hal_rep_parts [OF rep]
  show sp: "spare (\<lambda>p. c_next (comps h1 p)) (comp_list_ptr h1) (comp_free_ptr h1) (shmem_top h1) sizeof_hal_comp c (us @ vs) (s_comps_free G)"
    using comp_pool.unlink_pool [of h us c vs "s_comps_free G" h1] P(2)
    by (simp add: comps_ok_def cs h1_def)
  let ?G = "G\<lparr>s_comps := us @ vs\<rparr>"
  obtain cm l where h1: "h1 = h\<lparr>comps := cm, comp_list_ptr := l\<rparr>"
    using put_comp_link_unlinked [of c us vs h] unfolding comp_unlinked_def h1_def by blast
  have "comps_ok h1 ?G" using sp by (simp add: comps_ok_def spare_def)
  moreover have "area_wf h1" using P(1) by (simp add: h1)
  moreover have "pins_ok h1 ?G" "params_ok h1 ?G" "functs_ok h1 ?G" "threads_ok h1 ?G" "rings_ok h1 ?G" "users_ok h1 ?G"
    using P(3-8) by (auto simp: h1 keeps_defs intro: pins_ok_frame params_ok_frame functs_ok_frame threads_ok_frame
        rings_ok_frame users_ok_frame)
  moreover have "apart (blocks ?G)" using P(9) apart_insert_less unfolding blocks_less_comp [OF cs] by blast
  ultimately show "hal_rep h1 ?G" by (simp add: hal_rep_def)
qed

definition recycle_comp :: "off \<Rightarrow> hal \<Rightarrow> hal" where
  "recycle_comp c h =
     (set_c_next c (comp_free_ptr h) (upd_comp c (\<lambda>s. s\<lparr>c_comp_id := 0, c_mem_id := 0, c_type := COMPONENT_TYPE_USER,
        c_shmem_base := B_null, c_name := []\<rparr>) h))\<lparr>comp_free_ptr := c\<rparr>"

lemma recycle_comp_pool:
  assumes "spare (\<lambda>p. c_next (comps h p)) (comp_list_ptr h) (comp_free_ptr h) (shmem_top h) sizeof_hal_comp c xs ys"
  shows "pool (\<lambda>p. c_next (comps (recycle_comp c h) p)) (comp_list_ptr (recycle_comp c h))
    (comp_free_ptr (recycle_comp c h)) (shmem_top (recycle_comp c h)) sizeof_hal_comp xs (c # ys)"
proof -
  let ?h = "upd_comp c (\<lambda>s. s\<lparr>c_comp_id := 0, c_mem_id := 0, c_type := COMPONENT_TYPE_USER,
        c_shmem_base := B_null, c_name := []\<rparr>) h"
  have "spare (\<lambda>p. c_next (comps ?h p)) (comp_list_ptr ?h) (comp_free_ptr ?h) (shmem_top ?h) sizeof_hal_comp c xs ys"
    by (rule spare_next [where nx = "\<lambda>p. c_next (comps h p)"]) (use assms in \<open>simp_all add: upd_comp_heap\<close>)
  from comp_pool.free_pool [OF this refl] show ?thesis
    by (simp add: recycle_comp_def)
qed

lemma recycle_comp_eq: "\<exists>cm. recycle_comp c h = h\<lparr>comps := cm, comp_free_ptr := c\<rparr> \<and> (\<forall>p. p \<noteq> c \<longrightarrow> cm p = comps h p)"
  by (rule exI [of _ "comps (recycle_comp c h)"]) (simp add: recycle_comp_def set_c_next_def upd_comp_def)

text \<open>What is left of a segment when component \<open>c\<close> has gone.\<close>

definition without_comp :: "off \<Rightarrow> hal \<Rightarrow> shape \<Rightarrow> shape \<Rightarrow> bool" where
  "without_comp c h G G' \<longleftrightarrow>
     s_comps G' = filter (\<lambda>p. p \<noteq> c) (s_comps G) \<and> s_pins G' = s_pins G \<and> s_threads G' = s_threads G \<and>
     s_functs G' = filter (\<lambda>f. f_owner (functs h f) \<noteq> c) (s_functs G) \<and>
     s_params G' = filter (\<lambda>p. pm_owner (params h p) \<noteq> c) (s_params G) \<and>
     (\<forall>t \<in> set (s_threads G). s_entries G' t =
        filter (\<lambda>e. f_owner (functs h (e_funct_ptr (entries h e))) \<noteq> c) (s_entries G t))"

lemma free_comp_run:
  assumes rep: "hal_rep h G" and cs: "s_comps G = us @ c # vs"
  defines "h1 \<equiv> put_comp_link (link_of us) (c_next (comps h c)) h"
  shows "\<exists>h' G'. free_comp_struct c h1 = Inr h' \<and> hal_rep h' G' \<and> without_comp c h G G'
    \<and> pins h' = pins h \<and> threads h' = threads h \<and> hal_data h' = hal_data h \<and> hd_mutex h' = hd_mutex h
    \<and> hd_state h' = hd_state h \<and> ref_cnt h' = ref_cnt h \<and> lib_mem_id h' = lib_mem_id h
    \<and> (\<forall>p. p \<noteq> c \<longrightarrow> (\<exists>v. comps h' p = (comps h p)\<lparr>c_next := v\<rparr>))
    \<and> (\<forall>f \<in> set (s_functs G'). f_owner (functs h' f) = f_owner (functs h f) \<and> f_name (functs h' f) = f_name (functs h f))
    \<and> (\<forall>p \<in> set (s_params G'). pm_owner (params h' p) = pm_owner (params h p) \<and> pm_name (params h' p) = pm_name (params h p))
    \<and> (\<forall>e \<in> set (all_entries G'). entries h' e = entries h e)"
proof -
  let ?G1 = "G\<lparr>s_comps := us @ vs\<rparr>"
  note U = comp_unlink_rep [OF rep cs, folded h1_def]
  obtain cm1 l where h1: "h1 = h\<lparr>comps := cm1, comp_list_ptr := l\<rparr>" and cm1: "\<forall>p. \<exists>v. cm1 p = (comps h p)\<lparr>c_next := v\<rparr>"
    using put_comp_link_unlinked [of c us vs h] unfolding comp_unlinked_def h1_def by blast
  have hd1: "funct_list_ptr h1 = (case s_functs G of [] \<Rightarrow> 0 | v # _ \<Rightarrow> v)"
    using functs_chain [OF U(1)] by (cases "s_functs G") auto
  have fh: "functs h1 = functs h" "entries h1 = entries h" "s_threads ?G1 = s_threads G" "s_entries ?G1 = s_entries G"
    by (simp_all add: h1)
  have f0: "s_functs ?G1 = [] @ s_functs G" by simp
  from drop_functs_run [OF U(1) f0, of c, unfolded functs_dropped_def Let_def append_Nil link_of_simps(1) fh, folded hd1] obtain h2 es ef ffr where
    run2: "drop_functs c At_head (funct_list_ptr h1) h1 = Some (Inr h2)"
    and rep2: "hal_rep h2 (?G1\<lparr>s_functs := filter (\<lambda>f. f_owner (functs h f) \<noteq> c) (s_functs G), s_functs_free := ffr,
         s_entries := es, s_entries_free := ef\<rparr>)"
    and sr2: "same_rest h1 h2" "params h2 = params h1" "param_list_ptr h2 = param_list_ptr h1"
    and bl2: "blocks (?G1\<lparr>s_functs := filter (\<lambda>f. f_owner (functs h f) \<noteq> c) (s_functs G), s_functs_free := ffr,
         s_entries := es, s_entries_free := ef\<rparr>) = blocks ?G1"
    and ow2: "\<forall>f \<in> set (filter (\<lambda>f. f_owner (functs h f) \<noteq> c) (s_functs G)).
         f_owner (functs h2 f) = f_owner (functs h f) \<and> f_name (functs h2 f) = f_name (functs h f)"
    and es: "\<forall>u \<in> set (s_threads G). es u = filter (\<lambda>e. \<not> (e_funct_ptr (entries h e) \<in> set (s_functs G) \<and>
         f_owner (functs h (e_funct_ptr (entries h e))) = c)) (s_entries G u)
         \<and> (\<forall>e \<in> set (es u). entries h2 e = entries h e)"
    by blast
  let ?G2 = "?G1\<lparr>s_functs := filter (\<lambda>f. f_owner (functs h f) \<noteq> c) (s_functs G), s_functs_free := ffr,
         s_entries := es, s_entries_free := ef\<rparr>"
  have hd2: "param_list_ptr h2 = (case s_params G of [] \<Rightarrow> 0 | v # _ \<Rightarrow> v)"
    using params_chain [OF rep2] by (cases "s_params G") auto
  have pm2: "params h2 = params h" by (simp add: sr2 h1)
  have p0: "s_params ?G2 = [] @ s_params G" and pf: "s_params_free ?G2 = s_params_free G" "s_params ?G2 = s_params G" by simp_all
  from drop_params_run [OF rep2 p0, of c, unfolded append_Nil link_of_simps(1) pm2 pf, folded hd2] obtain h3 pfr where
    run3: "drop_params c At_head (param_list_ptr h2) h2 = Some h3"
    and rep3: "hal_rep h3 (?G2\<lparr>s_params := filter (\<lambda>p. pm_owner (params h p) \<noteq> c) (s_params G), s_params_free := pfr\<rparr>)"
    and sr3: "same_rest h2 h3" "functs h3 = functs h2" "entries h3 = entries h2"
    and st3: "set (filter (\<lambda>p. pm_owner (params h p) \<noteq> c) (s_params G) @ pfr) = set (s_params G @ s_params_free G)"
    and ow3: "\<forall>p \<in> set (filter (\<lambda>p. pm_owner (params h p) \<noteq> c) (s_params G)).
         pm_owner (params h3 p) = pm_owner (params h p) \<and> pm_name (params h3 p) = pm_name (params h p)"
    by blast
  let ?G3 = "?G2\<lparr>s_params := filter (\<lambda>p. pm_owner (params h p) \<noteq> c) (s_params G), s_params_free := pfr\<rparr>"
  let ?G4 = "?G3\<lparr>s_comps_free := c # s_comps_free G\<rparr>"
  obtain cm4 where h4: "recycle_comp c h3 = h3\<lparr>comps := cm4, comp_free_ptr := c\<rparr>" and cm4: "\<forall>p. p \<noteq> c \<longrightarrow> cm4 p = comps h3 p"
    using recycle_comp_eq by blast
  let ?h4 = "h3\<lparr>comps := cm4, comp_free_ptr := c\<rparr>"
  note sr = same_rest_sel [OF same_rest_trans [OF sr2(1) sr3(1)]]
  have run: "free_comp_struct c h1 = Inr ?h4"
    by (simp add: free_comp_struct_def run2 run3 h4 [symmetric] recycle_comp_def Let_def)
  have sp: "spare (\<lambda>p. c_next (comps h3 p)) (comp_list_ptr h3) (comp_free_ptr h3) (shmem_top h3) sizeof_hal_comp c (us @ vs) (s_comps_free G)"
    using U(2) by (simp add: sr)
  have c4: "comps_ok ?h4 ?G4"
    using recycle_comp_pool [OF sp] by (simp add: comps_ok_def h4)
  have bl3: "blocks ?G3 = blocks ?G2" using st3 by (auto simp: blocks_def all_entries_def)
  have "blocks ?G4 = insert (c, sizeof_hal_comp) (blocks ?G3)" by (auto simp: blocks_def all_entries_def)
  then have bl: "blocks ?G4 = blocks G" by (simp add: bl3 bl2 blocks_less_comp [OF cs])
  note P3 = hal_rep_parts [OF rep3]
  have "area_wf ?h4" using P3(1) by simp
  moreover have "pins_ok ?h4 ?G4" "params_ok ?h4 ?G4" "functs_ok ?h4 ?G4" "threads_ok ?h4 ?G4" "rings_ok ?h4 ?G4" "users_ok ?h4 ?G4"
    by (rule pins_ok_frame [OF P3(3)] params_ok_frame [OF P3(4)] functs_ok_frame [OF P3(5)] threads_ok_frame [OF P3(6)]
        rings_ok_frame [OF P3(7)] users_ok_frame [OF P3(8)]; simp add: keeps_defs)+
  moreover have "apart (blocks ?G4)" using hal_rep_parts(9) [OF rep] by (simp add: bl)
  ultimately have rep4: "hal_rep ?h4 ?G4" using c4 by (simp add: hal_rep_def)
  have wo: "without_comp c h G ?G4"
  proof -
    have "distinct (s_comps G)"
      using hal_rep_parts(2) [OF rep] by (simp add: comps_ok_def pool_def)
    then have "distinct (us @ c # vs)" by (simp only: cs)
    then have "filter (\<lambda>p. p \<noteq> c) (us @ c # vs) = us @ vs"
      by (auto simp: filter_id_conv intro!: arg_cong2 [of _ _ _ _ append])
    moreover have "es t = filter (\<lambda>e. f_owner (functs h (e_funct_ptr (entries h e))) \<noteq> c) (s_entries G t)"
      if "t \<in> set (s_threads G)" for t
    proof -
      have "e_funct_ptr (entries h e) \<in> set (s_functs G)" if "e \<in> set (s_entries G t)" for e
        using entry_functs [OF rep] that \<open>t \<in> set (s_threads G)\<close> by (auto simp: all_entries_def)
      with es that show ?thesis by (auto intro!: filter_cong)
    qed
    ultimately show ?thesis by (simp add: without_comp_def cs)
  qed
  have "\<forall>e \<in> set (all_entries ?G4). entries ?h4 e = entries h e"
    using es by (auto simp: all_entries_def sr3)
  moreover have "\<exists>v. comps ?h4 p = (comps h p)\<lparr>c_next := v\<rparr>" if "p \<noteq> c" for p
    using cm4 cm1 that by (simp add: sr h1)
  ultimately show ?thesis using run rep4 wo ow2 ow3
    by (rule_tac exI [of _ ?h4], rule_tac exI [of _ ?G4]) (simp add: sr h1 sr3)
qed

end
