(* ===== verification/Hal_Mount.thy ===== *)
theory Hal_Mount
  imports Hal_Free
begin

text \<open>
  Mounting functions on threads (\<open>hal_add_funct_to_thread\<close> and \<open>hal_del_funct_from_thread\<close> of
  \<open>hal/hal_lib.c\<close>): the program of a thread is the list of the functions its entries call, in
  order, and the two operations insert in it at a position and remove from it.
\<close>

section \<open>The operations\<close>

text \<open>The two loops that look for the place: \<open>k\<close> moves that must not come back to the root.\<close>

fun moves :: "nat \<Rightarrow> (laddr \<Rightarrow> laddr) \<Rightarrow> laddr \<Rightarrow> laddr \<Rightarrow> laddr option" where
  "moves 0 step root e = Some e"
| "moves (Suc k) step root e = (if step e = root then None else moves k step root (step e))"

definition find_place :: "int \<Rightarrow> laddr \<Rightarrow> links \<Rightarrow> laddr option" where
  "find_place position root L =
     (if position > 0 then moves (nat (position - 1)) (list_next L) root root
      else map_option (list_prev L) (moves (nat (- position - 1)) (list_prev L) root root))"

text \<open>The last steps of \<open>hal_add_funct_to_thread\<close>.\<close>

definition hook :: "off \<Rightarrow> off \<Rightarrow> laddr \<Rightarrow> hal \<Rightarrow> hal" where
  "hook n f a h =
     (let h = upd_entry n (\<lambda>e. e\<lparr>e_funct_ptr := f, e_arg := f_arg (functs h f), e_funct := f_funct (functs h f)\<rparr>) h;
          h = h\<lparr>links := list_add_after (Entry n) a (links h)\<rparr>
      in upd_funct f (\<lambda>s. s\<lparr>f_users := f_users s + 1\<rparr>) h)"

definition hal_add_funct_to_thread ::
    "(laddr \<Rightarrow> links \<Rightarrow> links) \<Rightarrow> string option \<Rightarrow> string option \<Rightarrow> int \<Rightarrow> hal \<Rightarrow> (int \<times> hal) res" where
  "hal_add_funct_to_thread li funct_name thread_name position h =
     (if hal_data h = SP_null then Inr (- EINVAL, h)
      else if hal_data h = SP_stale then Inl UB
      else if hd_lock h AND HAL_LOCK_CONFIG \<noteq> 0 then Inr (- EPERM, h)
      else
        bnd (hal_mutex_get h) (\<lambda>h.
          if position = 0 then Inr (- EINVAL, hal_mutex_give h)
          else case (funct_name, thread_name) of
            (Some fname, Some tname) \<Rightarrow>
              bnd (halpr_find_funct_by_name fname h) (\<lambda>funct.
                if funct = 0 then Inr (- EINVAL, hal_mutex_give h)
                else if f_users (functs h funct) > 0 \<and> f_reentrant (functs h funct) = 0
                then Inr (- EINVAL, hal_mutex_give h)
                else bnd (halpr_find_thread_by_name tname h) (\<lambda>thread.
                  if thread = 0 then Inr (- EINVAL, hal_mutex_give h)
                  else if f_uses_fp (functs h funct) \<noteq> 0 \<and> t_uses_fp (threads h thread) = 0
                  then Inr (- EINVAL, hal_mutex_give h)
                  else case find_place position (Thread_root thread) (links h) of
                    None \<Rightarrow> Inr (- EINVAL, hal_mutex_give h)
                  | Some list_entry \<Rightarrow>
                      bnd (alloc_funct_entry_struct li h) (\<lambda>(entry, h).
                        Inr (0, hal_mutex_give (hook entry funct list_entry h)))))
          | _ \<Rightarrow> Inr (- EINVAL, hal_mutex_give h)))"

text \<open>The loop over the entries of the thread: the first one that calls the function.\<close>

partial_function (option) find_entry :: "off \<Rightarrow> laddr \<Rightarrow> laddr \<Rightarrow> hal \<Rightarrow> laddr option" where
  "find_entry f root entry h =
     (if entry = root then Some root
      else case entry_of entry of
             None \<Rightarrow> Some L_null
           | Some p \<Rightarrow> if e_funct_ptr (entries h p) = f then Some entry
                      else find_entry f root (list_next (links h) entry) h)"

definition hal_del_funct_from_thread :: "string option \<Rightarrow> string option \<Rightarrow> hal \<Rightarrow> (int \<times> hal) res" where
  "hal_del_funct_from_thread funct_name thread_name h =
     (if hal_data h = SP_null then Inr (- EINVAL, h)
      else if hal_data h = SP_stale then Inl UB
      else if hd_lock h AND HAL_LOCK_CONFIG \<noteq> 0 then Inr (- EPERM, h)
      else
        bnd (hal_mutex_get h) (\<lambda>h.
          case (funct_name, thread_name) of
            (Some fname, Some tname) \<Rightarrow>
              bnd (halpr_find_funct_by_name fname h) (\<lambda>funct.
                if funct = 0 then Inr (- EINVAL, hal_mutex_give h)
                else if f_users (functs h funct) = 0 then Inr (- EINVAL, hal_mutex_give h)
                else bnd (halpr_find_thread_by_name tname h) (\<lambda>thread.
                  if thread = 0 then Inr (- EINVAL, hal_mutex_give h)
                  else bnd (loop_res (find_entry funct (Thread_root thread)
                         (list_next (links h) (Thread_root thread)) h)) (\<lambda>entry.
                    if entry = Thread_root thread then Inr (- EINVAL, hal_mutex_give h)
                    else case entry_of entry of
                        None \<Rightarrow> Inl UB
                      | Some p \<Rightarrow> Inr (0, hal_mutex_give (free_funct_entry_struct p
                          (h\<lparr>links := snd (list_remove_entry entry (links h))\<rparr>))))))
          | _ \<Rightarrow> Inr (- EINVAL, hal_mutex_give h)))"

section \<open>Finding the place\<close>

lemma moves_next:
  assumes "ring L r xs" "i + k \<le> length xs"
  shows "moves k (list_next L) r (addr_at r xs i) = Some (addr_at r xs (i + k))"
  using assms(2)
proof (induction k arbitrary: i)
  case (Suc k)
  then have "list_next L (addr_at r xs i) = addr_at r xs (Suc i)" "addr_at r xs (Suc i) \<noteq> r"
    using ring_list_next [OF assms(1), of i] addr_at_root [OF assms(1), of "Suc i"] by auto
  with Suc show ?case by simp
qed simp

lemma moves_next_out:
  assumes "ring L r xs" "i \<le> length xs" "i + k > length xs"
  shows "moves k (list_next L) r (addr_at r xs i) = None"
  using assms(2,3)
proof (induction k arbitrary: i)
  case (Suc k)
  show ?case
  proof (cases "i < length xs")
    case True
    then have "list_next L (addr_at r xs i) = addr_at r xs (Suc i)" "addr_at r xs (Suc i) \<noteq> r"
      using ring_list_next [OF assms(1), of i] addr_at_root [OF assms(1), of "Suc i"] by auto
    with Suc True show ?thesis by simp
  next
    case False
    with Suc.prems ring_list_next [OF assms(1), of i] show ?thesis by simp
  qed
qed simp

text \<open>\<open>addr_at r xs (length xs + 1)\<close> stands for the root seen from the end.\<close>

lemma moves_prev:
  assumes "ring L r xs" "k \<le> i" "i \<le> length xs" "0 < i - k \<or> k = 0"
  shows "moves k (list_prev L) r (addr_at r xs i) = Some (addr_at r xs (i - k))"
  using assms(2-)
proof (induction k arbitrary: i)
  case (Suc k)
  then have "list_prev L (addr_at r xs i) = addr_at r xs (i - 1)" "addr_at r xs (i - 1) \<noteq> r"
    using ring_list_prev [OF assms(1), of i] addr_at_root [OF assms(1), of "i - 1"] by auto
  with Suc.prems Suc.IH [of "i - 1"] show ?case by simp
qed simp

lemma moves_prev_out:
  assumes "ring L r xs" "i \<le> k" "0 < i" "i \<le> length xs"
  shows "moves k (list_prev L) r (addr_at r xs i) = None"
  using assms(2-)
proof (induction k arbitrary: i)
  case (Suc k)
  note p = ring_list_prev [OF assms(1), of i]
  show ?case
  proof (cases "i = 1")
    case True
    with p Suc.prems show ?thesis by simp
  next
    case False
    then have "addr_at r xs (i - 1) \<noteq> r" using Suc.prems addr_at_root [OF assms(1), of "i - 1"] by auto
    with p Suc.prems Suc.IH [of "i - 1"] False show ?thesis by simp
  qed
qed simp

text \<open>
  The index a position stands for: counted from \<open>1\<close> at the front, from \<open>-1\<close> at the back.
\<close>

definition place_index :: "int \<Rightarrow> nat \<Rightarrow> nat option" where
  "place_index position len =
     (if position > 0 then (if position \<le> int len + 1 then Some (nat (position - 1)) else None)
      else if position < 0 then (if - position \<le> int len + 1 then Some (nat (int len + 1 + position)) else None)
      else None)"

lemma find_place_ring:
  assumes r: "ring L r xs" and p: "position \<noteq> 0"
  shows "find_place position r L = map_option (addr_at r xs) (place_index position (length xs))"
proof (cases "position > 0")
  case True
  define k where "k = nat (position - 1)"
  have "moves k (list_next L) r r = (if k \<le> length xs then Some (addr_at r xs k) else None)"
    using moves_next [OF r, of 0 k] moves_next_out [OF r, of 0 k] by simp
  with True show ?thesis by (auto simp: find_place_def place_index_def k_def)
next
  case False
  with p have neg: "position < 0" by simp
  define k where "k = nat (- position - 1)"
  have pk: "position = - int k - 1" using neg by (simp add: k_def)
  have "map_option (list_prev L) (moves k (list_prev L) r r) =
      (if k \<le> length xs then Some (addr_at r xs (length xs - k)) else None)"
  proof (cases k)
    case 0
    with ring_list_prev [OF r, of 0] show ?thesis by simp
  next
    case (Suc j)
    have first: "list_prev L r = addr_at r xs (length xs)"
      using ring_list_prev [OF r, of 0] by simp
    show ?thesis
    proof (cases "xs = []")
      case True
      with Suc first show ?thesis by simp
    next
      case False
      then have ne: "addr_at r xs (length xs) \<noteq> r" using addr_at_root [OF r, of "length xs"] by simp
      show ?thesis
      proof (cases "k \<le> length xs")
        case True
        then have "moves j (list_prev L) r (addr_at r xs (length xs)) = Some (addr_at r xs (length xs - j))"
          using Suc by (intro moves_prev [OF r]) auto
        moreover have "list_prev L (addr_at r xs (length xs - j)) = addr_at r xs (length xs - k)"
          using ring_list_prev [OF r, of "length xs - j"] True Suc by simp
        ultimately show ?thesis using True Suc first ne by simp
      next
        case False
        then have "moves j (list_prev L) r (addr_at r xs (length xs)) = None"
          using Suc \<open>xs \<noteq> []\<close> by (intro moves_prev_out [OF r]) auto
        with False Suc first ne show ?thesis by simp
      qed
    qed
  qed
  moreover have "place_index position (length xs) = (if k \<le> length xs then Some (length xs - k) else None)"
    using neg by (auto simp: place_index_def pk)
  moreover have "nat (- position - 1) = k" by (simp add: k_def)
  ultimately show ?thesis using neg by (simp add: find_place_def)
qed


section \<open>Taking an entry\<close>

lemma rings_ok_free:
  "rings_ok h G \<Longrightarrow> ring (links h) Free_root (s_entries_free G)"
  "rings_ok h G \<Longrightarrow> t \<in> set (s_threads G) \<Longrightarrow> ring (links h) (Thread_root t) (s_entries G t)"
  "rings_ok h G \<Longrightarrow> distinct (s_entries_free G @ all_entries G)"
  by (auto simp: rings_ok_def)

lemma all_entries_free [simp]: "all_entries (G\<lparr>s_entries_free := ef\<rparr>) = all_entries G"
  by (simp add: all_entries_def)

text \<open>
  An entry \<open>n\<close> has been taken from the free list or the allocator: it is on no list, and nothing but
  the links, the entry itself and the bounds of the free area has changed.
\<close>

definition took_entry :: "off \<Rightarrow> hal \<Rightarrow> shape \<Rightarrow> hal \<Rightarrow> shape \<Rightarrow> bool" where
  "took_entry n h G h' G' \<longleftrightarrow>
     (\<exists>L en tp av. h' = h\<lparr>links := L, entries := en, shmem_top := tp, shmem_avail := av\<rparr> \<and> (\<forall>e. e \<noteq> n \<longrightarrow> en e = entries h e)) \<and>
     G' = G\<lparr>s_entries_free := tl (s_entries_free G)\<rparr> \<and> area_wf h' \<and> shmem_top h' \<le> shmem_top h \<and>
     shmem_top h - 128 \<le> shmem_top h' \<and> rings_ok h' G' \<and>
     n \<notin> set (s_entries_free G' @ all_entries G) \<and> shmem_top h' \<le> n \<and> n + sizeof_hal_funct_entry \<le> HAL_SIZE \<and>
     (s_entries_free G \<noteq> [] \<and> n = hd (s_entries_free G) \<or> s_entries_free G = [] \<and> n + sizeof_hal_funct_entry \<le> shmem_top h)"

lemma took_entryI:
  assumes "h' = h\<lparr>links := L, entries := (entries h)(n := v), shmem_top := tp, shmem_avail := av\<rparr>"
    and "area_wf h'" "rings_ok h' (G\<lparr>s_entries_free := tl (s_entries_free G)\<rparr>)" "tp \<le> shmem_top h" "shmem_top h - 128 \<le> tp"
    and "n \<notin> set (tl (s_entries_free G) @ all_entries G)" "tp \<le> n" "n + sizeof_hal_funct_entry \<le> HAL_SIZE"
    and "s_entries_free G \<noteq> [] \<and> n = hd (s_entries_free G) \<or> s_entries_free G = [] \<and> n + sizeof_hal_funct_entry \<le> shmem_top h"
  shows "took_entry n h G h' (G\<lparr>s_entries_free := tl (s_entries_free G)\<rparr>)"
proof -
  have "\<exists>L en tp av. h' = h\<lparr>links := L, entries := en, shmem_top := tp, shmem_avail := av\<rparr> \<and> (\<forall>e. e \<noteq> n \<longrightarrow> en e = entries h e)"
    by (rule exI [of _ L], rule exI [of _ "(entries h)(n := v)"], rule exI [of _ tp], rule exI [of _ av])
      (use assms(1) in simp)
  moreover have "shmem_top h' = tp" by (simp add: assms(1))
  ultimately show ?thesis using assms(2-) by (simp add: took_entry_def)
qed

text \<open>The two sources of an entry: the free ring, and the area below its top.\<close>

lemma entry_from_ring:
  assumes rep: "hal_rep h G" and Cons: "s_entries_free G = x # xs"
  shows "\<exists>h'. alloc_funct_entry_struct li h = Inr (x, h') \<and> took_entry x h G h' (G\<lparr>s_entries_free := tl (s_entries_free G)\<rparr>)"
proof -
  note P = hal_rep_parts [OF rep]
  note rf = rings_ok_free(1) [OF P(7)] and rt = rings_ok_free(2) [OF P(7)] and rd = rings_ok_free(3) [OF P(7)]
  have bnds: "\<forall>e \<in> set (s_entries_free G @ all_entries G). shmem_top h \<le> e \<and> e + sizeof_hal_funct_entry \<le> HAL_SIZE"
    using P(7) by (simp add: rings_ok_def)
  let ?L = "snd (list_remove_entry (Entry x) (links h))"
  let ?h = "upd_entry x (\<lambda>e. e\<lparr>e_funct_ptr := 0, e_arg := 0, e_funct := 0\<rparr>) (h\<lparr>links := ?L\<rparr>)"
  have "list_next (links h) Free_root = Entry x"
    using ring_list_next [OF rf, of 0] Cons by (simp add: addr_at_def)
  then have al: "alloc_funct_entry_struct li h = Inr (x, ?h)"
    by (simp add: alloc_funct_entry_struct_def Let_def)
  have r1: "ring ?L Free_root xs" using ring_remove [of "links h" Free_root "[]" x xs] rf Cons by simp
  have r2: "ring ?L (Thread_root t) (s_entries G t)" if "t \<in> set (s_threads G)" for t
    using that rd by (intro ring_remove_other [OF rf rt [OF that]]) (auto simp: Cons all_entries_def)
  have rok: "rings_ok ?h (G\<lparr>s_entries_free := tl (s_entries_free G)\<rparr>)"
    using r1 r2 rd bnds by (simp add: rings_ok_def Cons)
  have aw: "area_wf ?h" using P(1) by simp
  have eq: "?h = h\<lparr>links := ?L, entries := (entries h)(x := (entries h x)\<lparr>e_funct_ptr := 0, e_arg := 0, e_funct := 0\<rparr>),
      shmem_top := shmem_top h, shmem_avail := shmem_avail h\<rparr>"
    by (simp add: upd_entry_def)
  have "took_entry x h G ?h (G\<lparr>s_entries_free := tl (s_entries_free G)\<rparr>)"
    by (rule took_entryI [OF eq aw rok]) (use rd bnds in \<open>auto simp: Cons\<close>)
  with al show ?thesis by blast
qed

lemma entry_from_area:
  assumes rep: "hal_rep h G" and li: "init_entry_ok li" and Nil: "s_entries_free G = []"
    and sh: "shmalloc_dn sizeof_hal_funct_entry h = (Some n, h1)"
  shows "\<exists>h'. alloc_funct_entry_struct li h = Inr (n, h') \<and> took_entry n h G h' (G\<lparr>s_entries_free := tl (s_entries_free G)\<rparr>)"
proof -
  note P = hal_rep_parts [OF rep]
  note rf = rings_ok_free(1) [OF P(7)] and rt = rings_ok_free(2) [OF P(7)] and rd = rings_ok_free(3) [OF P(7)]
  have bnds: "\<forall>e \<in> set (all_entries G). shmem_top h \<le> e \<and> e + sizeof_hal_funct_entry \<le> HAL_SIZE"
    using P(7) by (simp add: rings_ok_def)
  from shmalloc_dn_law [OF P(1) sizeof_pos(6) sh] have
    law: "area_wf h1" "shmem_top h1 = n" "n + sizeof_hal_funct_entry \<le> shmem_top h" "shmem_top h \<le> HAL_SIZE"
    and h1: "h1 = h\<lparr>shmem_top := n, shmem_avail := n - shmem_bot h\<rparr>" by blast+
  have below: "n < shmem_top h" using law(3) sizeof_pos(6) by linarith
  let ?L = "li (Entry n) (links h1)"
  let ?h = "upd_entry n (\<lambda>e. e\<lparr>e_funct_ptr := 0, e_arg := 0, e_funct := 0\<rparr>) (h1\<lparr>links := ?L\<rparr>)"
  have "list_next (links h) Free_root = Free_root"
    using ring_list_next [OF rf, of 0] Nil by (simp add: addr_at_def)
  then have al: "alloc_funct_entry_struct li h = Inr (n, ?h)"
    by (simp add: alloc_funct_entry_struct_def Let_def sh)
  have nin: "n \<notin> set (all_entries G)" using bnds below by fastforce
  have L: "?L c = links h c" if "c \<noteq> Entry n" for c using that li by (simp add: init_entry_ok_def h1)
  have keep: "ring ?L r xs = ring (links h) r xs" if "is_root r" "n \<notin> set xs" for r xs
    by (rule ring_cong, rule L) (use that in auto)
  have "ring ?L Free_root []" using rf keep [of Free_root "[]"] by (simp add: Nil)
  moreover have "ring ?L (Thread_root t) (s_entries G t)" if "t \<in> set (s_threads G)" for t
    using rt [OF that] keep [of "Thread_root t" "s_entries G t"] nin that by (auto simp: all_entries_def)
  moreover have "\<forall>e \<in> set (all_entries G). n \<le> e \<and> e + sizeof_hal_funct_entry \<le> HAL_SIZE"
    using bnds below by fastforce
  ultimately have rok: "rings_ok ?h (G\<lparr>s_entries_free := tl (s_entries_free G)\<rparr>)"
    using rd law(2) by (simp add: rings_ok_def Nil)
  have aw: "area_wf ?h" using law(1) by simp
  have eq: "?h = h\<lparr>links := ?L, entries := (entries h)(n := (entries h n)\<lparr>e_funct_ptr := 0, e_arg := 0, e_funct := 0\<rparr>),
      shmem_top := n, shmem_avail := n - shmem_bot h\<rparr>"
    by (simp add: upd_entry_def h1)
  have "took_entry n h G ?h (G\<lparr>s_entries_free := tl (s_entries_free G)\<rparr>)"
  proof (rule took_entryI [OF eq aw rok])
    show "n \<le> shmem_top h" "n + sizeof_hal_funct_entry \<le> HAL_SIZE" using below law(3,4) by linarith+
    show "shmem_top h - 128 \<le> n"
      using shmalloc_dn_room(1) [OF P(1) sizeof_pos(6) sh] law(2) by (simp add: sizeof_hal_funct_entry_def)
  qed (use nin law(3) in \<open>simp_all add: Nil\<close>)
  with al show ?thesis by blast
qed

lemma alloc_entry_run:
  assumes rep: "hal_rep h G" and li: "init_entry_ok li"
  shows "(case alloc_funct_entry_struct li h of
      Inl e \<Rightarrow> e = UB \<and> s_entries_free G = [] \<and> fst (shmalloc_dn sizeof_hal_funct_entry h) = None
    | Inr (n, h') \<Rightarrow> \<exists>G'. took_entry n h G h' G')"
proof (cases "s_entries_free G")
  case (Cons x xs)
  from entry_from_ring [OF rep this, of li] show ?thesis by auto
next
  case free: Nil
  have nx: "list_next (links h) Free_root = Free_root"
    using ring_list_next [OF rings_ok_free(1) [OF hal_rep_parts(7) [OF rep]], of 0] free by (simp add: addr_at_def)
  show ?thesis
  proof (cases "shmalloc_dn sizeof_hal_funct_entry h")
    case (Pair p h1)
    then show ?thesis
    proof (cases p)
      case None
      with Pair show ?thesis by (simp add: alloc_funct_entry_struct_def nx free Let_def)
    next
      case (Some n)
      with Pair entry_from_area [OF rep li free, of n h1] show ?thesis by auto
    qed
  qed
qed

section \<open>Linking an entry into a thread\<close>

lemma hook_sel:
  "entries (hook n f a h) = (entries h)(n := (entries h n)\<lparr>e_funct_ptr := f, e_arg := f_arg (functs h f), e_funct := f_funct (functs h f)\<rparr>)"
  "links (hook n f a h) = list_add_after (Entry n) a (links h)"
  "functs (hook n f a h) = (functs h)(f := (functs h f)\<lparr>f_users := f_users (functs h f) + 1\<rparr>)"
  "keeps_comps h (hook n f a h)" "keeps_pins h (hook n f a h)" "keeps_params h (hook n f a h)"
  "keeps_functs h (hook n f a h)" "keeps_threads h (hook n f a h)"
  "shmem_top (hook n f a h) = shmem_top h" "area_wf (hook n f a h) = area_wf h"
  "hal_data (hook n f a h) = hal_data h" "hd_mutex (hook n f a h) = hd_mutex h"
  by (simp_all add: hook_def Let_def upd_entry_def upd_funct_def keeps_defs)

text \<open>The shape after the link: the entry stands at index \<open>i\<close> of the thread's entries.\<close>

definition hooked :: "off \<Rightarrow> off \<Rightarrow> nat \<Rightarrow> shape \<Rightarrow> shape" where
  "hooked n t i G = G\<lparr>s_entries_free := tl (s_entries_free G),
     s_entries := (s_entries G)(t := take i (s_entries G t) @ n # drop i (s_entries G t))\<rparr>"

lemma hooked_sel [simp]:
  "s_comps (hooked n t i G) = s_comps G" "s_comps_free (hooked n t i G) = s_comps_free G"
  "s_pins (hooked n t i G) = s_pins G" "s_pins_free (hooked n t i G) = s_pins_free G"
  "s_params (hooked n t i G) = s_params G" "s_params_free (hooked n t i G) = s_params_free G"
  "s_functs (hooked n t i G) = s_functs G" "s_functs_free (hooked n t i G) = s_functs_free G"
  "s_threads (hooked n t i G) = s_threads G" "s_threads_free (hooked n t i G) = s_threads_free G"
  "s_entries_free (hooked n t i G) = tl (s_entries_free G)"
  "s_entries (hooked n t i G) = (s_entries G)(t := take i (s_entries G t) @ n # drop i (s_entries G t))"
  by (simp_all add: hooked_def)

lemma set_insert_at: "set (take i xs @ n # drop i xs) = insert n (set xs)"
  by (metis Un_insert_right append_take_drop_id list.simps(15) set_append)

lemma distinct_insert_at:
  assumes "distinct xs" "n \<notin> set xs"
  shows "distinct (take i xs @ n # drop i xs)"
proof -
  have "set (take i xs) \<inter> set (drop i xs) = {}"
    by (rule set_take_disj_set_drop_if_distinct [OF assms(1)]) simp
  with assms show ?thesis by (auto dest: in_set_takeD in_set_dropD)
qed

lemma filter_length_split: "length (filter P xs) = length (filter P (take i xs)) + length (filter P (drop i xs))"
  by (metis append_take_drop_id filter_append length_append)

lemma hooked_entries:
  assumes "t \<in> set (s_threads G)" "distinct (s_threads G)"
  obtains A B where "all_entries G = A @ s_entries G t @ B"
    "all_entries (hooked n t i G) = A @ (take i (s_entries G t) @ n # drop i (s_entries G t)) @ B"
proof (rule all_entries_at [OF assms])
  fix A B
  assume ae: "all_entries G = A @ s_entries G t @ B"
    and all: "\<forall>zs ef. all_entries (G\<lparr>s_entries := (s_entries G)(t := zs), s_entries_free := ef\<rparr>) = A @ zs @ B"
  have "hooked n t i G = G\<lparr>s_entries := (s_entries G)(t := take i (s_entries G t) @ n # drop i (s_entries G t)),
      s_entries_free := tl (s_entries_free G)\<rparr>"
    by (simp add: hooked_def)
  with all have "all_entries (hooked n t i G) = A @ (take i (s_entries G t) @ n # drop i (s_entries G t)) @ B" by (simp only:)
  with ae show ?thesis by (rule that)
qed

lemma hook_rings:
  fixes n f :: off and i :: nat
  assumes rep: "hal_rep h G" and tk: "took_entry n h G h1 G1"
    and t: "t \<in> set (s_threads G)" and i: "i \<le> length (s_entries G t)"
  defines "h2 \<equiv> hook n f (addr_at (Thread_root t) (s_entries G t) i) h1"
  shows "rings_ok h2 (hooked n t i G)"
proof -
  from tk have G1: "G1 = G\<lparr>s_entries_free := tl (s_entries_free G)\<rparr>" and r1: "rings_ok h1 G1"
    and nin: "n \<notin> set (s_entries_free G1 @ all_entries G)" and nb: "shmem_top h1 \<le> n" "n + sizeof_hal_funct_entry \<le> HAL_SIZE"
    by (auto simp: took_entry_def)
  have td: "distinct (s_threads G)" by (rule threads_distinct [OF rep])
  let ?es = "s_entries G t" and ?new = "take i (s_entries G t) @ n # drop i (s_entries G t)"
  obtain A B where ae: "all_entries G = A @ ?es @ B" and a2: "all_entries (hooked n t i G) = A @ ?new @ B"
    by (rule hooked_entries [OF t td])
  note S = hook_sel [where n = n and f = f and h = h1 and a = "addr_at (Thread_root t) (s_entries G t) i", folded h2_def]
  have rt: "ring (links h1) (Thread_root t) ?es" and rf: "ring (links h1) Free_root (s_entries_free G1)"
    using r1 t by (auto simp: rings_ok_def G1)
  have d1: "distinct (s_entries_free G1 @ A @ ?es @ B)" using r1 by (simp add: rings_ok_def G1 ae)
  have nin': "n \<notin> set (s_entries_free G1)" "n \<notin> set A" "n \<notin> set ?es" "n \<notin> set B" using nin by (auto simp: ae)
  have dnew: "distinct (s_entries_free G1 @ A @ ?new @ B)"
    using d1 nin' distinct_insert_at [of ?es n i] set_insert_at [of i ?es n] by auto
  have inroot: "addr_at (Thread_root t) ?es i \<in> insert (Thread_root t) (Entry ` set ?es)"
    using i by (auto simp: addr_at_def)
  have other: "ring (links h2) q ys" if "ring (links h1) q ys" "q \<noteq> Thread_root t" "set ?es \<inter> set ys = {}" "n \<notin> set ys" for q ys
    unfolding S by (rule ring_add_other [OF rt that(1) inroot]) (use that nin' in auto)
  have "ring (links h2) (Thread_root t) ?new" unfolding S by (rule ring_add_after [OF rt i nin'(3)])
  moreover have "ring (links h2) Free_root (s_entries_free G1)"
    by (rule other [OF rf]) (use d1 nin' in auto)
  moreover have "ring (links h2) (Thread_root u) (s_entries G u)" if u: "u \<in> set (s_threads G)" "u \<noteq> t" for u
  proof (rule other)
    show "ring (links h1) (Thread_root u) (s_entries G u)" using r1 u by (auto simp: rings_ok_def G1)
    show "set ?es \<inter> set (s_entries G u) = {}" using entries_apart [OF hal_rep_parts(7) [OF rep] t u(1)] u td by auto
    show "n \<notin> set (s_entries G u)" using nin u by (auto simp: all_entries_def)
  qed (use u in auto)
  moreover have "\<forall>e \<in> set (s_entries_free G1 @ A @ ?new @ B). shmem_top h2 \<le> e \<and> e + sizeof_hal_funct_entry \<le> HAL_SIZE"
    using r1 nb set_insert_at [of i ?es n] by (auto simp: rings_ok_def S G1 ae)
  ultimately show ?thesis using dnew unfolding rings_ok_def a2 by (simp add: G1)
qed

lemma hook_uses:
  fixes n f :: off and i :: nat
  assumes rep: "hal_rep h G" and tk: "took_entry n h G h1 G1" and t: "t \<in> set (s_threads G)"
  defines "h2 \<equiv> hook n f (addr_at (Thread_root t) (s_entries G t) i) h1"
  shows "uses h2 (hooked n t i G) g = uses h G g + (if g = f then 1 else 0)"
    "e \<in> set (all_entries (hooked n t i G)) \<Longrightarrow>
      e_funct_ptr (entries h2 e) = (if e = n then f else e_funct_ptr (entries h e)) \<and> (e = n \<or> e \<in> set (all_entries G))"
proof -
  from tk have en: "\<forall>e. e \<noteq> n \<longrightarrow> entries h1 e = entries h e" and nin: "n \<notin> set (all_entries G)"
    by (auto simp: took_entry_def)
  note S = hook_sel [where n = n and f = f and h = h1 and a = "addr_at (Thread_root t) (s_entries G t) i", folded h2_def]
  let ?es = "s_entries G t"
  obtain A B where ae: "all_entries G = A @ ?es @ B" and a2: "all_entries (hooked n t i G) = A @ (take i ?es @ n # drop i ?es) @ B"
    by (rule hooked_entries [OF t threads_distinct [OF rep]])
  have q: "filter (\<lambda>e. e_funct_ptr (entries h2 e) = g) zs = filter (\<lambda>e. e_funct_ptr (entries h e) = g) zs"
    if "set zs \<subseteq> set (all_entries G)" for zs using that nin en by (intro filter_cong) (auto simp: S)
  have sub: "set A \<subseteq> set (all_entries G)" "set B \<subseteq> set (all_entries G)" "set (take i ?es) \<subseteq> set (all_entries G)"
    "set (drop i ?es) \<subseteq> set (all_entries G)" by (auto simp: ae dest: in_set_takeD in_set_dropD)
  show "uses h2 (hooked n t i G) g = uses h G g + (if g = f then 1 else 0)"
    using filter_length_split [of _ ?es i]
    by (simp add: uses_def a2 ae q [OF sub(1)] q [OF sub(2)] q [OF sub(3)] q [OF sub(4)]) (simp add: S)
  show "e_funct_ptr (entries h2 e) = (if e = n then f else e_funct_ptr (entries h e)) \<and> (e = n \<or> e \<in> set (all_entries G))"
    if "e \<in> set (all_entries (hooked n t i G))"
    using that en set_insert_at [of i ?es n] by (auto simp: a2 ae S)
qed

lemma hook_users:
  fixes n f :: off and i :: nat
  assumes rep: "hal_rep h G" and tk: "took_entry n h G h1 G1"
    and t: "t \<in> set (s_threads G)" and f: "f \<in> set (s_functs G)"
    and re: "f_reentrant (functs h f) = 0 \<Longrightarrow> f_users (functs h f) \<le> 0"
  defines "h2 \<equiv> hook n f (addr_at (Thread_root t) (s_entries G t) i) h1"
  shows "users_ok h2 (hooked n t i G)"
proof -
  note U = hook_uses [OF rep tk t, where f = f and i = i, folded h2_def]
  note S = hook_sel(3) [where n = n and f = f and h = h1 and a = "addr_at (Thread_root t) (s_entries G t) i", folded h2_def]
  have h1: "functs h1 = functs h" using tk by (auto simp: took_entry_def)
  have "e_funct_ptr (entries h2 e) \<in> set (s_functs G)" if "e \<in> set (all_entries (hooked n t i G))" for e
    using U(2) [OF that] entry_functs [OF rep, of e] f by auto
  moreover have "f_users (functs h2 g) = int (uses h2 (hooked n t i G) g) \<and>
      (f_reentrant (functs h2 g) = 0 \<longrightarrow> uses h2 (hooked n t i G) g \<le> 1)" if g: "g \<in> set (s_functs G)" for g
    using hal_rep_parts(8) [OF rep] g re by (auto simp: users_ok_def U(1) S h1)
  ultimately show ?thesis by (simp add: users_ok_def)
qed

lemma hook_rep:
  assumes rep: "hal_rep h G" and tk: "took_entry n h G h1 G1"
    and t: "t \<in> set (s_threads G)" and i: "i \<le> length (s_entries G t)" and f: "f \<in> set (s_functs G)"
    and re: "f_reentrant (functs h f) = 0 \<Longrightarrow> f_users (functs h f) \<le> 0"
  defines "h2 \<equiv> hook n f (addr_at (Thread_root t) (s_entries G t) i) h1"
    and "G2 \<equiv> G1\<lparr>s_entries := (s_entries G)(t := take i (s_entries G t) @ n # drop i (s_entries G t))\<rparr>"
  shows "hal_rep h2 G2"
proof -
  note P = hal_rep_parts [OF rep]
  have rok: "rings_ok h2 (hooked n t i G)" and uok: "users_ok h2 (hooked n t i G)"
    using hook_rings [OF rep tk t i] hook_users [OF rep tk t f re] by (simp_all add: h2_def)
  from tk obtain L en tp av where h1: "h1 = h\<lparr>links := L, entries := en, shmem_top := tp, shmem_avail := av\<rparr>"
    by (auto simp: took_entry_def)
  from tk have aw: "area_wf h1" and top: "shmem_top h1 \<le> shmem_top h" and G1: "G1 = G\<lparr>s_entries_free := tl (s_entries_free G)\<rparr>"
    and nn: "s_entries_free G \<noteq> [] \<and> n = hd (s_entries_free G) \<or> s_entries_free G = [] \<and> n + sizeof_hal_funct_entry \<le> shmem_top h"
    by (auto simp: took_entry_def)
  note S = hook_sel [where n = n and f = f and h = h1 and a = "addr_at (Thread_root t) (s_entries G t) i", folded h2_def]
  obtain A B where ae: "all_entries G = A @ s_entries G t @ B"
    and a2: "all_entries (hooked n t i G) = A @ (take i (s_entries G t) @ n # drop i (s_entries G t)) @ B"
    by (rule hooked_entries [OF t threads_distinct [OF rep]])
  have kp: "keeps_comps h h2" "keeps_pins h h2" "keeps_params h h2" "keeps_functs h h2" "keeps_threads h h2"
    using S(4-8) by (simp_all add: keeps_defs h1)
  have t2: "shmem_top h2 \<le> shmem_top h" using top by (simp add: S)
  have "area_wf h2" using aw by (simp add: S)
  moreover have "blocks (hooked n t i G) = blocks G \<or>
      (\<exists>m sz. blocks (hooked n t i G) = insert (m, sz) (blocks G) \<and> m + sz \<le> shmem_top h)"
  proof (cases "s_entries_free G")
    case Nil
    then have "blocks (hooked n t i G) = insert (n, sizeof_hal_funct_entry) (blocks G)"
      unfolding blocks_def a2 using set_insert_at [of i "s_entries G t" n] by (auto simp: ae)
    with nn Nil show ?thesis by blast
  next
    case (Cons x xs)
    with nn have "x = n" by simp
    with Cons show ?thesis
      unfolding blocks_def a2 using set_insert_at [of i "s_entries G t" n] by (auto simp: ae)
  qed
  moreover have "comps_ok h2 (hooked n t i G)" "pins_ok h2 (hooked n t i G)" "params_ok h2 (hooked n t i G)"
    "functs_ok h2 (hooked n t i G)" "threads_ok h2 (hooked n t i G)"
    by (rule comps_ok_frame [OF P(2) kp(1) t2] pins_ok_frame [OF P(3) kp(2) t2] params_ok_frame [OF P(4) kp(3) t2]
        functs_ok_frame [OF P(5) kp(4) t2] threads_ok_frame [OF P(6) kp(5) t2]; simp)+
  ultimately have "hal_rep h2 (hooked n t i G)" using hal_rep_step [OF rep] rok uok by blast
  then show ?thesis by (simp add: G2_def G1 hooked_def)
qed


section \<open>The results\<close>

text \<open>The functions that a thread calls, in order, and the struct with a name.\<close>

definition program :: "hal \<Rightarrow> shape \<Rightarrow> off \<Rightarrow> off list" where
  "program h G t = map (\<lambda>e. e_funct_ptr (entries h e)) (s_entries G t)"

definition funct_named :: "hal \<Rightarrow> shape \<Rightarrow> string \<Rightarrow> off option" where
  "funct_named h G nm = find (\<lambda>p. f_name (functs h p) = nm) (s_functs G)"

definition thread_named :: "hal \<Rightarrow> shape \<Rightarrow> string \<Rightarrow> off option" where
  "thread_named h G nm = find (\<lambda>p. t_name (threads h p) = nm) (s_threads G)"

lemma find_funct_named:
  assumes "hal_rep h G"
  shows "halpr_find_funct_by_name nm h = Inr (case funct_named h G nm of None \<Rightarrow> 0 | Some f \<Rightarrow> f)"
  using walk_chain [OF functs_chain [OF assms], of "\<lambda>p. f_name (functs h p) = nm"]
  by (simp add: halpr_find_funct_by_name_def funct_named_def)

lemma find_thread_named:
  assumes "hal_rep h G"
  shows "halpr_find_thread_by_name nm h = Inr (case thread_named h G nm of None \<Rightarrow> 0 | Some f \<Rightarrow> f)"
  using walk_chain [OF threads_chain [OF assms], of "\<lambda>p. t_name (threads h p) = nm"]
  by (simp add: halpr_find_thread_by_name_def thread_named_def)

lemma find_in: "find P xs = Some x \<Longrightarrow> x \<in> set xs \<and> P x"
  by (auto simp: find_Some_iff)

lemma funct_named_in: "hal_rep h G \<Longrightarrow> funct_named h G nm = Some f \<Longrightarrow> f \<in> set (s_functs G) \<and> f \<noteq> 0"
  using functs_pos find_in unfolding funct_named_def by (metis less_irrefl)

lemma thread_named_in:
  assumes "hal_rep h G" "thread_named h G nm = Some t"
  shows "t \<in> set (s_threads G) \<and> t \<noteq> 0"
  using find_in [of "\<lambda>p. t_name (threads h p) = nm" "s_threads G" t] chain_nz [OF threads_chain [OF assms(1)]] assms(2)
  by (auto simp: thread_named_def)

text \<open>The decision list of \<open>hal_add_funct_to_thread\<close>.\<close>

definition add_verdict :: "hal \<Rightarrow> shape \<Rightarrow> string option \<Rightarrow> string option \<Rightarrow> int \<Rightarrow> int" where
  "add_verdict h G fname tname position =
     (if hd_lock h AND HAL_LOCK_CONFIG \<noteq> 0 then - EPERM
      else case (Option.bind fname (funct_named h G), Option.bind tname (thread_named h G)) of
        (Some f, Some t) \<Rightarrow>
          if f_users (functs h f) > 0 \<and> f_reentrant (functs h f) = 0 then - EINVAL
          else if f_uses_fp (functs h f) \<noteq> 0 \<and> t_uses_fp (threads h t) = 0 then - EINVAL
          else if place_index position (length (s_entries G t)) = None then - EINVAL
          else 0
      | _ \<Rightarrow> - EINVAL)"

lemma named_lock [simp]:
  "funct_named (h\<lparr>hd_mutex := m\<rparr>) G nm = funct_named h G nm"
  "thread_named (h\<lparr>hd_mutex := m\<rparr>) G nm = thread_named h G nm"
  by (simp_all add: funct_named_def thread_named_def)

lemma took_entry_sel:
  assumes "took_entry n h G h1 G1"
  shows "functs h1 = functs h" "hal_data h1 = hal_data h" "hd_mutex h1 = hd_mutex h" "threads h1 = threads h"
    "e \<noteq> n \<Longrightarrow> entries h1 e = entries h e" "G1 = G\<lparr>s_entries_free := tl (s_entries_free G)\<rparr>"
    "n \<notin> set (all_entries G)" "shmem_top h - 128 \<le> shmem_top h1" "shmem_bot h1 = shmem_bot h" "hd_lock h1 = hd_lock h"
    "comps h1 = comps h" "comp_list_ptr h1 = comp_list_ptr h" "ucells h1 = ucells h" "pins h1 = pins h"
    "pin_list_ptr h1 = pin_list_ptr h" "funct_list_ptr h1 = funct_list_ptr h" "thread_list_ptr h1 = thread_list_ptr h"
    "hd_state h1 = hd_state h" "lib_mem_id h1 = lib_mem_id h"
  using assms by (auto simp: took_entry_def)

lemma hal_add_funct_eq:
  assumes inv: "hal_inv h" and rep: "hal_rep h G"
  defines "hl \<equiv> h\<lparr>hd_mutex := set_lock (hd_mutex h)\<rparr>"
  shows "add_verdict h G fname tname position \<noteq> 0 \<and>
      hal_add_funct_to_thread li fname tname position h = Inr (add_verdict h G fname tname position, h) \<or>
    add_verdict h G fname tname position = 0 \<and>
      (\<exists>f t i. Option.bind fname (funct_named h G) = Some f \<and> Option.bind tname (thread_named h G) = Some t \<and>
         place_index position (length (s_entries G t)) = Some i \<and>
         hal_add_funct_to_thread li fname tname position h = bnd (alloc_funct_entry_struct li hl) (\<lambda>(entry, h).
           Inr (0, hal_mutex_give (hook entry f (addr_at (Thread_root t) (s_entries G t) i) h))))"
    (is "?fails \<or> ?links")
proof -
  from inv have m: "hal_data h = SP_mapped" "\<not> locked (hd_mutex h)" by (auto simp: hal_inv_def)
  have repl: "hal_rep hl G" using rep by (simp add: hl_def)
  note ff = find_funct_named [OF repl, unfolded hl_def] and ft = find_thread_named [OF repl, unfolded hl_def]
  show ?thesis
  proof (cases "hd_lock h AND HAL_LOCK_CONFIG \<noteq> 0 \<or> position = 0 \<or> fname = None \<or> tname = None")
    case True
    have "place_index 0 k = None" for k by (simp add: place_index_def)
    with True m have ?fails by (auto simp: hal_add_funct_to_thread_def add_verdict_def split: option.splits)
    then show ?thesis ..
  next
    case False
    then obtain fn tn where n: "fname = Some fn" "tname = Some tn" by auto
    note go = hal_add_funct_to_thread_def and av = add_verdict_def
    show ?thesis
    proof (cases "funct_named h G fn")
      case None
      then have ?fails using False m by (simp add: go av n ff)
      then show ?thesis ..
    next
      case (Some f)
      note f = this funct_named_in [OF rep this]
      show ?thesis
      proof (cases "thread_named h G tn")
        case None
        then have ?fails using False m f by (simp add: go av n ff ft)
        then show ?thesis ..
      next
        case (Some t)
        note t = this thread_named_in [OF rep this]
        have rg: "ring (links h) (Thread_root t) (s_entries G t)"
          using hal_rep_parts(7) [OF rep] t by (simp add: rings_ok_def)
        have fp: "find_place position (Thread_root t) (links h) =
            map_option (addr_at (Thread_root t) (s_entries G t)) (place_index position (length (s_entries G t)))"
          by (rule find_place_ring [OF rg]) (use False in simp)
        show ?thesis
        proof (cases "f_users (functs h f) > 0 \<and> f_reentrant (functs h f) = 0 \<or> f_uses_fp (functs h f) \<noteq> 0 \<and> t_uses_fp (threads h t) = 0
            \<or> place_index position (length (s_entries G t)) = None")
          case True
          then have ?fails using False m f t by (auto simp: go av n ff ft fp)
          then show ?thesis ..
        next
          case fits: False
          then have ?links using False m f t by (auto simp: go av n ff ft fp hl_def)
          then show ?thesis ..
        qed
      qed
    qed
  qed
qed

lemma hal_add_funct_run:
  assumes inv: "hal_inv h" and rep: "hal_rep h G" and li: "init_entry_ok li"
  shows "(case hal_add_funct_to_thread li fname tname position h of
      Inl e \<Rightarrow> e = UB \<and> add_verdict h G fname tname position = 0 \<and> s_entries_free G = [] \<and>
        fst (shmalloc_dn sizeof_hal_funct_entry h) = None
    | Inr (r, h') \<Rightarrow> r = add_verdict h G fname tname position \<and> (r \<noteq> 0 \<longrightarrow> h' = h) \<and>
        (r = 0 \<longrightarrow> (\<exists>f t i n G1 h1. Option.bind fname (funct_named h G) = Some f \<and> Option.bind tname (thread_named h G) = Some t \<and>
           place_index position (length (s_entries G t)) = Some i \<and>
           took_entry n (h\<lparr>hd_mutex := set_lock (hd_mutex h)\<rparr>) G h1 G1 \<and>
           h' = hal_mutex_give (hook n f (addr_at (Thread_root t) (s_entries G t) i) h1))))"
  using hal_add_funct_eq [OF inv rep, of fname tname position li]
proof (elim disjE conjE exE)
  fix f t i
  let ?h = "h\<lparr>hd_mutex := set_lock (hd_mutex h)\<rparr>"
  assume v: "add_verdict h G fname tname position = 0"
    and fti: "Option.bind fname (funct_named h G) = Some f" "Option.bind tname (thread_named h G) = Some t"
      "place_index position (length (s_entries G t)) = Some i"
    and eq: "hal_add_funct_to_thread li fname tname position h = bnd (alloc_funct_entry_struct li ?h) (\<lambda>(entry, h).
      Inr (0, hal_mutex_give (hook entry f (addr_at (Thread_root t) (s_entries G t) i) h)))"
  have repl: "hal_rep ?h G" using rep by simp
  have sd: "fst (shmalloc_dn sizeof_hal_funct_entry ?h) = fst (shmalloc_dn sizeof_hal_funct_entry h)"
    by (simp add: shmalloc_dn_def Let_def)
  show ?thesis
  proof (cases "alloc_funct_entry_struct li ?h")
    case (Inl e)
    with alloc_entry_run [OF repl li] v sd show ?thesis by (simp add: eq)
  next
    case (Inr p)
    obtain n h1 where p: "p = (n, h1)" by (cases p)
    with alloc_entry_run [OF repl li] Inr obtain G1 where "took_entry n ?h G h1 G1" by auto
    then show ?thesis using v fti by (auto simp: eq Inr p)
  qed
qed simp


text \<open>The effect of linking an entry on the programs.\<close>

lemma hook_program:
  fixes f :: off
  assumes rep: "hal_rep h G" and tk: "took_entry n h G h1 G1" and t: "t \<in> set (s_threads G)"
    and i: "i \<le> length (s_entries G t)"
  defines "h2 \<equiv> hook n f (addr_at (Thread_root t) (s_entries G t) i) h1"
    and "G2 \<equiv> G1\<lparr>s_entries := (s_entries G)(t := take i (s_entries G t) @ n # drop i (s_entries G t))\<rparr>"
  shows "program h2 G2 t = take i (program h G t) @ f # drop i (program h G t) \<and>
    (\<forall>u \<in> set (s_threads G). u \<noteq> t \<longrightarrow> program h2 G2 u = program h G u) \<and>
    f_users (functs h2 f) = f_users (functs h f) + 1"
proof -
  note K = took_entry_sel [OF tk]
  have e2: "e_funct_ptr (entries h2 e) = e_funct_ptr (entries h e)" if "e \<noteq> n" for e
    using that K(5) [OF that] by (simp add: h2_def hook_sel)
  have n2: "e_funct_ptr (entries h2 n) = f" by (simp add: h2_def hook_sel)
  have nt: "e \<noteq> n" if "u \<in> set (s_threads G)" "e \<in> set (s_entries G u)" for u e
    using K(7) that by (auto simp: all_entries_def)
  have "map (\<lambda>e. e_funct_ptr (entries h2 e)) zs = map (\<lambda>e. e_funct_ptr (entries h e)) zs"
    if "set zs \<subseteq> set (s_entries G u)" "u \<in> set (s_threads G)" for zs u
    using that nt e2 by (intro map_cong) auto
  note m = this
  have "program h2 G2 t = take i (program h G t) @ f # drop i (program h G t)"
    using m [of "take i (s_entries G t)" t] m [of "drop i (s_entries G t)" t] t n2
    by (simp add: program_def G2_def set_take_subset set_drop_subset take_map drop_map)
  moreover have "program h2 G2 u = program h G u" if "u \<in> set (s_threads G)" "u \<noteq> t" for u
    using m [of "s_entries G u" u] that by (simp add: program_def G2_def)
  moreover have "f_users (functs h2 f) = f_users (functs h f) + 1"
    by (simp add: h2_def hook_sel K)
  ultimately show ?thesis by blast
qed

lemma program_give [simp]: "program (hal_mutex_give h) G t = program h G t"
  by (simp add: program_def hal_mutex_give_def)

lemma place_index_le: "place_index p k = Some i \<Longrightarrow> i \<le> k"
  by (auto simp: place_index_def split: if_splits)

lemma took_entry_unlock:
  "took_entry n (h\<lparr>hd_mutex := m\<rparr>) G h1 G1 \<Longrightarrow> \<not> locked (hd_mutex h) \<Longrightarrow> m = set_lock (hd_mutex h) \<Longrightarrow>
     locked (hd_mutex h1) \<and> hal_data h1 = hal_data h \<and> functs h1 = functs h"
  using took_entry_sel [of n "h\<lparr>hd_mutex := m\<rparr>" G h1 G1] by simp

section \<open>An example\<close>

text \<open>A segment with a re-entrant function \<open>f\<close> that the thread \<open>t\<close> calls once.\<close>

definition one_mounted :: hal where
  "one_mounted = zero_hal\<lparr>shmem_bot := 272, shmem_top := 1040000,
     funct_list_ptr := 1048000, functs := (functs zero_hal)(1048000 := (functs zero_hal 0)\<lparr>f_name := ''f'', f_reentrant := 1, f_users := 1\<rparr>),
     thread_list_ptr := 1047000, threads := (threads zero_hal)(1047000 := (threads zero_hal 0)\<lparr>t_name := ''t''\<rparr>),
     entries := (entries zero_hal)(1040000 := (entries zero_hal 0)\<lparr>e_funct_ptr := 1048000\<rparr>),
     links := (\<lambda>a. \<lparr>l_next = a, l_prev = a\<rparr>)
       (Thread_root 1047000 := \<lparr>l_next = Entry 1040000, l_prev = Entry 1040000\<rparr>,
        Entry 1040000 := \<lparr>l_next = Thread_root 1047000, l_prev = Thread_root 1047000\<rparr>),
     hal_data := SP_mapped, hd_state := HAL_S_ACTIVE\<rparr>"

definition one_mounted_shape :: shape where
  "one_mounted_shape = \<lparr>s_comps = [], s_comps_free = [], s_pins = [], s_pins_free = [], s_params = [],
    s_params_free = [], s_functs = [1048000], s_functs_free = [], s_threads = [1047000], s_threads_free = [],
    s_entries = (\<lambda>_. [1040000]), s_entries_free = []\<rparr>"

lemma one_mounted_rep: "hal_rep one_mounted one_mounted_shape"
  by (simp add: hal_rep_def part_defs pool_def one_mounted_def one_mounted_shape_def zero_hal_def area_wf_def area_ok_def
      HAL_SIZE_def all_entries_def sizeof_defs ring_def is_root_def blocks_def apart_def uses_def sorted_names_def)

lemma one_mounted_sel:
  "hal_data one_mounted = SP_mapped" "hd_mutex one_mounted = 0" "hd_lock one_mounted = 0"
  "funct_named one_mounted one_mounted_shape ''f'' = Some 1048000"
  "thread_named one_mounted one_mounted_shape ''t'' = Some 1047000"
  "program one_mounted one_mounted_shape 1047000 = [1048000]"
  "f_reentrant (functs one_mounted 1048000) = 1" "f_uses_fp (functs one_mounted 1048000) = 0"
  "s_entries one_mounted_shape 1047000 = [1040000]"
  "f_funct (functs one_mounted 1048000) = 0"
  by (simp_all add: one_mounted_def zero_hal_def funct_named_def thread_named_def one_mounted_shape_def program_def)

lemma one_mounted_inv: "hal_inv one_mounted"
  using one_mounted_rep by (auto simp: hal_inv_def one_mounted_sel)

lemma one_mounted_alloc: "fst (shmalloc_dn sizeof_hal_funct_entry one_mounted) \<noteq> None"
  by (simp add: shmalloc_dn_def one_mounted_def zero_hal_def sizeof_defs align_dn_simps)

text \<open>
  Property C19: \<open>hal_add_funct_to_thread\<close> on a well-formed segment. The result is that of the decision
  list; an error changes nothing. On success the segment is well-formed, the program of the named thread
  has the function inserted at the place that the position means, the programs of the other threads
  are as before, and the function has one more user. The call has no defined result in one
  case only: every check passed and there is neither a free entry nor memory for a new one.
\<close>

theorem hal_add_funct_correct:
  assumes "hal_inv h" "hal_rep h G" "init_entry_ok li"
  shows "(case hal_add_funct_to_thread li fname tname position h of
      Inl e \<Rightarrow> e = UB \<and> add_verdict h G fname tname position = 0 \<and> s_entries_free G = [] \<and>
        fst (shmalloc_dn sizeof_hal_funct_entry h) = None
    | Inr (r, h') \<Rightarrow> r = add_verdict h G fname tname position \<and> hal_inv h' \<and> (r \<noteq> 0 \<longrightarrow> h' = h) \<and>
        (r = 0 \<longrightarrow> (\<exists>G' f t i. Option.bind fname (funct_named h G) = Some f \<and> Option.bind tname (thread_named h G) = Some t \<and>
           place_index position (length (program h G t)) = Some i \<and>
           hal_rep h' G' \<and> s_functs G' = s_functs G \<and> s_threads G' = s_threads G \<and>
           program h' G' t = take i (program h G t) @ f # drop i (program h G t) \<and>
           (\<forall>u \<in> set (s_threads G). u \<noteq> t \<longrightarrow> program h' G' u = program h G u) \<and>
           f_users (functs h' f) = f_users (functs h f) + 1)))"
proof (cases "hal_add_funct_to_thread li fname tname position h")
  case (Inl e)
  with hal_add_funct_run [OF assms, of fname tname position] show ?thesis by simp
next
  case (Inr p)
  obtain r h' where p: "p = (r, h')" by (cases p)
  note R = hal_add_funct_run [OF assms, of fname tname position, unfolded Inr p, simplified]
  show ?thesis
  proof (cases "r = 0")
    case False
    with R assms(1) show ?thesis by (simp add: Inr p)
  next
    case True
    let ?h = "h\<lparr>hd_mutex := set_lock (hd_mutex h)\<rparr>"
    from R True obtain f t i n G1 h1 where
      f: "Option.bind fname (funct_named h G) = Some f" and t: "Option.bind tname (thread_named h G) = Some t"
      and i: "place_index position (length (s_entries G t)) = Some i" and tk: "took_entry n ?h G h1 G1"
      and h': "h' = hal_mutex_give (hook n f (addr_at (Thread_root t) (s_entries G t) i) h1)"
      and v: "add_verdict h G fname tname position = 0" by auto
    have rep: "hal_rep ?h G" using assms(2) by simp
    have tin: "t \<in> set (s_threads G)" and fin: "f \<in> set (s_functs G)"
      using f t thread_named_in [OF assms(2)] funct_named_in [OF assms(2)] by (auto simp: bind_eq_Some_conv)
    have re: "f_reentrant (functs ?h f) = 0 \<Longrightarrow> f_users (functs ?h f) \<le> 0"
      using v f t by (auto simp: add_verdict_def split: if_splits)
    let ?G2 = "G1\<lparr>s_entries := (s_entries G)(t := take i (s_entries G t) @ n # drop i (s_entries G t))\<rparr>"
    note ile = place_index_le [OF i]
    have rep2: "hal_rep h' ?G2" unfolding h' hal_rep_give by (rule hook_rep [OF rep tk tin ile fin re])
    note pr = hook_program [OF rep tk tin ile, of f]
    have "hal_data h1 = SP_mapped" "locked (hd_mutex h1)"
      using took_entry_unlock [OF tk] assms(1) by (auto simp: hal_inv_def)
    then have "hal_inv h'" unfolding h' using hook_rep [OF rep tk tin ile fin re]
      by (intro hal_inv_give) (simp_all add: hook_sel)
    moreover have "program ?h G = program h G" by (simp add: program_def fun_eq_iff)
    moreover have "functs h' = functs (hook n f (addr_at (Thread_root t) (s_entries G t) i) h1)"
      by (simp add: h' hal_mutex_give_def)
    ultimately show ?thesis using True R f t i rep2 pr took_entry_sel(6) [OF tk]
      by (simp add: Inr p, intro exI [of _ ?G2] exI [of _ i]) (simp add: h' program_def [of h])
  qed
qed


theorem hal_add_funct_correct_witness:
  "\<exists>h' G'. hal_add_funct_to_thread (\<lambda>e L. L(e := \<lparr>l_next = e, l_prev = e\<rparr>)) (Some ''f'') (Some ''t'') (- 1) one_mounted = Inr (0, h')
    \<and> hal_rep h' G' \<and> program h' G' 1047000 = [1048000, 1048000]"
proof -
  have li: "init_entry_ok (\<lambda>e L. L(e := \<lparr>l_next = e, l_prev = e\<rparr>))" by (simp add: init_entry_ok_def)
  have v: "add_verdict one_mounted one_mounted_shape (Some ''f'') (Some ''t'') (- 1) = 0"
    by (simp add: add_verdict_def one_mounted_sel place_index_def)
  from hal_add_funct_correct [OF one_mounted_inv one_mounted_rep li, of "Some ''f''" "Some ''t''" "- 1"]
  show ?thesis using one_mounted_alloc v
    by (auto simp: one_mounted_sel place_index_def split: sum.splits)
qed

section \<open>Removing an entry\<close>

lemma find_entry_ring:
  assumes "ring (links h) r (xs @ ys)"
  shows "find_entry f r (case ys of [] \<Rightarrow> r | y # _ \<Rightarrow> Entry y) h =
    Some (case find (\<lambda>e. e_funct_ptr (entries h e) = f) ys of None \<Rightarrow> r | Some e \<Rightarrow> Entry e)"
  using assms
proof (induction ys arbitrary: xs)
  case Nil
  then show ?case by (simp add: find_entry.simps)
next
  case (Cons y ys)
  have r: "Entry y \<noteq> r" using Cons.prems by (auto simp: ring_def)
  have "list_next (links h) (Entry y) = (case ys of [] \<Rightarrow> r | y # _ \<Rightarrow> Entry y)"
    using Cons.prems seg_first [of "links h" "Entry y" ys r] by (simp add: ring_def seg_append list_next_def)
  with Cons.IH [of "xs @ [y]"] Cons.prems r show ?case
    by (subst find_entry.simps) simp
qed

lemma unhook_rep:
  assumes rep: "hal_rep h G" and t: "t \<in> set (s_threads G)" and es: "s_entries G t = xs @ e # ys"
  shows "hal_rep (unhook e h) (unhooked t (xs @ ys) e G)"
proof -
  note P = hal_rep_parts [OF rep] and td = threads_distinct [OF rep]
  let ?h = "unhook e h" and ?G = "unhooked t (xs @ ys) e G"
  note K = only_entries_keeps [OF unhook_only [of h e]]
  have rok: "rings_ok ?h ?G" by (rule unhook_rings [OF P(7) t td es])
  have "users_on ?h ?G (set (s_functs G))"
    by (rule unhook_users [OF _ P(7) t td es]) (use P(8) functs_pos [OF rep] in \<open>simp_all add: users_ok_on\<close>)
  then have uok: "users_ok ?h ?G" by (simp add: users_ok_on unhooked_def)
  obtain A B where ae: "all_entries G = A @ s_entries G t @ B"
    and ae': "\<forall>zs ef. all_entries (G\<lparr>s_entries := (s_entries G)(t := zs), s_entries_free := ef\<rparr>) = A @ zs @ B"
    by (rule all_entries_at [OF t td])
  have "all_entries ?G = A @ (xs @ ys) @ B" unfolding unhooked_def using ae' by blast
  moreover have "s_entries_free ?G = e # s_entries_free G" by (simp add: unhooked_def)
  ultimately have "set (s_entries_free ?G @ all_entries ?G) = set (s_entries_free G @ all_entries G)"
    by (auto simp: ae es)
  then have bl: "blocks ?G = blocks G" unfolding blocks_def by (simp add: unhooked_def del: set_append)
  have top: "shmem_top ?h \<le> shmem_top h" by (simp add: K)
  have "comps_ok ?h ?G" "pins_ok ?h ?G" "params_ok ?h ?G" "functs_ok ?h ?G" "threads_ok ?h ?G"
    by (rule comps_ok_frame [OF P(2) K(1) top] pins_ok_frame [OF P(3) K(2) top] params_ok_frame [OF P(4) K(3) top]
        functs_ok_frame [OF P(5) K(4) top] threads_ok_frame [OF P(6) K(5) top]; simp add: unhooked_def)+
  moreover have "area_wf ?h" using P(1) by (simp add: area_wf_cong [OF K(7,6)])
  ultimately show ?thesis using hal_rep_step [OF rep] rok uok bl by blast
qed

definition del_verdict :: "hal \<Rightarrow> shape \<Rightarrow> string option \<Rightarrow> string option \<Rightarrow> int" where
  "del_verdict h G fname tname =
     (if hd_lock h AND HAL_LOCK_CONFIG \<noteq> 0 then - EPERM
      else case (Option.bind fname (funct_named h G), Option.bind tname (thread_named h G)) of
        (Some f, Some t) \<Rightarrow> if f \<in> set (program h G t) then 0 else - EINVAL
      | _ \<Rightarrow> - EINVAL)"

lemma remove1_split:
  "find (\<lambda>e. q e = f) zs = Some e \<Longrightarrow> \<exists>xs ys. zs = xs @ e # ys \<and> remove1 f (map q zs) = map q (xs @ ys)"
proof (induction zs)
  case (Cons z zs)
  show ?case
  proof (cases "q z = f")
    case True
    with Cons.prems show ?thesis by (intro exI [of _ "[]"] exI [of _ zs]) simp
  next
    case False
    with Cons obtain xs ys where "zs = xs @ e # ys" "remove1 f (map q zs) = map q (xs @ ys)" by auto
    with False show ?thesis by (intro exI [of _ "z # xs"] exI [of _ ys]) simp
  qed
qed simp

lemma unhook_program:
  assumes rep: "hal_rep h G" and t: "t \<in> set (s_threads G)" and es: "s_entries G t = xs @ e # ys"
  shows "program (unhook e h) (unhooked t (xs @ ys) e G) t = map (\<lambda>x. e_funct_ptr (entries h x)) (xs @ ys) \<and>
    (\<forall>u \<in> set (s_threads G). u \<noteq> t \<longrightarrow> program (unhook e h) (unhooked t (xs @ ys) e G) u = program h G u)"
proof -
  note P = hal_rep_parts [OF rep]
  have d: "distinct (s_entries G t)"
    using rings_ok_free(2) [OF P(7) t] by (simp add: ring_def)
  have ne: "x \<noteq> e" if "x \<in> set (s_entries G u)" "u \<in> set (s_threads G)" "u \<noteq> t" for u x
    using entries_apart [OF P(7) t that(2)] that threads_distinct [OF rep] es by auto
  have "map (\<lambda>x. e_funct_ptr (entries (unhook e h) x)) (xs @ ys) = map (\<lambda>x. e_funct_ptr (entries h x)) (xs @ ys)"
    by (rule map_cong [OF refl], rule arg_cong [where f = e_funct_ptr], rule unhook_sel(2)) (use d es in auto)
  moreover have "map (\<lambda>x. e_funct_ptr (entries (unhook e h) x)) (s_entries G u) = map (\<lambda>x. e_funct_ptr (entries h x)) (s_entries G u)"
    if "u \<in> set (s_threads G)" "u \<noteq> t" for u
    by (rule map_cong [OF refl], rule arg_cong [where f = e_funct_ptr], rule unhook_sel(2)) (use ne that in auto)
  ultimately show ?thesis by (simp add: program_def unhooked_def)
qed

lemma uses_program:
  assumes "hal_rep h G" "t \<in> set (s_threads G)" "f \<in> set (program h G t)"
  shows "0 < uses h G f"
  using assms(2,3) by (auto simp: uses_def program_def all_entries_def filter_empty_conv)

lemma hal_del_funct_run:
  assumes inv: "hal_inv h" and rep: "hal_rep h G"
  shows "\<exists>r h'. hal_del_funct_from_thread fname tname h = Inr (r, h') \<and> r = del_verdict h G fname tname \<and>
    (r \<noteq> 0 \<longrightarrow> h' = h) \<and>
    (r = 0 \<longrightarrow> (\<exists>f t e xs ys. Option.bind fname (funct_named h G) = Some f \<and> Option.bind tname (thread_named h G) = Some t \<and>
       s_entries G t = xs @ e # ys \<and> e_funct_ptr (entries h e) = f \<and>
       remove1 f (program h G t) = map (\<lambda>x. e_funct_ptr (entries h x)) (xs @ ys) \<and>
       h' = hal_mutex_give (unhook e (h\<lparr>hd_mutex := set_lock (hd_mutex h)\<rparr>))))"
proof -
  from inv have m: "hal_data h = SP_mapped" "\<not> locked (hd_mutex h)" by (auto simp: hal_inv_def)
  let ?h = "h\<lparr>hd_mutex := set_lock (hd_mutex h)\<rparr>"
  have repl: "hal_rep ?h G" using rep by simp
  note ff = find_funct_named [OF repl] and ft = find_thread_named [OF repl] and P = hal_rep_parts [OF rep]
  show ?thesis
  proof (cases "hd_lock h AND HAL_LOCK_CONFIG \<noteq> 0 \<or> fname = None \<or> tname = None")
    case True
    with m show ?thesis
      by (auto simp: hal_del_funct_from_thread_def del_verdict_def split: option.splits)
  next
    case False
    then obtain fn tn where n: "fname = Some fn" "tname = Some tn" by auto
    show ?thesis
    proof (cases "funct_named h G fn")
      case None
      with False m show ?thesis by (simp add: hal_del_funct_from_thread_def del_verdict_def n ff)
    next
      case (Some f)
      note f = this funct_named_in [OF rep this]
      have us: "f_users (functs h f) = int (uses h G f)" using P(8) f by (simp add: users_ok_def)
      show ?thesis
      proof (cases "thread_named h G tn")
        case None
        with False m f show ?thesis by (simp add: hal_del_funct_from_thread_def del_verdict_def n ff ft)
      next
        case (Some t)
        note t = this thread_named_in [OF rep this]
        have rg: "ring (links h) (Thread_root t) (s_entries G t)" using P(7) t by (simp add: rings_ok_def)
        have nx: "list_next (links h) (Thread_root t) = (case s_entries G t of [] \<Rightarrow> Thread_root t | y # _ \<Rightarrow> Entry y)"
          using ring_list_next [OF rg, of 0] by (auto simp: addr_at_def split: list.splits)
        let ?fd = "find (\<lambda>e. e_funct_ptr (entries h e) = f) (s_entries G t)"
        have fe: "find_entry f (Thread_root t) (list_next (links h) (Thread_root t)) ?h =
            Some (case ?fd of None \<Rightarrow> Thread_root t | Some e \<Rightarrow> Entry e)"
          using find_entry_ring [of ?h "Thread_root t" "[]" "s_entries G t" f] rg by (simp add: nx)
        show ?thesis
        proof (cases ?fd)
          case None
          then have "f \<notin> set (program h G t)" by (auto simp: program_def find_None_iff)
          with False m f t None show ?thesis
            by (simp add: hal_del_funct_from_thread_def del_verdict_def n ff ft fe)
        next
          case (Some e)
          from remove1_split [OF this] obtain xs ys where
            es: "s_entries G t = xs @ e # ys" and rm: "remove1 f (program h G t) = map (\<lambda>x. e_funct_ptr (entries h x)) (xs @ ys)"
            unfolding program_def by blast
          have ef: "e_funct_ptr (entries h e) = f" using find_in [OF Some] by simp
          have "f \<in> set (program h G t)" using ef es by (auto simp: program_def)
          with uses_program [OF rep] t us have "f_users (functs h f) \<noteq> 0" "del_verdict h G fname tname = 0"
            using False f by (auto simp: del_verdict_def n)
          with False m f t Some have "hal_del_funct_from_thread fname tname h = Inr (0, hal_mutex_give (unhook e ?h))"
            by (simp add: hal_del_funct_from_thread_def n ff ft fe unhook_def)
          with \<open>del_verdict h G fname tname = 0\<close> f t es rm ef show ?thesis by (simp add: n) blast
        qed
      qed
    qed
  qed
qed

text \<open>
  Property C20: \<open>hal_del_funct_from_thread\<close> on a well-formed segment always returns, with the result of
  its decision list. On success the first call of the function is removed from the program of the
  thread and the function has one user less; an error changes nothing.
\<close>

theorem hal_del_funct_correct:
  assumes "hal_inv h" "hal_rep h G"
  shows "\<exists>r h'. hal_del_funct_from_thread fname tname h = Inr (r, h') \<and> r = del_verdict h G fname tname \<and>
    hal_inv h' \<and> (r \<noteq> 0 \<longrightarrow> h' = h) \<and>
    (r = 0 \<longrightarrow> (\<exists>G' f t. Option.bind fname (funct_named h G) = Some f \<and> Option.bind tname (thread_named h G) = Some t \<and>
       hal_rep h' G' \<and> s_functs G' = s_functs G \<and> s_threads G' = s_threads G \<and>
       program h' G' t = remove1 f (program h G t) \<and>
       (\<forall>u \<in> set (s_threads G). u \<noteq> t \<longrightarrow> program h' G' u = program h G u) \<and>
       f_users (functs h' f) = f_users (functs h f) - 1))"
proof -
  from hal_del_funct_run [OF assms, of fname tname] obtain r h' where run: "hal_del_funct_from_thread fname tname h = Inr (r, h')" "r = del_verdict h G fname tname"
    and bad: "r \<noteq> 0 \<longrightarrow> h' = h"
    and good: "r = 0 \<longrightarrow> (\<exists>f t e xs ys. Option.bind fname (funct_named h G) = Some f \<and> Option.bind tname (thread_named h G) = Some t \<and>
       s_entries G t = xs @ e # ys \<and> e_funct_ptr (entries h e) = f \<and>
       remove1 f (program h G t) = map (\<lambda>x. e_funct_ptr (entries h x)) (xs @ ys) \<and>
       h' = hal_mutex_give (unhook e (h\<lparr>hd_mutex := set_lock (hd_mutex h)\<rparr>)))"
    by (elim exE conjE) (rule that)
  show ?thesis
  proof (cases "r = 0")
    case False
    with run bad assms(1) show ?thesis by blast
  next
    case True
    with good obtain f t e xs ys where f: "Option.bind fname (funct_named h G) = Some f"
      and t: "Option.bind tname (thread_named h G) = Some t"
      and es: "s_entries G t = xs @ e # ys" and ef: "e_funct_ptr (entries h e) = f"
      and rm: "remove1 f (program h G t) = map (\<lambda>x. e_funct_ptr (entries h x)) (xs @ ys)"
      and h': "h' = hal_mutex_give (unhook e (h\<lparr>hd_mutex := set_lock (hd_mutex h)\<rparr>))" by blast
    let ?h = "h\<lparr>hd_mutex := set_lock (hd_mutex h)\<rparr>" and ?G = "unhooked t (xs @ ys) e G"
    have tin: "t \<in> set (s_threads G)" and f0: "0 < f"
      using f t thread_named_in [OF assms(2)] funct_named_in [OF assms(2)] functs_pos [OF assms(2)]
      by (auto simp: bind_eq_Some_conv)
    have repl: "hal_rep ?h G" using assms(2) by simp
    note rep2 = unhook_rep [OF repl tin es] and pr = unhook_program [OF repl tin es]
    have rep3: "hal_rep h' ?G" using rep2 by (simp add: h')
    have K: "hal_data (unhook e ?h) = SP_mapped"
      using only_entries_keeps(8) [OF unhook_only [of ?h e]] assms(1) by (simp add: hal_inv_def)
    have "hal_inv h'" unfolding h' by (rule hal_inv_give [OF rep2 K])
    moreover have "program h' ?G t = remove1 f (program h G t)" using pr rm by (simp add: h')
    moreover have "\<forall>u \<in> set (s_threads G). u \<noteq> t \<longrightarrow> program h' ?G u = program h G u"
      using pr by (simp add: h') (simp add: program_def)
    moreover have "f_users (functs h' f) = f_users (functs h f) - 1"
      using ef f0 by (simp add: h' hal_mutex_give_def unhook_sel)
    moreover have "s_functs ?G = s_functs G" "s_threads ?G = s_threads G" by (simp_all add: unhooked_def)
    ultimately show ?thesis using True run f t rep3 by blast
  qed
qed

theorem hal_del_funct_correct_witness:
  "\<exists>h' G'. hal_del_funct_from_thread (Some ''f'') (Some ''t'') one_mounted = Inr (0, h')
    \<and> hal_rep h' G' \<and> program h' G' 1047000 = []"
proof -
  have "del_verdict one_mounted one_mounted_shape (Some ''f'') (Some ''t'') = 0"
    by (simp add: del_verdict_def one_mounted_sel)
  with hal_del_funct_correct [OF one_mounted_inv one_mounted_rep, of "Some ''f''" "Some ''t''"]
  show ?thesis by (auto simp: one_mounted_sel)
qed

end
