(* ===== verification/Rt_Time.thy ===== *)
theory Rt_Time
  imports Mutex
begin

text \<open>
  Time in the RTAPI of \<open>rtapi/uspace_rtapi_app.cpp\<close> and \<open>rtapi/rtapi_uspace.h\<close>: the arithmetic
  on \<open>struct timespec\<close>, the clamp of \<open>rtapi_delay\<close> and the portable fallback of
  \<open>rtapi_clock_nanosleep\<close>. \<open>long\<close>, \<open>unsigned long\<close> and \<open>time_t\<close> are 64-bit words: \<open>uint\<close>
  reads one as unsigned, \<open>sint\<close> as signed. \<open>ns\<close> is the abstract value of a timespec, and the
  lemmas state every operation over it.
\<close>

section \<open>Signed 64-bit words\<close>

type_synonym long = "64 word"

lemma sint_of_int_range:
  "- (2 ^ 63) \<le> k \<Longrightarrow> k < 2 ^ 63 \<Longrightarrow> sint (word_of_int k :: long) = k"
  by (simp add: sint_sbintrunc' signed_take_bit_int_eq_self)

lemma sint_add_range:
  fixes a b :: long
  assumes "- (2 ^ 63) \<le> sint a + sint b" "sint a + sint b < 2 ^ 63"
  shows "sint (a + b) = sint a + sint b"
proof -
  have "a + b = word_of_int (sint a + sint b)" by (simp add: of_int_add [symmetric])
  with assms show ?thesis by (simp only: sint_of_int_range)
qed

lemma sint_sub_range:
  fixes a b :: long
  assumes "- (2 ^ 63) \<le> sint a - sint b" "sint a - sint b < 2 ^ 63"
  shows "sint (a - b) = sint a - sint b"
proof -
  have "a - b = word_of_int (sint a - sint b)" by simp
  with assms show ?thesis by (simp only: sint_of_int_range)
qed

lemma sint_small: "uint (a :: long) < 2 ^ 63 \<Longrightarrow> sint a = uint a"
  using sint_of_int_range [of "uint a"] by (simp add: order_trans [of _ 0])

lemma uint_nonneg_sint: "0 \<le> sint (a :: long) \<Longrightarrow> uint a = sint a"
proof -
  assume a: "0 \<le> sint a"
  have "sint a < 2 ^ 63" using sint_lt [of a] by simp
  with a have "uint (word_of_int (sint a) :: long) = sint a"
    by (simp only: uint_word_of_int) simp
  then show ?thesis by simp
qed

lemma sint_bounds: "- (2 ^ 63) \<le> sint (a :: long)" "sint (a :: long) < 2 ^ 63"
  using sint_ge [of a] sint_lt [of a] by simp_all

section \<open>struct timespec\<close>

record timespec =
  tv_sec :: long
  tv_nsec :: long

definition ONE_SEC_IN_NS :: "64 word" where "ONE_SEC_IN_NS = 1000000000"

definition rtapi_timespec_add :: "timespec \<Rightarrow> timespec \<Rightarrow> timespec" where
  "rtapi_timespec_add ta tb =
     (let sec = tv_sec ta + tv_sec tb; nsec = tv_nsec ta + tv_nsec tb in
      if 1000000000 \<le> sint nsec
      then \<lparr>tv_sec = sec + 1, tv_nsec = nsec - 1000000000\<rparr>
      else \<lparr>tv_sec = sec, tv_nsec = nsec\<rparr>)"

definition rtapi_timespec_less :: "timespec \<Rightarrow> timespec \<Rightarrow> bool" where
  "rtapi_timespec_less ta tb =
     (if sint (tv_sec ta) < sint (tv_sec tb) then True
      else if sint (tv_sec ta) > sint (tv_sec tb) then False
      else sint (tv_nsec ta) < sint (tv_nsec tb))"

text \<open>The \<open>while\<close> loop of \<open>rtapi_timespec_advance\<close>: one second per turn.\<close>

function advance_secs :: "long \<Rightarrow> 64 word \<Rightarrow> long \<times> 64 word" where
  "advance_secs sec nsec =
     (if ONE_SEC_IN_NS \<le> nsec then advance_secs (sec + 1) (nsec - ONE_SEC_IN_NS) else (sec, nsec))"
  by pat_completeness auto
termination
  by (relation "measure (\<lambda>(_, nsec). unat nsec)")
    (auto simp: ONE_SEC_IN_NS_def unat_sub word_le_nat_alt)

declare advance_secs.simps [simp del]

definition rtapi_timespec_advance :: "timespec \<Rightarrow> 64 word \<Rightarrow> timespec" where
  "rtapi_timespec_advance src nsec =
     (let (sec, nsec) = advance_secs (tv_sec src) nsec;
          nsec = nsec + tv_nsec src in
      if ONE_SEC_IN_NS \<le> nsec
      then \<lparr>tv_sec = sec + 1, tv_nsec = nsec - ONE_SEC_IN_NS\<rparr>
      else \<lparr>tv_sec = sec, tv_nsec = nsec\<rparr>)"

text \<open>The macro \<open>timespecsub\<close> of the fallback in \<open>rtapi_clock_nanosleep\<close>.\<close>

definition timespecsub :: "timespec \<Rightarrow> timespec \<Rightarrow> timespec" where
  "timespecsub tvp uvp =
     (let sec = tv_sec tvp - tv_sec uvp; nsec = tv_nsec tvp - tv_nsec uvp in
      if sint nsec < 0
      then \<lparr>tv_sec = sec - 1, tv_nsec = nsec + 1000000000\<rparr>
      else \<lparr>tv_sec = sec, tv_nsec = nsec\<rparr>)"

section \<open>Sleeping\<close>

text \<open>
  What \<open>rtapi_clock_nanosleep\<close> asks of the kernel: the call it makes, or its own error return.
  \<open>have\<close> tells whether the build defines \<open>HAVE_CLOCK_NANOSLEEP\<close>, \<open>pnow\<close> is the optional
  caller's reading of the clock, and \<open>gettime\<close> what \<open>clock_gettime\<close> would return.
\<close>

datatype sleep_call =
  Clock_nanosleep int int timespec
| Nanosleep timespec
| Sleep_error int

definition TIMER_ABSTIME :: int where "TIMER_ABSTIME = 1"

definition rtapi_clock_nanosleep ::
    "bool \<Rightarrow> int + timespec \<Rightarrow> int \<Rightarrow> int \<Rightarrow> timespec \<Rightarrow> timespec option \<Rightarrow> sleep_call" where
  "rtapi_clock_nanosleep have gettime clock_id flags prequest pnow =
     (if have then Clock_nanosleep clock_id flags prequest
      else if flags = 0 then Nanosleep prequest
      else if flags \<noteq> TIMER_ABSTIME then Sleep_error (- 1)
      else case pnow of
          Some now \<Rightarrow> Nanosleep (timespecsub prequest now)
        | None \<Rightarrow> (case gettime of
              Inl res \<Rightarrow> Sleep_error res
            | Inr now \<Rightarrow> Nanosleep (timespecsub prequest now)))"

definition rtapi_delay_max :: long where "rtapi_delay_max = 10000"

definition do_delay :: "bool \<Rightarrow> int + timespec \<Rightarrow> long \<Rightarrow> sleep_call" where
  "do_delay have gettime nsec = rtapi_clock_nanosleep have gettime 1 0 \<lparr>tv_sec = 0, tv_nsec = nsec\<rparr> None"

definition rtapi_delay :: "bool \<Rightarrow> int + timespec \<Rightarrow> long \<Rightarrow> sleep_call" where
  "rtapi_delay have gettime nsec =
     do_delay have gettime (if sint nsec > sint rtapi_delay_max then rtapi_delay_max else nsec)"

text \<open>\<open>do_get_time\<close>: the clock as one signed 64-bit count of nanoseconds.\<close>

definition do_get_time :: "timespec \<Rightarrow> long" where
  "do_get_time ts = tv_sec ts * 1000000000 + tv_nsec ts"

section \<open>Timespecs as counts of nanoseconds\<close>

definition ns :: "timespec \<Rightarrow> int" where
  "ns ts = sint (tv_sec ts) * 1000000000 + sint (tv_nsec ts)"

definition normal :: "timespec \<Rightarrow> bool" where
  "normal ts \<longleftrightarrow> 0 \<le> sint (tv_nsec ts) \<and> sint (tv_nsec ts) < 1000000000"

lemma sint_const [simp]: "sint (1000000000 :: long) = 1000000000" "sint (1 :: long) = 1"
  by simp_all

lemma advance_secs_eq:
  "advance_secs sec nsec = (sec + nsec div ONE_SEC_IN_NS, nsec mod ONE_SEC_IN_NS)"
proof (induction sec nsec rule: advance_secs.induct)
  case (1 sec nsec)
  let ?S = "ONE_SEC_IN_NS"
  show ?case
  proof (cases "?S \<le> nsec")
    case True
    then have U: "uint (nsec - ?S) = uint nsec - uint ?S"
      by (simp add: uint_sub_if' word_le_def)
    have S: "uint ?S = 1000000000" by (simp add: ONE_SEC_IN_NS_def)
    from True have ge: "1000000000 \<le> uint nsec" by (simp add: word_le_def S)
    have D: "uint nsec div 1000000000 = (uint nsec - 1000000000) div 1000000000 + 1"
      using div_add_self2 [of "1000000000 :: int" "uint nsec - 1000000000"] by simp
    have "uint nsec div 1000000000 < 2 ^ 64"
      using uint_lt2p [of nsec] zdiv_mono1 [of "uint nsec" "2 ^ 64" 1000000000] by simp
    then have Q: "nsec div ?S = (nsec - ?S) div ?S + 1"
      using D ge by (intro word_uint_eqI)
        (simp add: uint_div uint_word_ariths(1) U S [unfolded ONE_SEC_IN_NS_def] S)
    have R: "nsec mod ?S = (nsec - ?S) mod ?S"
      using mod_add_self2 [of "uint nsec - 1000000000" "1000000000 :: int"]
      by (intro word_uint_eqI) (simp add: uint_mod U S)
    from True 1 have "advance_secs sec nsec =
        (sec + 1 + (nsec - ?S) div ?S, (nsec - ?S) mod ?S)"
      by (subst advance_secs.simps) simp
    then show ?thesis by (simp add: Q R algebra_simps)
  next
    case False
    then have lt: "nsec < ?S" by simp
    then have "uint nsec < uint ?S" by (simp add: word_less_def)
    then have "nsec div ?S = 0" "nsec mod ?S = nsec"
      by (simp_all add: word_div_def word_mod_def)
    with False show ?thesis by (subst advance_secs.simps) simp
  qed
qed

lemma normal_nsec_sum:
  "normal a \<Longrightarrow> normal b \<Longrightarrow> sint (tv_nsec a + tv_nsec b) = sint (tv_nsec a) + sint (tv_nsec b)"
  by (rule sint_add_range) (auto simp: normal_def)

lemma normal_nsec_diff:
  "normal a \<Longrightarrow> normal b \<Longrightarrow> sint (tv_nsec a - tv_nsec b) = sint (tv_nsec a) - sint (tv_nsec b)"
  by (rule sint_sub_range) (auto simp: normal_def)

lemma carry_sec:
  assumes "- (2 ^ 63) \<le> sint a + sint b" "sint a + sint b + 1 < 2 ^ 63"
  shows "sint (a + b + 1 :: long) = sint a + sint b + 1" "sint (a + b) = sint a + sint b"
proof -
  show ab: "sint (a + b) = sint a + sint b" by (rule sint_add_range) (use assms in auto)
  have "sint (a + b + 1) = sint (a + b) + sint (1 :: long)"
    by (rule sint_add_range) (use assms ab in auto)
  then show "sint (a + b + 1) = sint a + sint b + 1" by (simp add: ab)
qed

text \<open>Addition keeps a timespec normalised and adds the counts, unless the seconds overflow.\<close>

lemma timespec_add_ns:
  assumes "normal ta" "normal tb"
    and "- (2 ^ 63) \<le> sint (tv_sec ta) + sint (tv_sec tb)" "sint (tv_sec ta) + sint (tv_sec tb) + 1 < 2 ^ 63"
  shows "normal (rtapi_timespec_add ta tb) \<and> ns (rtapi_timespec_add ta tb) = ns ta + ns tb"
proof -
  note N = normal_nsec_sum [OF assms(1,2)] and C = carry_sec [OF assms(3,4)]
  have D: "1000000000 \<le> sint (tv_nsec ta + tv_nsec tb) \<Longrightarrow>
      sint (tv_nsec ta + tv_nsec tb - 1000000000) = sint (tv_nsec ta) + sint (tv_nsec tb) - 1000000000"
    using assms(1,2) by (subst sint_sub_range) (auto simp: normal_def N)
  from assms(1,2) show ?thesis
    by (auto simp: rtapi_timespec_add_def Let_def normal_def ns_def N D C)
qed

text \<open>The loop of \<open>rtapi_timespec_advance\<close> is an addition of the duration split into seconds.\<close>

definition duration :: "64 word \<Rightarrow> timespec" where
  "duration nsec = \<lparr>tv_sec = nsec div ONE_SEC_IN_NS, tv_nsec = nsec mod ONE_SEC_IN_NS\<rparr>"

lemma duration_parts:
  "sint (tv_sec (duration n)) = uint n div 1000000000"
  "sint (tv_nsec (duration n)) = uint n mod 1000000000"
proof -
  have S: "uint ONE_SEC_IN_NS = 1000000000" by (simp add: ONE_SEC_IN_NS_def)
  have "uint n div 1000000000 < 2 ^ 63"
    using uint_lt2p [of n] zdiv_mono1 [of "uint n" "2 ^ 64" 1000000000] by simp
  then show "sint (tv_sec (duration n)) = uint n div 1000000000"
    by (subst sint_small) (simp_all add: duration_def uint_div S)
  have "uint n mod 1000000000 < 1000000000" by simp
  then have "uint n mod 1000000000 < 2 ^ 63" by (rule less_trans) simp
  then show "sint (tv_nsec (duration n)) = uint n mod 1000000000"
    by (subst sint_small) (simp_all add: duration_def uint_mod S)
qed

lemma normal_duration: "normal (duration n)" and ns_duration: "ns (duration n) = uint n"
  by (simp_all add: normal_def ns_def duration_parts)

lemma advance_as_add:
  assumes "normal src"
  shows "rtapi_timespec_advance src nsec = rtapi_timespec_add src (duration nsec)"
proof -
  let ?m = "nsec mod ONE_SEC_IN_NS"
  have m: "sint ?m = uint nsec mod 1000000000"
    using duration_parts(2) [of nsec] by (simp add: duration_def)
  have eq: "sint (?m + tv_nsec src) = sint ?m + sint (tv_nsec src)"
    using normal_nsec_sum [OF normal_duration [of nsec] assms] by (simp add: duration_def)
  have "0 \<le> sint (?m + tv_nsec src)" using assms by (simp add: eq m normal_def)
  then have "uint (?m + tv_nsec src) = sint (?m + tv_nsec src)" by (rule uint_nonneg_sint)
  moreover have "uint ONE_SEC_IN_NS = 1000000000" by (simp add: ONE_SEC_IN_NS_def)
  ultimately have "ONE_SEC_IN_NS \<le> ?m + tv_nsec src \<longleftrightarrow> 1000000000 \<le> sint (tv_nsec src + ?m)"
    by (simp add: word_le_def add.commute)
  then show ?thesis
    by (simp add: rtapi_timespec_advance_def rtapi_timespec_add_def advance_secs_eq duration_def
        Let_def add.commute) (simp add: ONE_SEC_IN_NS_def)
qed

lemma advance_ns:
  assumes "normal src" "0 \<le> sint (tv_sec src)" "ns src + uint nsec < 2 ^ 63 * 1000000000 - 1000000000"
  shows "normal (rtapi_timespec_advance src nsec)"
    and "ns (rtapi_timespec_advance src nsec) = ns src + uint nsec"
    and "0 \<le> sint (tv_sec (rtapi_timespec_advance src nsec))"
proof -
  have lt: "sint (tv_sec src) + uint nsec div 1000000000 + 1 < 2 ^ 63"
    using assms(1,3) div_mult_mod_eq [of "uint nsec" 1000000000]
      pos_mod_sign [of "1000000000 :: int" "uint nsec"]
    unfolding ns_def normal_def by linarith
  have "0 \<le> uint nsec div 1000000000" by (simp add: pos_imp_zdiv_nonneg_iff)
  then have *: "normal (rtapi_timespec_advance src nsec) \<and> ns (rtapi_timespec_advance src nsec) = ns src + uint nsec"
    using timespec_add_ns [OF assms(1) normal_duration [of nsec]] lt assms(2)
    by (simp add: advance_as_add [OF assms(1)] duration_parts ns_duration)
  then show "normal (rtapi_timespec_advance src nsec)"
    and N: "ns (rtapi_timespec_advance src nsec) = ns src + uint nsec" by blast+
  have "0 \<le> ns (rtapi_timespec_advance src nsec)"
    using assms(1,2) N by (simp add: ns_def normal_def)
  with * show "0 \<le> sint (tv_sec (rtapi_timespec_advance src nsec))"
    by (simp add: ns_def normal_def)
qed

text \<open>
  \<open>rtapi_timespec_less\<close>, which \<open>wait\<close> uses to detect a missed deadline, orders normalised
  timespecs by their counts of nanoseconds, over the whole range of 64-bit seconds.
\<close>

lemma timespec_less_iff:
  "normal ta \<Longrightarrow> normal tb \<Longrightarrow> rtapi_timespec_less ta tb \<longleftrightarrow> ns ta < ns tb"
  by (auto simp: rtapi_timespec_less_def ns_def normal_def)

section \<open>Properties\<close>

text \<open>
  Property C18: the loop of \<open>rtapi_timespec_advance\<close> ends for every 64-bit count, and from a
  normalised timespec its result is that of one \<open>rtapi_timespec_add\<close> of the count split into
  seconds and nanoseconds: normalised again, and later by exactly the count (for seconds that do
  not overflow).
\<close>

theorem advance_equals_add:
  assumes "normal src" "0 \<le> sint (tv_sec src)" "ns src + uint nsec < 2 ^ 63 * 1000000000 - 1000000000"
  shows "rtapi_timespec_advance src nsec = rtapi_timespec_add src (duration nsec) \<and>
    normal (rtapi_timespec_advance src nsec) \<and>
    ns (rtapi_timespec_advance src nsec) = ns src + uint nsec"
  using advance_as_add [OF assms(1)] advance_ns [OF assms] by blast

theorem advance_equals_add_witness:
  "ns (rtapi_timespec_advance \<lparr>tv_sec = 5, tv_nsec = 999999999\<rparr> 2000000001) = 8 * 1000000000"
  using advance_equals_add [THEN conjunct2, THEN conjunct2, of "\<lparr>tv_sec = 5, tv_nsec = 999999999\<rparr>" 2000000001]
  by (simp add: ns_def normal_def)

text \<open>
  Subtraction is undone by addition. For a deadline and a clock reading, both
  normalised and with non-negative seconds, the relative request that the fallback of
  \<open>rtapi_clock_nanosleep\<close> computes is normalised, counts exactly the remaining nanoseconds (a
  negative count if the deadline has passed), and added to the reading it gives the deadline back.
\<close>

theorem timespecsub_roundtrip:
  assumes "normal deadline" "normal now" "0 \<le> sint (tv_sec deadline)" "0 \<le> sint (tv_sec now)"
  shows "normal (timespecsub deadline now) \<and>
    ns (timespecsub deadline now) = ns deadline - ns now \<and>
    rtapi_timespec_add now (timespecsub deadline now) = deadline"
proof -
  let ?n = "tv_nsec deadline - tv_nsec now" and ?s = "tv_sec deadline - tv_sec now"
  have N: "sint ?n = sint (tv_nsec deadline) - sint (tv_nsec now)"
    by (rule normal_nsec_diff [OF assms(1,2)])
  have S: "sint ?s = sint (tv_sec deadline) - sint (tv_sec now)"
    using assms(3,4) sint_bounds [of "tv_sec deadline"] sint_bounds [of "tv_sec now"]
    by (intro sint_sub_range) auto
  have ge: "sint (tv_sec deadline) - sint (tv_sec now) - 1 \<ge> - (2 ^ 63)"
    using assms(3,4) sint_bounds [of "tv_sec now"] by simp
  have S1: "sint (?s - 1) = sint (tv_sec deadline) - sint (tv_sec now) - 1"
    using ge S sint_bounds [of ?s] by (subst sint_sub_range) auto
  have N1: "sint (?n + 1000000000) = sint (tv_nsec deadline) - sint (tv_nsec now) + 1000000000"
    using assms(1,2) N by (subst sint_add_range) (auto simp: normal_def)
  show ?thesis
  proof (cases "sint ?n < 0")
    case True
    then have T: "timespecsub deadline now = \<lparr>tv_sec = ?s - 1, tv_nsec = ?n + 1000000000\<rparr>"
      by (simp add: timespecsub_def)
    have "tv_nsec now + (?n + 1000000000) = tv_nsec deadline + 1000000000" by simp
    moreover have "sint (tv_nsec deadline + 1000000000) = sint (tv_nsec deadline) + 1000000000"
      using assms(1) by (subst sint_add_range) (auto simp: normal_def)
    ultimately show ?thesis using assms(1,2) True
      by (simp add: T normal_def ns_def rtapi_timespec_add_def Let_def N N1 S1)
  next
    case False
    then have T: "timespecsub deadline now = \<lparr>tv_sec = ?s, tv_nsec = ?n\<rparr>"
      by (simp add: timespecsub_def)
    show ?thesis using assms(1,2) False
      by (simp add: T normal_def ns_def rtapi_timespec_add_def Let_def N S)
  qed
qed

theorem timespecsub_roundtrip_witness:
  "rtapi_timespec_add \<lparr>tv_sec = 3, tv_nsec = 700000000\<rparr>
     (timespecsub \<lparr>tv_sec = 5, tv_nsec = 200000000\<rparr> \<lparr>tv_sec = 3, tv_nsec = 700000000\<rparr>) =
   \<lparr>tv_sec = 5, tv_nsec = 200000000\<rparr>"
  using timespecsub_roundtrip [of "\<lparr>tv_sec = 5, tv_nsec = 200000000\<rparr>" "\<lparr>tv_sec = 3, tv_nsec = 700000000\<rparr>"]
  by (simp add: normal_def)

end
