(* ===== verification/Rt_Tasks.thy ===== *)
theory Rt_Tasks
  imports Rt_Time
begin

text \<open>
  The real-time tasks of \<open>rtapi/uspace_rtapi_app.cpp\<close> (\<open>RtapiApp\<close> and its POSIX
  implementation \<open>Posix\<close>): the priority scale, the table \<open>task_array\<close>, the life cycle of a task
  (\<open>task_new\<close>, \<open>task_start\<close>, \<open>task_pause\<close>, \<open>task_resume\<close>, \<open>task_delete\<close>), the
  cycle of its thread (\<open>wrapper\<close>, \<open>wait\<close>) and the phase correction of its period.

  A task object is only reached through its slot of \<open>task_array\<close>, so a slot holds the object. A
  POSIX semaphore is its count. The kernel and the pthread library are parameters: what
  \<open>sched_get_priority_max\<close> and \<open>_min\<close> return (\<open>hi\<close>, \<open>lo\<close>), what the calls of
  \<open>task_start\<close> return (\<open>pthread_os\<close>), and the readings of the clock.
\<close>

section \<open>The priority scale\<close>

definition prio_higher_delta :: "int \<Rightarrow> int \<Rightarrow> int" where
  "prio_higher_delta hi lo = (if hi > lo then 1 else - 1)"

definition prio_bound :: "int \<Rightarrow> int \<Rightarrow> int \<Rightarrow> int" where
  "prio_bound hi lo prio =
     (if hi > lo then
        (if prio \<ge> hi then hi else if prio < lo then lo else prio)
      else
        (if prio \<le> hi then hi else if prio > lo then lo else prio))"

definition prio_next_higher :: "int \<Rightarrow> int \<Rightarrow> int \<Rightarrow> int" where
  "prio_next_higher hi lo prio =
     (let prio = prio_bound hi lo prio in
      if prio \<noteq> hi then prio + prio_higher_delta hi lo else prio)"

definition prio_next_lower :: "int \<Rightarrow> int \<Rightarrow> int \<Rightarrow> int" where
  "prio_next_lower hi lo prio =
     (let prio = prio_bound hi lo prio in
      if prio \<noteq> lo then prio - prio_higher_delta hi lo else prio)"

section \<open>Tasks\<close>

definition MAX_TASKS :: nat where "MAX_TASKS = 64"
definition TASK_MAGIC :: int where "TASK_MAGIC = 21979"

datatype task_state =
  TASK_S_EMPTY | TASK_S_INIT | TASK_S_ALLOCATED | TASK_S_RUNNING | TASK_S_PAUSED | TASK_S_DELETED
| TASK_S_ERROR

fun task_state_code :: "task_state \<Rightarrow> int" where
  "task_state_code TASK_S_EMPTY = 0"
| "task_state_code TASK_S_INIT = 1"
| "task_state_code TASK_S_ALLOCATED = 2"
| "task_state_code TASK_S_RUNNING = 3"
| "task_state_code TASK_S_PAUSED = 4"
| "task_state_code TASK_S_DELETED = 5"
| "task_state_code TASK_S_ERROR = - 1"

text \<open>
  Where the thread of a task is: it was never created (\<open>thr\<close> is zero), it was created and has not
  reached \<open>taskcode\<close>, it executes \<open>taskcode\<close>, or it waits for \<open>resume_sem\<close> inside \<open>wait\<close>.
\<close>

datatype thread = Th_none | Th_created | Th_code | Th_paused

record posix_task =
  tk_magic :: int
  tk_id :: int
  tk_owner :: int
  tk_uses_fp :: int
  tk_stacksize :: "64 word"
  tk_prio :: int
  tk_period :: long
  tk_nextstart :: timespec
  tk_ratio :: "32 word"
  tk_pll_correction :: long
  tk_pll_correction_limit :: long
  tk_arg :: int
  tk_taskcode :: int
  tk_state :: task_state
  tk_owner_pid :: int
  tk_error_code :: int
  tk_thr :: thread
  tk_pause_sem :: nat
  tk_resume_sem :: nat

text \<open>What \<open>new PosixTask\<close> builds.\<close>

definition do_task_new :: posix_task where
  "do_task_new = \<lparr>tk_magic = 0, tk_id = 0, tk_owner = 0, tk_uses_fp = 0, tk_stacksize = 0, tk_prio = 0,
     tk_period = 0, tk_nextstart = \<lparr>tv_sec = 0, tv_nsec = 0\<rparr>, tk_ratio = 0, tk_pll_correction = 0,
     tk_pll_correction_limit = 0, tk_arg = 0, tk_taskcode = 0, tk_state = TASK_S_EMPTY,
     tk_owner_pid = 0, tk_error_code = 0, tk_thr = Th_none, tk_pause_sem = 0, tk_resume_sem = 0\<rparr>"

text \<open>A slot is null, holds the placeholder \<open>TASK_MAGIC_INIT\<close>, or points to a task.\<close>

datatype slot = S_null | S_init | S_task posix_task

text \<open>\<open>printed\<close> is the static variable of \<open>unexpected_realtime_delay\<close>.\<close>

record rtapp =
  task_array :: "slot list"
  rt_period :: long
  printed :: bool

definition rtapp_start :: rtapp where
  "rtapp_start = \<lparr>task_array = replicate MAX_TASKS S_null, rt_period = 0, printed = False\<rparr>"

definition put_slot :: "nat \<Rightarrow> slot \<Rightarrow> rtapp \<Rightarrow> rtapp" where
  "put_slot n s a = a\<lparr>task_array := (task_array a)[n := s]\<rparr>"

subsection \<open>Allocation\<close>

fun first_null :: "nat \<Rightarrow> slot list \<Rightarrow> nat option" where
  "first_null n [] = None"
| "first_null n (s # ss) = (if s = S_null then Some n else first_null (Suc n) ss)"

definition allocate_task_id :: "rtapp \<Rightarrow> int \<times> rtapp" where
  "allocate_task_id a = (case first_null 0 (task_array a) of
       Some n \<Rightarrow> (int n, put_slot n S_init a)
     | None \<Rightarrow> (- ENOSPC, a))"

text \<open>The fields that \<open>task_new\<close> fills in.\<close>

definition fill_task ::
    "int \<Rightarrow> int \<Rightarrow> int \<Rightarrow> int \<Rightarrow> int \<Rightarrow> 64 word \<Rightarrow> int \<Rightarrow> int \<Rightarrow> posix_task \<Rightarrow> posix_task" where
  "fill_task pid taskcode arg prio owner stacksize uses_fp n task =
     (let stacksize = (if stacksize < 1024 * 1024 then 1024 * 1024 else stacksize) in
      task\<lparr>tk_id := n, tk_owner := owner, tk_uses_fp := uses_fp, tk_arg := arg,
        tk_stacksize := stacksize, tk_taskcode := taskcode, tk_prio := prio,
        tk_magic := TASK_MAGIC, tk_owner_pid := pid, tk_error_code := 0,
        tk_state := TASK_S_ALLOCATED\<rparr>)"

definition task_new ::
    "int \<Rightarrow> int \<Rightarrow> int \<Rightarrow> int \<Rightarrow> int \<Rightarrow> int \<Rightarrow> int \<Rightarrow> 64 word \<Rightarrow> int \<Rightarrow> rtapp \<Rightarrow> int \<times> rtapp" where
  "task_new hi lo pid taskcode arg prio owner stacksize uses_fp a =
     (if prio > hi \<or> prio < lo then (- EINVAL, a)
      else let (n, a) = allocate_task_id a in
      if n < 0 then (n, a)
      else (n, put_slot (nat n)
             (S_task (fill_task pid taskcode arg prio owner stacksize uses_fp n do_task_new)) a))"

definition get_task :: "int \<Rightarrow> rtapp \<Rightarrow> posix_task option" where
  "get_task task_id a =
     (if task_id < 0 \<or> task_id \<ge> int MAX_TASKS then None
      else case task_array a ! nat task_id of
          S_task t \<Rightarrow> if tk_magic t \<noteq> TASK_MAGIC then None else Some t
        | _ \<Rightarrow> None)"

text \<open>\<open>rtapi_task_getstate\<close> reads \<open>magic\<close> of the placeholder too: it is no object.\<close>

definition rtapi_task_getstate :: "int \<Rightarrow> rtapp \<Rightarrow> int res" where
  "rtapi_task_getstate task_id a =
     (if task_id < 0 \<or> task_id \<ge> int MAX_TASKS then Inr (task_state_code TASK_S_ERROR)
      else case task_array a ! nat task_id of
          S_null \<Rightarrow> Inr (task_state_code TASK_S_ERROR)
        | S_init \<Rightarrow> Inl UB
        | S_task t \<Rightarrow> Inr (if tk_magic t \<noteq> TASK_MAGIC then task_state_code TASK_S_ERROR
                          else task_state_code (tk_state t)))"

subsection \<open>Start and deletion\<close>

record pthread_os =
  os_attr_init :: int
  os_setstacksize :: "64 word \<Rightarrow> int"
  os_setschedpolicy :: int
  os_setschedparam :: "int \<Rightarrow> int"
  os_setinheritsched :: int
  os_nprocs :: int
  os_rt_cpu_number :: int
  os_setaffinity :: "int \<Rightarrow> int"
  os_create :: int

text \<open>The first call that fails before \<open>pthread_create\<close>, or 0.\<close>

definition attr_setup :: "pthread_os \<Rightarrow> posix_task \<Rightarrow> int" where
  "attr_setup os t =
     (if os_attr_init os \<noteq> 0 then os_attr_init os
      else if os_setstacksize os (tk_stacksize t) \<noteq> 0 then os_setstacksize os (tk_stacksize t)
      else if os_setschedpolicy os \<noteq> 0 then os_setschedpolicy os
      else if os_setschedparam os (tk_prio t) \<noteq> 0 then os_setschedparam os (tk_prio t)
      else if os_setinheritsched os \<noteq> 0 then os_setinheritsched os
      else if os_nprocs os > 1 \<and> os_rt_cpu_number os \<noteq> - 1
              \<and> os_setaffinity os (os_rt_cpu_number os) \<noteq> 0 then os_setaffinity os (os_rt_cpu_number os)
      else 0)"

definition task_start :: "pthread_os \<Rightarrow> int \<Rightarrow> 64 word \<Rightarrow> rtapp \<Rightarrow> int \<times> rtapp" where
  "task_start os task_id period_nsec a = (case get_task task_id a of
       None \<Rightarrow> (- EINVAL, a)
     | Some t \<Rightarrow>
         if tk_state t = TASK_S_RUNNING then (- EALREADY, a)
         else if tk_state t \<noteq> TASK_S_ALLOCATED then (- EINVAL, a)
         else let t = t\<lparr>tk_period := period_nsec, tk_pll_correction_limit := period_nsec div 100,
                        tk_pll_correction := 0\<rparr>;
                  n = nat task_id; ret = attr_setup os t in
         if ret \<noteq> 0 then (- ret, put_slot n (S_task (t\<lparr>tk_error_code := ret\<rparr>)) a)
         else let t = t\<lparr>tk_state := TASK_S_RUNNING\<rparr> in
         if os_create os \<noteq> 0 then
           (- os_create os,
            put_slot n (S_task (t\<lparr>tk_state := TASK_S_ALLOCATED, tk_error_code := os_create os\<rparr>)) a)
         else (0, put_slot n (S_task (t\<lparr>tk_thr := Th_created\<rparr>)) a))"

text \<open>
  \<open>task_delete\<close> cancels and joins \<open>thr\<close>; of a task that was never started there is no such
  thread. Every wait of a task thread is a cancellation point, so the join returns.
\<close>

definition task_delete :: "int \<Rightarrow> rtapp \<Rightarrow> (int \<times> rtapp) res" where
  "task_delete task_id a = (case get_task task_id a of
       None \<Rightarrow> Inr (- EINVAL, a)
     | Some t \<Rightarrow>
         if tk_state t = TASK_S_DELETED then Inr (- EALREADY, a)
         else if tk_state t = TASK_S_EMPTY \<or> tk_state t = TASK_S_INIT then Inr (- EINVAL, a)
         else if tk_thr t = Th_none then Inl UB
         else Inr (0, put_slot (nat task_id) S_null a))"

subsection \<open>The thread of a task\<close>

definition task_pause :: "int \<Rightarrow> rtapp \<Rightarrow> int \<times> rtapp" where
  "task_pause task_id a = (case get_task task_id a of
       None \<Rightarrow> (- EINVAL, a)
     | Some t \<Rightarrow>
         if tk_state t \<noteq> TASK_S_RUNNING then (- EINVAL, a)
         else (0, put_slot (nat task_id)
                (S_task (t\<lparr>tk_state := TASK_S_PAUSED, tk_pause_sem := tk_pause_sem t + 1\<rparr>)) a))"

definition task_resume :: "int \<Rightarrow> rtapp \<Rightarrow> int \<times> rtapp" where
  "task_resume task_id a = (case get_task task_id a of
       None \<Rightarrow> (- EINVAL, a)
     | Some t \<Rightarrow>
         if tk_state t \<noteq> TASK_S_PAUSED then (- EINVAL, a)
         else (0, put_slot (nat task_id) (S_task (t\<lparr>tk_resume_sem := tk_resume_sem t + 1\<rparr>)) a))"

text \<open>The start of \<open>wrapper\<close>, up to the call of \<open>taskcode\<close>.\<close>

definition wrapper :: "timespec \<Rightarrow> posix_task \<Rightarrow> posix_task" where
  "wrapper now t = t\<lparr>tk_nextstart := rtapi_timespec_advance now (tk_period t + tk_pll_correction t),
     tk_thr := Th_code\<rparr>"

text \<open>
  \<open>wait\<close> up to the point where it blocks or goes on: it consumes a pause request if there is one
  (\<open>sem_trywait\<close>), and then waits for \<open>resume_sem\<close>. The policy is \<open>SCHED_FIFO\<close>, so there is
  no thread lock. The rest of \<open>wait\<close> sets the next deadline and sleeps until it unless it has
  passed.
\<close>

datatype wait_result = Wait_paused | Wait_late | Wait_until timespec

definition wait_advance :: "timespec \<Rightarrow> posix_task \<Rightarrow> wait_result \<times> posix_task" where
  "wait_advance now t =
     (let next = rtapi_timespec_advance (tk_nextstart t) (tk_period t + tk_pll_correction t);
          t = t\<lparr>tk_nextstart := next\<rparr> in
      (if rtapi_timespec_less next now then Wait_late else Wait_until next, t))"

definition wait_enter :: "timespec \<Rightarrow> posix_task \<Rightarrow> wait_result \<times> posix_task" where
  "wait_enter now t =
     (if tk_pause_sem t > 0
      then (Wait_paused, t\<lparr>tk_pause_sem := tk_pause_sem t - 1, tk_thr := Th_paused\<rparr>)
      else wait_advance now t)"

definition wait_resumed :: "timespec \<Rightarrow> posix_task \<Rightarrow> wait_result \<times> posix_task" where
  "wait_resumed now t = wait_advance now
     (t\<lparr>tk_resume_sem := tk_resume_sem t - 1, tk_state := TASK_S_RUNNING, tk_thr := Th_code\<rparr>)"

text \<open>\<open>unexpected_realtime_delay\<close> prints its message the first time only.\<close>

definition unexpected_realtime_delay :: "wait_result \<Rightarrow> rtapp \<Rightarrow> rtapp" where
  "unexpected_realtime_delay r a = (if r = Wait_late then a\<lparr>printed := True\<rparr> else a)"

subsection \<open>Calls from a task's own thread\<close>

text \<open>The thread-specific pointer \<open>key\<close>: null outside task threads, or the task of a slot.\<close>

definition own_task :: "nat option \<Rightarrow> rtapp \<Rightarrow> posix_task option" where
  "own_task self a = (case self of None \<Rightarrow> None
     | Some n \<Rightarrow> (case task_array a ! n of S_task t \<Rightarrow> Some t | _ \<Rightarrow> None))"

definition task_self :: "nat option \<Rightarrow> rtapp \<Rightarrow> int" where
  "task_self self a = (case own_task self a of None \<Rightarrow> - EINVAL | Some t \<Rightarrow> tk_id t)"

definition task_pll_get_reference :: "nat option \<Rightarrow> rtapp \<Rightarrow> long" where
  "task_pll_get_reference self a = (case own_task self a of
       None \<Rightarrow> 0
     | Some t \<Rightarrow> tv_sec (tk_nextstart t) * 1000000000 + tv_nsec (tk_nextstart t))"

definition task_pll_set_correction :: "nat option \<Rightarrow> long \<Rightarrow> rtapp \<Rightarrow> int \<times> rtapp" where
  "task_pll_set_correction self v a = (case own_task self a of
       None \<Rightarrow> (- EINVAL, a)
     | Some t \<Rightarrow>
         let v = (if sint v > sint (tk_pll_correction_limit t) then tk_pll_correction_limit t else v);
             v = (if sint v < sint (- tk_pll_correction_limit t) then - tk_pll_correction_limit t else v) in
         (0, put_slot (the self) (S_task (t\<lparr>tk_pll_correction := v\<rparr>)) a))"

definition task_pll_get_correction :: "nat option \<Rightarrow> rtapp \<Rightarrow> int + long" where
  "task_pll_get_correction self a = (case own_task self a of
       None \<Rightarrow> Inl (- EINVAL)
     | Some t \<Rightarrow> Inr (tk_pll_correction t))"

definition clock_set_period :: "long \<Rightarrow> rtapp \<Rightarrow> long \<times> rtapp" where
  "clock_set_period nsecs a =
     (if nsecs = 0 then (rt_period a, a)
      else if rt_period a \<noteq> 0 then (- of_int EINVAL, a)
      else (nsecs, a\<lparr>rt_period := nsecs\<rparr>))"

end
