(* ===== verification/Hal_Sys.thy ===== *)
theory Hal_Sys
  imports Hal_Mount Shmem Rt_Tasks
begin

text \<open>
  The operations of \<open>hal/hal_lib.c\<close> that call RTAPI: \<open>hal_init\<close>, \<open>hal_exit\<close>,
  \<open>hal_create_thread\<close>, \<open>hal_thread_delete\<close>, \<open>hal_app_main\<close>, \<open>hal_app_exit\<close> and
  \<open>free_thread_struct\<close>. They work on the state of one process: the HAL's segment and static
  variables, the table of shared memory handles, and the table of tasks.
\<close>

unbundle bit_operations_syntax

section \<open>The state and its environment\<close>

record sys =
  s_hal :: hal
  s_shm :: shmem_st
  s_app :: rtapp

text \<open>
  The environment: the kernel (\<open>ev_os\<close>, \<open>ev_pthread\<close>, the limits of the priorities), what a
  newly mapped HAL segment contains (zeros when this call created it, otherwise what another process
  left there), the address of \<open>thread_task\<close>, and \<open>list_init_entry\<close>, which the repository
  declares and does not define.
\<close>

record env =
  ev_os :: os
  ev_pthread :: pthread_os
  ev_prio_highest :: int
  ev_prio_lowest :: int
  ev_segment :: hal
  ev_thread_task :: int
  ev_list_init :: "laddr \<Rightarrow> links \<Rightarrow> links"

definition HAL_KEY :: int where "HAL_KEY = 0x48414C32"
definition HAL_STACKSIZE :: "64 word" where "HAL_STACKSIZE = 16384"

text \<open>\<open>"%d"\<close>\<close>

fun decimal :: "nat \<Rightarrow> string" where
  "decimal n = (if n < 10 then [char_of (48 + n)] else decimal (n div 10) @ [char_of (48 + n mod 10)])"

definition format_d :: "int \<Rightarrow> string" where
  "format_d i = (if i < 0 then CHR ''-'' # decimal (nat (- i)) else decimal (nat i))"

section \<open>Calls of RTAPI\<close>

definition with_hal :: "(hal \<Rightarrow> hal) \<Rightarrow> sys \<Rightarrow> sys" where
  "with_hal f s = s\<lparr>s_hal := f (s_hal s)\<rparr>"

definition on_hal :: "(hal \<Rightarrow> ('a \<times> hal) res) \<Rightarrow> sys \<Rightarrow> ('a \<times> sys) res" where
  "on_hal f s = bnd (f (s_hal s)) (\<lambda>(r, h). Inr (r, s\<lparr>s_hal := h\<rparr>))"

definition lock_hal :: "sys \<Rightarrow> sys res" where
  "lock_hal s = bnd (hal_mutex_get (s_hal s)) (\<lambda>h. Inr (s\<lparr>s_hal := h\<rparr>))"

abbreviation unlock_hal :: "sys \<Rightarrow> sys" where
  "unlock_hal \<equiv> with_hal hal_mutex_give"

definition sys_rtapi_init :: "env \<Rightarrow> string \<Rightarrow> sys \<Rightarrow> (int \<times> sys) res" where
  "sys_rtapi_init env name s =
     bnd (rtapi_init (ev_os env) name (s_shm s)) (\<lambda>(r, m). Inr (r, s\<lparr>s_shm := m\<rparr>))"

definition sys_rtapi_exit :: "env \<Rightarrow> int \<Rightarrow> sys \<Rightarrow> sys" where
  "sys_rtapi_exit env module_id s = s\<lparr>s_shm := snd (rtapi_exit (ev_os env) module_id (s_shm s))\<rparr>"

text \<open>
  Releasing the HAL's segment: when the last reference has gone and the kernel has unmapped it, the
  pointer \<open>hal_data\<close> dangles.
\<close>

definition delete_segment :: "env \<Rightarrow> sys \<Rightarrow> sys" where
  "delete_segment env s =
     (let i = lib_mem_id (s_hal s); m = s_shm s;
          m' = snd (rtapi_shmem_delete (ev_os env) i (lib_module_id (s_hal s)) m);
          sh = sh_array m ! nat i;
          gone = (valid_handle i \<and> live sh \<and> (sh_state sh = SHMEM_S_ACTIVE \<or> sh_state sh = SHMEM_S_ATTACHED)
                  \<and> \<not> live (sh_array m' ! nat i) \<and> os_shmdt (ev_os env) (sh_mem sh) = None)
      in s\<lparr>s_shm := m', s_hal := (if gone then (s_hal s)\<lparr>hal_data := SP_stale\<rparr> else s_hal s)\<rparr>)"

text \<open>
  \<open>hal_data = mem\<close>. When this call has mapped the segment (its handle has one reference), the
  contents are those of the environment; otherwise the process has worked on them before.
\<close>

definition point_to_segment :: "env \<Rightarrow> sys \<Rightarrow> sys" where
  "point_to_segment env s =
     (let h = s_hal s;
          seg = (if sh_count (sh_array (s_shm s) ! nat (lib_mem_id h)) = 1
                 then (ev_segment env)\<lparr>ref_cnt := ref_cnt h, lib_module_id := lib_module_id h,
                        lib_mem_id := lib_mem_id h\<rparr>
                 else h)
      in s\<lparr>s_hal := seg\<lparr>hal_data := SP_mapped\<rparr>\<rparr>)"

section \<open>hal\_init\<close>

text \<open>
  The first part, which runs while \<open>lib_mem_id\<close> is zero: the result says whether the segment is
  ready.
\<close>

definition open_segment :: "env \<Rightarrow> sys \<Rightarrow> (bool \<times> sys) res" where
  "open_segment env s =
     (let mid = lib_module_id (s_hal s);
          (r, m) = rtapi_shmem_new (ev_os env) HAL_KEY mid HAL_SIZE (s_shm s);
          s = s\<lparr>s_shm := m, s_hal := (s_hal s)\<lparr>lib_mem_id := r\<rparr>\<rparr>
      in if r < 0 then Inr (False, sys_rtapi_exit env mid s)
         else case rtapi_shmem_getptr r m of
           Inl e \<Rightarrow> Inr (False, sys_rtapi_exit env mid s)
         | Inr mem \<Rightarrow>
             bnd (on_hal (init_hal_data (ev_list_init env) (os_getpid (ev_os env))) (point_to_segment env s))
               (\<lambda>(retval, s). if retval \<noteq> 0 then Inr (False, sys_rtapi_exit env mid s) else Inr (True, s)))"

definition init_lib :: "env \<Rightarrow> sys \<Rightarrow> (bool \<times> sys) res" where
  "init_lib env s =
     (if lib_mem_id (s_hal s) \<noteq> 0 then Inr (True, s)
      else if hal_data (s_hal s) = SP_stale then Inl UB
      else if hal_data (s_hal s) = SP_mapped \<and> hd_state (s_hal s) = HAL_S_DESTROYED then Inr (False, s)
      else bnd (sys_rtapi_init env (snprintf_s RTAPI_NAME_LEN (''HAL_LIB_'' @ format_d (os_getpid (ev_os env)))) s)
        (\<lambda>(mid, s). let s = with_hal (\<lambda>h. h\<lparr>lib_module_id := mid\<rparr>) s
           in if mid < 0 then Inr (False, s) else open_segment env s))"

text \<open>The fields of a new component. Its name is not among them.\<close>

definition push_comp :: "off \<Rightarrow> int \<Rightarrow> hal \<Rightarrow> hal" where
  "push_comp cp comp_id h =
     (let h = upd_comp cp (\<lambda>c. c\<lparr>c_comp_id := comp_id, c_type := COMPONENT_TYPE_REALTIME, c_pid := 0,
                c_ready := 0, c_shmem_base := B_base, c_insmod_args := 0\<rparr>) h;
          h = set_c_next cp (comp_list_ptr h) h
      in h\<lparr>comp_list_ptr := cp\<rparr>)"

definition init_comp :: "env \<Rightarrow> string \<Rightarrow> sys \<Rightarrow> (int \<times> sys) res" where
  "init_comp env name s =
     (let rtapi_name = snprintf_s RTAPI_NAME_LEN (''HAL_'' @ name);
          hal_name = snprintf_s (HAL_NAME_LEN + 1) name
      in bnd (sys_rtapi_init env rtapi_name s) (\<lambda>(comp_id, s).
           if comp_id < 0 then Inr (- EINVAL, s)
           else if hal_data (s_hal s) \<noteq> SP_mapped then Inl UB
           else bnd (lock_hal s) (\<lambda>s.
                bnd (halpr_find_comp_by_name hal_name (s_hal s)) (\<lambda>found.
                  if found \<noteq> 0 then Inr (- EINVAL, sys_rtapi_exit env comp_id (unlock_hal s))
                  else case halpr_alloc_comp_struct (s_hal s) of
                    (None, h) \<Rightarrow> Inr (- ENOMEM, sys_rtapi_exit env comp_id (unlock_hal (s\<lparr>s_hal := h\<rparr>)))
                  | (Some cp, h) \<Rightarrow>
                      let s = unlock_hal (s\<lparr>s_hal := push_comp cp comp_id h\<rparr>);
                          s = with_hal (upd_comp cp (\<lambda>c. c\<lparr>c_type := COMPONENT_TYPE_REALTIME, c_pid := 0\<rparr>)) s
                      in Inr (comp_id, with_hal (\<lambda>h. h\<lparr>ref_cnt := ref_cnt h + 1\<rparr>) s)))))"

definition hal_init :: "env \<Rightarrow> string option \<Rightarrow> sys \<Rightarrow> (int \<times> sys) res" where
  "hal_init env name s =
     (case name of
        None \<Rightarrow> Inr (- EINVAL, s)
      | Some name \<Rightarrow>
          if length name > HAL_NAME_LEN then Inr (- EINVAL, s)
          else bnd (init_lib env s) (\<lambda>(ok, s). if ok then init_comp env name s else Inr (- EINVAL, s)))"

section \<open>hal\_exit\<close>

definition hal_exit :: "env \<Rightarrow> int \<Rightarrow> sys \<Rightarrow> (int \<times> sys) res" where
  "hal_exit env comp_id s =
     (if hal_data (s_hal s) = SP_null then Inr (- EINVAL, s)
      else if hal_data (s_hal s) = SP_stale then Inl UB
      else if hd_state (s_hal s) = HAL_S_DESTROYED then Inr (- EALREADY, s)
      else bnd (lock_hal s) (\<lambda>s.
           bnd (loop_res (unlink_walk (\<lambda>p. c_next (comps (s_hal s) p)) (\<lambda>p. c_comp_id (comps (s_hal s) p) = comp_id)
                  At_head (comp_list_ptr (s_hal s)))) (\<lambda>place.
             case place of
               None \<Rightarrow> Inr (- EINVAL, unlock_hal s)
             | Some (prev, cp) \<Rightarrow>
                 bnd (free_comp_struct cp (put_comp_link prev (c_next (comps (s_hal s) cp)) (s_hal s))) (\<lambda>h.
                   let s = unlock_hal (s\<lparr>s_hal := h\<rparr>);
                       s = with_hal (\<lambda>h. h\<lparr>ref_cnt := ref_cnt h - 1\<rparr>) s
                   in Inr (0, sys_rtapi_exit env comp_id s)))))"

section \<open>Threads\<close>

text \<open>The loop that clears the list of entries of a thread.\<close>

partial_function (option) clear_entries :: "laddr \<Rightarrow> laddr \<Rightarrow> hal \<Rightarrow> hal res option" where
  "clear_entries root entry h =
     (if entry = root then Some (Inr h)
      else case entry_of entry of
             None \<Rightarrow> Some (Inl UB)
           | Some p \<Rightarrow> clear_entries root (fst (list_remove_entry entry (links h)))
                        (free_funct_entry_struct p (h\<lparr>links := snd (list_remove_entry entry (links h))\<rparr>)))"

definition free_thread_struct :: "off \<Rightarrow> sys \<Rightarrow> sys res" where
  "free_thread_struct t s =
     (let s = with_hal (\<lambda>h. h\<lparr>threads_running := 0\<rparr>) s;
          tid = t_task_id (threads (s_hal s) t)
      in bnd (task_delete tid (snd (task_pause tid (s_app s)))) (\<lambda>(_, app).
         let h = upd_thread t (\<lambda>x. x\<lparr>t_uses_fp := 0, t_period := 0, t_priority := 0, t_task_id := 0\<rparr>) (s_hal s)
         in bnd (loop_join (clear_entries (Thread_root t) (list_next (links h) (Thread_root t)) h)) (\<lambda>h.
            let h = upd_thread t (\<lambda>x. x\<lparr>t_name := []\<rparr>) h;
                h = set_t_next t (thread_free_ptr h) h
            in Inr (s\<lparr>s_hal := h\<lparr>thread_free_ptr := t\<rparr>, s_app := app\<rparr>))))"

text \<open>
  The period of the first thread becomes the period of the clock, unless the clock has one already.
  The result says whether the clock is fast enough: at most 1\% above the wish.
\<close>

definition clock_for :: "64 word \<Rightarrow> rtapp \<Rightarrow> bool \<times> rtapp" where
  "clock_for period_nsec app =
     (let (curr_period, app) = clock_set_period 0 app;
          fits = (\<lambda>p. \<not> sint p > sint (period_nsec + period_nsec div 100))
      in if curr_period = 0
         then let (curr_period, app) = clock_set_period period_nsec app
              in if sint curr_period < 0 then (False, app) else (fits curr_period, app)
         else (fits curr_period, app))"

text \<open>From setting the period to the insertion in the list; \<open>False\<close> after a rollback.\<close>

definition start_thread :: "env \<Rightarrow> off \<Rightarrow> 64 word \<Rightarrow> int \<Rightarrow> int \<Rightarrow> sys \<Rightarrow> (bool \<times> sys) res" where
  "start_thread env t period_nsec uses_fp priority s =
     (let s = with_hal (upd_thread t (\<lambda>x. x\<lparr>t_period := sint period_nsec, t_priority := priority\<rparr>)) s;
          (retval, app) = task_new (ev_prio_highest env) (ev_prio_lowest env) (os_getpid (ev_os env))
             (ev_thread_task env) t priority (lib_module_id (s_hal s)) HAL_STACKSIZE uses_fp (s_app s);
          s = s\<lparr>s_app := app\<rparr>
      in if retval < 0 then bnd (free_thread_struct t s) (\<lambda>s. Inr (False, s))
         else
           let tid = retval; s = with_hal (upd_thread t (\<lambda>x. x\<lparr>t_task_id := tid\<rparr>)) s;
               (retval, app) = task_start (ev_pthread env) tid (word_of_int (t_period (threads (s_hal s) t))) (s_app s);
               s = s\<lparr>s_app := app\<rparr>
           in if retval < 0
              then bnd (task_delete tid (s_app s)) (\<lambda>(_, app).
                   bnd (free_thread_struct t (s\<lparr>s_app := app\<rparr>)) (\<lambda>s. Inr (False, s)))
              else Inr (True, with_hal (\<lambda>h. (set_t_next t (thread_list_ptr h) h)\<lparr>thread_list_ptr := t\<rparr>) s))"

text \<open>The pseudo component of a thread, with its parameter and its pin.\<close>

definition register_thread :: "env \<Rightarrow> off \<Rightarrow> sys \<Rightarrow> (int \<times> sys) res" where
  "register_thread env t s =
     (let name = t_name (threads (s_hal s) t)
      in bnd (hal_init env (Some (snprintf_s (HAL_NAME_LEN + 1) (''__'' @ name))) s) (\<lambda>(cid, s).
         let s = with_hal (upd_thread t (\<lambda>x. x\<lparr>t_comp_id := cid\<rparr>)) s
         in if cid < 0 then Inr (- EINVAL, s)
            else
              let buf = snprintf_s (HAL_NAME_LEN + 1) (name @ ''.tmax'');
                  s = with_hal (upd_thread t (\<lambda>x. x\<lparr>t_maxtime := 0\<rparr>)) s
              in bnd (on_hal (hal_param_s32_new buf HAL_RW HAL_S32 (A_thread_maxtime t) cid) s) (\<lambda>(r, s).
                 if r \<noteq> 0 then Inr (- EINVAL, s)
                 else bnd (on_hal (hal_pin_newf HAL_S32 (Cell_thread t) cid (name @ ''.time'')) s) (\<lambda>(r, s).
                 if r \<noteq> 0 then Inr (- EINVAL, s)
                 else bnd (clear_runtime (t_runtime (threads (s_hal s) t)) (s_hal s)) (\<lambda>h.
                      bnd (on_hal (hal_ready cid) (s\<lparr>s_hal := h\<rparr>)) (\<lambda>(_, s). Inr (cid, s)))))))"

definition hal_create_thread :: "env \<Rightarrow> string option \<Rightarrow> 64 word \<Rightarrow> int \<Rightarrow> int \<Rightarrow> sys \<Rightarrow> (int \<times> sys) res" where
  "hal_create_thread env name period_nsec uses_fp priority s =
     (if hal_data (s_hal s) = SP_null then Inr (- EINVAL, s)
      else if period_nsec = 0 then Inr (- EINVAL, s)
      else case name of
        None \<Rightarrow> Inl UB
      | Some name \<Rightarrow>
        if length name > HAL_NAME_LEN then Inr (- EINVAL, s)
        else if hal_data (s_hal s) = SP_stale then Inl UB
        else if hd_lock (s_hal s) AND HAL_LOCK_CONFIG \<noteq> 0 then Inr (- EPERM, s)
        else
          bnd (lock_hal s) (\<lambda>s.
          bnd (loop_res (walk (\<lambda>p. t_next (threads (s_hal s) p)) (\<lambda>p. strcmp (t_name (threads (s_hal s) p)) name = 0)
                 (thread_list_ptr (s_hal s)))) (\<lambda>found.
            if found \<noteq> 0 then Inr (- EINVAL, unlock_hal s)
            else case alloc_thread_struct (ev_list_init env) (s_hal s) of
              (None, h) \<Rightarrow> Inr (- ENOMEM, unlock_hal (s\<lparr>s_hal := h\<rparr>))
            | (Some t, h) \<Rightarrow>
                let s = s\<lparr>s_hal := upd_thread t (\<lambda>x. x\<lparr>t_uses_fp := uses_fp,
                          t_name := snprintf_s (HAL_NAME_LEN + 1) name\<rparr>) h\<rparr>;
                    (fits, app) = (if thread_list_ptr (s_hal s) = 0 then clock_for period_nsec (s_app s)
                                   else (True, s_app s));
                    s = s\<lparr>s_app := app\<rparr>
                in if \<not> fits then bnd (free_thread_struct t s) (\<lambda>s. Inr (- EINVAL, unlock_hal s))
                   else bnd (start_thread env t period_nsec uses_fp priority s) (\<lambda>(ok, s).
                        if ok then register_thread env t (unlock_hal s) else Inr (- EINVAL, unlock_hal s)))))"

text \<open>
  The loop of \<open>hal_thread_delete\<close>. It takes the place of the thread before \<open>hal_exit\<close> runs and
  uses it afterwards.
\<close>

definition hal_thread_delete :: "env \<Rightarrow> string option \<Rightarrow> sys \<Rightarrow> (int \<times> sys) res" where
  "hal_thread_delete env name s =
     (if hal_data (s_hal s) = SP_null then Inr (- EINVAL, s)
      else if hal_data (s_hal s) = SP_stale then Inl UB
      else if hd_lock (s_hal s) AND HAL_LOCK_CONFIG \<noteq> 0 then Inr (- EPERM, s)
      else if hd_state (s_hal s) \<noteq> HAL_S_ACTIVE \<and> hd_state (s_hal s) \<noteq> HAL_S_RUNNING then Inr (- EINVAL, s)
      else
        bnd (lock_hal s) (\<lambda>s.
          if thread_list_ptr (s_hal s) = 0 then Inr (- EINVAL, unlock_hal s)
          else case name of
            None \<Rightarrow> Inl UB
          | Some name \<Rightarrow>
            bnd (loop_res (unlink_walk (\<lambda>p. t_next (threads (s_hal s) p))
                   (\<lambda>p. strcmp (t_name (threads (s_hal s) p)) name = 0) At_head (thread_list_ptr (s_hal s)))) (\<lambda>place.
              case place of
                None \<Rightarrow> Inr (- EINVAL, unlock_hal s)
              | Some (prev, t) \<Rightarrow>
                  bnd (if t_comp_id (threads (s_hal s) t) \<noteq> 0
                       then bnd (hal_exit env (t_comp_id (threads (s_hal s) t)) s) (\<lambda>(_, s).
                              Inr (with_hal (upd_thread t (\<lambda>x. x\<lparr>t_comp_id := 0\<rparr>)) s))
                       else Inr s) (\<lambda>s.
                  bnd (free_thread_struct t (with_hal (put_link (\<lambda>v h. h\<lparr>thread_list_ptr := v\<rparr>) set_t_next prev
                         (t_next (threads (s_hal s) t))) s)) (\<lambda>s.
                  Inr (0, unlock_hal s))))))"

section \<open>Start and end of the HAL\<close>

definition hal_app_main :: "env \<Rightarrow> sys \<Rightarrow> (int \<times> sys) res" where
  "hal_app_main env s =
     bnd (sys_rtapi_init env ''HAL_LIB'' s) (\<lambda>(mid, s).
       let s = with_hal (\<lambda>h. h\<lparr>lib_module_id := mid\<rparr>) s
       in if mid < 0 then Inr (- EINVAL, s)
          else
            let (r, m) = rtapi_shmem_new (ev_os env) HAL_KEY mid HAL_SIZE (s_shm s);
                s = s\<lparr>s_shm := m, s_hal := (s_hal s)\<lparr>lib_mem_id := r\<rparr>\<rparr>
            in if r < 0 then Inr (- EINVAL, sys_rtapi_exit env mid s)
               else case rtapi_shmem_getptr r m of
                 Inl e \<Rightarrow> Inr (- EINVAL, sys_rtapi_exit env mid (delete_segment env s))
               | Inr mem \<Rightarrow>
                   let s = with_hal (\<lambda>h. h\<lparr>hd_state := HAL_S_INITIALIZING, hd_error_code := 0\<rparr>) (point_to_segment env s)
                   in bnd (on_hal (init_hal_data (ev_list_init env) (os_getpid (ev_os env))) s) (\<lambda>(retval, s).
                      if retval \<noteq> 0 then Inr (- EINVAL, sys_rtapi_exit env mid (delete_segment env s))
                      else Inr (0, s)))"

text \<open>\<open>while (hal_data->thread_list_ptr != 0)\<close>\<close>

partial_function (option) delete_threads :: "sys \<Rightarrow> sys res option" where
  "delete_threads s =
     (let t = thread_list_ptr (s_hal s)
      in if t = 0 then Some (Inr s)
         else case free_thread_struct t (with_hal (\<lambda>h. h\<lparr>thread_list_ptr := t_next (threads h t)\<rparr>) s) of
                Inl e \<Rightarrow> Some (Inl e)
              | Inr s \<Rightarrow> delete_threads s)"

text \<open>The last statement writes to the segment.\<close>

definition hal_app_exit :: "env \<Rightarrow> sys \<Rightarrow> sys res" where
  "hal_app_exit env s =
     (if hal_data (s_hal s) = SP_null then Inr s
      else if hal_data (s_hal s) = SP_stale then Inl UB
      else if hd_state (s_hal s) = HAL_S_DESTROYED then Inr s
      else
        bnd (lock_hal (with_hal (\<lambda>h. h\<lparr>hd_state := HAL_S_SHUTTING_DOWN\<rparr>) s)) (\<lambda>s.
        bnd (loop_join (delete_threads s)) (\<lambda>s.
          let s = delete_segment env (unlock_hal s);
              s = sys_rtapi_exit env (lib_module_id (s_hal s)) s
          in if hal_data (s_hal s) = SP_stale then Inl UB
             else Inr (with_hal (\<lambda>h. h\<lparr>hd_state := HAL_S_DESTROYED\<rparr>) s))))"

end
