(* ===== verification/Hal_Modules.thy ===== *)
theory Hal_Modules
  imports Hal_Sys
begin

text \<open>
  Modules of the HAL: what \<open>hal_init\<close> and \<open>hal_exit\<close> do to a process whose library part is
  set up. The module ids come from RTAPI, the component structs from the pool of the segment.
\<close>

section \<open>A new component\<close>

lemma alloc_comp_Some:
  assumes "hal_rep h G" "halpr_alloc_comp_struct h = (Some n, t)"
  obtains cm fr tp av where "t = h\<lparr>shmem_avail := av, shmem_top := tp, comp_free_ptr := fr, comps := cm\<rparr>"
    and "spare (\<lambda>p. c_next (cm p)) (comp_list_ptr h) fr tp sizeof_hal_comp n (s_comps G) (tl (s_comps_free G))"
    and "\<forall>p. p \<noteq> n \<longrightarrow> cm p = comps h p" "c_name (cm n) = []"
    and "area_wf t" "tp \<le> shmem_top h"
    and "if s_comps_free G = [] then n = tp \<and> n + sizeof_hal_comp \<le> shmem_top h
         else n = hd (s_comps_free G) \<and> tp = shmem_top h"
    and "shmem_top h - 128 \<le> tp"
proof -
  from assms(2) obtain t' where t': "take_struct comp_free_ptr (\<lambda>v h. h\<lparr>comp_free_ptr := v\<rparr>)
      (\<lambda>h p. c_next (comps h p)) set_c_next (shmalloc_dn sizeof_hal_comp) h = (Some n, t')"
    and t: "t = upd_comp n (\<lambda>s. s\<lparr>c_next := 0, c_comp_id := 0, c_mem_id := 0,
            c_type := COMPONENT_TYPE_USER, c_shmem_base := B_null, c_name := []\<rparr>) t'"
    by (auto simp: halpr_alloc_comp_struct_def split: prod.splits option.splits)
  from assms(1) have a: "area_wf h" and p: "pool (\<lambda>p. c_next (comps h p)) (comp_list_ptr h) (comp_free_ptr h)
      (shmem_top h) sizeof_hal_comp (s_comps G) (s_comps_free G)"
    by (auto simp: hal_rep_def comps_ok_def)
  note T = comp_pool.take_Some [OF a p t']
  have "t' = h\<lparr>shmem_avail := shmem_avail t', shmem_top := shmem_top t', comp_free_ptr := comp_free_ptr t',
      comps := comps t'\<rparr> \<and> (\<forall>p. p \<noteq> n \<longrightarrow> comps t' p = comps h p) \<and> shmem_top h - 128 \<le> shmem_top t'"
  proof (cases "comp_free_ptr h = 0")
    case True
    with t' have "shmalloc_dn sizeof_hal_comp h = (Some n, t')" by (simp add: take_struct_def)
    then show ?thesis using shmalloc_dn_room(1) [OF a sizeof_pos(1), of n t']
      by (auto dest!: shmalloc_dn_frame simp: sizeof_hal_comp_def)
  next
    case False
    with t' have "n = comp_free_ptr h \<and> t' = set_c_next n 0 (h\<lparr>comp_free_ptr := c_next (comps h n)\<rparr>)"
      by (auto simp: take_struct_def Let_def)
    then show ?thesis by (auto simp: set_c_next_def upd_comp_def)
  qed
  then obtain av tp fr cm where f: "t' = h\<lparr>shmem_avail := av, shmem_top := tp, comp_free_ptr := fr, comps := cm\<rparr>"
    "\<And>p. p \<noteq> n \<Longrightarrow> cm p = comps h p" "shmem_top h - 128 \<le> tp" by auto
  show ?thesis
  proof (rule that)
    show "t = h\<lparr>shmem_avail := av, shmem_top := tp, comp_free_ptr := fr, comps := comps t\<rparr>"
      by (simp add: t f(1) upd_comp_def)
    show "spare (\<lambda>p. c_next (comps t p)) (comp_list_ptr h) fr tp sizeof_hal_comp n (s_comps G) (tl (s_comps_free G))"
      using T by (auto simp: t f(1) upd_comp_heap elim!: spare_next)
  qed (use T f(2,3) in \<open>auto simp: t f(1) split: if_splits\<close>)
qed

text \<open>Whether a component struct can be had.\<close>

definition comp_room :: "hal \<Rightarrow> shape \<Rightarrow> bool" where
  "comp_room h G \<longleftrightarrow> s_comps_free G \<noteq> [] \<or> fst (shmalloc_dn sizeof_hal_comp h) \<noteq> None"

lemma comp_room_lock [simp]: "comp_room (h\<lparr>hd_mutex := m\<rparr>) G = comp_room h G"
  by (simp add: comp_room_def shmalloc_dn_def Let_def)

lemma alloc_comp_None:
  assumes "hal_rep h G"
  shows "fst (halpr_alloc_comp_struct h) = None \<longleftrightarrow> \<not> comp_room h G"
    and "halpr_alloc_comp_struct h = (None, t) \<Longrightarrow> t = h"
proof -
  note P = hal_rep_parts(1,2) [OF assms, unfolded comps_ok_def]
  have "comp_free_ptr h = 0 \<longleftrightarrow> s_comps_free G = []"
    using P(2) chain_nz by (cases "s_comps_free G") (auto simp: pool_def)
  then show "fst (halpr_alloc_comp_struct h) = None \<longleftrightarrow> \<not> comp_room h G"
    by (auto simp: halpr_alloc_comp_struct_def comp_room_def take_struct_def Let_def split: prod.splits option.splits)
  show "halpr_alloc_comp_struct h = (None, t) \<Longrightarrow> t = h"
    using comp_pool.take_None [OF P] by (auto simp: halpr_alloc_comp_struct_def split: prod.splits option.splits)
qed

text \<open>A component has been added at the head of the list: nothing else has changed.\<close>

definition added_comp :: "off \<Rightarrow> int \<Rightarrow> hal \<Rightarrow> shape \<Rightarrow> hal \<Rightarrow> bool" where
  "added_comp cp i h G h' \<longleftrightarrow> hal_rep h' (G\<lparr>s_comps := cp # s_comps G, s_comps_free := tl (s_comps_free G)\<rparr>) \<and>
     cp \<notin> set (s_comps G) \<and> c_comp_id (comps h' cp) = i \<and> c_name (comps h' cp) = [] \<and> c_ready (comps h' cp) = 0 \<and>
     c_type (comps h' cp) = COMPONENT_TYPE_REALTIME \<and> c_shmem_base (comps h' cp) = B_base \<and>
     (\<exists>cm fr tp av rc. h' = h\<lparr>comps := cm, comp_list_ptr := cp, comp_free_ptr := fr, shmem_top := tp, shmem_avail := av, ref_cnt := rc\<rparr>
        \<and> (\<forall>p. p \<noteq> cp \<longrightarrow> cm p = comps h p) \<and> shmem_top h - 128 \<le> tp)"

lemma added_comp_facts:
  assumes "added_comp cp i h G h'"
  shows "hal_rep h' (G\<lparr>s_comps := cp # s_comps G, s_comps_free := tl (s_comps_free G)\<rparr>)"
    "cp \<notin> set (s_comps G)" "c_comp_id (comps h' cp) = i" "c_name (comps h' cp) = []" "c_ready (comps h' cp) = 0"
    "c_type (comps h' cp) = COMPONENT_TYPE_REALTIME" "\<forall>p. p \<noteq> cp \<longrightarrow> comps h' p = comps h p" "pins h' = pins h"
    "params h' = params h" "functs h' = functs h" "threads h' = threads h"
  using assms by (auto simp: added_comp_def)

lemma push_comp_rep:
  assumes rep: "hal_rep h G" and al: "halpr_alloc_comp_struct h = (Some n, t)"
  shows "added_comp n i h G (push_comp n i t)"
proof -
  obtain cm fr tp av where t: "t = h\<lparr>shmem_avail := av, shmem_top := tp, comp_free_ptr := fr, comps := cm\<rparr>"
    and sp: "spare (\<lambda>p. c_next (cm p)) (comp_list_ptr h) fr tp sizeof_hal_comp n (s_comps G) (tl (s_comps_free G))"
    and cm: "\<forall>p. p \<noteq> n \<longrightarrow> cm p = comps h p" "c_name (cm n) = []"
    and a: "area_wf t" "tp \<le> shmem_top h"
    and n: "if s_comps_free G = [] then n = tp \<and> n + sizeof_hal_comp \<le> shmem_top h
         else n = hd (s_comps_free G) \<and> tp = shmem_top h"
    and low: "shmem_top h - 128 \<le> tp"
    by (rule alloc_comp_Some [OF rep al])
  let ?k = "upd_comp n (\<lambda>c. c\<lparr>c_comp_id := i, c_type := COMPONENT_TYPE_REALTIME, c_pid := 0,
                c_ready := 0, c_shmem_base := B_base, c_insmod_args := 0\<rparr>) t"
  let ?h = "push_comp n i t"
  let ?G = "G\<lparr>s_comps := n # s_comps G, s_comps_free := tl (s_comps_free G)\<rparr>"
  have sk: "spare (\<lambda>p. c_next (comps ?k p)) (comp_list_ptr ?k) (comp_free_ptr ?k) (shmem_top ?k) sizeof_hal_comp n
      ([] @ s_comps G) (tl (s_comps_free G))"
    using sp by (auto simp: t upd_comp_heap elim!: spare_next)
  have nx: "comp_list_ptr ?k = (case s_comps G of [] \<Rightarrow> 0 | v # _ \<Rightarrow> v)"
    using sp by (cases "s_comps G") (auto simp: spare_def pool_def t)
  have hk: "?h = link_in (\<lambda>v h. h\<lparr>comp_list_ptr := v\<rparr>) set_c_next (link_of []) (comp_list_ptr ?k) n ?k"
    by (simp add: push_comp_def link_in_def put_link_def Let_def)
  have ok: "comps_ok ?h ?G"
    using comp_pool.link_in_pool [OF sk nx hk] by (simp add: comps_ok_def)
  have h: "?h = h\<lparr>comps := comps ?h, comp_list_ptr := n, comp_free_ptr := fr, shmem_top := tp, shmem_avail := av, ref_cnt := ref_cnt h\<rparr>"
    by (simp add: push_comp_def Let_def t set_c_next_def upd_comp_def)
  have cs: "\<forall>p. p \<noteq> n \<longrightarrow> comps ?h p = comps h p"
    using cm(1) by (simp add: push_comp_def Let_def t set_c_next_def upd_comp_heap)
  note P = hal_rep_parts [OF rep]
  have rep': "hal_rep ?h ?G"
  proof (rule hal_rep_step [OF rep])
    show "area_wf ?h" using a(1) by (simp add: push_comp_def Let_def set_c_next_def)
    show "blocks ?G = blocks G \<or> (\<exists>m sz. blocks ?G = insert (m, sz) (blocks G) \<and> m + sz \<le> shmem_top h)"
    proof (cases "s_comps_free G")
      case Nil
      then have "blocks ?G = insert (n, sizeof_hal_comp) (blocks G)" by (auto simp: blocks_def all_entries_def)
      with n Nil show ?thesis by auto
    next
      case (Cons y ys)
      with n have "blocks ?G = blocks G" by (auto simp: blocks_def all_entries_def)
      then show ?thesis by simp
    qed
    have tp: "shmem_top ?h \<le> shmem_top h" using a(2) by (subst h) simp
    show "pins_ok ?h ?G" by (rule pins_ok_frame [OF P(3) _ tp]) (subst h, simp_all add: keeps_defs)
    show "params_ok ?h ?G" by (rule params_ok_frame [OF P(4) _ tp]) (subst h, simp_all add: keeps_defs)
    show "functs_ok ?h ?G" by (rule functs_ok_frame [OF P(5) _ tp]) (subst h, simp_all add: keeps_defs)
    show "threads_ok ?h ?G" by (rule threads_ok_frame [OF P(6) _ tp]) (subst h, simp_all add: keeps_defs)
    show "rings_ok ?h ?G" by (rule rings_ok_frame [OF P(7) _ tp]) (subst h, simp_all add: keeps_defs)
    show "users_ok ?h ?G" by (rule users_ok_frame [OF P(8)]) (subst h, simp_all add: keeps_defs)
  qed (rule ok)
  have fields: "c_comp_id (comps ?h n) = i" "c_name (comps ?h n) = []" "c_ready (comps ?h n) = 0"
    "c_type (comps ?h n) = COMPONENT_TYPE_REALTIME" "c_shmem_base (comps ?h n) = B_base"
    using cm(2) by (simp_all add: push_comp_def Let_def t set_c_next_def)
  have "n \<notin> set (s_comps G)" using sp by (simp add: spare_def)
  with rep' fields cs h low show ?thesis unfolding added_comp_def by blast
qed

lemma find_comp_by_name:
  assumes "hal_rep h G"
  shows "halpr_find_comp_by_name nm h =
    Inr (case find (\<lambda>p. c_name (comps h p) = nm) (s_comps G) of None \<Rightarrow> 0 | Some p \<Rightarrow> p)"
  using assms walk_chain [of "\<lambda>p. c_next (comps h p)" "comp_list_ptr h" "s_comps G"]
  by (simp add: hal_rep_def comps_ok_def pool_def halpr_find_comp_by_name_def)

definition comp_names :: "hal \<Rightarrow> shape \<Rightarrow> string set" where
  "comp_names h G = (\<lambda>p. c_name (comps h p)) ` set (s_comps G)"

lemma find_comp_name_iff:
  assumes "hal_rep h G"
  shows "\<exists>p. halpr_find_comp_by_name nm h = Inr p \<and> (p \<noteq> 0 \<longleftrightarrow> nm \<in> comp_names h G)"
  using comps_nonzero [OF assms]
  by (auto simp: find_comp_by_name [OF assms] comp_names_def find_None_iff find_Some_iff split: option.splits)

section \<open>What hal\_init returns\<close>

definition init_verdict :: "hal \<Rightarrow> shape \<Rightarrow> string option \<Rightarrow> int \<Rightarrow> int" where
  "init_verdict h G name new_id = (case name of
       None \<Rightarrow> - EINVAL
     | Some nm \<Rightarrow> if length nm > HAL_NAME_LEN then - EINVAL
                  else if nm \<in> comp_names h G then - EINVAL
                  else if \<not> comp_room h G then - ENOMEM
                  else new_id)"

text \<open>The library part is set up: the segment is mapped and well-formed, and the module ids are ready.\<close>

definition lib_ready :: "sys \<Rightarrow> shape \<Rightarrow> int \<Rightarrow> int \<Rightarrow> bool" where
  "lib_ready s G v n \<longleftrightarrow> hal_inv (s_hal s) \<and> hal_rep (s_hal s) G \<and> lib_mem_id (s_hal s) \<noteq> 0 \<and>
     module_ids v n (s_shm s) \<and> 1 \<le> n \<and> 0 \<le> v \<and> v + 1 < 2 ^ 31"

lemma lock_hal_free: "\<not> locked (hd_mutex (s_hal s)) \<Longrightarrow>
    lock_hal s = Inr (s\<lparr>s_hal := (s_hal s)\<lparr>hd_mutex := set_lock (hd_mutex (s_hal s))\<rparr>\<rparr>)"
  by (simp add: lock_hal_def)

lemma added_comp_give:
  assumes "added_comp cp i (h\<lparr>hd_mutex := m\<rparr>) G h'" "\<not> locked (hd_mutex h)" "hal_data h = SP_mapped"
    and "m = set_lock (hd_mutex h)"
  shows "added_comp cp i h G (hal_mutex_give h'\<lparr>ref_cnt := rc\<rparr>)" "hal_inv (hal_mutex_give h'\<lparr>ref_cnt := rc\<rparr>)"
    "lib_mem_id (hal_mutex_give h') = lib_mem_id h" "ref_cnt (hal_mutex_give h') = ref_cnt h'"
proof -
  let ?G = "G\<lparr>s_comps := cp # s_comps G, s_comps_free := tl (s_comps_free G)\<rparr>"
  from assms(1) obtain cm fr tp av rc' where h': "h' = h\<lparr>hd_mutex := m, comps := cm, comp_list_ptr := cp, comp_free_ptr := fr,
      shmem_top := tp, shmem_avail := av, ref_cnt := rc'\<rparr>" and cm: "\<forall>p. p \<noteq> cp \<longrightarrow> cm p = comps h p"
    and low: "shmem_top h - 128 \<le> tp"
    by (auto simp: added_comp_def)
  have rep: "hal_rep h' ?G" using assms(1) by (simp add: added_comp_def)
  have give: "hal_mutex_give h'\<lparr>ref_cnt := rc\<rparr> = h\<lparr>comps := cm, comp_list_ptr := cp, comp_free_ptr := fr,
      shmem_top := tp, shmem_avail := av, ref_cnt := rc\<rparr>"
    using assms(2,4) by (simp add: h' hal_mutex_give_def)
  have rep': "hal_rep (hal_mutex_give h'\<lparr>ref_cnt := rc\<rparr>) ?G"
    by (rule hal_rep_frame [OF rep]) (simp_all add: hal_mutex_give_def keeps_defs)
  then show "hal_inv (hal_mutex_give h'\<lparr>ref_cnt := rc\<rparr>)"
    using assms(2,3) by (auto simp: hal_inv_def give)
  show "added_comp cp i h G (hal_mutex_give h'\<lparr>ref_cnt := rc\<rparr>)"
    unfolding added_comp_def
  proof (intro conjI)
    show "\<exists>cma fra tpa ava rca. hal_mutex_give h'\<lparr>ref_cnt := rc\<rparr> = h\<lparr>comps := cma, comp_list_ptr := cp, comp_free_ptr := fra,
        shmem_top := tpa, shmem_avail := ava, ref_cnt := rca\<rparr> \<and> (\<forall>p. p \<noteq> cp \<longrightarrow> cma p = comps h p) \<and> shmem_top h - 128 \<le> tpa"
      using give cm low by blast
  qed (use assms(1) rep' in \<open>simp_all add: added_comp_def hal_mutex_give_def\<close>)
  show "lib_mem_id (hal_mutex_give h') = lib_mem_id h" "ref_cnt (hal_mutex_give h') = ref_cnt h'"
    by (simp_all add: h' hal_mutex_give_def)
qed

lemma push_again:
  "upd_comp cp (\<lambda>c. c\<lparr>c_type := COMPONENT_TYPE_REALTIME, c_pid := 0\<rparr>) (hal_mutex_give (push_comp cp i h)) =
     hal_mutex_give (push_comp cp i h)"
proof -
  have "c_type (comps (hal_mutex_give (push_comp cp i h)) cp) = COMPONENT_TYPE_REALTIME"
    "c_pid (comps (hal_mutex_give (push_comp cp i h)) cp) = 0"
    by (simp_all add: push_comp_def Let_def set_c_next_def hal_mutex_give_def)
  then have "(comps (hal_mutex_give (push_comp cp i h)) cp)\<lparr>c_type := COMPONENT_TYPE_REALTIME, c_pid := 0\<rparr>
      = comps (hal_mutex_give (push_comp cp i h)) cp" by (intro hal_comp.equality) simp_all
  then show ?thesis by (simp add: upd_comp_def)
qed

lemma hal_init_run:
  assumes "lib_ready s G v n"
  shows "\<exists>r s'. hal_init env name s = Inr (r, s') \<and> r = init_verdict (s_hal s) G name (v + 1) \<and> s_app s' = s_app s \<and>
    (r < 0 \<longrightarrow> s_hal s' = s_hal s \<and> (\<exists>w. module_ids w n (s_shm s'))) \<and>
    (0 \<le> r \<longrightarrow> hal_inv (s_hal s') \<and> module_ids (v + 1) (n + 1) (s_shm s') \<and> lib_mem_id (s_hal s') = lib_mem_id (s_hal s) \<and>
       same_segments (s_shm s) (s_shm s') \<and>
       ref_cnt (s_hal s') = ref_cnt (s_hal s) + 1 \<and> (\<exists>cp. added_comp cp r (s_hal s) G (s_hal s')))"
proof -
  let ?h = "s_hal s"
  from assms have inv: "hal_inv ?h" and rep: "hal_rep ?h G" and lib: "lib_mem_id ?h \<noteq> 0"
    and ids: "module_ids v n (s_shm s)" and n: "1 \<le> n" and v: "0 \<le> v" "v + 1 < 2 ^ 31" by (auto simp: lib_ready_def)
  have v1: "to_s32 (v + 1) = v + 1" using v by simp
  from inv have map: "hal_data ?h = SP_mapped" and free: "\<not> locked (hd_mutex ?h)" by (auto simp: hal_inv_def)
  show ?thesis
  proof (cases "\<exists>nm. name = Some nm \<and> length nm \<le> HAL_NAME_LEN")
    case False
    then have "hal_init env name s = Inr (- EINVAL, s)" "init_verdict ?h G name (v + 1) = - EINVAL"
      by (cases name; force simp: hal_init_def init_verdict_def)+
    with ids show ?thesis by (simp, blast)
  next
    case True
    then obtain nm where nm: "name = Some nm" "length nm \<le> HAL_NAME_LEN" by blast
    obtain t where t0: "rtapi_init (ev_os env) [] (s_shm s) = Inr (v + 1, t)" and idt: "module_ids (v + 1) (n + 1) t"
      and keys: "same_segments (s_shm s) t"
      by (rule module_ids_init [OF ids, of "ev_os env" "[]"]) (use v1 in simp)
    have t: "rtapi_init (ev_os env) x (s_shm s) = Inr (v + 1, t)" for x
      using t0 by (simp add: rtapi_init_def)
    have idx: "module_ids (v + 1) n (snd (rtapi_exit (ev_os env) m t))" for m
      using module_ids_exit [OF idt, of "ev_os env" m] n by simp
    let ?l = "?h\<lparr>hd_mutex := set_lock (hd_mutex ?h)\<rparr>"
    have repl: "hal_rep ?l G" using rep by simp
    obtain p where p: "halpr_find_comp_by_name nm ?l = Inr p" "p \<noteq> 0 \<longleftrightarrow> nm \<in> comp_names ?l G"
      using find_comp_name_iff [OF repl] by blast
    have cn: "comp_names ?l G = comp_names ?h G" by (simp add: comp_names_def)
    have run: "hal_init env name s = (if p \<noteq> 0 then Inr (- EINVAL, sys_rtapi_exit env (v + 1) (s\<lparr>s_shm := t\<rparr>))
        else case halpr_alloc_comp_struct ?l of
            (None, h) \<Rightarrow> Inr (- ENOMEM, sys_rtapi_exit env (v + 1) (s\<lparr>s_shm := t, s_hal := hal_mutex_give h\<rparr>))
          | (Some cp, h) \<Rightarrow> Inr (v + 1, s\<lparr>s_shm := t, s_hal := (hal_mutex_give (push_comp cp (v + 1) h))\<lparr>
               ref_cnt := ref_cnt (hal_mutex_give (push_comp cp (v + 1) h)) + 1\<rparr>\<rparr>))"
      using nm lib free map v
      by (simp add: hal_init_def init_lib_def init_comp_def sys_rtapi_init_def t lock_hal_def p(1) with_hal_def Let_def
          push_again split: option.split prod.split)
    show ?thesis
    proof (cases "p \<noteq> 0")
      case True
      then have "init_verdict ?h G name (v + 1) = - EINVAL" using p(2) nm cn by (simp add: init_verdict_def)
      with True run idx show ?thesis by (auto simp: sys_rtapi_exit_def)
    next
      case False
      then have fresh: "nm \<notin> comp_names ?h G" using p(2) cn by simp
      show ?thesis
      proof (cases "halpr_alloc_comp_struct ?l")
        case (Pair q h)
        show ?thesis
        proof (cases q)
          case None
          from alloc_comp_None [OF repl] Pair None have "h = ?l" "\<not> comp_room ?h G" by auto
          with False fresh run idx nm free Pair None show ?thesis
            by (auto simp: sys_rtapi_exit_def init_verdict_def)
        next
          case (Some cp)
          from alloc_comp_None(1) [OF repl] Pair Some have room: "comp_room ?h G" by auto
          from push_comp_rep [OF repl, of cp h "v + 1"] Pair Some
          have add: "added_comp cp (v + 1) ?l G (push_comp cp (v + 1) h)" by simp
          note A = added_comp_give [OF add free map refl]
          have rc: "ref_cnt (push_comp cp (v + 1) h) = ref_cnt ?h"
          proof -
            have "ref_cnt h = ref_cnt ?l"
              using alloc_comp_Some [OF repl Pair [unfolded Some]] by force
            then show ?thesis by (simp add: push_comp_def Let_def set_c_next_def)
          qed
          have ver: "init_verdict ?h G name (v + 1) = v + 1" using fresh room nm by (simp add: init_verdict_def)
          have run': "hal_init env name s = Inr (v + 1, s\<lparr>s_shm := t, s_hal := (hal_mutex_give (push_comp cp (v + 1) h))\<lparr>
               ref_cnt := ref_cnt ?h + 1\<rparr>\<rparr>)"
            using run False Pair Some A(4) rc by simp
          show ?thesis
            using run' ver A(1-3) idt v keys by auto
        qed
      qed
    qed
  qed
qed

section \<open>What hal\_exit does\<close>

lemma unlink_walk_find:
  assumes "chain nx p xs"
  shows "unlink_walk nx m At_head p = Some (case find m xs of None \<Rightarrow> None
     | Some c \<Rightarrow> Some (link_of (takeWhile (\<lambda>q. \<not> m q) xs), c))"
  using unlink_walk_chain [OF assms, of m "[]"]
  by (cases "dropWhile (\<lambda>q. \<not> m q) xs") (simp_all add: find_dropWhile comp_def del: dropWhile_eq_Nil_conv)

lemma find_split:
  assumes "find m xs = Some c"
  obtains us vs where "xs = us @ c # vs" "takeWhile (\<lambda>q. \<not> m q) xs = us"
proof -
  from assms have "\<exists>vs. xs = takeWhile (\<lambda>q. \<not> m q) xs @ c # vs"
    by (induction xs) (auto split: if_splits)
  with that show ?thesis by metis
qed

lemma comps_chain: "hal_rep h G \<Longrightarrow> chain (\<lambda>p. c_next (comps h p)) (comp_list_ptr h) (s_comps G)"
  by (simp add: hal_rep_def comps_ok_def pool_def)

lemma hal_exit_run:
  assumes lib: "lib_ready s G v n" and n: "1 < n" and st: "hd_state (s_hal s) \<noteq> HAL_S_DESTROYED"
  shows "case find (\<lambda>p. c_comp_id (comps (s_hal s) p) = i) (s_comps G) of
      None \<Rightarrow> hal_exit env i s = Inr (- EINVAL, s)
    | Some c \<Rightarrow> \<exists>s' G'. hal_exit env i s = Inr (0, s') \<and> lib_ready s' G' v (n - 1) \<and> s_app s' = s_app s \<and>
        without_comp c (s_hal s) G G' \<and> pins (s_hal s') = pins (s_hal s) \<and> ref_cnt (s_hal s') = ref_cnt (s_hal s) - 1 \<and>
        hd_state (s_hal s') = hd_state (s_hal s) \<and> threads (s_hal s') = threads (s_hal s)"
proof -
  let ?h = "s_hal s"
  let ?l = "?h\<lparr>hd_mutex := set_lock (hd_mutex ?h)\<rparr>"
  let ?m = "\<lambda>p. c_comp_id (comps ?h p) = i"
  from lib have inv: "hal_inv ?h" and rep: "hal_rep ?h G" and lid: "lib_mem_id ?h \<noteq> 0"
    and ids: "module_ids v n (s_shm s)" and v: "0 \<le> v" "v + 1 < 2 ^ 31" by (auto simp: lib_ready_def)
  from inv have map: "hal_data ?h = SP_mapped" and free: "\<not> locked (hd_mutex ?h)" by (auto simp: hal_inv_def)
  have repl: "hal_rep ?l G" using rep by simp
  note W = unlink_walk_find [OF comps_chain [OF rep], of ?m]
  show ?thesis
  proof (cases "find ?m (s_comps G)")
    case None
    then show ?thesis using map free st W by (simp add: hal_exit_def lock_hal_free with_hal_def)
  next
    case (Some c)
    obtain us vs where cs: "s_comps G = us @ c # vs" "takeWhile (\<lambda>q. \<not> ?m q) (s_comps G) = us"
      by (rule find_split [OF Some])
    obtain h' G' where F: "free_comp_struct c (put_comp_link (link_of us) (c_next (comps ?l c)) ?l) = Inr h'"
      "hal_rep h' G'" "without_comp c ?l G G'" "pins h' = pins ?l" "threads h' = threads ?l" "hal_data h' = hal_data ?l"
      "hd_mutex h' = hd_mutex ?l" "hd_state h' = hd_state ?l" "ref_cnt h' = ref_cnt ?l" "lib_mem_id h' = lib_mem_id ?l"
      using free_comp_run [OF repl cs(1)] by blast
    let ?s = "sys_rtapi_exit env i (with_hal (\<lambda>h. h\<lparr>ref_cnt := ref_cnt h - 1\<rparr>) (unlock_hal (s\<lparr>s_hal := h'\<rparr>)))"
    have run: "hal_exit env i s = Inr (0, ?s)"
      using map free st W Some cs(2) F(1) by (simp add: hal_exit_def lock_hal_free with_hal_def)
    have h: "s_hal ?s = (hal_mutex_give h')\<lparr>ref_cnt := ref_cnt ?h - 1\<rparr>"
      using F(9) by (simp add: with_hal_def sys_rtapi_exit_def hal_mutex_give_def)
    have rep': "hal_rep (s_hal ?s) G'"
      unfolding h by (rule hal_rep_frame [OF F(2)]) (simp_all add: hal_mutex_give_def keeps_defs)
    then have "hal_inv (s_hal ?s)"
      using F(6,7) map free by (auto simp: hal_inv_def h)
    moreover have "module_ids v (n - 1) (s_shm ?s)"
      using module_ids_exit [OF ids n] by (simp add: sys_rtapi_exit_def with_hal_def)
    moreover have "lib_mem_id (s_hal ?s) \<noteq> 0" using lid F(10) by (simp add: h hal_mutex_give_def)
    ultimately have "lib_ready ?s G' v (n - 1)" using rep' n v by (simp add: lib_ready_def)
    moreover have "without_comp c ?h G G'" using F(3) by (simp add: without_comp_def)
    moreover have "s_app ?s = s_app s" by (simp add: with_hal_def sys_rtapi_exit_def)
    moreover have "pins (s_hal ?s) = pins ?h" "ref_cnt (s_hal ?s) = ref_cnt ?h - 1" "hd_state (s_hal ?s) = hd_state ?h"
      "threads (s_hal ?s) = threads ?h" using F by (simp_all add: h hal_mutex_give_def)
    ultimately show ?thesis unfolding Some option.case using run by blast
  qed
qed

section \<open>Properties\<close>

text \<open>A process with one component, whose id is 1, and three references to the id segment.\<close>

definition sys_shape :: shape where
  "sys_shape = \<lparr>s_comps = [1048464], s_comps_free = [], s_pins = [], s_pins_free = [], s_params = [],
    s_params_free = [], s_functs = [], s_functs_free = [], s_threads = [], s_threads_free = [],
    s_entries = (\<lambda>_. []), s_entries_free = []\<rparr>"

definition sys_example :: sys where
  "sys_example = \<lparr>s_hal = one_comp\<lparr>lib_mem_id := 1, lib_module_id := 0\<rparr>,
     s_shm = uuid_example\<lparr>sh_array := (sh_array uuid_example)[0 := (sh_array uuid_example ! 0)\<lparr>sh_count := 3\<rparr>],
               uuid_mem := (\<lambda>_. \<lparr>ud_mutex = 0, ud_uuid = 1\<rparr>)\<rparr>,
     s_app = rtapp_start\<rparr>"

definition env_example :: env where
  "env_example = \<lparr>ev_os = os_grant,
     ev_pthread = \<lparr>os_attr_init = 0, os_setstacksize = (\<lambda>_. 0), os_setschedpolicy = 0, os_setschedparam = (\<lambda>_. 0),
       os_setinheritsched = 0, os_nprocs = 1, os_rt_cpu_number = - 1, os_setaffinity = (\<lambda>_. 0), os_create = 0\<rparr>,
     ev_prio_highest = 99, ev_prio_lowest = 1, ev_segment = zero_hal, ev_thread_task = 5000,
     ev_list_init = (\<lambda>e L. L(e := \<lparr>l_next = e, l_prev = e\<rparr>))\<rparr>"

lemma sys_example_ids: "module_ids 1 3 (s_shm sys_example)"
proof -
  let ?s = "s_shm sys_example"
  have len: "length (sh_array uuid_example) = MAX_SHM" by (simp add: uuid_example_def shmem_start_def)
  have at: "sh_array uuid_example ! 0 = unborn\<lparr>sh_magic := SHMEM_MAGIC,
     sh_key := UUID_KEY, sh_count := 1, sh_mem := 4096, sh_state := SHMEM_S_ACTIVE\<rparr>" "0 < length (sh_array uuid_example)"
    using len by (simp_all add: uuid_example_def shmem_start_def MAX_SHM_def)
  have s: "sh_array ?s = (sh_array uuid_example)[0 := (sh_array uuid_example ! 0)\<lparr>sh_count := 3\<rparr>]"
    by (simp add: sys_example_def)
  have ok: "shmem_ok uuid_example" using uuid_example_ready by (simp add: uuid_ready_def)
  have "sh_key (sh_array uuid_example ! j) \<noteq> UUID_KEY" if "j < MAX_SHM" "j \<noteq> 0" "live (sh_array uuid_example ! j)" for j
    using shmem_ok_other [OF ok, of 0 j] that at(1) by (simp add: MAX_SHM_def)
  then have "shmem_ok ?s"
    by (intro shmem_ok_upd [OF ok _ s]) (auto simp: at MAX_SHM_def UUID_KEY_def)
  moreover have "sh_array ?s ! 0 = (sh_array uuid_example ! 0)\<lparr>sh_count := 3\<rparr>" "sh_array ?s ! 0 \<in> set (sh_array ?s)"
    using at(2) by (simp_all add: s set_update_memI)
  ultimately show ?thesis
    using at by (auto simp: module_ids_def uuid_ready_def sys_example_def mapped_at_def list_ex_iff uuid_example_def shmem_start_def MAX_SHM_def
        intro!: bexI [of _ "sh_array ?s ! 0"])
qed

lemma sys_example_ready: "lib_ready sys_example sys_shape 1 3"
proof -
  have "hal_rep (s_hal sys_example) sys_shape"
    by (simp add: sys_example_def hal_rep_def part_defs pool_def one_comp_def zero_hal_def area_wf_def area_ok_def HAL_SIZE_def
        all_entries_def sizeof_defs ring_def is_root_def blocks_def apart_def sys_shape_def)
  then show ?thesis
    using sys_example_ids by (auto simp: lib_ready_def hal_inv_def) (simp_all add: sys_example_def one_comp_sel, simp add: one_comp_def zero_hal_def)
qed

lemma sys_example_verdict: "init_verdict (s_hal sys_example) sys_shape (Some ''motion'') 2 = 2"
  by (simp add: init_verdict_def comp_names_def sys_shape_def sys_example_def one_comp_def zero_hal_def HAL_NAME_LEN_def
      comp_room_def shmalloc_dn_def sizeof_defs align_dn_simps Let_def)

text \<open>
  Property C21: \<open>hal_init\<close> in a process whose library part is set up. The result is that of the decision
  list \<open>init_verdict\<close>: a missing, too long or known name, no memory, or the new module id. After an
  error the segment is as before and the reference to the id segment has been given back. On success the
  component is at the head of the list, real-time, not ready, and without a name; no other struct has
  changed.
\<close>

theorem hal_init_correct:
  assumes "lib_ready s G v n"
  shows "\<exists>r s'. hal_init env name s = Inr (r, s') \<and> r = init_verdict (s_hal s) G name (v + 1) \<and> s_app s' = s_app s \<and>
    (r < 0 \<longrightarrow> s_hal s' = s_hal s \<and> (\<exists>w. module_ids w n (s_shm s'))) \<and>
    (0 \<le> r \<longrightarrow> hal_inv (s_hal s') \<and> module_ids r (n + 1) (s_shm s') \<and> ref_cnt (s_hal s') = ref_cnt (s_hal s) + 1 \<and>
       (\<exists>cp. hal_rep (s_hal s') (G\<lparr>s_comps := cp # s_comps G, s_comps_free := tl (s_comps_free G)\<rparr>) \<and>
          cp \<notin> set (s_comps G) \<and> c_comp_id (comps (s_hal s') cp) = r \<and> c_name (comps (s_hal s') cp) = [] \<and>
          c_ready (comps (s_hal s') cp) = 0 \<and> c_type (comps (s_hal s') cp) = COMPONENT_TYPE_REALTIME \<and>
          (\<forall>p. p \<noteq> cp \<longrightarrow> comps (s_hal s') p = comps (s_hal s) p) \<and> pins (s_hal s') = pins (s_hal s) \<and>
          params (s_hal s') = params (s_hal s) \<and> functs (s_hal s') = functs (s_hal s) \<and> threads (s_hal s') = threads (s_hal s)))"
proof -
  obtain r s' where R: "hal_init env name s = Inr (r, s')" "r = init_verdict (s_hal s) G name (v + 1)" "s_app s' = s_app s"
    and neg: "r < 0 \<longrightarrow> s_hal s' = s_hal s \<and> (\<exists>w. module_ids w n (s_shm s'))"
    and pos: "0 \<le> r \<longrightarrow> hal_inv (s_hal s') \<and> module_ids (v + 1) (n + 1) (s_shm s') \<and> lib_mem_id (s_hal s') = lib_mem_id (s_hal s) \<and>
       ref_cnt (s_hal s') = ref_cnt (s_hal s) + 1 \<and> (\<exists>cp. added_comp cp r (s_hal s) G (s_hal s'))"
    using hal_init_run [OF assms, of env name] by blast
  show ?thesis
  proof (cases "r < 0")
    case True
    with R neg show ?thesis by (rule_tac exI [of _ r], rule_tac exI [of _ s']) simp
  next
    case False
    then have "v + 1 = r" using R(2) by (auto simp: init_verdict_def split: option.splits if_splits)
    moreover from False pos obtain cp where "added_comp cp r (s_hal s) G (s_hal s')" by auto
    note facts = added_comp_facts [OF this]
    have "\<exists>cp. hal_rep (s_hal s') (G\<lparr>s_comps := cp # s_comps G, s_comps_free := tl (s_comps_free G)\<rparr>) \<and>
          cp \<notin> set (s_comps G) \<and> c_comp_id (comps (s_hal s') cp) = r \<and> c_name (comps (s_hal s') cp) = [] \<and>
          c_ready (comps (s_hal s') cp) = 0 \<and> c_type (comps (s_hal s') cp) = COMPONENT_TYPE_REALTIME \<and>
          (\<forall>p. p \<noteq> cp \<longrightarrow> comps (s_hal s') p = comps (s_hal s) p) \<and> pins (s_hal s') = pins (s_hal s) \<and>
          params (s_hal s') = params (s_hal s) \<and> functs (s_hal s') = functs (s_hal s) \<and> threads (s_hal s') = threads (s_hal s)"
      using facts by blast
    moreover have "hal_inv (s_hal s') \<and> module_ids (v + 1) (n + 1) (s_shm s') \<and> ref_cnt (s_hal s') = ref_cnt (s_hal s) + 1"
      using False pos by simp
    ultimately show ?thesis using False R by blast
  qed
qed

theorem hal_init_correct_witness:
  "\<exists>s'. hal_init env_example (Some ''motion'') sys_example = Inr (2, s') \<and> module_ids 2 4 (s_shm s')"
  using hal_init_correct [OF sys_example_ready, of env_example "Some ''motion''"] sys_example_verdict by auto



text \<open>
  The check for a known name is void. Names are compared, but \<open>hal_init\<close> never stores
  one, so all components are nameless. In every such state a call with a name that is not empty is
  never refused as a duplicate, not even when it repeats the previous call, and a call with the empty
  name is refused as soon as there is one component.
\<close>

theorem duplicate_component_names:
  assumes "lib_ready s G v n" "comp_names (s_hal s) G \<subseteq> {[]}" "v + 2 < 2 ^ 31"
    and "hal_init env (Some nm) s = Inr (r, s')" "0 \<le> r" "nm \<noteq> []"
  shows "(\<exists>r2 s2. hal_init env2 (Some nm) s' = Inr (r2, s2) \<and> (r2 = r + 1 \<or> r2 = - ENOMEM)) \<and>
    (\<exists>s2. hal_init env2 (Some []) s' = Inr (- EINVAL, s2))"
proof -
  obtain cp where r: "r = init_verdict (s_hal s) G (Some nm) (v + 1)" "module_ids (v + 1) (n + 1) (s_shm s')"
    "hal_inv (s_hal s')" "lib_mem_id (s_hal s') \<noteq> 0" and add: "added_comp cp r (s_hal s) G (s_hal s')"
    using hal_init_run [OF assms(1), of env "Some nm"] assms(1,4,5) by (auto simp: lib_ready_def)
  let ?G = "G\<lparr>s_comps := cp # s_comps G, s_comps_free := tl (s_comps_free G)\<rparr>"
  have r1: "r = v + 1" and len: "length nm \<le> HAL_NAME_LEN" using r(1) assms(5)
    by (auto simp: init_verdict_def split: if_splits)
  have lib: "lib_ready s' ?G (v + 1) (n + 1)"
    using r(2-4) add assms(1,3) by (simp add: lib_ready_def added_comp_def)
  have "comps (s_hal s') p = comps (s_hal s) p" if "p \<noteq> cp" for p using add that by (auto simp: added_comp_def)
  then have names: "comp_names (s_hal s') ?G = {[]}"
    using assms(2) add by (auto simp: comp_names_def added_comp_def image_subset_iff) metis
  have "init_verdict (s_hal s') ?G (Some nm) (v + 1 + 1) \<in> {r + 1, - ENOMEM}"
    using len assms(6) by (simp add: init_verdict_def names r1)
  with hal_init_run [OF lib, of env2 "Some nm"]
  have "\<exists>r2 s2. hal_init env2 (Some nm) s' = Inr (r2, s2) \<and> (r2 = r + 1 \<or> r2 = - ENOMEM)" by auto
  moreover have "init_verdict (s_hal s') ?G (Some []) (v + 1 + 1) = - EINVAL" by (simp add: init_verdict_def names)
  with hal_init_run [OF lib, of env2 "Some []"] have "\<exists>s2. hal_init env2 (Some []) s' = Inr (- EINVAL, s2)" by auto
  ultimately show ?thesis by blast
qed

theorem duplicate_component_names_witness:
  "\<exists>s' r2 s2. hal_init env_example (Some ''motion'') sys_example = Inr (2, s') \<and>
     hal_init env_example (Some ''motion'') s' = Inr (r2, s2) \<and> (r2 = 3 \<or> r2 = - ENOMEM)"
proof -
  have nm: "comp_names (s_hal sys_example) sys_shape \<subseteq> {[]}"
    by (simp add: comp_names_def sys_shape_def sys_example_def one_comp_def zero_hal_def)
  obtain s' where run: "hal_init env_example (Some ''motion'') sys_example = Inr (2, s')"
    using hal_init_run [OF sys_example_ready, of env_example "Some ''motion''"] sys_example_verdict by auto
  from duplicate_component_names [OF sys_example_ready nm _ run, of env_example] run show ?thesis by auto
qed

end
