(* ===== verification/Hal_Threads.thy ===== *)
theory Hal_Threads
  imports Hal_Modules
begin

text \<open>
  Deletion of HAL threads: \<open>free_thread_struct\<close> stops the task and gives the entries and the struct
  back, \<open>hal_app_exit\<close> does so with all threads, and \<open>hal_thread_delete\<close> never gets there.
\<close>

section \<open>The entries of a thread\<close>

lemma clear_entries_run:
  assumes "rings_ok h G" "users_on h G F" "t \<in> set (s_threads G)" "distinct (s_threads G)" "s_entries G t = ys" "\<forall>f \<in> F. 0 < f"
  shows "\<exists>h' ef. clear_entries (Thread_root t) (case ys of [] \<Rightarrow> Thread_root t | y # _ \<Rightarrow> Entry y) h = Some (Inr h')
    \<and> only_entries h h' \<and> (let G' = G\<lparr>s_entries := (s_entries G)(t := []), s_entries_free := ef\<rparr>
        in rings_ok h' G' \<and> users_on h' G' F \<and> set (ef @ all_entries G') = set (s_entries_free G @ all_entries G))"
  using assms
proof (induction ys arbitrary: h G)
  case Nil
  then have "(s_entries G)(t := []) = s_entries G" by auto
  with Nil show ?case
    by (intro exI [of _ h] exI [of _ "s_entries_free G"]) (simp add: clear_entries.simps Let_def del: fun_upd_apply)
next
  case (Cons y ys)
  let ?h1 = "unhook y h" and ?G1 = "unhooked t ys y G"
  have es: "s_entries G t = [] @ y # ys" using Cons.prems by simp
  have rt: "ring (links h) (Thread_root t) ([] @ y # ys)" using Cons.prems by (auto simp: rings_ok_def)
  have r1: "rings_ok ?h1 ?G1" using unhook_rings [OF Cons.prems(1,3,4) es] by simp
  have u1: "users_on ?h1 ?G1 F" using unhook_users [OF Cons.prems(2,1,3,4) es Cons.prems(6)] by simp
  have nx: "fst (list_remove_entry (Entry y) (links h)) = (case ys of [] \<Rightarrow> Thread_root t | y # _ \<Rightarrow> Entry y)"
    using ring_remove_next [OF rt] by simp
  have m: "t \<in> set (s_threads ?G1)" "distinct (s_threads ?G1)" "s_entries ?G1 t = ys"
    using Cons.prems by (simp_all add: unhooked_def)
  from Cons.IH [OF r1 u1 m Cons.prems(6)] obtain h' ef where
    run: "clear_entries (Thread_root t) (case ys of [] \<Rightarrow> Thread_root t | y # _ \<Rightarrow> Entry y) ?h1 = Some (Inr h')"
    and oe: "only_entries ?h1 h'"
    and rep: "let G' = ?G1\<lparr>s_entries := (s_entries ?G1)(t := []), s_entries_free := ef\<rparr>
        in rings_ok h' G' \<and> users_on h' G' F \<and> set (ef @ all_entries G') = set (s_entries_free ?G1 @ all_entries ?G1)"
    by blast
  have G': "?G1\<lparr>s_entries := (s_entries ?G1)(t := []), s_entries_free := ef\<rparr> = G\<lparr>s_entries := (s_entries G)(t := []), s_entries_free := ef\<rparr>"
    by (simp add: unhooked_def)
  obtain A B where ae: "all_entries G = A @ s_entries G t @ B"
    and ae': "\<forall>zs ef. all_entries (G\<lparr>s_entries := (s_entries G)(t := zs), s_entries_free := ef\<rparr>) = A @ zs @ B"
    by (rule all_entries_at [OF Cons.prems(3,4)])
  have "all_entries (G\<lparr>s_entries := (s_entries G)(t := ys)\<rparr>) = A @ ys @ B"
    using spec [OF spec [OF ae', of ys], of "[]"] by simp
  then have "set (s_entries_free ?G1 @ all_entries ?G1) = set (s_entries_free G @ all_entries G)"
    using Cons.prems(5) by (auto simp: unhooked_def ae)
  with rep have rep': "let G' = G\<lparr>s_entries := (s_entries G)(t := []), s_entries_free := ef\<rparr>
      in rings_ok h' G' \<and> users_on h' G' F \<and> set (ef @ all_entries G') = set (s_entries_free G @ all_entries G)"
    unfolding G' by simp
  have "clear_entries (Thread_root t) (Entry y) h = Some (Inr h')"
    using run by (subst clear_entries.simps) (simp add: nx unhook_def)
  with only_entries_trans [OF unhook_only oe] rep' show ?case unfolding list.case by blast
qed

section \<open>The struct of a thread\<close>

text \<open>
  The segment while a thread \<open>t\<close> is not listed but still has its entries: \<open>G\<close> is the shape with
  \<open>t\<close> at the head of the threads.
\<close>

definition loose_thread :: "off \<Rightarrow> off list \<Rightarrow> hal \<Rightarrow> shape \<Rightarrow> bool" where
  "loose_thread t ts h G \<longleftrightarrow> s_threads G = t # ts \<and> area_wf h \<and> comps_ok h G \<and> pins_ok h G \<and> params_ok h G \<and>
     functs_ok h G \<and> rings_ok h G \<and> users_ok h G \<and> apart (blocks G) \<and>
     spare (\<lambda>p. t_next (threads h p)) (thread_list_ptr h) (thread_free_ptr h) (shmem_top h) sizeof_hal_thread t ts (s_threads_free G)"

lemma loose_unlink:
  assumes rep: "hal_rep h G" and ts: "s_threads G = t # ts"
  shows "loose_thread t ts (h\<lparr>thread_list_ptr := t_next (threads h t)\<rparr>) G"
proof -
  let ?h = "h\<lparr>thread_list_ptr := t_next (threads h t)\<rparr>"
  note P = hal_rep_parts [OF rep]
  have "spare (\<lambda>p. t_next (threads ?h p)) (thread_list_ptr ?h) (thread_free_ptr ?h) (shmem_top ?h) sizeof_hal_thread t
      ([] @ ts) (s_threads_free G)"
    by (rule thread_pool.unlink_pool [of h "[]" t ts "s_threads_free G"])
      (use P(6) in \<open>simp_all add: threads_ok_def ts put_link_def\<close>)
  moreover have "area_wf ?h" using P(1) by simp
  moreover have "comps_ok ?h G" "pins_ok ?h G" "params_ok ?h G" "functs_ok ?h G" "rings_ok ?h G" "users_ok ?h G"
    by (rule comps_ok_frame [OF P(2)] pins_ok_frame [OF P(3)] params_ok_frame [OF P(4)] functs_ok_frame [OF P(5)]
        rings_ok_frame [OF P(7)] users_ok_frame [OF P(8)]; simp add: keeps_defs)+
  ultimately show ?thesis using ts P(9) by (simp add: loose_thread_def)
qed

text \<open>The shape after the release.\<close>

definition without_thread :: "off \<Rightarrow> off list \<Rightarrow> off list \<Rightarrow> shape \<Rightarrow> shape" where
  "without_thread t ts ef G = G\<lparr>s_threads := ts, s_threads_free := t # s_threads_free G,
     s_entries := (s_entries G)(t := []), s_entries_free := ef\<rparr>"

lemma rings_ok_less:
  assumes "rings_ok h G" "s_threads G = t # ts" "s_entries G t = []" "G' = G\<lparr>s_threads := ts, s_threads_free := ys\<rparr>"
  shows "rings_ok h G'" "all_entries G' = all_entries G"
  using assms by (auto simp: rings_ok_def all_entries_def)

text \<open>What a release of a thread leaves alone.\<close>

definition thread_step :: "hal \<Rightarrow> hal \<Rightarrow> bool" where
  "thread_step h h' \<longleftrightarrow> comps h' = comps h \<and> pins h' = pins h \<and> params h' = params h \<and> hal_data h' = hal_data h \<and>
     hd_mutex h' = hd_mutex h \<and> hd_state h' = hd_state h \<and> ref_cnt h' = ref_cnt h \<and> lib_mem_id h' = lib_mem_id h \<and>
     lib_module_id h' = lib_module_id h \<and> pin_list_ptr h' = pin_list_ptr h \<and> param_list_ptr h' = param_list_ptr h \<and>
     comp_list_ptr h' = comp_list_ptr h \<and> funct_list_ptr h' = funct_list_ptr h \<and> ucells h' = ucells h"

lemma thread_step_trans: "thread_step h1 h2 \<Longrightarrow> thread_step h2 h3 \<Longrightarrow> thread_step h1 h3"
  by (simp add: thread_step_def)

text \<open>The task of a thread can be stopped.\<close>

definition task_live :: "int \<Rightarrow> rtapp \<Rightarrow> bool" where
  "task_live tid a \<longleftrightarrow> (\<exists>tk. get_task tid a = Some tk \<and> tk_thr tk \<noteq> Th_none \<and>
     (tk_state tk = TASK_S_RUNNING \<or> tk_state tk = TASK_S_PAUSED))"

lemma get_task_put: "get_task tid a = Some tk \<Longrightarrow> nat tid < length (task_array a) \<Longrightarrow>
    get_task tid (put_slot (nat tid) (S_task tk') a) = (if tk_magic tk' = TASK_MAGIC then Some tk' else None)"
  by (auto simp: get_task_def put_slot_def split: if_splits)

lemma pause_delete:
  assumes "task_live tid a" "length (task_array a) = MAX_TASKS"
  shows "task_delete tid (snd (task_pause tid a)) = Inr (0, put_slot (nat tid) S_null a)"
proof -
  from assms(1) obtain tk where tk: "get_task tid a = Some tk" "tk_thr tk \<noteq> Th_none"
    "tk_state tk = TASK_S_RUNNING \<or> tk_state tk = TASK_S_PAUSED" by (auto simp: task_live_def)
  have m: "tk_magic tk = TASK_MAGIC" "nat tid < length (task_array a)"
    using tk(1) assms(2) by (auto simp: get_task_def split: if_splits slot.splits)
  have ov: "put_slot n x (put_slot n y a) = put_slot n x a" for n x y by (simp add: put_slot_def)
  show ?thesis
  proof (cases "tk_state tk = TASK_S_RUNNING")
    case True
    with tk m show ?thesis by (simp add: task_pause_def task_delete_def get_task_put ov)
  next
    case False
    with tk show ?thesis by (simp add: task_pause_def task_delete_def)
  qed
qed

lemma functs_set_pos: "functs_ok h G \<Longrightarrow> area_wf h \<Longrightarrow> \<forall>f \<in> set (s_functs G). 0 < f"
proof
  fix f assume a: "functs_ok h G" "area_wf h" "f \<in> set (s_functs G)"
  then have "\<forall>p \<in> set (s_functs G @ s_functs_free G). shmem_top h \<le> p" by (simp add: functs_ok_def pool_def)
  with a(3) have "shmem_top h \<le> f" by simp
  moreover have "0 < shmem_top h" using a(2) by (simp add: area_wf_def area_ok_def)
  ultimately show "0 < f" by simp
qed

text \<open>The last steps of \<open>free_thread_struct\<close>.\<close>

definition recycle_thread :: "off \<Rightarrow> hal \<Rightarrow> hal" where
  "recycle_thread t h =
     (let h = upd_thread t (\<lambda>x. x\<lparr>t_name := []\<rparr>) h;
          h = set_t_next t (thread_free_ptr h) h
      in h\<lparr>thread_free_ptr := t\<rparr>)"

lemma recycle_thread_pool:
  assumes "spare (\<lambda>p. t_next (threads h p)) (thread_list_ptr h) (thread_free_ptr h) (shmem_top h) sizeof_hal_thread t xs ys"
  shows "pool (\<lambda>p. t_next (threads (recycle_thread t h) p)) (thread_list_ptr (recycle_thread t h))
    (thread_free_ptr (recycle_thread t h)) (shmem_top (recycle_thread t h)) sizeof_hal_thread xs (t # ys)"
proof -
  let ?h = "upd_thread t (\<lambda>x. x\<lparr>t_name := []\<rparr>) h"
  have "spare (\<lambda>p. t_next (threads ?h p)) (thread_list_ptr ?h) (thread_free_ptr ?h) (shmem_top ?h) sizeof_hal_thread t xs ys"
    by (rule spare_next [where nx = "\<lambda>p. t_next (threads h p)"]) (use assms in \<open>simp_all add: upd_thread_heap\<close>)
  from thread_pool.free_pool [OF this refl] show ?thesis by (simp add: recycle_thread_def Let_def)
qed

lemma recycle_thread_eq:
  "\<exists>th. recycle_thread t h = h\<lparr>threads := th, thread_free_ptr := t\<rparr> \<and> (\<forall>p. p \<noteq> t \<longrightarrow> th p = threads h p)"
  by (rule exI [of _ "threads (recycle_thread t h)"]) (simp add: recycle_thread_def Let_def set_t_next_def upd_thread_def)

lemma free_thread_run:
  assumes loose: "loose_thread t ts (s_hal s) G" and app: "task_live (t_task_id (threads (s_hal s) t)) (s_app s)"
    "length (task_array (s_app s)) = MAX_TASKS"
  shows "\<exists>h' ef. free_thread_struct t s =
      Inr (s\<lparr>s_hal := h', s_app := put_slot (nat (t_task_id (threads (s_hal s) t))) S_null (s_app s)\<rparr>) \<and>
    hal_rep h' (without_thread t ts ef G) \<and> thread_step (s_hal s) h' \<and> (\<forall>p. p \<noteq> t \<longrightarrow> threads h' p = threads (s_hal s) p) \<and>
    thread_list_ptr h' = thread_list_ptr (s_hal s) \<and> threads_running h' = 0"
proof -
  let ?h = "s_hal s" and ?tid = "t_task_id (threads (s_hal s) t)"
  let ?h1 = "upd_thread t (\<lambda>x. x\<lparr>t_uses_fp := 0, t_period := 0, t_priority := 0, t_task_id := 0\<rparr>) (?h\<lparr>threads_running := 0\<rparr>)"
  from loose have ts: "s_threads G = t # ts" and aw: "area_wf ?h" and oks: "comps_ok ?h G" "pins_ok ?h G" "params_ok ?h G"
    "functs_ok ?h G" "rings_ok ?h G" "users_ok ?h G" and ap: "apart (blocks G)"
    and sp: "spare (\<lambda>p. t_next (threads ?h p)) (thread_list_ptr ?h) (thread_free_ptr ?h) (shmem_top ?h) sizeof_hal_thread t ts (s_threads_free G)"
    by (simp_all add: loose_thread_def)
  have dist: "t \<in> set (s_threads G)" "distinct (s_threads G)" using sp by (auto simp: ts spare_def pool_def)
  have r1: "rings_ok ?h1 G" by (rule rings_ok_frame [OF oks(5)]) (simp_all add: keeps_defs)
  have u1: "users_on ?h1 G (set (s_functs G))"
    unfolding users_ok_on [symmetric] by (rule users_ok_frame [OF oks(6)]) (simp_all add: keeps_defs)
  have "list_next (links ?h1) (Thread_root t) = (case s_entries G t of [] \<Rightarrow> Thread_root t | y # _ \<Rightarrow> Entry y)"
    using ring_list_next [OF rings_ok_free(2) [OF r1 dist(1)], of 0] by (cases "s_entries G t") (auto simp: addr_at_def)
  with clear_entries_run [OF r1 u1 dist refl functs_set_pos [OF oks(4) aw]] obtain h2 ef where
    run: "clear_entries (Thread_root t) (list_next (links ?h1) (Thread_root t)) ?h1 = Some (Inr h2)"
    and oe: "only_entries ?h1 h2"
    and r2: "rings_ok h2 (G\<lparr>s_entries := (s_entries G)(t := []), s_entries_free := ef\<rparr>)"
    and u2: "users_on h2 (G\<lparr>s_entries := (s_entries G)(t := []), s_entries_free := ef\<rparr>) (set (s_functs G))"
    and bl: "set (ef @ all_entries (G\<lparr>s_entries := (s_entries G)(t := []), s_entries_free := ef\<rparr>)) = set (s_entries_free G @ all_entries G)"
    unfolding Let_def by metis
  note K = only_entries_keeps [OF oe]
  let ?G = "without_thread t ts ef G" and ?h3 = "recycle_thread t h2"
  have free: "free_thread_struct t s = Inr (s\<lparr>s_hal := ?h3, s_app := put_slot (nat ?tid) S_null (s_app s)\<rparr>)"
    using run by (simp add: free_thread_struct_def with_hal_def pause_delete [OF app] recycle_thread_def Let_def)
  obtain th where h3: "?h3 = h2\<lparr>threads := th, thread_free_ptr := t\<rparr>" and th: "\<forall>p. p \<noteq> t \<longrightarrow> th p = threads h2 p"
    using recycle_thread_eq by blast
  have ae: "all_entries (G\<lparr>s_entries := (s_entries G)(t := []), s_entries_free := ef\<rparr>) = all_entries ?G"
    by (simp add: without_thread_def all_entries_def ts)
  have "spare (\<lambda>p. t_next (threads h2 p)) (thread_list_ptr h2) (thread_free_ptr h2) (shmem_top h2) sizeof_hal_thread t ts (s_threads_free G)"
    using sp K(5,6,14) by (simp add: keeps_threads_def)
  then have tok: "threads_ok ?h3 ?G" using recycle_thread_pool by (simp add: threads_ok_def without_thread_def)
  have rok: "rings_ok ?h3 ?G"
    using r2 ts by (auto simp: h3 rings_ok_def without_thread_def all_entries_def)
  have uok: "users_ok ?h3 ?G"
    using u2 unfolding users_on_def users_ok_def uses_def ae by (simp add: h3 without_thread_def)
  have top: "shmem_top ?h3 \<le> shmem_top ?h" using K(6) by (simp add: h3)
  have rest: "comps_ok ?h3 ?G" "pins_ok ?h3 ?G" "params_ok ?h3 ?G" "functs_ok ?h3 ?G"
    using K(1-4) comps_ok_frame [OF oks(1) _ top, of ?G] pins_ok_frame [OF oks(2) _ top, of ?G]
      params_ok_frame [OF oks(3) _ top, of ?G] functs_ok_frame [OF oks(4) _ top, of ?G]
    by (simp_all add: h3 keeps_defs without_thread_def)
  have aw3: "area_wf ?h3" using aw area_wf_cong [of ?h3 ?h] K(6,7) by (simp add: h3)
  have "blocks ?G = blocks G"
    using bl unfolding ae by (auto simp: blocks_def without_thread_def ts)
  with ap have "apart (blocks ?G)" by simp
  with rest aw3 tok rok uok have rep: "hal_rep ?h3 ?G" by (simp add: hal_rep_def)
  from oe obtain fn en L where h2: "h2 = ?h1\<lparr>functs := fn, entries := en, links := L\<rparr>" by (auto simp: only_entries_def)
  have "thread_step ?h ?h3" unfolding thread_step_def h3 by (simp add: h2)
  moreover have "\<forall>p. p \<noteq> t \<longrightarrow> threads ?h3 p = threads ?h p" using th unfolding h3 by (simp add: h2 upd_thread_heap)
  moreover have "thread_list_ptr ?h3 = thread_list_ptr ?h" unfolding h3 by (simp add: h2)
  moreover have "threads_running ?h3 = 0" unfolding h3 by (simp add: h2)
  ultimately show ?thesis using free rep by blast
qed

section \<open>All threads\<close>

text \<open>Every thread of the HAL has a task of its own, which can be stopped.\<close>

definition tasks_linked :: "hal \<Rightarrow> off list \<Rightarrow> rtapp \<Rightarrow> bool" where
  "tasks_linked h ts a \<longleftrightarrow> length (task_array a) = MAX_TASKS \<and> distinct (map (\<lambda>t. t_task_id (threads h t)) ts) \<and>
     (\<forall>t \<in> set ts. task_live (t_task_id (threads h t)) a)"

lemma task_live_id: "task_live tid a \<Longrightarrow> 0 \<le> tid"
  by (auto simp: task_live_def get_task_def split: if_splits)

lemma task_live_other: "task_live tid a \<Longrightarrow> tid \<noteq> tid' \<Longrightarrow> 0 \<le> tid' \<Longrightarrow> task_live tid (put_slot (nat tid') x a)"
  using task_live_id [of tid a] by (auto simp: task_live_def get_task_def put_slot_def)

lemma delete_threads_run:
  assumes "hal_rep (s_hal s) G" "s_threads G = ts" "tasks_linked (s_hal s) ts (s_app s)"
  shows "\<exists>h' G' a'. delete_threads s = Some (Inr (s\<lparr>s_hal := h', s_app := a'\<rparr>)) \<and> hal_rep h' G' \<and> s_threads G' = [] \<and>
    s_comps G' = s_comps G \<and> s_pins G' = s_pins G \<and> s_params G' = s_params G \<and> s_functs G' = s_functs G \<and>
    thread_step (s_hal s) h' \<and> length (task_array a') = MAX_TASKS \<and>
    (\<forall>i. task_array a' ! i = (if i \<in> nat ` (\<lambda>t. t_task_id (threads (s_hal s) t)) ` set ts then S_null else task_array (s_app s) ! i))"
  using assms
proof (induction ts arbitrary: s G)
  case Nil
  then have "thread_list_ptr (s_hal s) = 0" using threads_chain [OF Nil(1)] by simp
  then have "delete_threads s = Some (Inr s)" by (subst delete_threads.simps) (simp add: Let_def)
  moreover have "length (task_array (s_app s)) = MAX_TASKS" using Nil.prems(3) by (simp add: tasks_linked_def)
  ultimately show ?case using Nil
    by (rule_tac exI [of _ "s_hal s"], rule_tac exI [of _ G], rule_tac exI [of _ "s_app s"]) (simp add: thread_step_def)
next
  case (Cons t ts)
  let ?h = "s_hal s" and ?tid = "t_task_id (threads (s_hal s) t)"
  have hd: "thread_list_ptr ?h = t" and tz: "t \<noteq> 0" using threads_chain [OF Cons.prems(1)] Cons.prems(2) by auto
  let ?s1 = "s\<lparr>s_hal := ?h\<lparr>thread_list_ptr := t_next (threads ?h t)\<rparr>\<rparr>"
  have lo: "loose_thread t ts (s_hal ?s1) G" using loose_unlink [OF Cons.prems(1,2)] by simp
  have live: "task_live (t_task_id (threads (s_hal ?s1) t)) (s_app ?s1)" "length (task_array (s_app ?s1)) = MAX_TASKS"
    using Cons.prems(3) by (simp_all add: tasks_linked_def)
  obtain h1 ef where f: "free_thread_struct t ?s1 = Inr (?s1\<lparr>s_hal := h1, s_app := put_slot (nat ?tid) S_null (s_app s)\<rparr>)"
    and rep: "hal_rep h1 (without_thread t ts ef G)" and st: "thread_step (s_hal ?s1) h1"
    and th: "\<forall>p. p \<noteq> t \<longrightarrow> threads h1 p = threads (s_hal ?s1) p"
    using free_thread_run [OF lo live] by auto
  let ?s2 = "s\<lparr>s_hal := h1, s_app := put_slot (nat ?tid) S_null (s_app s)\<rparr>"
  have tn: "t \<notin> set ts" using threads_distinct [OF Cons.prems(1)] Cons.prems(2) by simp
  have tk: "t_task_id (threads h1 u) = t_task_id (threads ?h u)" if "u \<in> set ts" for u using th tn that by auto
  have tids: "map (\<lambda>t. t_task_id (threads h1 t)) ts = map (\<lambda>t. t_task_id (threads ?h t)) ts"
    by (rule map_cong [OF refl]) (rule tk)
  have "tasks_linked (s_hal ?s2) ts (s_app ?s2)"
    unfolding tasks_linked_def
  proof (intro conjI ballI)
    show "distinct (map (\<lambda>t. t_task_id (threads (s_hal ?s2) t)) ts)" using Cons.prems(3) by (simp add: tasks_linked_def tids)
    fix u assume u: "u \<in> set ts"
    have "?tid \<notin> (\<lambda>t. t_task_id (threads ?h t)) ` set ts" using Cons.prems(3) by (simp add: tasks_linked_def)
    then have ne: "t_task_id (threads ?h u) \<noteq> ?tid" using u by (metis imageI)
    have "task_live (t_task_id (threads ?h u)) (s_app s)" using Cons.prems(3) u by (simp add: tasks_linked_def)
    from task_live_other [OF this ne] live(1) task_live_id show "task_live (t_task_id (threads (s_hal ?s2) u)) (s_app ?s2)"
      by (simp add: tk u)
  qed (use live(2) in \<open>simp add: put_slot_def\<close>)
  from Cons.IH [of ?s2 "without_thread t ts ef G"] this rep obtain h' G' a' where
    run: "delete_threads ?s2 = Some (Inr (?s2\<lparr>s_hal := h', s_app := a'\<rparr>))" "hal_rep h' G'" "s_threads G' = []"
    and same: "s_comps G' = s_comps G" "s_pins G' = s_pins G" "s_params G' = s_params G" "s_functs G' = s_functs G"
    and st': "thread_step h1 h'" and len: "length (task_array a') = MAX_TASKS"
    and arr: "\<forall>i. task_array a' ! i = (if i \<in> nat ` (\<lambda>t. t_task_id (threads h1 t)) ` set ts then S_null
       else task_array (put_slot (nat ?tid) S_null (s_app s)) ! i)"
    by (auto simp: without_thread_def)
  have im: "(\<lambda>t. t_task_id (threads h1 t)) ` set ts = (\<lambda>t. t_task_id (threads ?h t)) ` set ts"
    by (rule image_cong [OF refl]) (rule tk)
  have "nat ?tid < length (task_array (s_app s))" using live by (auto simp: task_live_def get_task_def split: if_splits)
  then have "task_array a' ! i = (if i \<in> nat ` (\<lambda>t. t_task_id (threads ?h t)) ` set (t # ts) then S_null else task_array (s_app s) ! i)" for i
    using arr by (auto simp: im put_slot_def nth_list_update)
  moreover have "delete_threads s = Some (Inr (s\<lparr>s_hal := h', s_app := a'\<rparr>))"
    using run(1) f tz by (subst delete_threads.simps) (simp add: Let_def hd with_hal_def)
  moreover have "thread_step ?h h'" using thread_step_trans [OF st st'] by (simp add: thread_step_def)
  ultimately show ?case using run(2,3) same len by blast
qed

section \<open>Releasing the segment\<close>

lemma delete_segment_run:
  fixes env :: env
  assumes "shmem_ok (s_shm s)" "valid_handle i" "lib_mem_id (s_hal s) = i" "live (sh_array (s_shm s) ! nat i)"
  shows "s_hal (delete_segment env s) =
      (if sh_count (sh_array (s_shm s) ! nat i) = 1 \<and> os_shmdt (ev_os env) (sh_mem (sh_array (s_shm s) ! nat i)) = None
       then (s_hal s)\<lparr>hal_data := SP_stale\<rparr> else s_hal s)"
    and "s_app (delete_segment env s) = s_app s"
proof -
  let ?m = "s_shm s" and ?sh = "sh_array (s_shm s) ! nat i"
  have n: "nat i < MAX_SHM" "nat i < length (sh_array ?m)" using assms(1,2) by (auto simp: valid_handle_def)
  note ok = shmem_okD [OF assms(1) n(1) assms(4)]
  let ?m1 = "upd_handle (nat i) (\<lambda>h. h\<lparr>sh_count := sh_count h - 1\<rparr>) ?m"
  have at: "sh_array ?m1 ! nat i = ?sh\<lparr>sh_count := sh_count ?sh - 1\<rparr>" using n(2) by (simp add: sh_array_upd)
  have del: "snd (rtapi_shmem_delete (ev_os env) i k ?m) =
      (if sh_count ?sh > 1 then ?m1 else snd (shmem_release (ev_os env) (nat i) ?m1))" for k
    using assms(2,4) at by (simp add: rtapi_shmem_delete_def Let_def)
  have "nat i < length (sh_array ?m1)" using n(2) by (simp add: sh_array_upd)
  from release_facts(2) [OF this, of "ev_os env"]
  have gone: "\<not> live (sh_array (snd (shmem_release (ev_os env) (nat i) ?m1)) ! nat i)" by (simp add: SHMEM_MAGIC_def)
  show "s_hal (delete_segment env s) =
      (if sh_count ?sh = 1 \<and> os_shmdt (ev_os env) (sh_mem ?sh) = None then (s_hal s)\<lparr>hal_data := SP_stale\<rparr> else s_hal s)"
    using assms(2-4) ok(1,2) gone at by (auto simp: delete_segment_def del Let_def)
  show "s_app (delete_segment env s) = s_app s" by (simp add: delete_segment_def Let_def)
qed

section \<open>Properties\<close>

text \<open>
  Property C26: a thread that has a component cannot be deleted. \<open>hal_thread_delete\<close> holds the lock of
  the segment when it calls \<open>hal_exit\<close>, which takes the same lock: the call never returns.
\<close>

theorem hal_thread_delete_hangs:
  assumes "hal_inv (s_hal s)" "hal_rep (s_hal s) G" "hd_lock (s_hal s) AND HAL_LOCK_CONFIG = 0"
    and "hd_state (s_hal s) = HAL_S_ACTIVE \<or> hd_state (s_hal s) = HAL_S_RUNNING"
    and "thread_named (s_hal s) G nm = Some t" "t_comp_id (threads (s_hal s) t) \<noteq> 0"
  shows "hal_thread_delete env (Some nm) s = Inl Hang"
proof -
  let ?h = "s_hal s"
  from assms(1) have map: "hal_data ?h = SP_mapped" and free: "\<not> locked (hd_mutex ?h)" by (auto simp: hal_inv_def)
  have ts: "find (\<lambda>p. t_name (threads ?h p) = nm) (s_threads G) = Some t" using assms(5) by (simp add: thread_named_def)
  then have "s_threads G \<noteq> []" by auto
  then have hd: "thread_list_ptr ?h \<noteq> 0" using threads_chain [OF assms(2)] by (cases "s_threads G") auto
  have walk: "unlink_walk (\<lambda>p. t_next (threads ?h p)) (\<lambda>p. strcmp (t_name (threads ?h p)) nm = 0) At_head (thread_list_ptr ?h) =
      Some (Some (link_of (takeWhile (\<lambda>q. t_name (threads ?h q) \<noteq> nm) (s_threads G)), t))"
    using unlink_walk_find [OF threads_chain [OF assms(2)], of "\<lambda>p. t_name (threads ?h p) = nm"] ts by simp
  let ?s = "s\<lparr>s_hal := ?h\<lparr>hd_mutex := set_lock (hd_mutex ?h)\<rparr>\<rparr>"
  have "hal_exit env i ?s = Inl Hang" for i
    using map assms(4) by (auto simp: hal_exit_def lock_hal_def)
  then show ?thesis
    using map assms(3,4,6) hd walk free by (auto simp: hal_thread_delete_def lock_hal_free)
qed

text \<open>A process with one HAL thread, which has task 0 and component 2, for the witnesses.\<close>

definition handle_of :: "int \<Rightarrow> int \<Rightarrow> rtapi_shmem_handle" where
  "handle_of key count = \<lparr>sh_magic = SHMEM_MAGIC, sh_key = key, sh_id = 7, sh_count = count, sh_size = 16, sh_mem = 4096,
     sh_state = SHMEM_S_ACTIVE, sh_owner_pid = 100, sh_error_code = 0\<rparr>"

definition sys_threaded :: sys where
  "sys_threaded = \<lparr>s_hal = one_mounted\<lparr>lib_mem_id := 1,
       threads := (threads one_mounted)(1047000 := (threads one_mounted 1047000)\<lparr>t_comp_id := 2\<rparr>)\<rparr>,
     s_shm = shmem_start\<lparr>sh_array := (sh_array shmem_start)[0 := handle_of UUID_KEY 2, 1 := handle_of HAL_KEY 1], uuid_base := 4096\<rparr>,
     s_app = rtapp_start\<lparr>task_array := (task_array rtapp_start)[0 := S_task (do_task_new\<lparr>tk_magic := TASK_MAGIC,
       tk_state := TASK_S_RUNNING, tk_thr := Th_code\<rparr>)]\<rparr>\<rparr>"

lemma sys_threaded_rep: "hal_rep (s_hal sys_threaded) one_mounted_shape"
  by (rule hal_rep_frame [OF one_mounted_rep]) (simp_all add: sys_threaded_def keeps_defs)

lemma sys_threaded_inv: "hal_inv (s_hal sys_threaded)"
  using sys_threaded_rep by (auto simp: hal_inv_def) (simp_all add: sys_threaded_def one_mounted_sel)

lemma sys_threaded_sel:
  "hd_lock (s_hal sys_threaded) = 0" "hd_state (s_hal sys_threaded) = HAL_S_ACTIVE" "lib_mem_id (s_hal sys_threaded) = 1"
  "t_comp_id (threads (s_hal sys_threaded) 1047000) = 2" "t_task_id (threads (s_hal sys_threaded) 1047000) = 0"
  "sh_array (s_shm sys_threaded) ! 1 = handle_of HAL_KEY 1"
  by (simp_all add: sys_threaded_def one_mounted_def zero_hal_def shmem_start_def MAX_SHM_def)

lemma sys_threaded_shm: "shmem_ok (s_shm sys_threaded)"
proof -
  let ?s = "shmem_start\<lparr>sh_array := (sh_array shmem_start)[0 := handle_of UUID_KEY 2]\<rparr>"
  have one: "shmem_ok ?s"
    by (rule shmem_ok_upd [OF shmem_ok_start, of 0])
      (auto simp: MAX_SHM_def handle_of_def UUID_KEY_def shmem_start_def unborn_def SHMEM_MAGIC_def)
  show ?thesis
    by (rule shmem_ok_upd [OF one, of 1])
      (auto simp: MAX_SHM_def handle_of_def UUID_KEY_def HAL_KEY_def shmem_start_def unborn_def SHMEM_MAGIC_def sys_threaded_def
        nth_list_update split: if_splits)
qed

lemma sys_threaded_tasks: "tasks_linked (s_hal sys_threaded) (s_threads one_mounted_shape) (s_app sys_threaded)"
  by (simp add: tasks_linked_def one_mounted_shape_def sys_threaded_sel task_live_def get_task_def)
    (simp add: sys_threaded_def rtapp_start_def MAX_TASKS_def)

theorem hal_thread_delete_hangs_witness: "hal_thread_delete env_example (Some ''t'') sys_threaded = Inl Hang"
proof -
  have "thread_named (s_hal sys_threaded) one_mounted_shape ''t'' = Some 1047000"
    by (simp add: thread_named_def one_mounted_shape_def sys_threaded_def one_mounted_def)
  then show ?thesis
    by (rule hal_thread_delete_hangs [OF sys_threaded_inv sys_threaded_rep, rotated 2]) (simp_all add: sys_threaded_sel)
qed

text \<open>
  Property C27: the end of the HAL. \<open>hal_app_exit\<close> deletes every thread: no thread is listed any more, the
  slots of their tasks are free, no other task is touched, and the other lists are as before. What comes
  next depends on the segment: when this process has the last reference of its handle, the kernel unmaps it
  and the last statement, which records the state \<open>HAL_S_DESTROYED\<close> in the segment, writes to unmapped
  memory. Otherwise the call returns, with that state, and a second call does nothing.
\<close>

theorem hal_app_exit_correct:
  fixes env :: env
  assumes "hal_inv (s_hal s)" "hal_rep (s_hal s) G" "tasks_linked (s_hal s) (s_threads G) (s_app s)"
    and "hd_state (s_hal s) \<noteq> HAL_S_DESTROYED" "shmem_ok (s_shm s)" "lib_mem_id (s_hal s) = i" "valid_handle i"
    and "live (sh_array (s_shm s) ! nat i)"
  shows "if sh_count (sh_array (s_shm s) ! nat i) = 1 \<and> os_shmdt (ev_os env) (sh_mem (sh_array (s_shm s) ! nat i)) = None
    then hal_app_exit env s = Inl UB
    else \<exists>s' G'. hal_app_exit env s = Inr s' \<and> hal_inv (s_hal s') \<and> hal_rep (s_hal s') G' \<and> s_threads G' = [] \<and>
      s_comps G' = s_comps G \<and> s_pins G' = s_pins G \<and> s_params G' = s_params G \<and> s_functs G' = s_functs G \<and>
      (\<forall>j. task_array (s_app s') ! j = (if j \<in> nat ` (\<lambda>t. t_task_id (threads (s_hal s) t)) ` set (s_threads G) then S_null
         else task_array (s_app s) ! j)) \<and>
      hd_state (s_hal s') = HAL_S_DESTROYED \<and> hal_app_exit env s' = Inr s'"
proof -
  let ?h = "s_hal s" and ?hs = "(s_hal s)\<lparr>hd_state := HAL_S_SHUTTING_DOWN, hd_mutex := set_lock (hd_mutex (s_hal s))\<rparr>"
  let ?start = "s\<lparr>s_hal := ?hs\<rparr>"
  have map: "hal_data ?h = SP_mapped" using assms(1) by (simp add: hal_inv_def)
  have free: "\<not> locked (hd_mutex ?h)" using assms(1) by (simp add: hal_inv_def)
  have r0: "hal_rep (s_hal ?start) G" by (simp, rule hal_rep_frame [OF assms(2)]) (simp_all add: keeps_defs)
  have t0: "tasks_linked (s_hal ?start) (s_threads G) (s_app ?start)" using assms(3) by (simp add: tasks_linked_def)
  obtain h1 G1 a1 where del: "delete_threads ?start = Some (Inr (?start\<lparr>s_hal := h1, s_app := a1\<rparr>))" and rep: "hal_rep h1 G1"
    and G1: "s_threads G1 = []" "s_comps G1 = s_comps G" "s_pins G1 = s_pins G" "s_params G1 = s_params G" "s_functs G1 = s_functs G"
    and st: "thread_step (s_hal ?start) h1" and arr: "\<forall>j. task_array a1 ! j = (if j \<in> nat ` (\<lambda>t. t_task_id (threads (s_hal ?start) t)) `
      set (s_threads G) then S_null else task_array (s_app ?start) ! j)"
    using delete_threads_run [OF r0 refl t0] by blast
  let ?s1 = "s\<lparr>s_app := a1, s_hal := hal_mutex_give h1\<rparr>"
  have lock: "lock_hal (with_hal (\<lambda>h. h\<lparr>hd_state := HAL_S_SHUTTING_DOWN\<rparr>) s) = Inr ?start"
    using free by (simp add: lock_hal_def with_hal_def)
  let ?s2 = "sys_rtapi_exit env (lib_module_id (s_hal (delete_segment env ?s1))) (delete_segment env ?s1)"
  have run: "hal_app_exit env s = (if hal_data (s_hal ?s2) = SP_stale then Inl UB else Inr (with_hal (\<lambda>h. h\<lparr>hd_state := HAL_S_DESTROYED\<rparr>) ?s2))"
    using map assms(4) lock del by (simp add: hal_app_exit_def with_hal_def Let_def)
  have lib: "lib_mem_id (s_hal ?s1) = i" "hal_data (s_hal ?s1) = SP_mapped" "\<not> locked (hd_mutex (s_hal ?s1))"
    using st assms(6) map free by (simp_all add: thread_step_def hal_mutex_give_def)
  have pre: "shmem_ok (s_shm ?s1)" "live (sh_array (s_shm ?s1) ! nat i)" using assms(5,8) by simp_all
  note D = delete_segment_run [OF pre(1) assms(7) lib(1) pre(2), of env]
  show ?thesis
  proof (cases "sh_count (sh_array (s_shm s) ! nat i) = 1 \<and> os_shmdt (ev_os env) (sh_mem (sh_array (s_shm s) ! nat i)) = None")
    case True
    with D(1) have "hal_data (s_hal ?s2) = SP_stale" by (simp add: sys_rtapi_exit_def)
    with True run show ?thesis by simp
  next
    case False
    with D have h2: "s_hal ?s2 = hal_mutex_give h1" "s_app ?s2 = a1" by (simp_all add: sys_rtapi_exit_def)
    let ?s3 = "with_hal (\<lambda>h. h\<lparr>hd_state := HAL_S_DESTROYED\<rparr>) ?s2"
    have run3: "hal_app_exit env s = Inr ?s3" using run lib(2) by (simp add: h2)
    have h3: "s_hal ?s3 = (hal_mutex_give h1)\<lparr>hd_state := HAL_S_DESTROYED\<rparr>" "s_app ?s3 = a1" by (simp_all add: with_hal_def h2)
    have rep3: "hal_rep (s_hal ?s3) G1" unfolding h3 by (rule hal_rep_frame [OF rep]) (simp_all add: hal_mutex_give_def keeps_defs)
    then have inv3: "hal_inv (s_hal ?s3)" using lib(2,3) by (auto simp: hal_inv_def h3)
    have again: "hal_app_exit env ?s3 = Inr ?s3" using lib(2) by (simp add: hal_app_exit_def h3)
    show ?thesis unfolding if_not_P [OF False]
      by (rule exI [of _ ?s3], rule exI [of _ G1]) (use run3 inv3 rep3 G1 again arr in \<open>simp add: h3\<close>)
  qed
qed

theorem hal_app_exit_correct_witness: "hal_app_exit env_example sys_threaded = Inl UB"
proof -
  have "os_shmdt (ev_os env_example) a = None" for a by (simp add: env_example_def os_grant_def)
  moreover have "live (sh_array (s_shm sys_threaded) ! nat 1)" "sh_count (sh_array (s_shm sys_threaded) ! nat 1) = 1"
    using sys_threaded_sel(6) by (simp_all add: handle_of_def)
  ultimately show ?thesis
    using hal_app_exit_correct [OF sys_threaded_inv sys_threaded_rep sys_threaded_tasks, of 1 env_example] sys_threaded_shm
    by (simp add: sys_threaded_sel(2,3) valid_handle_def MAX_SHM_def del: nat_one_as_int One_nat_def)
qed

end
