(* ===== verification/Hal_Create.thy ===== *)
theory Hal_Create
  imports Hal_Threads
begin

text \<open>
  Creation of HAL threads: \<open>hal_create_thread\<close> takes a struct, creates and starts a task, lists the
  thread, and registers a component, a parameter and a pin for it.
\<close>

unbundle bit_operations_syntax

section \<open>A new thread struct\<close>

lemma alloc_thread_Some:
  assumes "hal_rep h G" "init_entry_ok li" "alloc_thread_struct li h = (Some n, t)"
  obtains th fr tp av where "t = h\<lparr>shmem_avail := av, shmem_top := tp, thread_free_ptr := fr, threads := th,
      links := (links h)(Thread_root n := \<lparr>l_next = Thread_root n, l_prev = Thread_root n\<rparr>)\<rparr>"
    and "spare (\<lambda>p. t_next (th p)) (thread_list_ptr h) fr tp sizeof_hal_thread n (s_threads G) (tl (s_threads_free G))"
    and "\<forall>p. p \<noteq> n \<longrightarrow> th p = threads h p" "t_task_id (th n) = 0"
    and "area_wf t" "tp \<le> shmem_top h"
    and "if s_threads_free G = [] then n = tp \<and> n + sizeof_hal_thread \<le> shmem_top h
         else n = hd (s_threads_free G) \<and> tp = shmem_top h"
    and "shmem_top h - 256 \<le> tp"
proof -
  let ?clear = "\<lambda>s :: hal_thread. s\<lparr>t_next := 0, t_uses_fp := 0, t_period := 0, t_priority := 0, t_task_id := 0, t_name := []\<rparr>"
  from assms(3) obtain t' where t': "take_struct thread_free_ptr (\<lambda>v h. h\<lparr>thread_free_ptr := v\<rparr>)
      (\<lambda>h p. t_next (threads h p)) set_t_next (shmalloc_dn sizeof_hal_thread) h = (Some n, t')"
    and t: "t = upd_thread n ?clear (t'\<lparr>links := li (Thread_root n) (links t')\<rparr>)"
    by (auto simp: alloc_thread_struct_def split: prod.splits option.splits)
  from assms(1) have a: "area_wf h" and p: "pool (\<lambda>p. t_next (threads h p)) (thread_list_ptr h) (thread_free_ptr h)
      (shmem_top h) sizeof_hal_thread (s_threads G) (s_threads_free G)"
    by (auto simp: hal_rep_def threads_ok_def)
  note T = thread_pool.take_Some [OF a p t']
  have "t' = h\<lparr>shmem_avail := shmem_avail t', shmem_top := shmem_top t', thread_free_ptr := thread_free_ptr t',
      threads := threads t'\<rparr> \<and> (\<forall>p. p \<noteq> n \<longrightarrow> threads t' p = threads h p) \<and> shmem_top h - 256 \<le> shmem_top t'"
  proof (cases "thread_free_ptr h = 0")
    case True
    with t' have "shmalloc_dn sizeof_hal_thread h = (Some n, t')" by (simp add: take_struct_def)
    then show ?thesis using shmalloc_dn_room(1) [OF a sizeof_pos(5), of n t']
      by (auto dest!: shmalloc_dn_frame simp: sizeof_hal_thread_def)
  next
    case False
    with t' have "n = thread_free_ptr h \<and> t' = set_t_next n 0 (h\<lparr>thread_free_ptr := t_next (threads h n)\<rparr>)"
      by (auto simp: take_struct_def Let_def)
    then show ?thesis by (auto simp: set_t_next_def upd_thread_def)
  qed
  then obtain av tp fr th where f: "t' = h\<lparr>shmem_avail := av, shmem_top := tp, thread_free_ptr := fr, threads := th\<rparr>"
    "\<And>p. p \<noteq> n \<Longrightarrow> th p = threads h p" "shmem_top h - 256 \<le> tp" by auto
  show ?thesis
  proof (rule that)
    show "t = h\<lparr>shmem_avail := av, shmem_top := tp, thread_free_ptr := fr, threads := threads t,
        links := (links h)(Thread_root n := \<lparr>l_next = Thread_root n, l_prev = Thread_root n\<rparr>)\<rparr>"
      using assms(2) by (simp add: t f(1) upd_thread_def init_entry_ok_def)
    show "spare (\<lambda>p. t_next (threads t p)) (thread_list_ptr h) fr tp sizeof_hal_thread n (s_threads G) (tl (s_threads_free G))"
      using T by (auto simp: t f(1) upd_thread_heap elim!: spare_next)
  qed (use T f(2,3) in \<open>auto simp: t f(1) split: if_splits\<close>)
qed

definition with_thread :: "off \<Rightarrow> shape \<Rightarrow> shape" where
  "with_thread n G = G\<lparr>s_threads := n # s_threads G, s_threads_free := tl (s_threads_free G), s_entries := (s_entries G)(n := [])\<rparr>"

lemma with_thread_entries: "n \<notin> set (s_threads G) \<Longrightarrow> all_entries (with_thread n G) = all_entries G"
  unfolding all_entries_def with_thread_def by (auto intro!: arg_cong [of _ _ concat])

lemma new_thread_loose:
  assumes rep: "hal_rep h G" and li: "init_entry_ok li" and al: "alloc_thread_struct li h = (Some n, t)"
  shows "loose_thread n (s_threads G) t (with_thread n G)" "n \<notin> set (s_threads G)"
    and "thread_step h t" "\<forall>p. p \<noteq> n \<longrightarrow> threads t p = threads h p" "t_task_id (threads t n) = 0"
    "thread_list_ptr t = thread_list_ptr h" "entries t = entries h" "functs t = functs h" "hd_lock t = hd_lock h"
    "shmem_bot t = shmem_bot h" "shmem_top h - 256 \<le> shmem_top t"
proof -
  obtain th fr tp av where t: "t = h\<lparr>shmem_avail := av, shmem_top := tp, thread_free_ptr := fr, threads := th,
      links := (links h)(Thread_root n := \<lparr>l_next = Thread_root n, l_prev = Thread_root n\<rparr>)\<rparr>"
    and sp: "spare (\<lambda>p. t_next (th p)) (thread_list_ptr h) fr tp sizeof_hal_thread n (s_threads G) (tl (s_threads_free G))"
    and th: "\<forall>p. p \<noteq> n \<longrightarrow> th p = threads h p" "t_task_id (th n) = 0"
    and a: "area_wf t" "tp \<le> shmem_top h"
    and n: "if s_threads_free G = [] then n = tp \<and> n + sizeof_hal_thread \<le> shmem_top h
         else n = hd (s_threads_free G) \<and> tp = shmem_top h"
    and low: "shmem_top h - 256 \<le> tp"
    by (rule alloc_thread_Some [OF rep li al])
  let ?G = "with_thread n G"
  note P = hal_rep_parts [OF rep]
  show nin: "n \<notin> set (s_threads G)" using sp by (simp add: spare_def)
  note ae = with_thread_entries [OF nin]
  have top: "shmem_top t \<le> shmem_top h" using a(2) by (simp add: t)
  have oks: "comps_ok t ?G" "pins_ok t ?G" "params_ok t ?G" "functs_ok t ?G"
    by (rule comps_ok_frame [OF P(2) _ top] pins_ok_frame [OF P(3) _ top] params_ok_frame [OF P(4) _ top]
        functs_ok_frame [OF P(5) _ top]; simp add: keeps_defs t with_thread_def)+
  have uok: "users_ok t ?G"
    using P(8) unfolding users_ok_def uses_def ae by (simp add: t with_thread_def)
  have keep: "ring (links t) r xs" if "ring (links h) r xs" "r \<noteq> Thread_root n" "is_root r" for r xs
  proof -
    have "ring (links t) r xs = ring (links h) r xs"
      by (rule ring_cong) (use that in \<open>auto simp: t\<close>)
    with that show ?thesis by simp
  qed
  have rok: "rings_ok t ?G"
    unfolding rings_ok_def
  proof (intro conjI)
    show "ring (links t) Free_root (s_entries_free ?G)"
      using rings_ok_free(1) [OF P(7)] by (auto simp: with_thread_def intro!: keep)
    have own: "ring (links t) (Thread_root n) []" by (simp add: ring_def t is_root_def)
    have "ring (links t) (Thread_root u) (s_entries G u)" if "u \<in> set (s_threads G)" for u
      by (rule keep [OF rings_ok_free(2) [OF P(7) that]]) (use that nin in \<open>auto simp: is_root_def\<close>)
    with own nin show "\<forall>u \<in> set (s_threads ?G). ring (links t) (Thread_root u) (s_entries ?G u)"
      by (auto simp: with_thread_def)
    show "distinct (s_entries_free ?G @ all_entries ?G)"
      using rings_ok_free(3) [OF P(7)] by (simp add: ae) (simp add: with_thread_def)
    have "\<forall>e \<in> set (s_entries_free G @ all_entries G). shmem_top t \<le> e \<and> e + sizeof_hal_funct_entry \<le> HAL_SIZE"
    proof
      fix e assume "e \<in> set (s_entries_free G @ all_entries G)"
      then have "shmem_top h \<le> e \<and> e + sizeof_hal_funct_entry \<le> HAL_SIZE" using P(7) unfolding rings_ok_def by blast
      with top show "shmem_top t \<le> e \<and> e + sizeof_hal_funct_entry \<le> HAL_SIZE" by linarith
    qed
    then show "\<forall>e \<in> set (s_entries_free ?G @ all_entries ?G). shmem_top t \<le> e \<and> e + sizeof_hal_funct_entry \<le> HAL_SIZE"
      unfolding ae by (simp add: with_thread_def)
  qed
  have bl: "blocks ?G = blocks G \<or> (\<exists>m sz. blocks ?G = insert (m, sz) (blocks G) \<and> m + sz \<le> shmem_top h)"
  proof (cases "s_threads_free G")
    case Nil
    then have "blocks ?G = insert (n, sizeof_hal_thread) (blocks G)"
      unfolding blocks_def ae by (auto simp: with_thread_def)
    with n Nil show ?thesis by auto
  next
    case (Cons y ys)
    with n have "blocks ?G = blocks G" unfolding blocks_def ae by (auto simp: with_thread_def)
    then show ?thesis by simp
  qed
  have ap: "apart (blocks ?G)" using bl P(9) apart_new [OF rep] by auto
  have "spare (\<lambda>p. t_next (threads t p)) (thread_list_ptr t) (thread_free_ptr t) (shmem_top t) sizeof_hal_thread n
      (s_threads G) (s_threads_free ?G)" using sp by (simp add: t with_thread_def)
  with oks uok rok ap a(1) show "loose_thread n (s_threads G) t ?G"
    by (simp add: loose_thread_def) (simp add: with_thread_def)
  show "thread_step h t" "\<forall>p. p \<noteq> n \<longrightarrow> threads t p = threads h p" "t_task_id (threads t n) = 0"
    "thread_list_ptr t = thread_list_ptr h" "entries t = entries h" "functs t = functs h" "hd_lock t = hd_lock h"
    "shmem_bot t = shmem_bot h" "shmem_top h - 256 \<le> shmem_top t"
    using th low by (simp_all add: t thread_step_def)
qed

lemma loose_upd:
  assumes "loose_thread t ts h G" "\<And>x. t_next (f x) = t_next x"
  shows "loose_thread t ts (upd_thread t f h) G"
proof -
  from assms(1) have oks: "comps_ok h G" "pins_ok h G" "params_ok h G" "functs_ok h G" "rings_ok h G" "users_ok h G"
    and rest: "s_threads G = t # ts" "area_wf h" "apart (blocks G)"
      "spare (\<lambda>p. t_next (threads h p)) (thread_list_ptr h) (thread_free_ptr h) (shmem_top h) sizeof_hal_thread t ts (s_threads_free G)"
    by (simp_all add: loose_thread_def)
  have "comps_ok (upd_thread t f h) G" "pins_ok (upd_thread t f h) G" "params_ok (upd_thread t f h) G"
    "functs_ok (upd_thread t f h) G" "rings_ok (upd_thread t f h) G" "users_ok (upd_thread t f h) G"
    by (rule comps_ok_frame [OF oks(1)] pins_ok_frame [OF oks(2)] params_ok_frame [OF oks(3)] functs_ok_frame [OF oks(4)]
        rings_ok_frame [OF oks(5)] users_ok_frame [OF oks(6)]; simp add: keeps_defs)+
  moreover have "(\<lambda>p. t_next (threads (upd_thread t f h) p)) = (\<lambda>p. t_next (threads h p))"
    using assms(2) by (simp add: upd_thread_heap fun_eq_iff)
  ultimately show ?thesis using rest by (simp add: loose_thread_def)
qed

lemma loose_push:
  assumes "loose_thread t ts h G"
  shows "hal_rep ((set_t_next t (thread_list_ptr h) h)\<lparr>thread_list_ptr := t\<rparr>) G"
proof -
  let ?h = "(set_t_next t (thread_list_ptr h) h)\<lparr>thread_list_ptr := t\<rparr>"
  from assms have oks: "comps_ok h G" "pins_ok h G" "params_ok h G" "functs_ok h G" "rings_ok h G" "users_ok h G"
    and rest: "s_threads G = t # ts" "area_wf h" "apart (blocks G)"
    and sp: "spare (\<lambda>p. t_next (threads h p)) (thread_list_ptr h) (thread_free_ptr h) (shmem_top h) sizeof_hal_thread t
      ([] @ ts) (s_threads_free G)"
    by (simp_all add: loose_thread_def)
  have nx: "thread_list_ptr h = (case ts of [] \<Rightarrow> 0 | v # _ \<Rightarrow> v)"
    using sp by (cases ts) (auto simp: spare_def pool_def)
  have hk: "?h = link_in (\<lambda>v h. h\<lparr>thread_list_ptr := v\<rparr>) set_t_next (link_of []) (thread_list_ptr h) t h"
    by (simp add: link_in_def put_link_def)
  have "threads_ok ?h G"
    using thread_pool.link_in_pool [OF sp nx hk] rest(1) by (simp add: threads_ok_def)
  moreover have "comps_ok ?h G" "pins_ok ?h G" "params_ok ?h G" "functs_ok ?h G" "rings_ok ?h G" "users_ok ?h G"
    by (rule comps_ok_frame [OF oks(1)] pins_ok_frame [OF oks(2)] params_ok_frame [OF oks(3)] functs_ok_frame [OF oks(4)]
        rings_ok_frame [OF oks(5)] users_ok_frame [OF oks(6)]; simp add: keeps_defs set_t_next_def)+
  moreover have "area_wf ?h" using rest(2) by (simp add: set_t_next_def)
  ultimately show ?thesis using rest(3) by (simp add: hal_rep_def)
qed

lemma thread_step_upd [simp]: "thread_step h (upd_thread t f k) = thread_step h k"
  by (simp add: thread_step_def)

lemma thread_step_push [simp]: "thread_step h ((set_t_next t v k)\<lparr>thread_list_ptr := p\<rparr>) = thread_step h k"
  by (simp add: thread_step_def set_t_next_def)

section \<open>The start of a thread\<close>

definition thread_room :: "hal \<Rightarrow> shape \<Rightarrow> bool" where
  "thread_room h G \<longleftrightarrow> s_threads_free G \<noteq> [] \<or> fst (shmalloc_dn sizeof_hal_thread h) \<noteq> None"

lemma thread_room_alloc:
  assumes "hal_rep h G" "thread_room h G"
  shows "\<exists>n t. alloc_thread_struct li (h\<lparr>hd_mutex := m\<rparr>) = (Some n, t)"
proof -
  have "thread_free_ptr h = 0 \<longleftrightarrow> s_threads_free G = []"
    using hal_rep_parts(6) [OF assms(1)] chain_nz by (cases "s_threads_free G") (auto simp: threads_ok_def pool_def)
  moreover have "fst (shmalloc_dn sz (h\<lparr>hd_mutex := m\<rparr>)) = fst (shmalloc_dn sz h)" for sz
    by (simp add: shmalloc_dn_def Let_def)
  ultimately have "fst (alloc_thread_struct li (h\<lparr>hd_mutex := m\<rparr>)) \<noteq> None"
    using assms(2) by (auto simp: alloc_thread_struct_def thread_room_def take_struct_def Let_def split: prod.splits option.splits)
      (metis fst_conv option.distinct(1))
  then show ?thesis by (cases "alloc_thread_struct li (h\<lparr>hd_mutex := m\<rparr>)") auto
qed

lemma find_thread_walk:
  assumes "hal_rep h G"
  shows "walk (\<lambda>p. t_next (threads h p)) (\<lambda>p. strcmp (t_name (threads h p)) nm = 0) (thread_list_ptr h) =
    Some (case thread_named h G nm of None \<Rightarrow> 0 | Some t \<Rightarrow> t)"
  using walk_chain [OF threads_chain [OF assms], of "\<lambda>p. t_name (threads h p) = nm"] by (simp add: thread_named_def)

text \<open>The call up to the start of the task.\<close>

lemma create_thread_alloc:
  assumes "hal_inv (s_hal s)" "hal_rep (s_hal s) G" "init_entry_ok (ev_list_init env)"
    and "p \<noteq> 0" "length nm \<le> HAL_NAME_LEN" "hd_lock (s_hal s) AND HAL_LOCK_CONFIG = 0"
    and "thread_named (s_hal s) G nm = None" "thread_room (s_hal s) G"
    and clock: "s_threads G \<noteq> [] \<or> fst (clock_for p (s_app s))"
  obtains t h1 a where "hal_create_thread env (Some nm) p fp prio s =
      bnd (start_thread env t p fp prio (s\<lparr>s_hal := h1, s_app := a\<rparr>)) (\<lambda>(ok, s).
         if ok then register_thread env t (unlock_hal s) else Inr (- EINVAL, unlock_hal s))"
    and "a = (if s_threads G = [] then snd (clock_for p (s_app s)) else s_app s)"
    and "loose_thread t (s_threads G) h1 (with_thread t G)" "t \<notin> set (s_threads G)"
    and "thread_step ((s_hal s)\<lparr>hd_mutex := set_lock (hd_mutex (s_hal s))\<rparr>) h1"
    and "\<forall>q. q \<noteq> t \<longrightarrow> threads h1 q = threads (s_hal s) q"
    and "t_task_id (threads h1 t) = 0" "t_name (threads h1 t) = nm" "t_uses_fp (threads h1 t) = fp"
    and "entries h1 = entries (s_hal s)" "functs h1 = functs (s_hal s)" "hd_lock h1 = hd_lock (s_hal s)"
    and "shmem_bot h1 = shmem_bot (s_hal s)" "shmem_top (s_hal s) - 256 \<le> shmem_top h1"
proof -
  let ?h = "s_hal s" and ?l = "(s_hal s)\<lparr>hd_mutex := set_lock (hd_mutex (s_hal s))\<rparr>"
  have map: "hal_data ?h = SP_mapped" and free: "\<not> locked (hd_mutex ?h)" using assms(1) by (auto simp: hal_inv_def)
  have rep: "hal_rep ?l G" using assms(2) by simp
  obtain t k where al: "alloc_thread_struct (ev_list_init env) ?l = (Some t, k)"
    using thread_room_alloc [OF assms(2,8)] by blast
  note N = new_thread_loose [OF rep assms(3) al]
  let ?h1 = "upd_thread t (\<lambda>x. x\<lparr>t_uses_fp := fp, t_name := snprintf_s (HAL_NAME_LEN + 1) nm\<rparr>) k"
  let ?a = "if s_threads G = [] then snd (clock_for p (s_app s)) else s_app s"
  have nm: "snprintf_s (HAL_NAME_LEN + 1) nm = nm" using assms(5) by simp
  have hd: "thread_list_ptr k = 0 \<longleftrightarrow> s_threads G = []"
    using threads_chain [OF assms(2)] N(6) by (cases "s_threads G") auto
  have walk: "walk (\<lambda>q. t_next (threads ?h q)) (\<lambda>q. t_name (threads ?h q) = nm) (thread_list_ptr ?h) = Some 0"
    using find_thread_walk [OF assms(2), of nm] assms(7) by simp
  have run: "hal_create_thread env (Some nm) p fp prio s =
      bnd (start_thread env t p fp prio (s\<lparr>s_hal := ?h1, s_app := ?a\<rparr>)) (\<lambda>(ok, s).
         if ok then register_thread env t (unlock_hal s) else Inr (- EINVAL, unlock_hal s))"
    using map assms(4-6) free walk al clock by (cases "clock_for p (s_app s)")
      (auto simp: hal_create_thread_def lock_hal_free hd Let_def)
  have loose: "loose_thread t (s_threads G) ?h1 (with_thread t G)" by (rule loose_upd [OF N(1)]) simp
  show ?thesis by (rule that [OF run refl loose]) (use N nm in simp_all)
qed

text \<open>What the environment has to grant, and the task that comes out of it.\<close>

definition grants :: "env \<Rightarrow> int \<Rightarrow> nat \<Rightarrow> rtapp \<Rightarrow> bool" where
  "grants env prio k a \<longleftrightarrow> ev_prio_lowest env \<le> prio \<and> prio \<le> ev_prio_highest env \<and>
     first_null 0 (task_array a) = Some k \<and> length (task_array a) = MAX_TASKS \<and>
     (\<forall>t. attr_setup (ev_pthread env) t = 0) \<and> os_create (ev_pthread env) = 0"

definition started_task :: "env \<Rightarrow> off \<Rightarrow> 64 word \<Rightarrow> int \<Rightarrow> int \<Rightarrow> int \<Rightarrow> nat \<Rightarrow> posix_task" where
  "started_task env t p fp prio owner k =
     (fill_task (os_getpid (ev_os env)) (ev_thread_task env) t prio owner HAL_STACKSIZE fp (int k) do_task_new)
       \<lparr>tk_period := p, tk_pll_correction_limit := p div 100, tk_pll_correction := 0, tk_state := TASK_S_RUNNING, tk_thr := Th_created\<rparr>"

lemma clock_array [simp]: "task_array (snd (clock_for p a)) = task_array a"
  by (simp add: clock_for_def clock_set_period_def Let_def)

lemma first_null_slot: "first_null 0 ss = Some k \<Longrightarrow> k < length ss \<and> ss ! k = S_null"
proof -
  have "first_null j ss = Some k \<Longrightarrow> j \<le> k \<and> k - j < length ss \<and> ss ! (k - j) = S_null" for j
    by (induction ss arbitrary: j) (fastforce simp: nth_Cons' Suc_diff_Suc split: if_splits)+
  then show "first_null 0 ss = Some k \<Longrightarrow> k < length ss \<and> ss ! k = S_null" by force
qed

lemma start_thread_run:
  assumes "grants env prio k (s_app s)" "loose_thread t ts (s_hal s) G"
  shows "\<exists>h' a'. start_thread env t p fp prio s = Inr (True, s\<lparr>s_hal := h', s_app := a'\<rparr>) \<and> hal_rep h' G \<and>
    thread_step (s_hal s) h' \<and> (\<forall>q. q \<noteq> t \<longrightarrow> (\<exists>v. threads h' q = (threads (s_hal s) q)\<lparr>t_next := v\<rparr>)) \<and>
    t_name (threads h' t) = t_name (threads (s_hal s) t) \<and> t_period (threads h' t) = sint p \<and> t_priority (threads h' t) = prio \<and>
    t_task_id (threads h' t) = int k \<and> t_uses_fp (threads h' t) = t_uses_fp (threads (s_hal s) t) \<and>
    task_array a' = (task_array (s_app s))[k := S_task (started_task env t p fp prio (lib_module_id (s_hal s)) k)] \<and>
    hd_lock h' = hd_lock (s_hal s) \<and> shmem_bot h' = shmem_bot (s_hal s) \<and> shmem_top h' = shmem_top (s_hal s) \<and>
    entries h' = entries (s_hal s) \<and> functs h' = functs (s_hal s)"
proof -
  let ?h = "s_hal s"
  let ?h1 = "upd_thread t (\<lambda>x. x\<lparr>t_task_id := int k\<rparr>) (upd_thread t (\<lambda>x. x\<lparr>t_period := sint p, t_priority := prio\<rparr>) ?h)"
  let ?h2 = "(set_t_next t (thread_list_ptr ?h1) ?h1)\<lparr>thread_list_ptr := t\<rparr>"
  from assms(1) have g: "ev_prio_lowest env \<le> prio" "prio \<le> ev_prio_highest env" "first_null 0 (task_array (s_app s)) = Some k"
    "length (task_array (s_app s)) = MAX_TASKS" "\<And>t. attr_setup (ev_pthread env) t = 0" "os_create (ev_pthread env) = 0"
    by (simp_all add: grants_def)
  have k: "k < MAX_TASKS" using first_null_slot [OF g(3)] g(4) by simp
  let ?tk = "fill_task (os_getpid (ev_os env)) (ev_thread_task env) t prio (lib_module_id ?h) HAL_STACKSIZE fp (int k) do_task_new"
  let ?a1 = "put_slot k (S_task ?tk) (put_slot k S_init (s_app s))"
  have new: "task_new (ev_prio_highest env) (ev_prio_lowest env) (os_getpid (ev_os env)) (ev_thread_task env) t prio
      (lib_module_id ?h) HAL_STACKSIZE fp (s_app s) = (int k, ?a1)"
    using g by (simp add: task_new_def allocate_task_id_def)
  have get: "get_task (int k) ?a1 = Some ?tk"
    using k g(4) by (simp add: get_task_def put_slot_def fill_task_def Let_def)
  have start: "task_start (ev_pthread env) (int k) p ?a1 = (0, put_slot k (S_task (started_task env t p fp prio (lib_module_id ?h) k)) ?a1)"
    using get g(5,6) by (simp add: task_start_def started_task_def fill_task_def Let_def)
  let ?a2 = "put_slot k (S_task (started_task env t p fp prio (lib_module_id ?h) k)) ?a1"
  have run: "start_thread env t p fp prio s = Inr (True, s\<lparr>s_hal := ?h2, s_app := ?a2\<rparr>)"
    using new start by (simp add: start_thread_def with_hal_def Let_def)
  have lo: "loose_thread t ts ?h1 G" by (intro loose_upd assms(2)) simp_all
  have "task_array ?a2 = (task_array (s_app s))[k := S_task (started_task env t p fp prio (lib_module_id ?h) k)]"
    by (simp add: put_slot_def)
  moreover have "\<exists>v. threads ?h2 q = (threads ?h q)\<lparr>t_next := v\<rparr>" if "q \<noteq> t" for q
    by (rule exI [of _ "t_next (threads ?h q)"]) (use that in \<open>simp add: set_t_next_def upd_thread_heap\<close>)
  moreover have "thread_step ?h ?h2" by (simp add: thread_step_def set_t_next_def)
  ultimately show ?thesis using run loose_push [OF lo]
    by (rule_tac exI [of _ ?h2], rule_tac exI [of _ ?a2]) (simp add: set_t_next_def)
qed

lemma start_thread_fail:
  assumes "prio < ev_prio_lowest env \<or> ev_prio_highest env < prio" "loose_thread t ts (s_hal s) G"
    and "task_live (t_task_id (threads (s_hal s) t)) (s_app s)" "length (task_array (s_app s)) = MAX_TASKS"
  shows "\<exists>h' ef. start_thread env t p fp prio s =
      Inr (False, s\<lparr>s_hal := h', s_app := put_slot (nat (t_task_id (threads (s_hal s) t))) S_null (s_app s)\<rparr>) \<and>
    hal_rep h' (without_thread t ts ef G) \<and> thread_step (s_hal s) h' \<and> (\<forall>q. q \<noteq> t \<longrightarrow> threads h' q = threads (s_hal s) q) \<and>
    threads_running h' = 0"
proof -
  let ?s = "s\<lparr>s_hal := upd_thread t (\<lambda>x. x\<lparr>t_period := sint p, t_priority := prio\<rparr>) (s_hal s)\<rparr>"
  have lo: "loose_thread t ts (s_hal ?s) G" using loose_upd [OF assms(2)] by simp
  have live: "task_live (t_task_id (threads (s_hal ?s) t)) (s_app ?s)" "length (task_array (s_app ?s)) = MAX_TASKS"
    using assms(3,4) by simp_all
  obtain h' ef where f: "free_thread_struct t ?s = Inr (?s\<lparr>s_hal := h', s_app := put_slot (nat (t_task_id (threads (s_hal ?s) t))) S_null (s_app ?s)\<rparr>)"
    and r: "hal_rep h' (without_thread t ts ef G)" "thread_step (s_hal ?s) h'" "\<forall>q. q \<noteq> t \<longrightarrow> threads h' q = threads (s_hal ?s) q"
      "threads_running h' = 0"
    using free_thread_run [OF lo live] by blast
  have "start_thread env t p fp prio s = bnd (free_thread_struct t ?s) (\<lambda>s. Inr (False, s))"
    using assms(1) by (auto simp: start_thread_def task_new_def with_hal_def Let_def)
  then show ?thesis using f r
    by (rule_tac exI [of _ h'], rule_tac exI [of _ ef]) (simp add: thread_step_def)
qed

section \<open>The registration of a thread\<close>

lemma threads_unique:
  assumes "hal_rep h G" "hal_rep h' G'" "keeps_threads h h'"
  shows "s_threads G' = s_threads G"
  using nodes_chain [OF threads_chain [OF assms(1)]] nodes_chain [OF threads_chain [OF assms(2)]] assms(3)
  by (simp add: keeps_threads_def)

lemma added_comp_of:
  assumes "added_comp cp i h G h'"
  shows "comp_of i h' = cp" "cp \<noteq> 0"
proof -
  note A = added_comp_facts [OF assms]
  have ch: "chain (\<lambda>p. c_next (comps h' p)) (comp_list_ptr h') (cp # s_comps G)"
    using comps_chain [OF A(1)] by simp
  then show "cp \<noteq> 0" by auto
  show "comp_of i h' = cp" using nodes_chain [OF ch] A(3) by (simp add: comp_of_def)
qed

text \<open>What the registration leaves alone: the programs, the functions, the locks, the memory of components.\<close>

definition same_calls :: "hal \<Rightarrow> hal \<Rightarrow> bool" where
  "same_calls h h' \<longleftrightarrow> links h' = links h \<and> entries h' = entries h \<and> functs h' = functs h \<and>
     funct_list_ptr h' = funct_list_ptr h \<and> hd_lock h' = hd_lock h \<and> hd_state h' = hd_state h \<and> shmem_bot h' = shmem_bot h \<and> ucells h' = ucells h \<and>
     lib_mem_id h' = lib_mem_id h"

lemma same_calls_refl [simp]: "same_calls h h"
  by (simp add: same_calls_def)

text \<open>Old pins stay, with their signals.\<close>

definition keeps_signals :: "hal \<Rightarrow> hal \<Rightarrow> bool" where
  "keeps_signals h h' \<longleftrightarrow> pin_set h \<subseteq> pin_set h' \<and> (\<forall>q \<in> pin_set h. p_dummysig (pins h' q) = p_dummysig (pins h q))"

lemma keeps_signals_trans: "keeps_signals h1 h2 \<Longrightarrow> keeps_signals h2 h3 \<Longrightarrow> keeps_signals h1 h3"
  by (auto simp: keeps_signals_def subset_iff)

lemma keeps_signals_same: "pins h' = pins h \<Longrightarrow> pin_list_ptr h' = pin_list_ptr h \<Longrightarrow> keeps_signals h h'"
  by (simp add: keeps_signals_def pin_set_def)

lemma keeps_signals_new:
  assumes "pin_made i c h h'" "\<And>f. pins (put_cell c f h) = pins h"
  shows "keeps_signals h h'"
  using assms by (auto simp: pin_made_def keeps_signals_def)

text \<open>Writing the signal of a pin that was not there before.\<close>

lemma pin_set_signal [simp]: "pin_set (upd_pin q (\<lambda>s. s\<lparr>p_dummysig := v\<rparr>) h) = pin_set h"
proof -
  have "(\<lambda>p. p_next (pins (upd_pin q (\<lambda>s. s\<lparr>p_dummysig := v\<rparr>) h) p)) = (\<lambda>p. p_next (pins h p))"
    by (simp add: upd_pin_heap fun_eq_iff)
  then show ?thesis by (simp add: pin_set_def)
qed

lemma keeps_signals_write:
  "keeps_signals h h' \<Longrightarrow> q \<notin> pin_set h \<Longrightarrow> keeps_signals h (upd_pin q (\<lambda>s. s\<lparr>p_dummysig := v\<rparr>) h')"
  by (auto simp: keeps_signals_def upd_pin_heap)

text \<open>Components other than \<open>i\<close> stay as they are.\<close>

definition keeps_comps_but :: "int \<Rightarrow> hal \<Rightarrow> hal \<Rightarrow> bool" where
  "keeps_comps_but i h h' \<longleftrightarrow> (\<forall>j. j \<noteq> i \<longrightarrow> comp_of j h' = comp_of j h \<and>
     (comp_of j h \<noteq> 0 \<longrightarrow> comps h' (comp_of j h) = comps h (comp_of j h)))"

lemma comp_of_in: "hal_rep h G \<Longrightarrow> comp_of j h \<noteq> 0 \<Longrightarrow> comp_of j h \<in> set (s_comps G)"
  using nodes_chain [OF comps_chain, of h G] find_in [of "\<lambda>p. c_comp_id (comps h p) = j" "s_comps G"]
  by (auto simp: comp_of_def split: option.splits)

lemma added_comp_others:
  assumes "hal_rep h G" "added_comp cp i h G h'"
  shows "keeps_comps_but i h h'"
proof -
  note A = added_comp_facts [OF assms(2)]
  have n: "nodes (\<lambda>p. c_next (comps h' p)) (comp_list_ptr h') = cp # s_comps G"
    using nodes_chain [OF comps_chain [OF A(1)]] by simp
  have "comp_of j h' = comp_of j h" if "j \<noteq> i" for j
  proof -
    have "find (\<lambda>p. c_comp_id (comps h' p) = j) (s_comps G) = find (\<lambda>p. c_comp_id (comps h p) = j) (s_comps G)"
      by (rule find_cong [OF refl]) (use A(2,7) in auto)
    then show ?thesis using that A(3) nodes_chain [OF comps_chain [OF assms(1)]] by (simp add: comp_of_def n)
  qed
  moreover have "comps h' (comp_of j h) = comps h (comp_of j h)" if "comp_of j h \<noteq> 0" for j
    using comp_of_in [OF assms(1) that] A(2,7) by metis
  ultimately show ?thesis by (simp add: keeps_comps_but_def)
qed

text \<open>What the registration may change in threads.\<close>

definition registers :: "off \<Rightarrow> hal \<Rightarrow> hal \<Rightarrow> bool" where
  "registers t h h' \<longleftrightarrow> thread_list_ptr h' = thread_list_ptr h \<and> (\<forall>q. q \<noteq> t \<longrightarrow> threads h' q = threads h q) \<and>
     (\<exists>c m r. threads h' t = (threads h t)\<lparr>t_comp_id := c, t_maxtime := m, t_runtime := r\<rparr>) \<and>
     thread_free_ptr h' = thread_free_ptr h \<and> same_calls h h'"

lemma registers_refl: "registers t h h"
  unfolding registers_def
  by (intro conjI) (simp_all, rule exI [of _ "t_comp_id (threads h t)"], rule exI [of _ "t_maxtime (threads h t)"],
      rule exI [of _ "t_runtime (threads h t)"], simp)

lemma registers_trans:
  assumes "registers t h1 h2" "registers t h2 h3"
  shows "registers t h1 h3"
proof -
  from assms(1) obtain c m r where 1: "threads h2 t = (threads h1 t)\<lparr>t_comp_id := c, t_maxtime := m, t_runtime := r\<rparr>"
    by (auto simp: registers_def)
  from assms(2) obtain c' m' r' where 2: "threads h3 t = (threads h2 t)\<lparr>t_comp_id := c', t_maxtime := m', t_runtime := r'\<rparr>"
    by (auto simp: registers_def)
  have "\<exists>c m r. threads h3 t = (threads h1 t)\<lparr>t_comp_id := c, t_maxtime := m, t_runtime := r\<rparr>"
    by (rule exI [of _ c'], rule exI [of _ m'], rule exI [of _ r']) (simp add: 1 2)
  with assms show ?thesis by (simp add: registers_def same_calls_def)
qed

lemma registers_same: "threads h' = threads h \<Longrightarrow> thread_list_ptr h' = thread_list_ptr h \<Longrightarrow> thread_free_ptr h' = thread_free_ptr h \<Longrightarrow>
    same_calls h h' \<Longrightarrow> registers t h h'"
  using registers_refl [of t h] by (simp add: registers_def)

lemma registers_sel:
  assumes "registers t h h'"
  shows "keeps_threads h h'" "t_name (threads h' q) = t_name (threads h q)" "t_period (threads h' q) = t_period (threads h q)"
    "t_priority (threads h' q) = t_priority (threads h q)" "t_task_id (threads h' q) = t_task_id (threads h q)"
    "t_uses_fp (threads h' q) = t_uses_fp (threads h q)"
proof -
  have "t_next (threads h' q) = t_next (threads h q) \<and> t_name (threads h' q) = t_name (threads h q) \<and>
      t_period (threads h' q) = t_period (threads h q) \<and> t_priority (threads h' q) = t_priority (threads h q) \<and>
      t_task_id (threads h' q) = t_task_id (threads h q) \<and> t_uses_fp (threads h' q) = t_uses_fp (threads h q)" for q
    using assms by (cases "q = t") (auto simp: registers_def)
  with assms show "keeps_threads h h'" "t_name (threads h' q) = t_name (threads h q)" "t_period (threads h' q) = t_period (threads h q)"
    "t_priority (threads h' q) = t_priority (threads h q)" "t_task_id (threads h' q) = t_task_id (threads h q)"
    "t_uses_fp (threads h' q) = t_uses_fp (threads h q)" by (auto simp: keeps_threads_def registers_def)
qed

lemma registers_upd:
  "registers t h (upd_thread t (\<lambda>x. x\<lparr>t_comp_id := c\<rparr>) h)" "registers t h (upd_thread t (\<lambda>x. x\<lparr>t_maxtime := m\<rparr>) h)"
proof -
  have "\<exists>c' m' r'. (threads h t)\<lparr>t_comp_id := c\<rparr> = (threads h t)\<lparr>t_comp_id := c', t_maxtime := m', t_runtime := r'\<rparr>"
    by (rule exI [of _ c], rule exI [of _ "t_maxtime (threads h t)"], rule exI [of _ "t_runtime (threads h t)"]) simp
  then show "registers t h (upd_thread t (\<lambda>x. x\<lparr>t_comp_id := c\<rparr>) h)"
    by (simp add: registers_def same_calls_def upd_thread_heap)
  have "\<exists>c' m' r'. (threads h t)\<lparr>t_maxtime := m\<rparr> = (threads h t)\<lparr>t_comp_id := c', t_maxtime := m', t_runtime := r'\<rparr>"
    by (rule exI [of _ "t_comp_id (threads h t)"], rule exI [of _ m], rule exI [of _ "t_runtime (threads h t)"]) simp
  then show "registers t h (upd_thread t (\<lambda>x. x\<lparr>t_maxtime := m\<rparr>) h)"
    by (simp add: registers_def same_calls_def upd_thread_heap)
qed

lemma pin_step_thread:
  assumes "pin_step i (Cell_thread t) h h'"
  shows "registers t h h'" "comps h' = comps h" "comp_list_ptr h' = comp_list_ptr h" "params h' = params h"
    "param_list_ptr h' = param_list_ptr h"
    "c_shmem_base (comps h (comp_of i h)) = B_base \<Longrightarrow> \<exists>n. t_runtime (threads h' t) = D_sig n"
proof -
  from assms obtain n av tp pl fr pn where h': "h' = (put_cell (Cell_thread t)
      (if c_shmem_base (comps h (comp_of i h)) = B_base then D_sig n else D_wild) h)
      \<lparr>shmem_avail := av, shmem_top := tp, pin_list_ptr := pl, pin_free_ptr := fr, pins := pn\<rparr>"
    unfolding pin_step_def by blast
  have "\<exists>c m r. (threads h t)\<lparr>t_runtime := v\<rparr> = (threads h t)\<lparr>t_comp_id := c, t_maxtime := m, t_runtime := r\<rparr>" for v
    by (rule exI [of _ "t_comp_id (threads h t)"], rule exI [of _ "t_maxtime (threads h t)"], rule exI [of _ v]) simp
  then show "registers t h h'" by (simp add: h' registers_def same_calls_def upd_thread_heap)
  show "comps h' = comps h" "comp_list_ptr h' = comp_list_ptr h" "params h' = params h" "param_list_ptr h' = param_list_ptr h"
    by (simp_all add: h')
  show "\<exists>n. t_runtime (threads h' t) = D_sig n" if "c_shmem_base (comps h (comp_of i h)) = B_base"
    using that by (simp add: h' upd_thread_heap)
qed

lemma hal_inv_upd_thread: "hal_inv h \<Longrightarrow> (\<And>x. t_next (f x) = t_next x) \<Longrightarrow> hal_inv (upd_thread t f h)"
  unfolding hal_inv_def by (auto, rule exI, erule hal_rep_frame) (simp_all add: keeps_defs)

lemma hal_inv_upd_pin:
  "hal_inv h \<Longrightarrow> (\<And>x. p_next (f x) = p_next x \<and> p_name (f x) = p_name x \<and> p_oldname (f x) = p_oldname x) \<Longrightarrow> hal_inv (upd_pin q f h)"
  unfolding hal_inv_def by (auto, rule exI, erule hal_rep_frame) (simp_all add: keeps_defs)

lemma added_comp_keeps:
  assumes "added_comp cp i h G h'"
  shows "registers t h h'" "pin_names h' = pin_names h" "param_names h' = param_names h" "hd_lock h' = hd_lock h"
  using assms by (auto simp: added_comp_def pin_names_def param_names_def same_calls_def intro!: registers_same)

lemma param_step_keeps:
  assumes "param_step h h'"
  shows "registers t h h'" "pin_names h' = pin_names h" "comps h' = comps h" "comp_list_ptr h' = comp_list_ptr h" "threads h' = threads h"
  using assms by (auto simp: param_step_def pin_names_def same_calls_def intro!: registers_same)

lemma comp_of_same: "comps h' = comps h \<Longrightarrow> comp_list_ptr h' = comp_list_ptr h \<Longrightarrow> comp_of i h' = comp_of i h"
  by (simp add: comp_of_def)

text \<open>A thread is registered: its component is ready, and its parameter and its pin are listed.\<close>

definition registered :: "off \<Rightarrow> int \<Rightarrow> hal \<Rightarrow> hal \<Rightarrow> bool" where
  "registered t i h h' \<longleftrightarrow> comp_of i h' \<noteq> 0 \<and> c_ready (comps h' (comp_of i h')) = 1 \<and> t_comp_id (threads h' t) = i \<and>
     t_maxtime (threads h' t) = 0 \<and> (\<exists>q. t_runtime (threads h' t) = D_sig q \<and> p_dummysig (pins h' q) = 0) \<and>
     pin_names h' = insort (t_name (threads h' t) @ ''.time'') (pin_names h) \<and>
     param_names h' = insort (t_name (threads h' t) @ ''.tmax'') (param_names h)"

lemma rep_area: "hal_rep h G \<Longrightarrow> area_wf h"
  by (simp add: hal_rep_def)

lemma alloc_pin_room:
  assumes "hal_inv h" "shmem_bot h + 128 \<le> shmem_top h"
  shows "fst (alloc_pin_struct h) \<noteq> None"
proof -
  from assms(1) obtain G where "hal_rep h G" by (auto simp: hal_inv_def)
  then have "fst (shmalloc_dn sizeof_hal_pin h) \<noteq> None"
    using shmalloc_dn_room(2) [OF rep_area, of h G sizeof_hal_pin] assms(2) by (simp add: sizeof_hal_pin_def)
  then show ?thesis by (auto simp: alloc_pin_struct_def take_struct_def Let_def split: prod.split option.split)
qed

lemma alloc_param_room:
  assumes "hal_inv h" "shmem_bot h + 128 \<le> shmem_top h"
  shows "fst (alloc_param_struct h) \<noteq> None"
proof -
  from assms(1) obtain G where "hal_rep h G" by (auto simp: hal_inv_def)
  then have "fst (shmalloc_dn sizeof_hal_param h) \<noteq> None"
    using shmalloc_dn_room(2) [OF rep_area, of h G sizeof_hal_param] assms(2) by (simp add: sizeof_hal_param_def)
  then show ?thesis by (auto simp: alloc_param_struct_def take_struct_def Let_def split: prod.split option.split)
qed

lemma comp_room_top:
  assumes "hal_rep h G" "shmem_bot h + 128 \<le> shmem_top h"
  shows "comp_room h G"
  using shmalloc_dn_room(2) [OF rep_area [OF assms(1)], of sizeof_hal_comp] assms(2)
  by (simp add: comp_room_def sizeof_hal_comp_def)

text \<open>What the registration of thread \<open>t\<close> with the name \<open>nm\<close> needs.\<close>

definition can_register :: "off \<Rightarrow> string \<Rightarrow> hal \<Rightarrow> shape \<Rightarrow> bool" where
  "can_register t nm h G \<longleftrightarrow> 0 \<le> t \<and> t + sizeof_hal_thread \<le> HAL_SIZE \<and> length nm \<le> 42 \<and>
     hd_lock h AND 1 = 0 \<and> ''__'' @ nm \<notin> comp_names h G \<and> nm @ ''.tmax'' \<notin> set (param_names h) \<and>
     nm @ ''.time'' \<notin> set (pin_names h) \<and> shmem_bot h + 384 \<le> shmem_top h"

lemma register_param_ok:
  assumes "can_register t nm h G" "added_comp cp c h G h1" "hal_inv h2"
    and "comps h2 = comps h1" "comp_list_ptr h2 = comp_list_ptr h1" "param_names h2 = param_names h" "hd_lock h2 = hd_lock h"
    and "shmem_bot h2 = shmem_bot h" "shmem_top h2 = shmem_top h1"
  shows "param_verdict (snprintf_s (HAL_NAME_LEN + 1) (nm @ ''.tmax'')) HAL_S32 HAL_RW (A_thread_maxtime t) c h2 = 0"
proof -
  have c: "comp_of c h2 = cp" "cp \<noteq> 0" using comp_of_same [OF assms(4,5)] added_comp_of [OF assms(2)] by simp_all
  have "shmem_top h - 128 \<le> shmem_top h1" using assms(2) by (auto simp: added_comp_def)
  then have "fst (alloc_param_struct h2) \<noteq> None"
    using assms(1) by (intro alloc_param_room [OF assms(3)]) (simp add: can_register_def assms(8,9))
  then show ?thesis
    using assms(1) added_comp_facts(5) [OF assms(2)]
    by (auto simp: param_verdict_def can_register_def c assms(4,6,7) param_type_ok_def SHMCHK_def sizeof_hal_thread_def HAL_NAME_LEN_def)
qed

lemma register_pin_ok:
  assumes "can_register t nm h G" "added_comp cp c h G h1" "hal_inv h2"
    and "comps h2 = comps h1" "comp_list_ptr h2 = comp_list_ptr h1" "pin_names h2 = pin_names h" "hd_lock h2 = hd_lock h"
    and "shmem_bot h2 = shmem_bot h" "shmem_top h1 - 128 \<le> shmem_top h2"
  shows "pin_verdict (nm @ ''.time'') HAL_S32 (Cell_thread t) c h2 = 0"
proof -
  have c: "comp_of c h2 = cp" "cp \<noteq> 0" using comp_of_same [OF assms(4,5)] added_comp_of [OF assms(2)] by simp_all
  have "shmem_top h - 128 \<le> shmem_top h1" using assms(2) by (auto simp: added_comp_def)
  then have "fst (alloc_pin_struct h2) \<noteq> None"
    using assms(1,9) by (intro alloc_pin_room [OF assms(3)]) (simp add: can_register_def assms(8))
  then show ?thesis
    using assms(1) added_comp_facts(5) [OF assms(2)]
    by (auto simp: pin_verdict_def can_register_def c assms(4,6,7) pin_type_ok_def SHMCHK_def sizeof_hal_thread_def HAL_NAME_LEN_def)
qed

text \<open>The last steps, once the component, the parameter and the pin are there: the pin's own cell is cleared and
  the component is made ready.\<close>

lemma register_finish:
  fixes s :: sys and t :: off
  assumes rep: "hal_rep h G" and add: "added_comp cp c h G h1" and inv4: "hal_inv h4" and r4: "registers t h h4"
    and st: "pin_step c (Cell_thread t) h3 h4" and mk: "pin_made c (Cell_thread t) h3 h4"
    and h3: "comps h3 = comps h1" "comp_list_ptr h3 = comp_list_ptr h1" "pins h3 = pins h" "pin_list_ptr h3 = pin_list_ptr h"
    and th3: "t_comp_id (threads h3 t) = c" "t_maxtime (threads h3 t) = 0"
    and pns: "pin_names h4 = insort (t_name (threads h t) @ ''.time'') (pin_names h)"
    and mns: "param_names h3 = insort (t_name (threads h t) @ ''.tmax'') (param_names h)"
  shows "\<exists>h6. bnd (clear_runtime (t_runtime (threads h4 t)) h4) (\<lambda>h.
        bnd (on_hal (hal_ready c) (s\<lparr>s_hal := h\<rparr>)) (\<lambda>(_, s). Inr (c, s))) = Inr (c, s\<lparr>s_hal := h6\<rparr>) \<and>
    hal_inv h6 \<and> registers t h h6 \<and> registered t c h h6 \<and> keeps_signals h h6 \<and> keeps_comps_but c h h6 \<and>
    shmem_top h3 - 128 \<le> shmem_top h6"
proof -
  note AF = added_comp_facts [OF add] and AC = added_comp_of [OF add] and Q = pin_step_thread [OF st]
  have cs: "comps h4 = comps h1" "comp_list_ptr h4 = comp_list_ptr h1" using Q(2,3) h3 by simp_all
  have cof: "comp_of c h4 = cp" "comp_of c h3 = cp"
    using comp_of_same [OF cs, of c] comp_of_same [OF h3(1,2), of c] AC(1) by simp_all
  have base: "c_shmem_base (comps h3 (comp_of c h3)) = B_base"
    using add by (simp add: cof h3 added_comp_def)
  obtain q where q: "t_runtime (threads h4 t) = D_sig q" "q \<notin> pin_set h3" and top4: "shmem_top h3 - 128 \<le> shmem_top h4"
    using mk base by (auto simp: pin_made_def upd_thread_heap)
  let ?h5 = "upd_pin q (\<lambda>s. s\<lparr>p_dummysig := 0\<rparr>) h4"
  let ?h6 = "upd_comp cp (\<lambda>c. c\<lparr>c_ready := 1\<rparr>) ?h5"
  have inv5: "hal_inv ?h5" by (rule hal_inv_upd_pin [OF inv4]) simp
  have cof5: "comp_of c ?h5 = cp" using comp_of_same [of ?h5 h4 c] cof by simp
  have "hal_ready c ?h5 = Inr (0, ?h6)"
    using hal_ready_eq [OF inv5, of c] AC(2) AF(5) by (simp add: cof5 cs)
  then have run: "bnd (clear_runtime (t_runtime (threads h4 t)) h4) (\<lambda>h.
      bnd (on_hal (hal_ready c) (s\<lparr>s_hal := h\<rparr>)) (\<lambda>(_, s). Inr (c, s))) = Inr (c, s\<lparr>s_hal := ?h6\<rparr>)"
    using q by (simp add: clear_runtime_def on_hal_def)
  have inv6: "hal_inv ?h6" by (rule hal_inv_upd_comp [OF inv5]) simp
  have r6: "registers t h ?h6" using r4 by (simp add: registers_def same_calls_def)
  have "(\<lambda>p. p_name (pins ?h6 p)) = (\<lambda>p. p_name (pins h4 p))" "(\<lambda>p. p_next (pins ?h6 p)) = (\<lambda>p. p_next (pins h4 p))"
    "pin_list_ptr ?h6 = pin_list_ptr h4" by (simp_all add: upd_pin_heap fun_eq_iff)
  then have pns6: "pin_names ?h6 = insort (t_name (threads h t) @ ''.time'') (pin_names h)"
    using pns by (simp add: pin_names_def)
  have mns6: "param_names ?h6 = insort (t_name (threads h t) @ ''.tmax'') (param_names h)"
    using Q(4,5) mns by (simp add: param_names_def)
  obtain r where "threads h4 t = (threads h3 t)\<lparr>t_runtime := r\<rparr>" using st by (auto simp: pin_step_def upd_thread_heap)
  then have th: "t_comp_id (threads h4 t) = c" "t_maxtime (threads h4 t) = 0" by (simp_all add: th3)
  have cof6: "comp_of c ?h6 = cp" using cof5 by simp
  have regd: "registered t c h ?h6"
    unfolding registered_def registers_sel(2) [OF r6] pns6 mns6 using AC(2) th q cof6 by (simp add: upd_pin_heap)
  have "keeps_signals h3 ?h5" by (rule keeps_signals_write [OF keeps_signals_new q(2)]) (use mk in auto)
  then have "keeps_signals h ?h5" by (rule keeps_signals_trans [OF keeps_signals_same [OF h3(3,4)]])
  then have sigs: "keeps_signals h ?h6" by (simp add: keeps_signals_def pin_set_def)
  have "comp_of j ?h6 = comp_of j h1" for j
    using comp_of_same [of ?h5 h1 j] cs by (simp add: comp_of_upd)
  moreover have "comp_of j h \<noteq> cp" if "comp_of j h \<noteq> 0" for j
    using comp_of_in [OF rep that] AF(2) by auto
  ultimately have others: "keeps_comps_but c h ?h6"
    using added_comp_others [OF rep add] by (simp add: keeps_comps_but_def cs)
  show ?thesis
    by (rule exI [of _ ?h6]) (use run inv6 r6 regd sigs others top4 in simp)
qed

text \<open>The parameter, the pin and the last steps, for a component \<open>c\<close> that \<open>hal_init\<close> has just added.\<close>

lemma register_items_run:
  fixes s :: sys and t :: off and h :: hal
  defines "nm \<equiv> t_name (threads h t)"
  assumes rep: "hal_rep h G" and inv1: "hal_inv (s_hal s)" and add: "added_comp cp c h G (s_hal s)"
  shows "\<exists>r h'. bnd (on_hal (hal_param_s32_new (snprintf_s (HAL_NAME_LEN + 1) (nm @ ''.tmax'')) HAL_RW HAL_S32 (A_thread_maxtime t) c)
        (s\<lparr>s_hal := upd_thread t (\<lambda>x. x\<lparr>t_maxtime := 0\<rparr>) (upd_thread t (\<lambda>x. x\<lparr>t_comp_id := c\<rparr>) (s_hal s))\<rparr>)) (\<lambda>(r, s).
      if r \<noteq> 0 then Inr (- EINVAL, s)
      else bnd (on_hal (hal_pin_newf HAL_S32 (Cell_thread t) c (nm @ ''.time'')) s) (\<lambda>(r, s).
      if r \<noteq> 0 then Inr (- EINVAL, s)
      else bnd (clear_runtime (t_runtime (threads (s_hal s) t)) (s_hal s)) (\<lambda>h.
           bnd (on_hal (hal_ready c) (s\<lparr>s_hal := h\<rparr>)) (\<lambda>(_, s). Inr (c, s))))) = Inr (r, s\<lparr>s_hal := h'\<rparr>) \<and>
    hal_inv h' \<and> registers t h h' \<and>
    (r = c \<and> length nm \<le> 42 \<and> registered t c h h' \<and> keeps_signals h h' \<and> keeps_comps_but c h h' \<and> shmem_top h - 384 \<le> shmem_top h' \<or>
     r = - EINVAL \<and> \<not> can_register t nm h G)"
    (is "\<exists>r h'. ?run = _ \<and> _")
proof -
  let ?h2 = "upd_thread t (\<lambda>x. x\<lparr>t_maxtime := 0\<rparr>) (upd_thread t (\<lambda>x. x\<lparr>t_comp_id := c\<rparr>) (s_hal s))"
  let ?pn = "snprintf_s (HAL_NAME_LEN + 1) (nm @ ''.tmax'')"
  let ?pv = "param_verdict ?pn HAL_S32 HAL_RW (A_thread_maxtime t) c ?h2"
  have bot1: "shmem_bot (s_hal s) = shmem_bot h" "shmem_top h - 128 \<le> shmem_top (s_hal s)" "pin_list_ptr (s_hal s) = pin_list_ptr h"
    using add by (auto simp: added_comp_def)
  note A = added_comp_keeps [OF add] and AF = added_comp_facts [OF add]
  have inv2: "hal_inv ?h2" by (intro hal_inv_upd_thread inv1) simp_all
  have r2: "registers t h ?h2"
    by (rule registers_trans [OF A(1) registers_trans [OF registers_upd(1) registers_upd(2)]])
  obtain h3 where par: "hal_param_new ?pn HAL_S32 HAL_RW (A_thread_maxtime t) c ?h2 = Inr (?pv, h3)"
    and inv3: "hal_inv h3" and st3: "param_step ?h2 h3"
    and pn3: "param_names h3 = (if ?pv = 0 then insort ?pn (param_names ?h2) else param_names ?h2)"
    using hal_param_new_run [OF inv2, of ?pn HAL_S32 HAL_RW "A_thread_maxtime t" c] by blast
  note P = param_step_keeps [OF st3]
  have r3: "registers t h h3" by (rule registers_trans [OF r2 P(1)])
  have par': "on_hal (hal_param_s32_new ?pn HAL_RW HAL_S32 (A_thread_maxtime t) c) (s\<lparr>s_hal := ?h2\<rparr>) = Inr (?pv, s\<lparr>s_hal := h3\<rparr>)"
    using par by (simp add: on_hal_def hal_param_s32_new_def)
  show ?thesis
  proof (cases "?pv = 0 \<and> length nm \<le> 42")
    case bad: False
    have no: "\<not> can_register t nm h G"
    proof
      assume can: "can_register t nm h G"
      have "?pv = 0"
        by (rule register_param_ok [OF can add inv2]) (use A(3,4) bot1 in \<open>simp_all add: param_names_def\<close>)
      with can bad show False by (simp add: can_register_def)
    qed
    have "?run = Inr (- EINVAL, s\<lparr>s_hal := h3\<rparr>)"
      using par' bad by (auto simp: on_hal_def hal_pin_newf_def hal_pin_newfv_def HAL_NAME_LEN_def Let_def)
    with inv3 r3 no show ?thesis by blast
  next
    case ok: True
    have tn: "snprintf_s (HAL_NAME_LEN + 1) (nm @ ''.time'') = nm @ ''.time''" "?pn = nm @ ''.tmax''"
      using ok by (simp_all add: HAL_NAME_LEN_def)
    let ?qv = "pin_verdict (nm @ ''.time'') HAL_S32 (Cell_thread t) c h3"
    obtain h4 where pin: "hal_pin_new (nm @ ''.time'') HAL_S32 (Cell_thread t) c h3 = Inr (?qv, h4)" and inv4: "hal_inv h4"
      and st4: "if ?qv = 0 then pin_step c (Cell_thread t) h3 h4 else h4 = h3 \<or> pin_step c (Cell_thread t) h3 h4"
      and qn4: "pin_names h4 = (if ?qv = 0 then insort (nm @ ''.time'') (pin_names h3) else pin_names h3)"
      and mk4: "?qv = 0 \<longrightarrow> pin_made c (Cell_thread t) h3 h4"
      using hal_pin_new_run [OF inv3, of "Cell_thread t" "nm @ ''.time''" HAL_S32 c] by blast
    have r4: "registers t h h4"
      using st4 registers_trans [OF r3] pin_step_thread(1) r3 by (auto split: if_splits)
    have "on_hal (hal_pin_newf HAL_S32 (Cell_thread t) c (nm @ ''.time'')) (s\<lparr>s_hal := h3\<rparr>) = Inr (?qv, s\<lparr>s_hal := h4\<rparr>)"
      using pin ok unfolding hal_pin_newf_def hal_pin_newfv_def tn(1) by (simp add: on_hal_def HAL_NAME_LEN_def)
    then have eq4: "?run = (if ?qv \<noteq> 0 then Inr (- EINVAL, s\<lparr>s_hal := h4\<rparr>)
        else bnd (clear_runtime (t_runtime (threads h4 t)) h4) (\<lambda>h.
               bnd (on_hal (hal_ready c) (s\<lparr>s_hal := h\<rparr>)) (\<lambda>(_, s). Inr (c, s))))"
      using par' ok by simp
    have h3: "pins h3 = pins h" "pin_list_ptr h3 = pin_list_ptr h" "hd_lock h3 = hd_lock h" "shmem_bot h3 = shmem_bot h"
      "shmem_top (s_hal s) - 128 \<le> shmem_top h3"
      using st3 AF(8) bot1 A(4) by (auto simp: param_step_def)
    have same: "comps h3 = comps (s_hal s)" "comp_list_ptr h3 = comp_list_ptr (s_hal s)" using P(3,4) by simp_all
    show ?thesis
    proof (cases "?qv = 0")
      case False
      then have "\<not> can_register t nm h G"
        using register_pin_ok [OF _ add inv3, of t nm] P(2) same A(2) h3 by (auto simp: pin_names_def)
      with False eq4 inv4 r4 show ?thesis by auto
    next
      case True
      have top: "shmem_top h - 256 \<le> shmem_top h3" using bot1(2) h3(5) by simp
      have th3: "t_comp_id (threads h3 t) = c" "t_maxtime (threads h3 t) = 0" by (simp_all add: P(5))
      have names: "pin_names h4 = insort (t_name (threads h t) @ ''.time'') (pin_names h)"
        "param_names h3 = insort (t_name (threads h t) @ ''.tmax'') (param_names h)"
        using qn4 pn3 True P(2) A(2,3) ok tn unfolding nm_def by (simp_all add: pin_names_def param_names_def)
      obtain h6 where "?run = Inr (c, s\<lparr>s_hal := h6\<rparr>)" "hal_inv h6" "registers t h h6" "registered t c h h6"
        "keeps_signals h h6" "keeps_comps_but c h h6" "shmem_top h3 - 128 \<le> shmem_top h6"
        using register_finish [OF rep add inv4 r4 _ _ same h3(1,2) th3 names, of s] st4 mk4 True eq4 by auto
      with top ok show ?thesis by (intro exI [of _ c] exI [of _ h6]) simp
    qed
  qed
qed

lemma register_run:
  fixes env :: env and t :: off and s :: sys
  assumes lib: "lib_ready s G v n"
  defines "nm \<equiv> t_name (threads (s_hal s) t)"
  shows "\<exists>r s'. register_thread env t s = Inr (r, s') \<and> hal_inv (s_hal s') \<and> s_app s' = s_app s \<and>
    registers t (s_hal s) (s_hal s') \<and> (r = v + 1 \<and> registered t r (s_hal s) (s_hal s') \<or> r = - EINVAL) \<and>
    (length nm > 42 \<longrightarrow> r = - EINVAL) \<and> (can_register t nm (s_hal s) G \<longrightarrow> r = v + 1) \<and>
    (r = v + 1 \<longrightarrow> keeps_signals (s_hal s) (s_hal s') \<and> keeps_comps_but r (s_hal s) (s_hal s') \<and>
       shmem_top (s_hal s) - 384 \<le> shmem_top (s_hal s') \<and> module_ids r (n + 1) (s_shm s') \<and> same_segments (s_shm s) (s_shm s'))"
proof -
  let ?h = "s_hal s" and ?buf = "snprintf_s (HAL_NAME_LEN + 1) (''__'' @ nm)"
  have inv: "hal_inv ?h" and v0: "0 \<le> v" and rep: "hal_rep ?h G" using lib by (simp_all add: lib_ready_def)
  obtain c s1 where init: "hal_init env (Some ?buf) s = Inr (c, s1)" "c = init_verdict ?h G (Some ?buf) (v + 1)" "s_app s1 = s_app s"
    and neg: "c < 0 \<longrightarrow> s_hal s1 = ?h"
    and pos: "0 \<le> c \<longrightarrow> hal_inv (s_hal s1) \<and> (\<exists>cp. added_comp cp c ?h G (s_hal s1))"
    and ids: "0 \<le> c \<longrightarrow> module_ids (v + 1) (n + 1) (s_shm s1) \<and> same_segments (s_shm s) (s_shm s1)"
    using hal_init_run [OF lib, of env "Some ?buf"] by blast
  show ?thesis
  proof (cases "c < 0")
    case True
    then have "\<not> can_register t nm ?h G" using init(2) v0 comp_room_top [of ?h G] lib
      by (auto simp: init_verdict_def can_register_def HAL_NAME_LEN_def lib_ready_def split: if_splits)
    moreover have "register_thread env t s = Inr (- EINVAL, s1\<lparr>s_hal := upd_thread t (\<lambda>x. x\<lparr>t_comp_id := c\<rparr>) (s_hal s1)\<rparr>)"
      using True init(1) by (simp add: register_thread_def nm_def [symmetric] with_hal_def Let_def)
    ultimately show ?thesis
      using True neg init(3) inv v0 registers_upd(1) [of t ?h c] by (simp add: hal_inv_upd_thread)
  next
    case False
    with pos obtain cp where inv1: "hal_inv (s_hal s1)" and add: "added_comp cp c ?h G (s_hal s1)" by auto
    have c: "c = v + 1" using False init(2) by (auto simp: init_verdict_def split: if_splits)
    note items = register_items_run [OF rep inv1 add, of t]
    have "register_thread env t s = bnd (on_hal (hal_param_s32_new (snprintf_s (HAL_NAME_LEN + 1) (nm @ ''.tmax'')) HAL_RW HAL_S32 (A_thread_maxtime t) c)
        (s1\<lparr>s_hal := upd_thread t (\<lambda>x. x\<lparr>t_maxtime := 0\<rparr>) (upd_thread t (\<lambda>x. x\<lparr>t_comp_id := c\<rparr>) (s_hal s1))\<rparr>)) (\<lambda>(r, s).
      if r \<noteq> 0 then Inr (- EINVAL, s)
      else bnd (on_hal (hal_pin_newf HAL_S32 (Cell_thread t) c (nm @ ''.time'')) s) (\<lambda>(r, s).
      if r \<noteq> 0 then Inr (- EINVAL, s)
      else bnd (clear_runtime (t_runtime (threads (s_hal s) t)) (s_hal s)) (\<lambda>h.
           bnd (on_hal (hal_ready c) (s\<lparr>s_hal := h\<rparr>)) (\<lambda>(_, s). Inr (c, s)))))"
      using False init(1) unfolding nm_def by (simp add: register_thread_def with_hal_def Let_def)
    with items obtain r h' where run: "register_thread env t s = Inr (r, s1\<lparr>s_hal := h'\<rparr>)"
      and res: "hal_inv h'" "registers t ?h h'"
        "r = c \<and> length nm \<le> 42 \<and> registered t c ?h h' \<and> keeps_signals ?h h' \<and> keeps_comps_but c ?h h' \<and> shmem_top ?h - 384 \<le> shmem_top h' \<or>
         r = - EINVAL \<and> \<not> can_register t nm ?h G"
      unfolding nm_def [symmetric] by (elim exE conjE) (rule that, simp_all)
    show ?thesis
      by (rule exI [of _ r], rule exI [of _ "s1\<lparr>s_hal := h'\<rparr>"]) (use run res c init(3) ids v0 False in auto)
  qed
qed

section \<open>The whole call\<close>

text \<open>What the call needs, besides a task, to register the thread.\<close>

definition can_create :: "string \<Rightarrow> hal \<Rightarrow> shape \<Rightarrow> bool" where
  "can_create nm h G \<longleftrightarrow> length nm \<le> 42 \<and> hd_lock h AND 1 = 0 \<and> ''__'' @ nm \<notin> comp_names h G \<and>
     nm @ ''.tmax'' \<notin> set (param_names h) \<and> nm @ ''.time'' \<notin> set (pin_names h) \<and> shmem_bot h + 640 \<le> shmem_top h"

text \<open>What it leaves alone.\<close>

definition create_keeps :: "int \<Rightarrow> hal \<Rightarrow> hal \<Rightarrow> bool" where
  "create_keeps c h h' \<longleftrightarrow> entries h' = entries h \<and> functs h' = functs h \<and> funct_list_ptr h' = funct_list_ptr h \<and>
     hd_lock h' = hd_lock h \<and> hd_state h' = hd_state h \<and> shmem_bot h' = shmem_bot h \<and> ucells h' = ucells h \<and> keeps_signals h h' \<and>
     lib_mem_id h' = lib_mem_id h \<and> keeps_comps_but c h h' \<and> shmem_top h - 640 \<le> shmem_top h'"

text \<open>What the registration finds of the state before the call, and the programs of the threads after it.\<close>

lemma listed_thread_same:
  assumes "thread_step (h\<lparr>hd_mutex := m\<rparr>) h2"
  defines "k \<equiv> hal_mutex_give h2"
  shows "pin_names k = pin_names h" "param_names k = param_names h" "comp_names k (with_thread t G) = comp_names h G"
    "pins k = pins h" "pin_list_ptr k = pin_list_ptr h" "comps k = comps h" "comp_list_ptr k = comp_list_ptr h"
    "funct_list_ptr k = funct_list_ptr h" "ucells k = ucells h" "hd_state k = hd_state h" "lib_mem_id k = lib_mem_id h"
  using assms(1) by (simp_all add: k_def pin_names_def param_names_def comp_names_def with_thread_def thread_step_def hal_mutex_give_def)

lemma registered_shape:
  assumes rep: "hal_rep h (with_thread t G)" and rep': "hal_rep h' G'" and rg: "registers t h h'" and t: "t \<notin> set (s_threads G)"
  shows "s_threads G' = t # s_threads G" "s_entries G' t = []" "\<forall>u \<in> set (s_threads G). s_entries G' u = s_entries G u"
proof -
  have m: "same_calls h h'" using rg by (simp add: registers_def)
  show ths: "s_threads G' = t # s_threads G"
    using threads_unique [OF rep rep' registers_sel(1) [OF rg]] by (simp add: with_thread_def)
  have same: "s_entries G' u = s_entries (with_thread t G) u" if "u \<in> set (t # s_threads G)" for u
  proof (rule ring_unique)
    show "ring (links h') (Thread_root u) (s_entries G' u)"
      using rings_ok_free(2) [OF hal_rep_parts(7) [OF rep']] that by (simp add: ths)
    show "ring (links h') (Thread_root u) (s_entries (with_thread t G) u)"
      using rings_ok_free(2) [OF hal_rep_parts(7) [OF rep]] that m by (simp add: same_calls_def) (simp add: with_thread_def)
  qed
  then show "s_entries G' t = []" "\<forall>u \<in> set (s_threads G). s_entries G' u = s_entries G u"
    using t by (auto simp: with_thread_def)
qed

lemma hal_create_thread_run:
  fixes env :: env
  assumes "lib_ready s G v n" "init_entry_ok (ev_list_init env)"
    and "p \<noteq> 0" "length nm \<le> HAL_NAME_LEN" "hd_lock (s_hal s) AND HAL_LOCK_CONFIG = 0"
    and "thread_named (s_hal s) G nm = None" "thread_room (s_hal s) G"
    and "s_threads G \<noteq> [] \<or> fst (clock_for p (s_app s))" "grants env prio k (s_app s)"
  shows "\<exists>r s' G' t tk. hal_create_thread env (Some nm) p fp prio s = Inr (r, s') \<and>
    hal_inv (s_hal s') \<and> hal_rep (s_hal s') G' \<and> s_threads G' = t # s_threads G \<and> t \<notin> set (s_threads G) \<and>
    t_name (threads (s_hal s') t) = nm \<and> t_period (threads (s_hal s') t) = sint p \<and> t_priority (threads (s_hal s') t) = prio \<and>
    t_task_id (threads (s_hal s') t) = int k \<and> task_array (s_app s') = (task_array (s_app s))[k := S_task tk] \<and>
    tk_state tk = TASK_S_RUNNING \<and> tk_thr tk = Th_created \<and> tk_period tk = p \<and> tk_taskcode tk = ev_thread_task env \<and> tk_arg tk = t \<and>
    (r = v + 1 \<and> registered t r (s_hal s) (s_hal s') \<or> r = - EINVAL) \<and> (42 < length nm \<longrightarrow> r = - EINVAL) \<and>
    s_entries G' t = [] \<and> (\<forall>u \<in> set (s_threads G). s_entries G' u = s_entries G u) \<and> t_uses_fp (threads (s_hal s') t) = fp \<and>
    (can_create nm (s_hal s) G \<longrightarrow> r = v + 1) \<and> (r = v + 1 \<longrightarrow> create_keeps r (s_hal s) (s_hal s') \<and>
       module_ids r (n + 1) (s_shm s') \<and> same_segments (s_shm s) (s_shm s'))"
proof -
  let ?h = "s_hal s"
  have inv: "hal_inv ?h" and rep: "hal_rep ?h G" and v: "0 \<le> v" using assms(1) by (simp_all add: lib_ready_def)
  obtain t h1 a where run: "hal_create_thread env (Some nm) p fp prio s =
      bnd (start_thread env t p fp prio (s\<lparr>s_hal := h1, s_app := a\<rparr>)) (\<lambda>(ok, s).
         if ok then register_thread env t (unlock_hal s) else Inr (- EINVAL, unlock_hal s))"
    and a: "a = (if s_threads G = [] then snd (clock_for p (s_app s)) else s_app s)"
    and lo: "loose_thread t (s_threads G) h1 (with_thread t G)" and t: "t \<notin> set (s_threads G)"
    and st: "thread_step (?h\<lparr>hd_mutex := set_lock (hd_mutex ?h)\<rparr>) h1" and nm: "t_name (threads h1 t) = nm"
    and h1: "t_uses_fp (threads h1 t) = fp" "entries h1 = entries ?h" "functs h1 = functs ?h" "hd_lock h1 = hd_lock ?h"
      "shmem_bot h1 = shmem_bot ?h" "shmem_top ?h - 256 \<le> shmem_top h1"
    by (rule create_thread_alloc [OF inv rep assms(2-8), of fp prio]) blast
  let ?s = "s\<lparr>s_hal := h1, s_app := a\<rparr>"
  have ta: "task_array a = task_array (s_app s)" by (simp add: a)
  have gr: "grants env prio k (s_app ?s)" using assms(9) by (simp add: grants_def ta)
  have lo': "loose_thread t (s_threads G) (s_hal ?s) (with_thread t G)" using lo by simp
  let ?tk = "started_task env t p fp prio (lib_module_id h1) k"
  obtain h2 a2 where start: "start_thread env t p fp prio ?s = Inr (True, ?s\<lparr>s_hal := h2, s_app := a2\<rparr>)"
    and rep2: "hal_rep h2 (with_thread t G)" and st2: "thread_step (s_hal ?s) h2"
    and f2: "t_name (threads h2 t) = t_name (threads (s_hal ?s) t)" "t_period (threads h2 t) = sint p" "t_priority (threads h2 t) = prio"
      "t_task_id (threads h2 t) = int k"
    and h2: "t_uses_fp (threads h2 t) = t_uses_fp (threads (s_hal ?s) t)" "hd_lock h2 = hd_lock (s_hal ?s)" "shmem_bot h2 = shmem_bot (s_hal ?s)"
      "shmem_top h2 = shmem_top (s_hal ?s)" "entries h2 = entries (s_hal ?s)" "functs h2 = functs (s_hal ?s)"
    and a2: "task_array a2 = (task_array (s_app ?s))[k := S_task (started_task env t p fp prio (lib_module_id (s_hal ?s)) k)]"
    using start_thread_run [OF gr lo', of p fp] by blast
  let ?s2 = "s\<lparr>s_app := a2, s_hal := hal_mutex_give h2\<rparr>"
  have run2: "hal_create_thread env (Some nm) p fp prio s = register_thread env t ?s2"
    using run start by (simp add: with_hal_def)
  have ts: "thread_step (?h\<lparr>hd_mutex := set_lock (hd_mutex ?h)\<rparr>) h2" using thread_step_trans [OF st] st2 by simp
  have "hal_data h2 = SP_mapped" using ts inv by (simp add: thread_step_def hal_inv_def)
  from hal_inv_give [OF rep2 this] have inv2: "hal_inv (hal_mutex_give h2)" .
  have lib: "lib_ready ?s2 (with_thread t G) v n"
    using assms(1) inv2 rep2 ts by (simp add: lib_ready_def thread_step_def hal_mutex_give_def)
  have th: "threads (hal_mutex_give h2) = threads h2" by (simp add: hal_mutex_give_def)
  obtain r s' where reg: "register_thread env t ?s2 = Inr (r, s')" and inv': "hal_inv (s_hal s')" and app: "s_app s' = s_app ?s2"
    and rg: "registers t (s_hal ?s2) (s_hal s')"
    and res: "r = v + 1 \<and> registered t r (s_hal ?s2) (s_hal s') \<or> r = - EINVAL"
      "length (t_name (threads (s_hal ?s2) t)) > 42 \<longrightarrow> r = - EINVAL"
    and can: "can_register t (t_name (threads (s_hal ?s2) t)) (s_hal ?s2) (with_thread t G) \<longrightarrow> r = v + 1"
    and kept: "r = v + 1 \<longrightarrow> keeps_signals (s_hal ?s2) (s_hal s') \<and> keeps_comps_but r (s_hal ?s2) (s_hal s') \<and>
       shmem_top (s_hal ?s2) - 384 \<le> shmem_top (s_hal s') \<and> module_ids r (n + 1) (s_shm s') \<and> same_segments (s_shm ?s2) (s_shm s')"
    using register_run [OF lib, of env t] by blast
  obtain G' where G': "hal_rep (s_hal s') G'" using inv' by (auto simp: hal_inv_def)
  have rep2': "hal_rep (s_hal ?s2) (with_thread t G)" using rep2 by simp
  note shp = registered_shape [OF rep2' G' rg t]
  note names' = listed_thread_same [OF ts]
  have names: "pin_names (s_hal ?s2) = pin_names ?h" "param_names (s_hal ?s2) = param_names ?h"
    "comp_names (s_hal ?s2) (with_thread t G) = comp_names ?h G"
    using names'(1-3) by simp_all
  have nm2: "t_name (threads h2 t) = nm" using f2(1) nm by simp
  have regd: "registered t r ?h (s_hal s')" if "registered t r (s_hal ?s2) (s_hal s')"
    using that names by (simp add: registered_def)
  note S = registers_sel(2-6) [OF rg]
  have fields: "t_name (threads (s_hal s') t) = nm" "t_period (threads (s_hal s') t) = sint p" "t_priority (threads (s_hal s') t) = prio"
    "t_task_id (threads (s_hal s') t) = int k"
    using S f2 nm2 by (simp_all add: th)
  have arr: "task_array (s_app s') = (task_array (s_app s))[k := S_task ?tk]" using app a2 ta by simp
  have tk: "tk_state ?tk = TASK_S_RUNNING \<and> tk_thr ?tk = Th_created \<and> tk_period ?tk = p \<and> tk_taskcode ?tk = ev_thread_task env \<and> tk_arg ?tk = t"
    by (simp add: started_task_def fill_task_def)
  have run': "hal_create_thread env (Some nm) p fp prio s = Inr (r, s')" using run2 reg by simp
  have res': "(r = v + 1 \<and> registered t r ?h (s_hal s') \<or> r = - EINVAL) \<and> (42 < length nm \<longrightarrow> r = - EINVAL)"
    using res regd nm2 by (auto simp: th)
  have m: "same_calls (s_hal ?s2) (s_hal s')" using rg by (simp add: registers_def)
  have fpt: "t_uses_fp (threads (s_hal s') t) = fp" using registers_sel(6) [OF rg, of t] h1(1) h2(1) by (simp add: th)
  have tb: "0 \<le> t \<and> t + sizeof_hal_thread \<le> HAL_SIZE"
    using hal_rep_parts(1,6) [OF rep2] by (auto simp: threads_ok_def pool_def with_thread_def area_wf_def area_ok_def)
  have ok: "can_create nm ?h G \<longrightarrow> r = v + 1"
  proof
    assume "can_create nm ?h G"
    then have "can_register t (t_name (threads (s_hal ?s2) t)) (s_hal ?s2) (with_thread t G)"
      using tb names(1-3) h1 h2 by (simp add: can_create_def can_register_def th nm2 hal_mutex_give_def)
    with can show "r = v + 1" by blast
  qed
  have frame: "create_keeps r ?h (s_hal s')" if "r = v + 1"
  proof -
    have "keeps_signals ?h (s_hal s')"
      using kept that keeps_signals_trans [OF keeps_signals_same [OF names'(4,5)]] by auto
    moreover have "keeps_comps_but r ?h (s_hal s')"
      using kept that comp_of_same [OF names'(6,7)] names'(6) by (simp add: keeps_comps_but_def)
    ultimately show ?thesis
      using kept that m h1 h2 names'(8-11) by (simp add: create_keeps_def same_calls_def hal_mutex_give_def)
  qed
  have ids: "r = v + 1 \<longrightarrow> module_ids r (n + 1) (s_shm s') \<and> same_segments (s_shm s) (s_shm s')" using kept by simp
  show ?thesis
    by (rule exI [of _ r], rule exI [of _ s'], rule exI [of _ G'], rule exI [of _ t], rule exI [of _ ?tk], intro conjI)
      (fact run' inv' G' shp t fields arr fpt ok | use tk res' frame ids in blast)+
qed


section \<open>Properties\<close>

text \<open>
  Property C24: \<open>hal_create_thread\<close> with arguments that are in order, in an environment that grants a
  task. The call returns. The new thread is the first of the list, with its name, its period and its priority, and a
  running task whose body is \<open>thread_task\<close> on this thread. Then the thread is registered: either
  the result is the id of a ready component, and the thread has its pin \<open>name.time\<close> and its parameter
  \<open>name.tmax\<close>, or the result is an error, always so for names of more than 42 characters; the thread and
  its running task are there in both cases.
\<close>

theorem hal_create_thread_correct:
  fixes env :: env
  assumes "lib_ready s G v n" "init_entry_ok (ev_list_init env)"
    and "p \<noteq> 0" "length nm \<le> HAL_NAME_LEN" "hd_lock (s_hal s) AND HAL_LOCK_CONFIG = 0"
    and "thread_named (s_hal s) G nm = None" "thread_room (s_hal s) G"
    and "s_threads G \<noteq> [] \<or> fst (clock_for p (s_app s))" "grants env prio k (s_app s)"
  shows "\<exists>r s' G' t tk. hal_create_thread env (Some nm) p fp prio s = Inr (r, s') \<and>
    hal_inv (s_hal s') \<and> hal_rep (s_hal s') G' \<and> s_threads G' = t # s_threads G \<and> t \<notin> set (s_threads G) \<and>
    t_name (threads (s_hal s') t) = nm \<and> t_period (threads (s_hal s') t) = sint p \<and> t_priority (threads (s_hal s') t) = prio \<and>
    t_task_id (threads (s_hal s') t) = int k \<and> task_array (s_app s') = (task_array (s_app s))[k := S_task tk] \<and>
    tk_state tk = TASK_S_RUNNING \<and> tk_thr tk = Th_created \<and> tk_period tk = p \<and> tk_taskcode tk = ev_thread_task env \<and> tk_arg tk = t \<and>
    (r = v + 1 \<and> registered t r (s_hal s) (s_hal s') \<or> r = - EINVAL) \<and> (42 < length nm \<longrightarrow> r = - EINVAL)"
  using hal_create_thread_run [OF assms, of fp] by (elim exE conjE) (intro exI conjI; assumption)

theorem hal_create_thread_correct_witness:
  "\<exists>s'. hal_create_thread env_example (Some (replicate 43 (CHR ''a''))) 1000000 0 50 sys_example = Inr (- EINVAL, s') \<and>
     (\<exists>tk. task_array (s_app s') ! 0 = S_task tk \<and> tk_state tk = TASK_S_RUNNING)"
proof -
  have e: "s_hal sys_example = one_comp\<lparr>lib_mem_id := 1, lib_module_id := 0\<rparr>" by (simp add: sys_example_def)
  have "thread_named (s_hal sys_example) sys_shape (replicate 43 (CHR ''a'')) = None" "s_threads sys_shape = []"
    by (simp_all add: thread_named_def sys_shape_def)
  moreover have "thread_room (s_hal sys_example) sys_shape" "hd_lock (s_hal sys_example) AND HAL_LOCK_CONFIG = 0"
    by (simp_all add: thread_room_def sys_shape_def e one_comp_def shmalloc_dn_def zero_hal_def sizeof_defs align_dn_simps)
  moreover have "first_null 0 (replicate MAX_TASKS S_null) = Some 0" by (simp add: MAX_TASKS_def eval_nat_numeral)
  then have "grants env_example 50 0 (s_app sys_example)"
    by (simp add: env_example_def grants_def attr_setup_def sys_example_def rtapp_start_def)
  moreover have "sint (0xF4240 :: 64 word) = 1000000" "\<not> sint (1010000 :: 64 word) < 1000000" by simp_all
  then have "fst (clock_for 1000000 (s_app sys_example))"
    by (simp add: clock_for_def clock_set_period_def sys_example_def rtapp_start_def)
  moreover have "init_entry_ok (ev_list_init env_example)" by (simp add: env_example_def init_entry_ok_def)
  ultimately obtain r s' tk where "hal_create_thread env_example (Some (replicate 43 (CHR ''a''))) 1000000 0 50 sys_example = Inr (r, s')"
    "r = - EINVAL" "task_array (s_app s') = (task_array (s_app sys_example))[0 := S_task tk]" "tk_state tk = TASK_S_RUNNING"
    using hal_create_thread_correct [OF sys_example_ready, of env_example 1000000 "replicate 43 (CHR ''a'')" 50 0 0]
    by (auto simp: HAL_NAME_LEN_def)
  moreover have "length (task_array (s_app sys_example)) = MAX_TASKS" by (simp add: sys_example_def rtapp_start_def)
  ultimately show ?thesis by (auto simp: MAX_TASKS_def)
qed

text \<open>
  Property C25: a failed creation stops a task of somebody else. When \<open>rtapi_task_new\<close> refuses the
  priority, the new struct still has task id 0, and the rollback pauses and deletes that task. In the usual
  case it is the task of the first HAL thread, which stays listed without a task. All threads are told to
  stop, but the HAL's state does not change.
\<close>

theorem failed_create_deletes_task_0:
  fixes env :: env
  assumes "hal_inv (s_hal s)" "hal_rep (s_hal s) G" "init_entry_ok (ev_list_init env)" "s_threads G \<noteq> []"
    and "p \<noteq> 0" "length nm \<le> HAL_NAME_LEN" "hd_lock (s_hal s) AND HAL_LOCK_CONFIG = 0"
    and "thread_named (s_hal s) G nm = None" "thread_room (s_hal s) G"
    and "prio < ev_prio_lowest env \<or> ev_prio_highest env < prio"
    and "task_live 0 (s_app s)" "length (task_array (s_app s)) = MAX_TASKS"
  shows "\<exists>s' G'. hal_create_thread env (Some nm) p fp prio s = Inr (- EINVAL, s') \<and>
    s_app s' = put_slot 0 S_null (s_app s) \<and> threads_running (s_hal s') = 0 \<and> hd_state (s_hal s') = hd_state (s_hal s) \<and>
    hal_inv (s_hal s') \<and> hal_rep (s_hal s') G' \<and> s_threads G' = s_threads G"
proof -
  let ?h = "s_hal s"
  obtain t h1 a where run: "hal_create_thread env (Some nm) p fp prio s =
      bnd (start_thread env t p fp prio (s\<lparr>s_hal := h1, s_app := a\<rparr>)) (\<lambda>(ok, s).
         if ok then register_thread env t (unlock_hal s) else Inr (- EINVAL, unlock_hal s))"
    and a: "a = (if s_threads G = [] then snd (clock_for p (s_app s)) else s_app s)"
    and lo: "loose_thread t (s_threads G) h1 (with_thread t G)"
    and st: "thread_step (?h\<lparr>hd_mutex := set_lock (hd_mutex ?h)\<rparr>) h1" and id: "t_task_id (threads h1 t) = 0"
    by (rule create_thread_alloc [OF assms(1-3,5-9), of fp prio]) (use assms(4) in simp_all)
  let ?s = "s\<lparr>s_hal := h1, s_app := a\<rparr>"
  have pre: "loose_thread t (s_threads G) (s_hal ?s) (with_thread t G)" "task_live (t_task_id (threads (s_hal ?s) t)) (s_app ?s)"
    "length (task_array (s_app ?s)) = MAX_TASKS" using lo assms(4,11,12) by (simp_all add: id a)
  obtain h' ef where f: "start_thread env t p fp prio ?s =
      Inr (False, ?s\<lparr>s_hal := h', s_app := put_slot (nat (t_task_id (threads (s_hal ?s) t))) S_null (s_app ?s)\<rparr>)"
    and rep: "hal_rep h' (without_thread t (s_threads G) ef (with_thread t G))" and st': "thread_step (s_hal ?s) h'"
    and run0: "threads_running h' = 0"
    using start_thread_fail [OF assms(10) pre, of p fp] by blast
  let ?t = "s\<lparr>s_hal := hal_mutex_give h', s_app := put_slot 0 S_null (s_app s)\<rparr>"
  have "hal_create_thread env (Some nm) p fp prio s = Inr (- EINVAL, ?t)"
    using run f assms(4) by (simp add: with_hal_def id a)
  moreover have "threads_running (s_hal ?t) = 0" "hd_state (s_hal ?t) = hd_state ?h" "hal_data (s_hal ?t) = hal_data ?h"
    "\<not> locked (hd_mutex (s_hal ?t))"
    using run0 st st' by (simp_all add: hal_mutex_give_def thread_step_def)
  moreover have "hal_data ?h = SP_mapped" using assms(1) by (simp add: hal_inv_def)
  moreover have "hal_rep (s_hal ?t) (without_thread t (s_threads G) ef (with_thread t G))" using rep by simp
  ultimately show ?thesis
    by (rule_tac exI [of _ ?t], rule_tac exI [of _ "without_thread t (s_threads G) ef (with_thread t G)"])
      (auto simp: hal_inv_def without_thread_def)
qed

theorem failed_create_deletes_task_0_witness:
  "\<exists>s'. hal_create_thread env_example (Some ''t2'') 1000000 0 500 sys_threaded = Inr (- EINVAL, s') \<and>
     task_array (s_app s') ! 0 = S_null"
proof -
  have "thread_named (s_hal sys_threaded) one_mounted_shape ''t2'' = None" "s_threads one_mounted_shape \<noteq> []"
    "thread_room (s_hal sys_threaded) one_mounted_shape"
    by (simp_all add: thread_named_def one_mounted_shape_def sys_threaded_def one_mounted_def thread_room_def shmalloc_dn_def
        zero_hal_def sizeof_defs align_dn_simps)
  moreover have "init_entry_ok (ev_list_init env_example)" "ev_prio_highest env_example < 500"
    by (simp_all add: env_example_def init_entry_ok_def)
  moreover have "task_live 0 (s_app sys_threaded)" "length (task_array (s_app sys_threaded)) = MAX_TASKS"
    using sys_threaded_tasks sys_threaded_sel(5) by (simp_all add: tasks_linked_def one_mounted_shape_def)
  ultimately show ?thesis
    using failed_create_deletes_task_0 [OF sys_threaded_inv sys_threaded_rep, of env_example 1000000 "''t2''" 500 0]
    by (auto simp: sys_threaded_sel(1) HAL_NAME_LEN_def put_slot_def MAX_TASKS_def intro!: nth_list_update_eq)
qed

end
