(* ===== verification/Hal_Cycle.thy ===== *)
theory Hal_Cycle
  imports Hal_Sys
begin

text \<open>
  The cycle of a HAL thread (\<open>thread_task\<close> of \<open>hal/hal_lib.c\<close>): between two calls of
  \<open>rtapi_wait\<close> the thread calls the functions of its program in order and measures the time. The
  functions are code of components: a parameter, which may change the segment and a world of its own.
  The clock is a parameter too: \<open>clk k\<close> is its reading number \<open>k\<close> in the cycle.
\<close>

section \<open>One cycle\<close>

type_synonym 'w call = "int \<Rightarrow> int \<Rightarrow> int \<Rightarrow> hal \<times> 'w \<Rightarrow> hal \<times> 'w"

text \<open>What happens to a function's times after it has run.\<close>

definition note_time :: "off \<Rightarrow> int \<Rightarrow> hal \<Rightarrow> hal" where
  "note_time f v = upd_funct f (\<lambda>s. if v > f_maxtime s then s\<lparr>f_maxtime := v, f_maxtime_increased := True\<rparr>
     else s\<lparr>f_maxtime_increased := False\<rparr>)"

text \<open>
  The loop over the entries. The result has the number of calls made, which is the number of the clock
  reading that \<open>end_time\<close> holds.
\<close>

partial_function (option) run_functs ::
    "'w call \<Rightarrow> off \<Rightarrow> laddr \<Rightarrow> nat \<Rightarrow> hal \<times> 'w \<Rightarrow> (nat \<times> hal \<times> 'w) res option" where
  "run_functs call t entry k s =
     (if entry = Thread_root t then Some (Inr (k, s))
      else case entry_of entry of
        None \<Rightarrow> Some (Inl UB)
      | Some p \<Rightarrow>
          (let h = fst s;
               s = call (e_funct (entries h p)) (e_arg (entries h p)) (t_period (threads h t)) s;
               h = fst s;
               f = e_funct_ptr (entries h p)
           in if f = 0 then Some (Inr (Suc k, s))
              else case f_runtime (functs h f) of
                D_null \<Rightarrow> run_functs call t (list_next (links h) entry) (Suc k) s
              | D_wild \<Rightarrow> Some (Inl UB)
              | D_sig q \<Rightarrow>
                  run_functs call t (list_next (links h) entry) (Suc k)
                    (note_time f (p_dummysig (pins h q)) h, snd s)))"

text \<open>\<open>*(thread->runtime) = (hal_s32_t)(end_time - thread_start_time)\<close>, and the maximum.\<close>

definition note_thread_time :: "off \<Rightarrow> int \<Rightarrow> hal \<Rightarrow> hal res" where
  "note_thread_time t v h =
     (case t_runtime (threads h t) of
        D_sig q \<Rightarrow>
          let h = upd_pin q (\<lambda>s. s\<lparr>p_dummysig := v\<rparr>) h
          in Inr (if p_dummysig (pins h q) > t_maxtime (threads h t)
                  then upd_thread t (\<lambda>x. x\<lparr>t_maxtime := p_dummysig (pins h q)\<rparr>) h else h)
      | _ \<Rightarrow> Inl UB)"

definition thread_cycle :: "'w call \<Rightarrow> (nat \<Rightarrow> int) \<Rightarrow> off \<Rightarrow> hal \<times> 'w \<Rightarrow> (hal \<times> 'w) res" where
  "thread_cycle call clk t s =
     (let h = fst s in
      if hal_data h \<noteq> SP_mapped then Inl UB
      else if threads_running h > 0
      then let first = list_next (links h) (Thread_root t) in
           if first = Thread_root t then Inr s
           else bnd (loop_join (run_functs call t first 0 s)) (\<lambda>(k, h, w).
                bnd (note_thread_time t (to_s32 (clk k - clk 0)) h) (\<lambda>h. Inr (h, w)))
      else Inr s)"

section \<open>Functions that keep to their data\<close>

text \<open>
  What the HAL relies on: a function writes the signals of pins and the memory of its component, and
  does not call the HAL from a real-time thread.
\<close>

definition same_but_data :: "hal \<Rightarrow> hal \<Rightarrow> bool" where
  "same_but_data h h' \<longleftrightarrow> (\<exists>pn uc. h' = h\<lparr>pins := pn, ucells := uc\<rparr> \<and> (\<forall>q. \<exists>v. pn q = (pins h q)\<lparr>p_dummysig := v\<rparr>))"

definition data_only :: "'w call \<Rightarrow> bool" where
  "data_only call \<longleftrightarrow> (\<forall>f a p h w. same_but_data h (fst (call f a p (h, w))))"

text \<open>Each call is logged.\<close>

definition logged :: "'w call \<Rightarrow> ('w \<times> (int \<times> int \<times> int) list) call" where
  "logged call f a p s = (case s of (h, w, log) \<Rightarrow> case call f a p (h, w) of (h, w) \<Rightarrow> (h, w, log @ [(f, a, p)]))"

lemma data_only_logged: "data_only call \<Longrightarrow> data_only (logged call)"
  by (auto simp: data_only_def logged_def split: prod.split) (metis fst_conv)

text \<open>The segment during a cycle: only the data and the times of functions change.\<close>

definition cycle_step :: "hal \<Rightarrow> hal \<Rightarrow> bool" where
  "cycle_step h h' \<longleftrightarrow> (\<exists>pn uc fn. h' = h\<lparr>pins := pn, ucells := uc, functs := fn\<rparr>
     \<and> (\<forall>q. \<exists>v. pn q = (pins h q)\<lparr>p_dummysig := v\<rparr>)
     \<and> (\<forall>f. \<exists>m i. fn f = (functs h f)\<lparr>f_maxtime := m, f_maxtime_increased := i\<rparr>))"

lemma signal_id: "\<exists>v. (s :: hal_pin) = s\<lparr>p_dummysig := v\<rparr>"
  by (rule exI [of _ "p_dummysig s"]) simp

lemma times_id: "\<exists>m i. (s :: hal_funct) = s\<lparr>f_maxtime := m, f_maxtime_increased := i\<rparr>"
  by (rule exI [of _ "f_maxtime s"], rule exI [of _ "f_maxtime_increased s"]) simp

lemma times_kept: "\<exists>m i. (s :: hal_funct)\<lparr>f_maxtime_increased := b\<rparr> = s\<lparr>f_maxtime := m, f_maxtime_increased := i\<rparr>"
  by (rule exI [of _ "f_maxtime s"], rule exI [of _ b]) simp

lemma cycle_step_refl: "cycle_step h h"
  unfolding cycle_step_def
  by (rule exI [of _ "pins h"], rule exI [of _ "ucells h"], rule exI [of _ "functs h"]) (simp add: signal_id times_id)

lemma cycle_step_data: "same_but_data h h' \<Longrightarrow> cycle_step h h'"
  unfolding cycle_step_def same_but_data_def
  by (elim exE conjE, rule_tac x = pn in exI, rule_tac x = uc in exI, rule_tac x = "functs h" in exI) (simp add: times_id)

lemma cycle_step_note: "cycle_step h (note_time f v h)"
  unfolding cycle_step_def
  by (rule exI [of _ "pins h"], rule exI [of _ "ucells h"], rule exI [of _ "functs (note_time f v h)"])
    (auto simp: signal_id times_id times_kept note_time_def upd_funct_def)

lemma cycle_step_trans:
  assumes "cycle_step h1 h2" "cycle_step h2 h3"
  shows "cycle_step h1 h3"
proof -
  from assms(1) obtain pn uc fn where 2: "h2 = h1\<lparr>pins := pn, ucells := uc, functs := fn\<rparr>"
    "\<forall>q. \<exists>v. pn q = (pins h1 q)\<lparr>p_dummysig := v\<rparr>" "\<forall>f. \<exists>m i. fn f = (functs h1 f)\<lparr>f_maxtime := m, f_maxtime_increased := i\<rparr>"
    by (auto simp: cycle_step_def)
  from assms(2) obtain pn' uc' fn' where 3: "h3 = h2\<lparr>pins := pn', ucells := uc', functs := fn'\<rparr>"
    "\<forall>q. \<exists>v. pn' q = (pins h2 q)\<lparr>p_dummysig := v\<rparr>" "\<forall>f. \<exists>m i. fn' f = (functs h2 f)\<lparr>f_maxtime := m, f_maxtime_increased := i\<rparr>"
    by (auto simp: cycle_step_def)
  have "\<exists>v. pn' q = (pins h1 q)\<lparr>p_dummysig := v\<rparr>" for q
  proof -
    from 3(2) obtain v where "pn' q = (pn q)\<lparr>p_dummysig := v\<rparr>" by (auto simp: 2(1))
    moreover from 2(2) obtain u where "pn q = (pins h1 q)\<lparr>p_dummysig := u\<rparr>" by blast
    ultimately show ?thesis by auto
  qed
  moreover have "\<exists>m i. fn' f = (functs h1 f)\<lparr>f_maxtime := m, f_maxtime_increased := i\<rparr>" for f
  proof -
    from 3(3) have "\<exists>m i. fn' f = (fn f)\<lparr>f_maxtime := m, f_maxtime_increased := i\<rparr>" by (simp add: 2(1))
    then obtain m i where "fn' f = (fn f)\<lparr>f_maxtime := m, f_maxtime_increased := i\<rparr>" by blast
    moreover from 2(3) obtain m' i' where "fn f = (functs h1 f)\<lparr>f_maxtime := m', f_maxtime_increased := i'\<rparr>" by blast
    ultimately show ?thesis by auto
  qed
  moreover have "h3 = h1\<lparr>pins := pn', ucells := uc', functs := fn'\<rparr>" by (simp add: 3(1) 2(1))
  ultimately show ?thesis unfolding cycle_step_def by blast
qed

lemma cycle_step_sel:
  assumes "cycle_step h h'"
  shows "links h' = links h" "entries h' = entries h" "threads h' = threads h" "hal_data h' = hal_data h"
    "f_runtime (functs h' f) = f_runtime (functs h f)"
proof -
  from assms obtain pn uc fn where h': "h' = h\<lparr>pins := pn, ucells := uc, functs := fn\<rparr>"
    and fn: "\<forall>f. \<exists>m i. fn f = (functs h f)\<lparr>f_maxtime := m, f_maxtime_increased := i\<rparr>" by (auto simp: cycle_step_def)
  show "links h' = links h" "entries h' = entries h" "threads h' = threads h" "hal_data h' = hal_data h"
    by (simp_all add: h')
  from fn obtain m i where "fn f = (functs h f)\<lparr>f_maxtime := m, f_maxtime_increased := i\<rparr>" by blast
  then show "f_runtime (functs h' f) = f_runtime (functs h f)" by (simp add: h')
qed

lemma cycle_step_rep:
  assumes "cycle_step h h'" "hal_rep h G"
  shows "hal_rep h' G"
proof -
  from assms(1) obtain pn uc fn where h': "h' = h\<lparr>pins := pn, ucells := uc, functs := fn\<rparr>"
    and pn: "\<forall>q. \<exists>v. pn q = (pins h q)\<lparr>p_dummysig := v\<rparr>"
    and fn: "\<forall>f. \<exists>m i. fn f = (functs h f)\<lparr>f_maxtime := m, f_maxtime_increased := i\<rparr>" by (auto simp: cycle_step_def)
  have p: "p_next (pn q) = p_next (pins h q) \<and> p_name (pn q) = p_name (pins h q) \<and> p_oldname (pn q) = p_oldname (pins h q)" for q
    using pn [rule_format, of q] by auto
  have f: "f_next (fn q) = f_next (functs h q) \<and> f_name (fn q) = f_name (functs h q) \<and>
      f_users (fn q) = f_users (functs h q) \<and> f_reentrant (fn q) = f_reentrant (functs h q)" for q
    using fn [rule_format, of q] by auto
  show ?thesis by (rule hal_rep_frame [OF assms(2)]) (simp_all add: h' keeps_defs p f)
qed

section \<open>The loop\<close>

text \<open>What the loop calls.\<close>

definition planned_calls :: "hal \<Rightarrow> off \<Rightarrow> off list \<Rightarrow> (int \<times> int \<times> int) list" where
  "planned_calls h t es = map (\<lambda>e. (e_funct (entries h e), e_arg (entries h e), t_period (threads h t))) es"

lemma run_functs_ring:
  assumes "data_only call" "ring (links h) (Thread_root t) (xs @ ys)"
    and "\<forall>e \<in> set ys. e_funct_ptr (entries h e) \<noteq> 0 \<and> f_runtime (functs h (e_funct_ptr (entries h e))) \<noteq> D_wild"
  shows "\<exists>h' w'. run_functs (logged call) t (case ys of [] \<Rightarrow> Thread_root t | y # _ \<Rightarrow> Entry y) k (h, w, log) =
      Some (Inr (k + length ys, h', w', log @ planned_calls h t ys)) \<and> cycle_step h h'"
  using assms(2-)
proof (induction ys arbitrary: xs h w log k)
  case Nil
  then show ?case
    by (rule_tac exI [of _ h], rule_tac exI [of _ w]) (simp add: run_functs.simps planned_calls_def cycle_step_refl)
next
  case (Cons y ys)
  let ?f = "e_funct (entries h y)" and ?a = "e_arg (entries h y)" and ?p = "t_period (threads h t)"
  obtain h1 w1 where c: "call ?f ?a ?p (h, w) = (h1, w1)" by force
  have s1: "cycle_step h h1" using assms(1) c by (metis data_only_def cycle_step_data fst_conv)
  note S = cycle_step_sel [OF s1]
  let ?q = "e_funct_ptr (entries h y)"
  let ?nx = "case ys of [] \<Rightarrow> Thread_root t | y # _ \<Rightarrow> Entry y"
  have r: "Entry y \<noteq> Thread_root t" by simp
  have nx: "list_next (links h) (Entry y) = ?nx"
  proof -
    have "addr_at (Thread_root t) (xs @ y # ys) (Suc (length xs)) = Entry y" by (simp add: addr_at_def)
    with ring_list_next [OF Cons.prems(1), of "Suc (length xs)"] show ?thesis
      by (cases ys) (simp_all add: addr_at_def nth_append S)
  qed
  have q: "?q \<noteq> 0" "f_runtime (functs h1 ?q) \<noteq> D_wild" using Cons.prems(2) by (simp_all add: S)
  define h2 where "h2 = (case f_runtime (functs h1 ?q) of D_sig z \<Rightarrow> note_time ?q (p_dummysig (pins h1 z)) h1 | _ \<Rightarrow> h1)"
  have s2: "cycle_step h h2"
    using s1 cycle_step_trans [OF s1 cycle_step_note] by (auto simp: h2_def split: dptr.split)
  have step: "run_functs (logged call) t (Entry y) k (h, w, log) =
      run_functs (logged call) t ?nx (Suc k) (h2, w1, log @ [(?f, ?a, ?p)])"
    using q by (subst run_functs.simps) (auto simp: logged_def c nx h2_def Let_def S split: dptr.split)
  have "ring (links h2) (Thread_root t) ((xs @ [y]) @ ys)" using Cons.prems(1) by (simp add: cycle_step_sel [OF s2])
  moreover have "\<forall>e \<in> set ys. e_funct_ptr (entries h2 e) \<noteq> 0 \<and> f_runtime (functs h2 (e_funct_ptr (entries h2 e))) \<noteq> D_wild"
    using Cons.prems(2) by (simp add: cycle_step_sel [OF s2])
  ultimately obtain h' w' where run: "run_functs (logged call) t ?nx (Suc k) (h2, w1, log @ [(?f, ?a, ?p)]) =
      Some (Inr (Suc k + length ys, h', w', (log @ [(?f, ?a, ?p)]) @ planned_calls h2 t ys))" and s3: "cycle_step h2 h'"
    using Cons.IH [of h2 "xs @ [y]" "Suc k" w1 "log @ [(?f, ?a, ?p)]"] by blast
  have pl: "planned_calls h2 t ys = planned_calls h t ys" by (simp add: planned_calls_def cycle_step_sel [OF s2])
  have "run_functs (logged call) t (Entry y) k (h, w, log) = Some (Inr (k + length (y # ys), h', w', log @ planned_calls h t (y # ys)))"
    unfolding step run pl by (simp add: planned_calls_def)
  with cycle_step_trans [OF s2 s3] show ?case by auto
qed

section \<open>The cycle\<close>

lemma note_thread_time_run:
  fixes v :: int and h :: hal and t :: off and q :: off
  assumes "t_runtime (threads h t) = D_sig q" "hal_rep h G"
  defines "h' \<equiv> upd_thread t (\<lambda>x. x\<lparr>t_maxtime := max (t_maxtime x) v\<rparr>) (upd_pin q (\<lambda>s. s\<lparr>p_dummysig := v\<rparr>) h)"
  shows "note_thread_time t v h = Inr h'" "hal_rep h' G"
proof -
  have "upd_thread t (\<lambda>x. x\<lparr>t_maxtime := max (t_maxtime x) v\<rparr>) k = k" if "\<not> v > t_maxtime (threads k t)" for k
    using that by (simp add: upd_thread_def max_def)
  moreover have "upd_thread t (\<lambda>x. x\<lparr>t_maxtime := max (t_maxtime x) v\<rparr>) k = upd_thread t (\<lambda>x. x\<lparr>t_maxtime := v\<rparr>) k"
    if "v > t_maxtime (threads k t)" for k using that by (simp add: upd_thread_def max_def)
  ultimately show "note_thread_time t v h = Inr h'"
    using assms(1) by (auto simp: note_thread_time_def h'_def Let_def)
  show "hal_rep h' G" unfolding h'_def by (rule hal_rep_frame [OF assms(2)]) (simp_all add: keeps_defs)
qed

text \<open>A segment whose thread \<open>t\<close> has a time pin and calls \<open>f\<close>, for the witness.\<close>

definition one_running :: hal where
  "one_running = one_mounted\<lparr>threads_running := 1, hd_state := HAL_S_RUNNING,
     threads := (threads one_mounted)(1047000 := (threads one_mounted 1047000)\<lparr>t_runtime := D_sig 1046000, t_period := 1000000\<rparr>),
     entries := (entries one_mounted)(1040000 := (entries one_mounted 1040000)\<lparr>e_funct := 77, e_arg := 88\<rparr>)\<rparr>"

lemma one_running_sel:
  "hal_data one_running = SP_mapped" "threads_running one_running = 1"
  "t_runtime (threads one_running 1047000) = D_sig 1046000" "t_maxtime (threads one_running 1047000) = 0"
  "t_period (threads one_running 1047000) = 1000000" "s_entries one_mounted_shape 1047000 = [1040000]"
  "s_threads one_mounted_shape = [1047000]" "s_functs one_mounted_shape = [1048000]" "f_runtime (functs one_running f) = D_null"
  "e_funct (entries one_running 1040000) = 77" "e_arg (entries one_running 1040000) = 88"
  by (simp_all add: one_running_def one_mounted_def one_mounted_shape_def zero_hal_def)

lemma one_running_rep: "hal_rep one_running one_mounted_shape"
  by (rule hal_rep_frame [OF one_mounted_rep]) (simp_all add: one_running_def keeps_defs)

lemma one_running_inv: "hal_inv one_running"
  using one_running_rep one_mounted_sel(2) by (auto simp: hal_inv_def one_running_sel) (simp add: one_running_def)

lemma program_functs:
  assumes "hal_rep h G" "t \<in> set (s_threads G)"
  shows "set (program h G t) \<subseteq> set (s_functs G)"
  using entry_functs [OF assms(1)] assms(2) by (auto simp: program_def all_entries_def)

lemma thread_cycle_run:
  fixes call :: "'w call" and clk :: "nat \<Rightarrow> int"
  assumes "hal_inv h" "hal_rep h G" "t \<in> set (s_threads G)" "data_only call"
    and "t_runtime (threads h t) = D_sig q" "\<forall>f \<in> set (program h G t). f_runtime (functs h f) \<noteq> D_wild"
  defines "es \<equiv> s_entries G t"
  defines "d \<equiv> to_s32 (clk (length es) - clk 0)"
  shows "if threads_running h \<le> 0 \<or> es = [] then thread_cycle (logged call) clk t (h, w, []) = Inr (h, w, [])
    else \<exists>h' w'. thread_cycle (logged call) clk t (h, w, []) =
           Inr (h', w', map (\<lambda>e. (e_funct (entries h e), e_arg (entries h e), t_period (threads h t))) es) \<and>
         hal_inv h' \<and> hal_rep h' G \<and> entries h' = entries h \<and> p_dummysig (pins h' q) = d \<and>
         t_maxtime (threads h' t) = max (t_maxtime (threads h t)) d"
proof -
  note P = hal_rep_parts [OF assms(2)]
  have map: "hal_data h = SP_mapped" using assms(1) by (simp add: hal_inv_def)
  have r: "ring (links h) (Thread_root t) ([] @ es)" using rings_ok_free(2) [OF P(7) assms(3)] by (simp add: es_def)
  let ?first = "case es of [] \<Rightarrow> Thread_root t | y # _ \<Rightarrow> Entry y"
  have first: "list_next (links h) (Thread_root t) = ?first"
    using ring_list_next [OF r, of 0] by (cases es) (simp_all add: addr_at_def)
  have fs: "\<forall>e \<in> set es. e_funct_ptr (entries h e) \<noteq> 0 \<and> f_runtime (functs h (e_funct_ptr (entries h e))) \<noteq> D_wild"
  proof
    fix e assume e: "e \<in> set es"
    then have "e_funct_ptr (entries h e) \<in> set (program h G t)" by (simp add: program_def es_def)
    moreover from e assms(3) have "e \<in> set (all_entries G)" by (auto simp: all_entries_def es_def)
    from entry_functs [OF assms(2) this] have "0 < e_funct_ptr (entries h e)" by (rule functs_pos [OF assms(2)])
    ultimately show "e_funct_ptr (entries h e) \<noteq> 0 \<and> f_runtime (functs h (e_funct_ptr (entries h e))) \<noteq> D_wild"
      using assms(6) by auto
  qed
  show ?thesis
  proof (cases "threads_running h \<le> 0 \<or> es = []")
    case True
    then show ?thesis using map first by (auto simp: thread_cycle_def Let_def)
  next
    case False
    then have ne: "?first \<noteq> Thread_root t" by (cases es) simp_all
    obtain h1 w1 where run: "run_functs (logged call) t ?first 0 (h, w, []) =
        Some (Inr (0 + length es, h1, w1, [] @ planned_calls h t es))" and st: "cycle_step h h1"
      using run_functs_ring [OF assms(4) r fs, of 0 w "[]"] by blast
    have rt: "t_runtime (threads h1 t) = D_sig q" using assms(5) by (simp add: cycle_step_sel [OF st])
    note N = note_thread_time_run [OF rt cycle_step_rep [OF st assms(2)], of d]
    let ?h = "upd_thread t (\<lambda>x. x\<lparr>t_maxtime := max (t_maxtime x) d\<rparr>) (upd_pin q (\<lambda>s. s\<lparr>p_dummysig := d\<rparr>) h1)"
    have cyc: "thread_cycle (logged call) clk t (h, w, []) = Inr (?h, w1, planned_calls h t es)"
      using False map first ne run N(1) by (simp add: thread_cycle_def Let_def d_def)
    have "hd_mutex h1 = hd_mutex h" using st by (auto simp: cycle_step_def)
    then have "hal_inv ?h" using N(2) assms(1) by (auto simp: hal_inv_def cycle_step_sel [OF st])
    moreover have "entries ?h = entries h" "t_maxtime (threads ?h t) = max (t_maxtime (threads h t)) d"
      by (simp_all add: cycle_step_sel [OF st])
    ultimately show ?thesis using False cyc N(2) by (simp add: planned_calls_def)
  qed
qed

text \<open>
  Property C23: one cycle of a HAL thread, for functions that keep to their data. While the threads run
  and the program is not empty, every entry's function is called exactly once, in the order of the
  program, with the argument of the entry and the period of the thread, and nothing else is called;
  the thread's time is the difference of the clock readings before the first and after the last call, as
  a 32-bit number, and its maximum is raised to it. The segment stays well-formed and the programs stay.
  Otherwise the cycle does nothing.
\<close>

theorem thread_cycle_correct:
  fixes call :: "'w call" and clk :: "nat \<Rightarrow> int"
  assumes "hal_inv h" "hal_rep h G" "t \<in> set (s_threads G)" "data_only call"
    and "t_runtime (threads h t) = D_sig q" "\<forall>f \<in> set (s_functs G). f_runtime (functs h f) \<noteq> D_wild"
  defines "es \<equiv> s_entries G t"
  defines "d \<equiv> to_s32 (clk (length es) - clk 0)"
  shows "if threads_running h \<le> 0 \<or> es = [] then thread_cycle (logged call) clk t (h, w, []) = Inr (h, w, [])
    else \<exists>h' w'. thread_cycle (logged call) clk t (h, w, []) =
           Inr (h', w', map (\<lambda>e. (e_funct (entries h e), e_arg (entries h e), t_period (threads h t))) es) \<and>
         hal_inv h' \<and> hal_rep h' G \<and> entries h' = entries h \<and> p_dummysig (pins h' q) = d \<and>
         t_maxtime (threads h' t) = max (t_maxtime (threads h t)) d"
  unfolding es_def d_def
  by (rule thread_cycle_run [OF assms(1-5)]) (use assms(6) program_functs [OF assms(2,3)] in blast)

theorem thread_cycle_correct_witness:
  "\<exists>h'. thread_cycle (logged (\<lambda>f a p s. s)) (\<lambda>k. 500 * int k) 1047000 (one_running, (), []) =
     Inr (h', (), [(77, 88, 1000000)]) \<and> p_dummysig (pins h' 1046000) = 500"
proof -
  have "same_but_data h h" for h
    unfolding same_but_data_def by (rule exI [of _ "pins h"], rule exI [of _ "ucells h"]) (simp add: signal_id)
  then have d: "data_only (\<lambda>f a p (s :: hal \<times> unit). s)" by (simp add: data_only_def)
  show ?thesis
    using thread_cycle_correct [OF one_running_inv one_running_rep _ d, of 1047000 1046000 "\<lambda>k. 500 * int k" "()"]
    by (auto simp: one_running_sel)
qed

end
