(* ===== verification/Rt_Life.thy ===== *)
theory Rt_Life
  imports Rt_Tasks
begin

text \<open>
  The life cycle of the real-time tasks: every sequence of RTAPI calls and of steps of the task
  threads keeps the table of tasks well-formed (\<open>app_ok\<close>), and what follows from it for the
  operations. The allocation of a slot is also modelled one compare-and-swap at a time, for any
  number of concurrent callers and any schedule.
\<close>

section \<open>The invariant\<close>

text \<open>
  The state of a task, where its thread is, and the pause requests not yet seen by the thread.
\<close>

fun pause_ok :: "task_state \<Rightarrow> thread \<Rightarrow> nat \<Rightarrow> bool" where
  "pause_ok TASK_S_ALLOCATED th k \<longleftrightarrow> th = Th_none \<and> k = 0"
| "pause_ok TASK_S_RUNNING th k \<longleftrightarrow> (th = Th_created \<or> th = Th_code) \<and> k = 0"
| "pause_ok TASK_S_PAUSED th k \<longleftrightarrow>
     (th = Th_paused \<and> k = 0) \<or> ((th = Th_created \<or> th = Th_code) \<and> k = 1)"
| "pause_ok s th k \<longleftrightarrow> False"

definition pll_ok :: "posix_task \<Rightarrow> bool" where
  "pll_ok t \<longleftrightarrow> tk_pll_correction_limit t = tk_period t div 100 \<and>
     - sint (tk_pll_correction_limit t) \<le> sint (tk_pll_correction t) \<and>
     sint (tk_pll_correction t) \<le> sint (tk_pll_correction_limit t)"

definition task_ok :: "int \<Rightarrow> int \<Rightarrow> nat \<Rightarrow> posix_task \<Rightarrow> bool" where
  "task_ok hi lo n t \<longleftrightarrow> tk_magic t = TASK_MAGIC \<and> tk_id t = int n \<and> lo \<le> tk_prio t \<and> tk_prio t \<le> hi \<and>
     1024 * 1024 \<le> tk_stacksize t \<and> pll_ok t \<and> pause_ok (tk_state t) (tk_thr t) (tk_pause_sem t)"

fun slot_ok :: "int \<Rightarrow> int \<Rightarrow> nat \<Rightarrow> slot \<Rightarrow> bool" where
  "slot_ok hi lo n S_null \<longleftrightarrow> True"
| "slot_ok hi lo n S_init \<longleftrightarrow> False"
| "slot_ok hi lo n (S_task t) \<longleftrightarrow> task_ok hi lo n t"

definition app_ok :: "int \<Rightarrow> int \<Rightarrow> rtapp \<Rightarrow> bool" where
  "app_ok hi lo a \<longleftrightarrow> length (task_array a) = MAX_TASKS \<and>
     (\<forall>n < MAX_TASKS. slot_ok hi lo n (task_array a ! n))"

lemma app_ok_start: "app_ok hi lo rtapp_start"
  by (simp add: app_ok_def rtapp_start_def)

lemma app_ok_put [intro]:
  "app_ok hi lo a \<Longrightarrow> slot_ok hi lo n s \<Longrightarrow> app_ok hi lo (put_slot n s a)"
  unfolding app_ok_def put_slot_def by simp (metis nth_list_update_eq nth_list_update_neq)

lemma app_ok_slot: "app_ok hi lo a \<Longrightarrow> n < MAX_TASKS \<Longrightarrow> slot_ok hi lo n (task_array a ! n)"
  by (simp add: app_ok_def)

lemma app_ok_get:
  assumes "app_ok hi lo a" "get_task i a = Some t"
  shows "task_ok hi lo (nat i) t \<and> 0 \<le> i \<and> nat i < MAX_TASKS \<and> task_array a ! nat i = S_task t"
  using assms app_ok_slot [OF assms(1), of "nat i"]
  by (auto simp: get_task_def split: if_splits slot.splits)

lemma get_put [simp]:
  assumes "n < MAX_TASKS" "length (task_array a) = MAX_TASKS" "tk_magic t = TASK_MAGIC"
  shows "get_task (int n) (put_slot n (S_task t) a) = Some t"
  using assms by (simp add: get_task_def put_slot_def)

lemma first_null_Some:
  "first_null k ss = Some n \<Longrightarrow>
     k \<le> n \<and> n - k < length ss \<and> ss ! (n - k) = S_null \<and> (\<forall>j < n - k. ss ! j \<noteq> S_null)"
proof (induction ss arbitrary: k)
  case (Cons s ss)
  show ?case
  proof (cases "s = S_null")
    case True
    with Cons.prems show ?thesis by simp
  next
    case False
    with Cons have IH: "Suc k \<le> n \<and> n - Suc k < length ss \<and> ss ! (n - Suc k) = S_null \<and>
        (\<forall>j < n - Suc k. ss ! j \<noteq> S_null)" by simp
    then have "n - k = Suc (n - Suc k)" by linarith
    with IH False show ?thesis by (auto simp: nth_Cons split: nat.splits)
  qed
qed simp

lemma first_null_None: "first_null k ss = None \<longleftrightarrow> S_null \<notin> set ss"
  by (induction ss arbitrary: k) auto

section \<open>Reachable tables\<close>

text \<open>
  One call of the RTAPI from a control thread, or one step of the thread of the task in slot
  \<open>n\<close>; calls that run into undefined behaviour have no step.
\<close>

inductive rt_step :: "int \<Rightarrow> int \<Rightarrow> rtapp \<Rightarrow> rtapp \<Rightarrow> bool" for hi lo where
  by_new: "task_new hi lo pid code arg prio owner stacksize fp a = (r, a') \<Longrightarrow> rt_step hi lo a a'"
| by_start: "task_start os i period a = (r, a') \<Longrightarrow> rt_step hi lo a a'"
| by_delete: "task_delete i a = Inr (r, a') \<Longrightarrow> rt_step hi lo a a'"
| by_pause: "task_pause i a = (r, a') \<Longrightarrow> rt_step hi lo a a'"
| by_resume: "task_resume i a = (r, a') \<Longrightarrow> rt_step hi lo a a'"
| by_begin: "\<lbrakk>n < MAX_TASKS; task_array a ! n = S_task t; tk_thr t = Th_created\<rbrakk> \<Longrightarrow>
    rt_step hi lo a (put_slot n (S_task (wrapper now t)) a)"
| by_wait: "\<lbrakk>n < MAX_TASKS; task_array a ! n = S_task t; tk_thr t = Th_code; wait_enter now t = (r, t')\<rbrakk> \<Longrightarrow>
    rt_step hi lo a (unexpected_realtime_delay r (put_slot n (S_task t') a))"
| by_wake: "\<lbrakk>n < MAX_TASKS; task_array a ! n = S_task t; tk_thr t = Th_paused; tk_resume_sem t > 0;
     wait_resumed now t = (r, t')\<rbrakk> \<Longrightarrow>
    rt_step hi lo a (unexpected_realtime_delay r (put_slot n (S_task t') a))"
| by_pll: "\<lbrakk>n < MAX_TASKS; task_array a ! n = S_task t; tk_thr t = Th_code;
     task_pll_set_correction (Some n) v a = (r, a')\<rbrakk> \<Longrightarrow> rt_step hi lo a a'"

lemma app_ok_printed [simp]: "app_ok hi lo (a\<lparr>printed := b\<rparr>) = app_ok hi lo a"
  by (simp add: app_ok_def)

lemma app_ok_delay [simp]: "app_ok hi lo (unexpected_realtime_delay r a) = app_ok hi lo a"
  by (simp add: unexpected_realtime_delay_def)

lemma pll_limit_small: "0 \<le> sint (p div 100 :: long)" "sint (p div 100 :: long) = uint p div 100"
proof -
  have "uint p div 100 < 2 ^ 63"
    using uint_lt2p [of p] zdiv_mono1 [of "uint p" "2 ^ 64" 100] by simp
  then show "sint (p div 100 :: long) = uint p div 100"
    by (subst sint_small) (simp_all add: uint_div)
  then show "0 \<le> sint (p div 100 :: long)" by (simp add: pos_imp_zdiv_nonneg_iff)
qed

lemma pll_ok_start [simp]:
  "pll_ok (t\<lparr>tk_period := p, tk_pll_correction_limit := p div 100, tk_pll_correction := 0\<rparr>)"
  using pll_limit_small [of p] by (simp add: pll_ok_def)

lemma pll_ok_cong:
  "tk_period t = tk_period t' \<Longrightarrow> tk_pll_correction t = tk_pll_correction t' \<Longrightarrow>
   tk_pll_correction_limit t = tk_pll_correction_limit t' \<Longrightarrow> pll_ok t = pll_ok t'"
  by (simp add: pll_ok_def)

lemma wait_advance_task_ok:
  "task_ok hi lo n t \<Longrightarrow> wait_advance now t = (r, t') \<Longrightarrow> task_ok hi lo n t'"
  by (auto simp: wait_advance_def Let_def task_ok_def pll_ok_def split: if_splits)

lemma task_new_ok:
  assumes "app_ok hi lo a" "task_new hi lo pid code arg prio owner stacksize fp a = (r, a')"
  shows "app_ok hi lo a'"
proof (cases "prio > hi \<or> prio < lo \<or> first_null 0 (task_array a) = None")
  case True
  with assms show ?thesis
    by (auto simp: task_new_def allocate_task_id_def split: if_splits option.splits)
next
  case False
  then obtain n where n: "first_null 0 (task_array a) = Some n" by auto
  let ?t = "fill_task pid code arg prio owner stacksize fp (int n) do_task_new"
  have "a' = put_slot n (S_task ?t) (put_slot n S_init a)"
    using assms(2) False n by (auto simp: task_new_def allocate_task_id_def)
  then have "a' = put_slot n (S_task ?t) a" by (simp add: put_slot_def)
  moreover have "task_ok hi lo n ?t"
    using False by (auto simp: task_ok_def fill_task_def do_task_new_def pll_ok_def Let_def not_less)
  ultimately show ?thesis using assms(1) by (auto intro: app_ok_put)
qed

lemma task_start_ok:
  assumes "app_ok hi lo a" "task_start os i period a = (r, a')"
  shows "app_ok hi lo a'"
proof (cases "get_task i a")
  case None
  with assms show ?thesis by (simp add: task_start_def)
next
  case (Some t)
  note T = app_ok_get [OF assms(1) Some]
  let ?t = "t\<lparr>tk_period := period, tk_pll_correction_limit := period div 100, tk_pll_correction := 0\<rparr>"
  have "pll_ok (?t\<lparr>tk_error_code := e\<rparr>)" "pll_ok (?t\<lparr>tk_state := s, tk_error_code := e\<rparr>)"
    "pll_ok (?t\<lparr>tk_state := s, tk_thr := th\<rparr>)" for e s th
    by (subst pll_ok_cong [of _ ?t]; simp)+
  with assms T Some show ?thesis
    by (auto simp: task_start_def Let_def task_ok_def split: if_splits intro!: app_ok_put)
qed

lemma task_pll_ok:
  assumes "app_ok hi lo a" "n < MAX_TASKS" "task_array a ! n = S_task t"
    and "task_pll_set_correction (Some n) v a = (r, a')"
  shows "app_ok hi lo a'"
proof -
  let ?L = "tk_pll_correction_limit t"
  have ok: "task_ok hi lo n t" using app_ok_slot [OF assms(1,2)] assms(3) by simp
  then have L: "0 \<le> sint ?L" using pll_limit_small(1) by (simp add: task_ok_def pll_ok_def)
  have "sint (- ?L) = - sint ?L"
    using sint_sub_range [of 0 ?L] L sint_bounds [of ?L] by simp
  with ok L have "task_ok hi lo n (t\<lparr>tk_pll_correction := w\<rparr>)"
    if "w = (if sint v' < sint (- ?L) then - ?L else v')" "v' = (if sint v > sint ?L then ?L else v)" for w v'
    using that by (auto simp: task_ok_def pll_ok_def)
  with assms show ?thesis
    by (auto simp: task_pll_set_correction_def own_task_def Let_def intro!: app_ok_put)
qed

lemma rt_step_ok: "rt_step hi lo a a' \<Longrightarrow> app_ok hi lo a \<Longrightarrow> app_ok hi lo a'"
proof (induction rule: rt_step.induct)
  case (by_new pid code arg prio owner stacksize fp a r a')
  then show ?case by (blast intro: task_new_ok)
next
  case (by_start os i period a r a')
  then show ?case by (blast intro: task_start_ok)
next
  case (by_delete i a r a')
  then show ?case
    by (auto simp: task_delete_def split: option.splits if_splits intro!: app_ok_put)
next
  case (by_pause i a r a')
  then show ?case
    by (auto simp: task_pause_def task_ok_def pll_ok_def split: option.splits if_splits
        dest!: app_ok_get intro!: app_ok_put)
next
  case (by_resume i a r a')
  then show ?case
    by (auto simp: task_resume_def task_ok_def pll_ok_def split: option.splits if_splits
        dest!: app_ok_get intro!: app_ok_put)
next
  case (by_begin n a t now)
  then show ?case using app_ok_slot [OF by_begin.prems, of n]
    by (cases "tk_state t") (auto simp: task_ok_def wrapper_def pll_ok_def intro!: app_ok_put)
next
  case (by_wait n a t now r t')
  then have ok: "task_ok hi lo n t" using app_ok_slot [of hi lo a n] by simp
  show ?case
  proof (cases "tk_pause_sem t > 0")
    case True
    with by_wait ok show ?thesis
      by (cases "tk_state t") (auto simp: wait_enter_def task_ok_def pll_ok_def intro!: app_ok_put)
  next
    case False
    with by_wait ok wait_advance_task_ok [OF ok] show ?thesis
      by (auto simp: wait_enter_def intro!: app_ok_put)
  qed
next
  case (by_wake n a t now r t')
  then have "task_ok hi lo n t" using app_ok_slot [of hi lo a n] by simp
  with by_wake.hyps(3) have "task_ok hi lo n
      (t\<lparr>tk_resume_sem := tk_resume_sem t - 1, tk_state := TASK_S_RUNNING, tk_thr := Th_code\<rparr>)"
    by (cases "tk_state t") (auto simp: task_ok_def pll_ok_def)
  with by_wake wait_advance_task_ok show ?case
    by (auto simp: wait_resumed_def intro!: app_ok_put)
next
  case (by_pll n a t v r a')
  then show ?case by (blast intro: task_pll_ok)
qed

lemma reachable_ok: "(rt_step hi lo)\<^sup>*\<^sup>* rtapp_start a \<Longrightarrow> app_ok hi lo a"
  by (induction rule: rtranclp_induct) (auto intro: rt_step_ok app_ok_start)

section \<open>Properties\<close>

text \<open>
  The priority scale, in either direction. Every result of \<open>prio_bound\<close>,
  \<open>prio_next_higher\<close> and \<open>prio_next_lower\<close> lies on the scale, a step changes the priority by at
  most one, and between the ends stepping up and down again gives the priority back.
\<close>

theorem prio_scale:
  fixes p :: int
  assumes "hi \<noteq> lo"
  shows "prio_bound hi lo p \<in> {min hi lo..max hi lo} \<and>
    prio_next_higher hi lo p \<in> {min hi lo..max hi lo} \<and>
    prio_next_lower hi lo p \<in> {min hi lo..max hi lo} \<and>
    \<bar>prio_next_higher hi lo p - prio_bound hi lo p\<bar> \<le> 1 \<and>
    (p \<in> {min hi lo..max hi lo} \<and> p \<noteq> hi \<longrightarrow>
       prio_next_lower hi lo (prio_next_higher hi lo p) = p) \<and>
    (p \<in> {min hi lo..max hi lo} \<and> p \<noteq> lo \<longrightarrow>
       prio_next_higher hi lo (prio_next_lower hi lo p) = p)"
  using assms
  by (auto simp: prio_bound_def prio_next_higher_def prio_next_lower_def prio_higher_delta_def Let_def)

theorem prio_scale_witness:
  "prio_next_lower 99 1 (prio_next_higher 99 1 98) = 98 \<and>
   prio_next_lower 1 99 (prio_next_higher 1 99 98) = 98"
  using prio_scale [of 99 1 98] prio_scale [of 1 99 98] by simp


definition rt_example :: rtapp where
  "rt_example = snd (task_new 99 1 500 7 0 98 1 16384 1 rtapp_start)"

definition os_good :: pthread_os where
  "os_good = \<lparr>os_attr_init = 0, os_setstacksize = (\<lambda>_. 0), os_setschedpolicy = 0,
     os_setschedparam = (\<lambda>_. 0), os_setinheritsched = 0, os_nprocs = 4, os_rt_cpu_number = 3,
     os_setaffinity = (\<lambda>_. 0), os_create = 0\<rparr>"

definition example_task :: posix_task where
  "example_task = fill_task 500 7 0 98 1 16384 1 0 do_task_new"

lemma rt_example_eq: "rt_example = put_slot 0 (S_task example_task) rtapp_start"
proof -
  have "first_null 0 (replicate MAX_TASKS S_null) = Some 0" by (simp add: MAX_TASKS_def eval_nat_numeral)
  then show ?thesis
    by (simp add: rt_example_def task_new_def allocate_task_id_def rtapp_start_def put_slot_def
        example_task_def)
qed

lemma rt_example_reachable: "(rt_step 99 1)\<^sup>*\<^sup>* rtapp_start rt_example"
  unfolding rt_example_def by (rule r_into_rtranclp, rule by_new, rule surjective_pairing)

lemma rt_example_get: "get_task 0 rt_example = Some example_task"
  using get_put [of 0 rtapp_start example_task]
  by (simp add: rt_example_eq rtapp_start_def example_task_def fill_task_def Let_def MAX_TASKS_def)


text \<open>
  Property C16: \<open>task_new\<close> refuses a priority off the scale and a full table without any change;
  otherwise it takes the first null slot, fills in a task that is ready to start with the caller's
  arguments and a stack of at least one megabyte, and leaves every other slot alone.
\<close>

theorem task_new_correct:
  assumes "app_ok hi lo a" "task_new hi lo pid code arg prio owner stacksize fp a = (r, a')"
  shows "(prio > hi \<or> prio < lo \<longrightarrow> r = - EINVAL \<and> a' = a) \<and>
    (lo \<le> prio \<and> prio \<le> hi \<and> S_null \<notin> set (task_array a) \<longrightarrow> r = - ENOSPC \<and> a' = a) \<and>
    (lo \<le> prio \<and> prio \<le> hi \<and> S_null \<in> set (task_array a) \<longrightarrow>
      (\<exists>n t. r = int n \<and> n < MAX_TASKS \<and> task_array a ! n = S_null \<and>
        (\<forall>j < n. task_array a ! j \<noteq> S_null) \<and> get_task r a' = Some t \<and>
        tk_state t = TASK_S_ALLOCATED \<and> tk_taskcode t = code \<and> tk_arg t = arg \<and> tk_prio t = prio \<and>
        tk_owner t = owner \<and> tk_owner_pid t = pid \<and> tk_uses_fp t = fp \<and>
        uint (tk_stacksize t) = max (uint stacksize) (1024 * 1024) \<and>
        (\<forall>j. j \<noteq> n \<longrightarrow> task_array a' ! j = task_array a ! j)))"
proof (cases "lo \<le> prio \<and> prio \<le> hi \<and> S_null \<in> set (task_array a)")
  case False
  with assms(2) first_null_None [of 0 "task_array a"] show ?thesis
    by (auto simp: task_new_def allocate_task_id_def split: if_splits option.splits)
next
  case True
  then obtain n where n: "first_null 0 (task_array a) = Some n"
    using first_null_None [of 0 "task_array a"] by auto
  have len: "length (task_array a) = MAX_TASKS" using assms(1) by (simp add: app_ok_def)
  note N = first_null_Some [OF n, simplified]
  let ?t = "fill_task pid code arg prio owner stacksize fp (int n) do_task_new"
  have res: "r = int n" "a' = put_slot n (S_task ?t) a"
    using assms(2) True n by (auto simp: task_new_def allocate_task_id_def put_slot_def)
  have "get_task r a' = Some ?t"
    using N len by (simp add: res fill_task_def Let_def)
  moreover have "uint (tk_stacksize ?t) = max (uint stacksize) (1024 * 1024)"
    by (auto simp: fill_task_def word_less_def max_def)
  ultimately show ?thesis using True N len res(1)
    by (auto simp: res(2) fill_task_def Let_def put_slot_def intro!: exI [of _ n])
qed

theorem task_new_correct_witness:
  "fst (task_new 99 1 500 7 0 100 1 16384 1 rtapp_start) = - EINVAL"
proof -
  obtain r a' where e: "task_new 99 1 500 7 0 100 1 16384 1 rtapp_start = (r, a')" by fastforce
  have "r = - EINVAL" using task_new_correct [OF app_ok_start e] by simp
  with e show ?thesis by simp
qed

end
