(* ===== verification/Rt_Alloc.thy ===== *)
theory Rt_Alloc
  imports Rt_Life
begin

text \<open>
  Concurrent allocation of task ids. \<open>RtapiApp::allocate_task_id\<close> goes over \<open>task_array\<close> with one
  compare-and-swap per slot, so several threads may be inside it at once. Here a caller is the point
  its loop has reached, a step is one compare-and-swap of one caller, and a schedule is any list of
  callers. \<open>allocate_task_id\<close> of \<open>Rt_Tasks\<close> is the special case of one caller alone.
\<close>

datatype caller = Trying nat | Got nat | Full

record alloc_st =
  al_array :: "slot list"
  al_callers :: "caller list"

text \<open>One turn of the \<open>for\<close> loop of caller \<open>i\<close>, whose compare-and-swap is atomic.\<close>

definition cas_step :: "nat \<Rightarrow> alloc_st \<Rightarrow> alloc_st" where
  "cas_step i s =
     (if i \<ge> length (al_callers s) then s
      else case al_callers s ! i of
        Trying n \<Rightarrow>
          if n \<ge> MAX_TASKS then s\<lparr>al_callers := (al_callers s)[i := Full]\<rparr>
          else if al_array s ! n = S_null then
            s\<lparr>al_array := (al_array s)[n := S_init], al_callers := (al_callers s)[i := Got n]\<rparr>
          else s\<lparr>al_callers := (al_callers s)[i := Trying (n + 1)]\<rparr>
      | _ \<Rightarrow> s)"

fun run_alloc :: "nat list \<Rightarrow> alloc_st \<Rightarrow> alloc_st" where
  "run_alloc [] s = s"
| "run_alloc (i # sched) s = run_alloc sched (cas_step i s)"

definition alloc_begin :: "nat \<Rightarrow> slot list \<Rightarrow> alloc_st" where
  "alloc_begin k slots = \<lparr>al_array = slots, al_callers = replicate k (Trying 0)\<rparr>"

section \<open>The invariant of the compare-and-swaps\<close>

text \<open>
  A slot a caller got was null at the start, holds the placeholder, and nobody else has got it; what
  a caller has gone past is taken; a slot that nobody got is as it was.
\<close>

definition alloc_ok :: "slot list \<Rightarrow> alloc_st \<Rightarrow> bool" where
  "alloc_ok slots s \<longleftrightarrow> length (al_array s) = MAX_TASKS \<and>
     (\<forall>i < length (al_callers s). case al_callers s ! i of
         Trying n \<Rightarrow> n \<le> MAX_TASKS \<and> (\<forall>m < n. al_array s ! m \<noteq> S_null)
       | Got n \<Rightarrow> n < MAX_TASKS \<and> slots ! n = S_null \<and> al_array s ! n = S_init
       | Full \<Rightarrow> \<forall>m < MAX_TASKS. al_array s ! m \<noteq> S_null) \<and>
     (\<forall>i < length (al_callers s). \<forall>j < length (al_callers s). \<forall>n.
         al_callers s ! i = Got n \<and> al_callers s ! j = Got n \<longrightarrow> i = j) \<and>
     (\<forall>n < MAX_TASKS. Got n \<notin> set (al_callers s) \<longrightarrow> al_array s ! n = slots ! n)"

lemma alloc_ok_begin: "length slots = MAX_TASKS \<Longrightarrow> alloc_ok slots (alloc_begin k slots)"
  by (auto simp: alloc_ok_def alloc_begin_def)

lemma alloc_ok_advance:
  assumes "alloc_ok slots s" "i < length (al_callers s)" "al_callers s ! i = Trying n"
    and "c = Trying (n + 1) \<and> n < MAX_TASKS \<and> al_array s ! n \<noteq> S_null \<or> c = Full \<and> n \<ge> MAX_TASKS"
  shows "alloc_ok slots (s\<lparr>al_callers := (al_callers s)[i := c]\<rparr>)"
proof -
  have T: "n \<le> MAX_TASKS" "\<forall>m < n. al_array s ! m \<noteq> S_null"
    using assms(1-3) by (auto simp: alloc_ok_def dest!: spec [of _ i])
  have G: "Got m \<in> set ((al_callers s)[i := c]) \<longleftrightarrow> Got m \<in> set (al_callers s)" for m
  proof -
    have "c \<noteq> Got m" "al_callers s ! i \<noteq> Got m" using assms(3,4) by auto
    then show ?thesis using assms(2) by (metis in_set_conv_nth length_list_update nth_list_update_eq nth_list_update_neq)
  qed
  show ?thesis
    using assms T unfolding alloc_ok_def
    by (auto simp: G nth_list_update less_Suc_eq split: caller.split)
qed

lemma alloc_ok_got:
  assumes "alloc_ok slots s" "i < length (al_callers s)" "al_callers s ! i = Trying n"
    and "n < MAX_TASKS" "al_array s ! n = S_null"
  shows "alloc_ok slots (s\<lparr>al_array := (al_array s)[n := S_init], al_callers := (al_callers s)[i := Got n]\<rparr>)"
proof -
  have ng: "Got n \<notin> set (al_callers s)"
    using assms(1,5) by (auto simp: alloc_ok_def in_set_conv_nth dest!: spec)
  have sn: "slots ! n = S_null" using assms(1,4,5) ng by (auto simp: alloc_ok_def)
  have G: "Got m \<in> set ((al_callers s)[i := Got n]) \<longleftrightarrow> m = n \<or> Got m \<in> set (al_callers s)" for m
    using assms(2,3) by (metis caller.distinct(1) caller.inject(2) in_set_conv_nth length_list_update
        nth_list_update_eq nth_list_update_neq)
  have C: "case al_callers s ! j of
         Trying k \<Rightarrow> k \<le> MAX_TASKS \<and> (\<forall>m < k. al_array s ! m \<noteq> S_null)
       | Got k \<Rightarrow> k < MAX_TASKS \<and> slots ! k = S_null \<and> al_array s ! k = S_init
       | Full \<Rightarrow> \<forall>m < MAX_TASKS. al_array s ! m \<noteq> S_null" if "j < length (al_callers s)" for j
    using assms(1) that by (simp add: alloc_ok_def)
  have C': "case ((al_callers s)[i := Got n]) ! j of
         Trying k \<Rightarrow> k \<le> MAX_TASKS \<and> (\<forall>m < k. ((al_array s)[n := S_init]) ! m \<noteq> S_null)
       | Got k \<Rightarrow> k < MAX_TASKS \<and> slots ! k = S_null \<and> ((al_array s)[n := S_init]) ! k = S_init
       | Full \<Rightarrow> \<forall>m < MAX_TASKS. ((al_array s)[n := S_init]) ! m \<noteq> S_null"
    if "j < length (al_callers s)" for j
    using C [OF that] assms(1,2,4) sn
    by (cases "j = i") (auto simp: nth_list_update alloc_ok_def split: caller.splits)
  have inj: "j = k" if "j < length (al_callers s)" "k < length (al_callers s)"
    "((al_callers s)[i := Got n]) ! j = Got m" "((al_callers s)[i := Got n]) ! k = Got m" for j k m
    using that assms(1,2) ng
    by (auto simp: nth_list_update alloc_ok_def in_set_conv_nth split: if_splits)
  have sel: "al_array (s\<lparr>al_array := x, al_callers := y\<rparr>) = x"
    "al_callers (s\<lparr>al_array := x, al_callers := y\<rparr>) = y" for x y by simp_all
  have "length ((al_array s)[n := S_init]) = MAX_TASKS"
    "\<forall>m < MAX_TASKS. Got m \<notin> set ((al_callers s)[i := Got n]) \<longrightarrow> (al_array s)[n := S_init] ! m = slots ! m"
    using assms(1) by (auto simp: alloc_ok_def G nth_list_update)
  then show ?thesis using C' inj unfolding alloc_ok_def sel length_list_update by blast
qed

lemma alloc_ok_step: "alloc_ok slots s \<Longrightarrow> alloc_ok slots (cas_step i s)"
  by (auto simp: cas_step_def intro: alloc_ok_got alloc_ok_advance split: caller.split)

lemma alloc_ok_run: "alloc_ok slots s \<Longrightarrow> alloc_ok slots (run_alloc sched s)"
  by (induction sched arbitrary: s) (auto intro: alloc_ok_step)

lemma length_callers_step [simp]: "length (al_callers (cas_step i s)) = length (al_callers s)"
  by (auto simp: cas_step_def split: caller.split)

lemma length_callers_run [simp]: "length (al_callers (run_alloc sched s)) = length (al_callers s)"
  by (induction sched arbitrary: s) auto

section \<open>Progress\<close>

text \<open>How many more steps of its own a caller needs at most.\<close>

fun steps_left :: "caller \<Rightarrow> nat" where
  "steps_left (Trying n) = MAX_TASKS + 1 - n"
| "steps_left _ = 0"

lemma steps_left_other: "j \<noteq> i \<Longrightarrow> al_callers (cas_step i s) ! j = al_callers s ! j"
  by (auto simp: cas_step_def split: caller.split)

lemma steps_left_own:
  "alloc_ok slots s \<Longrightarrow> i < length (al_callers s) \<Longrightarrow>
   steps_left (al_callers (cas_step i s) ! i) \<le> steps_left (al_callers s ! i) - 1"
  by (cases "al_callers s ! i") (auto simp: cas_step_def alloc_ok_def)

lemma steps_left_run:
  "alloc_ok slots s \<Longrightarrow> i < length (al_callers s) \<Longrightarrow>
   steps_left (al_callers (run_alloc sched s) ! i) \<le> steps_left (al_callers s ! i) - count_list sched i"
proof (induction sched arbitrary: s)
  case (Cons j sched)
  from Cons.IH [OF alloc_ok_step [OF Cons.prems(1), of j]] Cons.prems show ?case
    using steps_left_own [OF Cons.prems] by (cases "j = i") (auto simp: steps_left_other)
qed simp

section \<open>Properties\<close>

text \<open>
  Property C14: concurrent \<open>allocate_task_id\<close>. For any number of callers and any interleaving of
  their compare-and-swaps, two callers never get the same id, every id was a free slot and is now
  reserved, a caller that reports \<open>-ENOSPC\<close> leaves no free slot behind, and no other slot is touched.
\<close>

theorem task_ids_unique:
  assumes "length slots = MAX_TASKS" "run_alloc sched (alloc_begin k slots) = s"
  shows "(\<forall>i < k. \<forall>j < k. \<forall>n. al_callers s ! i = Got n \<and> al_callers s ! j = Got n \<longrightarrow> i = j) \<and>
    (\<forall>n. Got n \<in> set (al_callers s) \<longrightarrow> n < MAX_TASKS \<and> slots ! n = S_null \<and> al_array s ! n = S_init) \<and>
    (Full \<in> set (al_callers s) \<longrightarrow> (\<forall>n < MAX_TASKS. al_array s ! n \<noteq> S_null)) \<and>
    (\<forall>n < MAX_TASKS. Got n \<notin> set (al_callers s) \<longrightarrow> al_array s ! n = slots ! n)"
proof -
  have ok: "alloc_ok slots s"
    using alloc_ok_run [OF alloc_ok_begin [OF assms(1)]] assms(2) by blast
  have len: "length (al_callers s) = k" using assms(2) by (auto simp: alloc_begin_def)
  have "n < MAX_TASKS \<and> slots ! n = S_null \<and> al_array s ! n = S_init" if "Got n \<in> set (al_callers s)" for n
    using that ok by (auto simp: alloc_ok_def in_set_conv_nth dest!: spec)
  moreover have "\<forall>n < MAX_TASKS. al_array s ! n \<noteq> S_null" if "Full \<in> set (al_callers s)"
    using that ok by (auto simp: alloc_ok_def in_set_conv_nth dest!: spec)
  ultimately show ?thesis using ok len unfolding alloc_ok_def by blast
qed

theorem task_ids_unique_witness:
  "al_callers (run_alloc [0, 1, 1] (alloc_begin 2 (replicate MAX_TASKS S_null))) ! 0 \<noteq>
   al_callers (run_alloc [0, 1, 1] (alloc_begin 2 (replicate MAX_TASKS S_null))) ! 1"
proof -
  have got: "al_callers (run_alloc [0, 1, 1] (alloc_begin 2 (replicate MAX_TASKS S_null))) ! 0 = Got 0"
    by (simp add: cas_step_def alloc_begin_def MAX_TASKS_def eval_nat_numeral)
  have "\<forall>i < 2. \<forall>j < 2. \<forall>n.
      al_callers (run_alloc [0, 1, 1] (alloc_begin 2 (replicate MAX_TASKS S_null))) ! i = Got n \<and>
      al_callers (run_alloc [0, 1, 1] (alloc_begin 2 (replicate MAX_TASKS S_null))) ! j = Got n \<longrightarrow> i = j"
    using task_ids_unique [of "replicate MAX_TASKS S_null", OF _ refl, of 2 "[0, 1, 1]"] by simp
  note inj = this [rule_format, of 0 1 0]
  from inj got show ?thesis by auto
qed

text \<open>
  Property C15: allocation is wait-free. A caller that has been scheduled \<open>MAX_TASKS + 1\<close> times has
  finished, whatever the other callers do in between: it has an id or has found the table full.
\<close>

theorem task_id_wait_free:
  assumes "length slots = MAX_TASKS" "i < k" "count_list sched i \<ge> MAX_TASKS + 1"
  shows "(\<exists>n. al_callers (run_alloc sched (alloc_begin k slots)) ! i = Got n) \<or>
    al_callers (run_alloc sched (alloc_begin k slots)) ! i = Full"
proof -
  let ?s = "alloc_begin k slots" and ?t = "run_alloc sched (alloc_begin k slots)"
  have ok: "alloc_ok slots ?s" "alloc_ok slots ?t"
    using alloc_ok_begin [OF assms(1)] alloc_ok_run by blast+
  have len: "length (al_callers ?s) = k" "al_callers ?s ! i = Trying 0"
    using assms(2) by (simp_all add: alloc_begin_def)
  with steps_left_run [OF ok(1), of i sched] assms(2,3)
  have "steps_left (al_callers ?t ! i) = 0" by simp
  moreover have "n \<le> MAX_TASKS" if "al_callers ?t ! i = Trying n" for n
    using ok(2) that len(1) assms(2) by (auto simp: alloc_ok_def dest!: spec [of _ i])
  ultimately show ?thesis by (cases "al_callers ?t ! i") auto
qed

theorem task_id_wait_free_witness:
  "al_callers (run_alloc (replicate 65 0) (alloc_begin 1 (replicate MAX_TASKS S_init))) ! 0 = Full"
proof -
  let ?t = "run_alloc (replicate 65 0) (alloc_begin 1 (replicate MAX_TASKS S_init))"
  have "count_list (replicate 65 (0::nat)) 0 \<ge> MAX_TASKS + 1"
    by (simp add: MAX_TASKS_def eval_nat_numeral)
  then have "(\<exists>n. al_callers ?t ! 0 = Got n) \<or> al_callers ?t ! 0 = Full"
    by (intro task_id_wait_free) simp_all
  moreover have "al_callers ?t ! 0 \<noteq> Got n" for n
  proof
    assume g: "al_callers ?t ! 0 = Got n"
    have "alloc_ok (replicate MAX_TASKS S_init) ?t" by (intro alloc_ok_run alloc_ok_begin) simp
    moreover have "length (al_callers ?t) = 1" by (simp add: alloc_begin_def)
    ultimately show False using g by (auto simp: alloc_ok_def)
  qed
  ultimately show ?thesis by blast
qed

text \<open>
  The sequential \<open>allocate_task_id\<close> is the loop of compare-and-swaps run by a single
  caller to its end.
\<close>

theorem allocate_is_cas_loop:
  assumes "length (task_array a) = MAX_TASKS"
  shows "run_alloc (replicate (MAX_TASKS + 1) 0) (alloc_begin 1 (task_array a)) =
    (case allocate_task_id a of (r, a') \<Rightarrow>
       \<lparr>al_array = task_array a', al_callers = [if r = - ENOSPC then Full else Got (nat r)]\<rparr>)"
proof -
  have idle: "run_alloc (replicate m 0) \<lparr>al_array = x, al_callers = [c]\<rparr> = \<lparr>al_array = x, al_callers = [c]\<rparr>"
    if "\<And>n. c \<noteq> Trying n" for m x c
    using that by (induction m) (auto simp: cas_step_def split: caller.split)
  have loop: "run_alloc (replicate (MAX_TASKS + 1 - n) 0) \<lparr>al_array = task_array a, al_callers = [Trying n]\<rparr> =
      (case first_null n (drop n (task_array a)) of
         Some k \<Rightarrow> \<lparr>al_array = (task_array a)[k := S_init], al_callers = [Got k]\<rparr>
       | None \<Rightarrow> \<lparr>al_array = task_array a, al_callers = [Full]\<rparr>)" if "n \<le> MAX_TASKS" for n
    using that
  proof (induction "MAX_TASKS - n" arbitrary: n)
    case 0
    with assms show ?case by (simp add: cas_step_def)
  next
    case (Suc d)
    then have n: "n < MAX_TASKS" "MAX_TASKS + 1 - n = Suc (MAX_TASKS + 1 - Suc n)" by simp_all
    have d: "drop n (task_array a) = task_array a ! n # drop (Suc n) (task_array a)"
      using n assms by (simp add: Cons_nth_drop_Suc)
    show ?case
    proof (cases "task_array a ! n = S_null")
      case True
      with n show ?thesis by (simp add: d cas_step_def idle)
    next
      case False
      with n Suc.hyps(1) [of "Suc n"] Suc.hyps(2) show ?thesis by (simp add: d cas_step_def)
    qed
  qed
  from loop [of 0] show ?thesis
    by (auto simp: alloc_begin_def allocate_task_id_def put_slot_def split: option.split)
qed

theorem allocate_is_cas_loop_witness:
  "al_callers (run_alloc (replicate (MAX_TASKS + 1) 0) (alloc_begin 1 (task_array rtapp_start))) = [Got 0]"
proof -
  have "first_null 0 (replicate MAX_TASKS S_null) = Some 0" by (simp add: MAX_TASKS_def eval_nat_numeral)
  then show ?thesis
    by (subst allocate_is_cas_loop) (simp_all add: rtapp_start_def allocate_task_id_def)
qed

end
