(* ===== verification/Rt_Cycle.thy ===== *)
theory Rt_Cycle
  imports Rt_Life
begin

text \<open>
  What the operations of \<open>Rt_Tasks\<close> do on well-formed tables: the outcomes of \<open>task_start\<close> and
  \<open>task_delete\<close>, the protocol of pausing and resuming, the deadlines of the periodic cycle, and
  the bounds of the phase correction.
\<close>

section \<open>Starting and deleting\<close>

lemma attr_setup_upd [simp]:
  "attr_setup os (tk_period_update f t) = attr_setup os t"
  "attr_setup os (tk_pll_correction_limit_update g t) = attr_setup os t"
  "attr_setup os (tk_pll_correction_update g t) = attr_setup os t"
  "attr_setup os (tk_error_code_update h t) = attr_setup os t"
  "attr_setup os (tk_state_update k t) = attr_setup os t"
  by (simp_all add: attr_setup_def)

text \<open>
  \<open>task_start\<close> of an allocated task. If every call succeeds the task is running, its
  thread exists, and its period and correction limit are set; a second start is refused with
  \<open>-EALREADY\<close>. If a call fails, its code is returned negated and recorded, the task stays
  allocated, and a later start can succeed.
\<close>

theorem task_start_correct:
  assumes "app_ok hi lo a" "get_task i a = Some t" "tk_state t = TASK_S_ALLOCATED"
    and "task_start os i period a = (r, a')"
  shows "\<exists>t'. get_task i a' = Some t' \<and> tk_period t' = period \<and> uint (tk_pll_correction_limit t') = uint period div 100 \<and>
    tk_pll_correction t' = 0 \<and>
    (if attr_setup os t = 0 \<and> os_create os = 0
     then r = 0 \<and> tk_state t' = TASK_S_RUNNING \<and> tk_thr t' = Th_created \<and>
       (\<forall>os2 p2. task_start os2 i p2 a' = (- EALREADY, a'))
     else r \<noteq> 0 \<and> tk_error_code t' = - r \<and> tk_state t' = TASK_S_ALLOCATED \<and> tk_thr t' = Th_none \<and>
       (\<forall>os2 p2. attr_setup os2 t = 0 \<and> os_create os2 = 0 \<longrightarrow> fst (task_start os2 i p2 a') = 0))"
proof -
  note T = app_ok_get [OF assms(1,2)]
  then have th: "tk_thr t = Th_none" and mg: "tk_magic t = TASK_MAGIC"
    using assms(3) by (auto simp: task_ok_def)
  have len: "length (task_array a) = MAX_TASKS" using assms(1) by (simp add: app_ok_def)
  have G: "get_task i (put_slot (nat i) (S_task u) a) = Some u" if "tk_magic u = TASK_MAGIC" for u
    using get_put [OF _ len that, of "nat i"] T by simp
  show ?thesis
  proof (cases "attr_setup os t = 0")
    case False
    with assms mg th show ?thesis
      by (auto simp: task_start_def Let_def G uint_div)
  next
    case True
    with assms mg th show ?thesis
      by (cases "os_create os = 0") (auto simp: task_start_def Let_def G uint_div)
  qed
qed

definition rt_running :: rtapp where
  "rt_running = snd (task_start os_good 0 1000000 rt_example)"

lemma attr_setup_good: "attr_setup os_good t = 0"
  and create_good: "os_create os_good = 0"
  by (simp_all add: attr_setup_def os_good_def)

lemma example_task_sel:
  "tk_state example_task = TASK_S_ALLOCATED" "tk_thr example_task = Th_none"
  "tk_magic example_task = TASK_MAGIC" "tk_resume_sem example_task = 0" "tk_pause_sem example_task = 0"
  by (simp_all add: example_task_def fill_task_def do_task_new_def Let_def)

lemma rt_example_ok: "app_ok 99 1 rt_example"
  by (rule reachable_ok [OF rt_example_reachable])

theorem task_start_correct_witness:
  "fst (task_start os_good 0 2000000 (snd (task_start os_good 0 1000000 rt_example))) = - EALREADY"
proof -
  obtain r a' where e: "task_start os_good 0 1000000 rt_example = (r, a')" by fastforce
  show ?thesis
    using task_start_correct [OF rt_example_ok rt_example_get example_task_sel(1) e]
    by (auto simp: e attr_setup_good create_good)
qed

text \<open>
  \<open>task_delete\<close> of a task that has a thread ends it and frees the slot: the id is
  unknown from then on to every operation, and the next \<open>task_new\<close> can take the slot. Of a task that
  was never started successfully it cancels a thread that does not exist.
\<close>

theorem task_delete_correct:
  assumes "app_ok hi lo a" "get_task i a = Some t"
  shows "(tk_state t = TASK_S_ALLOCATED \<longrightarrow> task_delete i a = Inl UB) \<and>
    (tk_state t \<noteq> TASK_S_ALLOCATED \<longrightarrow>
      (\<exists>a'. task_delete i a = Inr (0, a') \<and> task_array a' ! nat i = S_null \<and> get_task i a' = None \<and>
        (\<forall>j. j \<noteq> i \<longrightarrow> get_task j a' = get_task j a) \<and>
        task_delete i a' = Inr (- EINVAL, a') \<and> rtapi_task_getstate i a' = Inr (- 1)))"
proof -
  note T = app_ok_get [OF assms]
  have len: "length (task_array a) = MAX_TASKS" using assms(1) by (simp add: app_ok_def)
  have P: "pause_ok (tk_state t) (tk_thr t) (tk_pause_sem t)" using T by (simp add: task_ok_def)
  have none: "get_task i (put_slot (nat i) S_null a) = None" using T len
    by (simp add: get_task_def put_slot_def)
  have other: "get_task j (put_slot (nat i) S_null a) = get_task j a" if "j \<noteq> i" for j
  proof (cases "j < 0")
    case False
    with that T have "nat j \<noteq> nat i" by auto
    then show ?thesis by (simp add: get_task_def put_slot_def)
  qed (simp add: get_task_def)
  have st: "rtapi_task_getstate i (put_slot (nat i) S_null a) = Inr (- 1)" using T len
    by (auto simp: rtapi_task_getstate_def put_slot_def)
  show ?thesis
  proof (cases "tk_state t = TASK_S_ALLOCATED")
    case True
    with P assms(2) show ?thesis by (simp add: task_delete_def)
  next
    case False
    with P have "task_delete i a = Inr (0, put_slot (nat i) S_null a)"
      using assms(2) by (cases "tk_state t") (auto simp: task_delete_def)
    moreover have "task_delete i (put_slot (nat i) S_null a) = Inr (- EINVAL, put_slot (nat i) S_null a)"
      by (simp add: task_delete_def none)
    moreover have "task_array (put_slot (nat i) S_null a) ! nat i = S_null" using T len
      by (simp add: put_slot_def)
    ultimately show ?thesis using False none other st by simp
  qed
qed

theorem task_delete_correct_witness:
  "task_delete 0 rt_example = Inl UB"
  using task_delete_correct [OF rt_example_ok rt_example_get] by (simp add: example_task_sel)

section \<open>Pausing\<close>

text \<open>
  Property C13: the pause protocol. Pausing a running task succeeds once; the thread then stops in its
  next \<open>wait\<close>, before it touches its deadline, and with no token in \<open>resume_sem\<close> it has no step
  of its own until \<open>task_resume\<close>, which succeeds, lets it run again, and its deadline moves on
  by a single period however long the pause was.
\<close>

theorem pause_protocol:
  assumes "app_ok hi lo a" "get_task i a = Some t"
    and "tk_state t = TASK_S_RUNNING" "tk_thr t = Th_code" "tk_resume_sem t = 0"
  shows "\<exists>a1 t1 t2 a3 t3.
    task_pause i a = (0, a1) \<and> get_task i a1 = Some t1 \<and> fst (task_pause i a1) = - EINVAL \<and>
    wait_enter now t1 = (Wait_paused, t2) \<and> tk_thr t2 = Th_paused \<and> tk_resume_sem t2 = 0 \<and>
    tk_nextstart t2 = tk_nextstart t \<and>
    task_resume i (put_slot (nat i) (S_task t2) a1) = (0, a3) \<and>
    get_task i a3 = Some t3 \<and> tk_resume_sem t3 = 1 \<and>
    snd (wait_resumed later t3) = t\<lparr>tk_nextstart :=
      rtapi_timespec_advance (tk_nextstart t) (tk_period t + tk_pll_correction t)\<rparr>"
proof -
  note T = app_ok_get [OF assms(1,2)]
  then have mg: "tk_magic t = TASK_MAGIC" and pz: "tk_pause_sem t = 0"
    using assms(3) by (auto simp: task_ok_def)
  have G: "get_task i (put_slot (nat i) (S_task u) b) = Some u"
    if "tk_magic u = TASK_MAGIC" "length (task_array b) = MAX_TASKS" for u b
    using get_put [OF _ that(2,1), of "nat i"] T by simp
  have len: "length (task_array a) = MAX_TASKS" "length (task_array (put_slot n s a)) = MAX_TASKS" for n s
    using assms(1) by (simp_all add: app_ok_def put_slot_def)
  define t1 where "t1 = t\<lparr>tk_state := TASK_S_PAUSED, tk_pause_sem := 1\<rparr>"
  define a1 where "a1 = put_slot (nat i) (S_task t1) a"
  define t2 where "t2 = t1\<lparr>tk_pause_sem := 0, tk_thr := Th_paused\<rparr>"
  define t3 where "t3 = t2\<lparr>tk_resume_sem := 1\<rparr>"
  define a3 where "a3 = put_slot (nat i) (S_task t3) (put_slot (nat i) (S_task t2) a1)"
  have len1: "length (task_array (put_slot n s a1)) = MAX_TASKS" for n s
    using len(1) by (simp add: a1_def put_slot_def)
  have "task_pause i a = (0, a1)"
    using assms(2,3) pz by (simp add: task_pause_def a1_def t1_def)
  moreover have g1: "get_task i a1 = Some t1" unfolding a1_def
    by (rule G [OF _ len(1)]) (simp add: t1_def mg)
  moreover from g1 have "fst (task_pause i a1) = - EINVAL" by (simp add: task_pause_def t1_def)
  moreover have "wait_enter now t1 = (Wait_paused, t2)" by (simp add: wait_enter_def t1_def t2_def)
  moreover have "tk_thr t2 = Th_paused \<and> tk_resume_sem t2 = 0 \<and> tk_nextstart t2 = tk_nextstart t"
    using assms(5) by (simp add: t2_def t1_def)
  moreover have "task_resume i (put_slot (nat i) (S_task t2) a1) = (0, a3)"
    using assms(5) T len(1)
    by (subst task_resume_def, subst G) (simp_all add: a1_def put_slot_def t1_def t2_def t3_def a3_def mg)
  moreover have "get_task i a3 = Some t3" unfolding a3_def
    by (rule G) (simp_all add: t3_def t2_def t1_def mg len1)
  moreover have "snd (wait_resumed later t3) = t\<lparr>tk_nextstart :=
      rtapi_timespec_advance (tk_nextstart t) (tk_period t + tk_pll_correction t)\<rparr>"
    using assms(3-5) pz by (cases t) (simp add: wait_resumed_def wait_advance_def Let_def t3_def t2_def t1_def)
  ultimately show ?thesis by (auto simp: t3_def)
qed

text \<open>A table whose only task executes its \<open>taskcode\<close>, with a period of one millisecond.\<close>

definition cycle_task :: posix_task where
  "cycle_task = wrapper \<lparr>tv_sec = 7, tv_nsec = 999500000\<rparr>
     (example_task\<lparr>tk_period := 1000000, tk_pll_correction_limit := 10000, tk_state := TASK_S_RUNNING\<rparr>)"

definition rt_cycle :: rtapp where
  "rt_cycle = put_slot 0 (S_task cycle_task) rt_example"

lemma cycle_task_sel:
  "tk_state cycle_task = TASK_S_RUNNING" "tk_thr cycle_task = Th_code" "tk_magic cycle_task = TASK_MAGIC"
  "tk_resume_sem cycle_task = 0" "tk_pause_sem cycle_task = 0" "tk_period cycle_task = 1000000"
  "tk_pll_correction cycle_task = 0" "tk_pll_correction_limit cycle_task = 10000"
  by (simp_all add: cycle_task_def wrapper_def example_task_def fill_task_def do_task_new_def Let_def)

lemma rt_cycle_ok: "app_ok 99 1 rt_cycle"
proof -
  have "task_ok 99 1 0 example_task"
    using app_ok_get [OF rt_example_ok rt_example_get] by simp
  then have "task_ok 99 1 0 cycle_task"
    by (simp add: task_ok_def pll_ok_def cycle_task_sel)
      (simp add: cycle_task_def wrapper_def)
  then show ?thesis unfolding rt_cycle_def by (intro app_ok_put [OF rt_example_ok]) simp
qed

lemma rt_cycle_get: "get_task 0 rt_cycle = Some cycle_task"
  using get_put [of 0 rt_example cycle_task] rt_example_ok
  by (simp add: rt_cycle_def cycle_task_sel app_ok_def MAX_TASKS_def)

theorem pause_protocol_witness:
  "\<exists>a1 t1. task_pause 0 rt_cycle = (0, a1) \<and> get_task 0 a1 = Some t1 \<and>
     fst (wait_enter \<lparr>tv_sec = 8, tv_nsec = 0\<rparr> t1) = Wait_paused"
proof -
  obtain a1 t1 t2 where "task_pause 0 rt_cycle = (0, a1)" "get_task 0 a1 = Some t1"
    "wait_enter \<lparr>tv_sec = 8, tv_nsec = 0\<rparr> t1 = (Wait_paused, t2)"
    using pause_protocol [OF rt_cycle_ok rt_cycle_get cycle_task_sel(1,2,4),
      of "\<lparr>tv_sec = 8, tv_nsec = 0\<rparr>" "\<lparr>tv_sec = 0, tv_nsec = 0\<rparr>"] by blast
  then show ?thesis by (intro exI [of _ a1] exI [of _ t1]) simp
qed

text \<open>
  A token left in \<open>resume_sem\<close> defeats the next pause. While a task is stopped,
  \<open>task_resume\<close> succeeds any number of times, since only the thread itself sets the state back.
  After \<open>n + 1\<close> calls the thread wakes with \<open>n\<close> tokens left, and each of its next \<open>n\<close> pauses ends at
  once: the thread is stopped in \<open>wait\<close> with a token that lets it go on although nobody has
  called \<open>task_resume\<close> since.
\<close>

fun resumes :: "nat \<Rightarrow> int \<Rightarrow> rtapp \<Rightarrow> rtapp" where
  "resumes 0 i a = a"
| "resumes (Suc n) i a = resumes n i (snd (task_resume i a))"

lemma resumes_add:
  assumes "app_ok hi lo a" "get_task i a = Some t" "tk_state t = TASK_S_PAUSED"
  shows "get_task i (resumes n i a) = Some (t\<lparr>tk_resume_sem := tk_resume_sem t + n\<rparr>) \<and> app_ok hi lo (resumes n i a)"
  using assms
proof (induction n arbitrary: a t)
  case (Suc n)
  let ?t = "t\<lparr>tk_resume_sem := tk_resume_sem t + 1\<rparr>"
  note T = app_ok_get [OF Suc.prems(1,2)]
  have r: "snd (task_resume i a) = put_slot (nat i) (S_task ?t) a"
    using Suc.prems by (simp add: task_resume_def)
  have "app_ok hi lo (put_slot (nat i) (S_task ?t) a)"
    using T Suc.prems(1) by (intro app_ok_put) (auto simp: task_ok_def pll_ok_def)
  moreover have "get_task i (put_slot (nat i) (S_task ?t) a) = Some ?t"
    using get_put [of "nat i" a ?t] T Suc.prems(1) by (simp add: task_ok_def app_ok_def)
  ultimately show ?case using Suc.IH [of "put_slot (nat i) (S_task ?t) a" ?t] Suc.prems(3)
    by (simp add: r)
qed simp

theorem resume_tokens_defeat_pause:
  assumes "app_ok hi lo a" "get_task i a = Some t" "tk_thr t = Th_paused" "tk_resume_sem t = 0"
  shows "\<exists>t1 t2 a3 t3 t4. get_task i (resumes (n + 1) i a) = Some t1 \<and>
    snd (wait_resumed now t1) = t2 \<and> tk_state t2 = TASK_S_RUNNING \<and>
    task_pause i (put_slot (nat i) (S_task t2) (resumes (n + 1) i a)) = (0, a3) \<and>
    get_task i a3 = Some t3 \<and> wait_enter now' t3 = (Wait_paused, t4) \<and>
    tk_state t4 = TASK_S_PAUSED \<and> tk_thr t4 = Th_paused \<and> tk_resume_sem t4 = n"
proof -
  note T = app_ok_get [OF assms(1,2)]
  then have st: "tk_state t = TASK_S_PAUSED" "tk_pause_sem t = 0"
    using assms(3) by (cases "tk_state t"; auto simp: task_ok_def)+
  define b where "b = resumes (n + 1) i a"
  define t1 where "t1 = t\<lparr>tk_resume_sem := n + 1\<rparr>"
  have R: "get_task i b = Some t1" "app_ok hi lo b"
    using resumes_add [OF assms(1,2) st(1), of "n + 1"] assms(4) by (simp_all add: b_def t1_def)
  have len: "length (task_array b) = MAX_TASKS" using R(2) by (simp add: app_ok_def)
  define t2 where "t2 = snd (wait_resumed now t1)"
  obtain d where t2: "t2 = t\<lparr>tk_resume_sem := n, tk_state := TASK_S_RUNNING, tk_thr := Th_code, tk_nextstart := d\<rparr>"
    by (simp add: t2_def wait_resumed_def wait_advance_def Let_def t1_def)
  have G: "get_task i (put_slot (nat i) (S_task u) c) = Some u"
    if "tk_magic u = TASK_MAGIC" "length (task_array c) = MAX_TASKS" for u c
    using get_put [OF _ that(2,1), of "nat i"] T by simp
  have m2: "tk_magic t2 = TASK_MAGIC" using T by (simp add: task_ok_def t2)
  let ?c = "put_slot (nat i) (S_task t2) b"
  define t3 where "t3 = t2\<lparr>tk_state := TASK_S_PAUSED, tk_pause_sem := 1\<rparr>"
  have p: "task_pause i ?c = (0, put_slot (nat i) (S_task t3) ?c)"
    using G [OF m2 len] st(2) by (simp add: task_pause_def t2 t3_def)
  have g3: "get_task i (put_slot (nat i) (S_task t3) ?c) = Some t3"
    using G [of t3 ?c] m2 len by (simp add: put_slot_def t3_def)
  have w: "wait_enter now' t3 = (Wait_paused, t3\<lparr>tk_pause_sem := 0, tk_thr := Th_paused\<rparr>)"
    by (simp add: wait_enter_def t3_def)
  have s2: "tk_state t2 = TASK_S_RUNNING" and s4: "tk_resume_sem t3 = n" "tk_state t3 = TASK_S_PAUSED"
    by (simp_all add: t2 t3_def)
  from R(1) t2_def s2 p g3 w s4 show ?thesis unfolding b_def [symmetric]
    by (intro exI [of _ t1] exI [of _ t2] exI [of _ "put_slot (nat i) (S_task t3) ?c"] exI [of _ t3]
        exI [of _ "t3\<lparr>tk_pause_sem := 0, tk_thr := Th_paused\<rparr>"]) simp
qed

definition stopped_task :: posix_task where
  "stopped_task = cycle_task\<lparr>tk_state := TASK_S_PAUSED, tk_thr := Th_paused\<rparr>"

theorem resume_tokens_defeat_pause_witness:
  "\<exists>a. \<exists>t4 :: posix_task. tk_state t4 = TASK_S_PAUSED \<and> tk_thr t4 = Th_paused \<and> tk_resume_sem t4 = 1 \<and>
     get_task 0 (resumes 2 0 a) \<noteq> None"
proof -
  let ?a = "put_slot 0 (S_task stopped_task) rt_cycle"
  note S = cycle_task_sel
  have ok: "app_ok 99 1 ?a"
    using app_ok_get [OF rt_cycle_ok rt_cycle_get]
    by (intro app_ok_put [OF rt_cycle_ok]) (simp add: task_ok_def stopped_task_def pll_ok_def S)
  have get: "get_task 0 ?a = Some stopped_task"
    using get_put [of 0 rt_cycle stopped_task] rt_cycle_ok
    by (simp add: stopped_task_def S app_ok_def MAX_TASKS_def)
  have "tk_thr stopped_task = Th_paused" "tk_resume_sem stopped_task = 0"
    by (simp_all add: stopped_task_def S)
  from resume_tokens_defeat_pause [OF ok get this, of 1 "\<lparr>tv_sec = 9, tv_nsec = 0\<rparr>" "\<lparr>tv_sec = 9, tv_nsec = 0\<rparr>"]
  obtain t1 and t4 :: posix_task where "get_task 0 (resumes (1 + 1) 0 ?a) = Some t1"
    "tk_state t4 = TASK_S_PAUSED" "tk_thr t4 = Th_paused" "tk_resume_sem t4 = 1"
    by blast
  moreover have "resumes 2 0 ?a = resumes (1 + 1) 0 ?a" by (simp only: one_add_one)
  ultimately show ?thesis by (intro exI [of _ ?a] exI [of _ t4]) simp
qed

section \<open>Deadlines\<close>

text \<open>The deadlines of a thread that is not paused, for a list of clock readings.\<close>

fun run_cycles :: "timespec list \<Rightarrow> posix_task \<Rightarrow> wait_result list \<times> posix_task" where
  "run_cycles [] t = ([], t)"
| "run_cycles (now # nows) t =
     (let (r, t) = wait_enter now t; (rs, t) = run_cycles nows t in (r # rs, t))"

lemma run_cycles_deadlines:
  assumes "tk_pause_sem t = 0" "normal (tk_nextstart t)" "0 \<le> sint (tv_sec (tk_nextstart t))"
    and "\<forall>now \<in> set nows. normal now"
    and "ns (tk_nextstart t) + int (length nows) * uint (tk_period t + tk_pll_correction t)
          < 2 ^ 63 * 1000000000 - 1000000000"
    and "run_cycles nows t = (rs, t')"
  shows "length rs = length nows \<and> normal (tk_nextstart t') \<and>
    ns (tk_nextstart t') = ns (tk_nextstart t) + int (length nows) * uint (tk_period t + tk_pll_correction t) \<and>
    (\<forall>k < length nows. (rs ! k = Wait_late \<longleftrightarrow>
       ns (tk_nextstart t) + (int k + 1) * uint (tk_period t + tk_pll_correction t) < ns (nows ! k)) \<and>
       rs ! k \<noteq> Wait_paused)"
  using assms
proof (induction nows arbitrary: t rs)
  case (Cons now nows)
  let ?p = "tk_period t + tk_pll_correction t"
  let ?d = "rtapi_timespec_advance (tk_nextstart t) ?p" and ?u = "t\<lparr>tk_nextstart := rtapi_timespec_advance (tk_nextstart t) (tk_period t + tk_pll_correction t)\<rparr>"
  have "ns (tk_nextstart t) + uint ?p \<le> ns (tk_nextstart t) + int (length (now # nows)) * uint ?p"
    using mult_right_mono [of 1 "int (length (now # nows))" "uint ?p"] by simp
  with Cons.prems(5) have lt: "ns (tk_nextstart t) + uint ?p < 2 ^ 63 * 1000000000 - 1000000000" by linarith
  note A = advance_ns [OF Cons.prems(2,3) lt]
  have W: "wait_enter now t = (if rtapi_timespec_less ?d now then Wait_late else Wait_until ?d, ?u)"
    using Cons.prems(1) by (simp add: wait_enter_def wait_advance_def Let_def)
  obtain rs' where rs: "run_cycles nows ?u = (rs', t')"
    "rs = (if rtapi_timespec_less ?d now then Wait_late else Wait_until ?d) # rs'"
    using Cons.prems(6) by (auto simp: W Let_def split: prod.splits)
  have L: "rtapi_timespec_less ?d now \<longleftrightarrow> ns (tk_nextstart t) + uint ?p < ns now"
    using Cons.prems(4) A by (simp add: timespec_less_iff)
  have IH: "length rs' = length nows \<and> normal (tk_nextstart t') \<and>
    ns (tk_nextstart t') = ns ?d + int (length nows) * uint ?p \<and>
    (\<forall>k < length nows. (rs' ! k = Wait_late \<longleftrightarrow> ns ?d + (int k + 1) * uint ?p < ns (nows ! k)) \<and>
       rs' ! k \<noteq> Wait_paused)"
    using Cons.IH [of ?u rs'] Cons.prems(1,4,5) A rs(1) by (simp add: distrib_right)
  then show ?case using L A(2)
    by (auto simp: rs(2) nth_Cons distrib_right split: nat.splits)
qed simp

text \<open>
  Property C12: the periodic cycle does not drift. From the moment its thread starts, the deadline
  after \<open>k\<close> cycles is exactly the start plus \<open>k + 1\<close> periods (corrected by the PLL term),
  whatever the clock readings in between were; a cycle is reported late exactly when the clock has
  passed its deadline, and missed cycles are made up for, never skipped.
\<close>

theorem cycle_has_no_drift:
  assumes "tk_pause_sem t = 0" "normal start" "0 \<le> sint (tv_sec start)" "\<forall>now \<in> set nows. normal now"
    and "ns start + (int (length nows) + 1) * uint (tk_period t + tk_pll_correction t)
          < 2 ^ 63 * 1000000000 - 1000000000"
    and "run_cycles nows (wrapper start t) = (rs, t')"
  shows "ns (tk_nextstart t') =
      ns start + (int (length nows) + 1) * uint (tk_period t + tk_pll_correction t) \<and>
    (\<forall>k < length nows. rs ! k = Wait_late \<longleftrightarrow>
      ns start + (int k + 2) * uint (tk_period t + tk_pll_correction t) < ns (nows ! k))"
proof -
  let ?p = "tk_period t + tk_pll_correction t"
  have "0 \<le> int (length nows) * uint ?p" by simp
  with assms(5) have "ns start + uint ?p < 2 ^ 63 * 1000000000 - 1000000000"
    unfolding distrib_right by linarith
  note A = advance_ns [OF assms(2,3) this]
  from run_cycles_deadlines [of "wrapper start t" nows rs t'] A assms
  show ?thesis by (simp add: wrapper_def distrib_right ac_simps)
qed

theorem cycle_has_no_drift_witness:
  "ns (tk_nextstart (snd (run_cycles [\<lparr>tv_sec = 1, tv_nsec = 500\<rparr>, \<lparr>tv_sec = 9, tv_nsec = 0\<rparr>]
     (wrapper \<lparr>tv_sec = 1, tv_nsec = 0\<rparr> cycle_task)))) = 1003000000"
proof -
  obtain rs t' where e: "run_cycles [\<lparr>tv_sec = 1, tv_nsec = 500\<rparr>, \<lparr>tv_sec = 9, tv_nsec = 0\<rparr>]
     (wrapper \<lparr>tv_sec = 1, tv_nsec = 0\<rparr> cycle_task) = (rs, t')" by fastforce
  have "ns (tk_nextstart t') = 1003000000"
    using cycle_has_no_drift [OF _ _ _ _ _ e] by (simp add: cycle_task_sel normal_def ns_def)
  then show ?thesis by (simp only: e snd_conv)
qed

text \<open>
  Property C17: the phase correction is bounded. In every reachable table with a period below
  \<open>2 ^ 62\<close> nanoseconds, a call of \<open>task_pll_set_correction\<close> from a task's thread with any 64-bit
  value succeeds, and the period that \<open>wait\<close> uses from then on is within one percent of the
  period given to \<open>task_start\<close>; a value within the limit is stored unchanged.
\<close>

theorem pll_correction_bounded:
  assumes "app_ok hi lo a" "n < MAX_TASKS" "task_array a ! n = S_task t" "uint (tk_period t) < 2 ^ 62"
  shows "\<exists>a' c. task_pll_set_correction (Some n) v a = (0, a') \<and>
    task_pll_get_correction (Some n) a' = Inr c \<and>
    100 * \<bar>uint (tk_period t + c) - uint (tk_period t)\<bar> \<le> uint (tk_period t) \<and>
    (\<bar>sint v\<bar> \<le> uint (tk_period t) div 100 \<longrightarrow> c = v)"
proof -
  let ?L = "tk_pll_correction_limit t"
  define v1 where "v1 = (if sint v > sint ?L then ?L else v)"
  define c where "c = (if sint v1 < sint (- ?L) then - ?L else v1)"
  have "task_ok hi lo n t" using app_ok_slot [OF assms(1,2)] assms(3) by simp
  then have L: "sint ?L = uint (tk_period t) div 100"
    using pll_limit_small(2) by (simp add: task_ok_def pll_ok_def)
  have L0: "0 \<le> sint ?L" by (simp add: L pos_imp_zdiv_nonneg_iff)
  have neg: "sint (- ?L) = - sint ?L"
    using sint_sub_range [of 0 ?L] L0 sint_bounds [of ?L] by simp
  have c: "- sint ?L \<le> sint c" "sint c \<le> sint ?L" "\<bar>sint v\<bar> \<le> sint ?L \<longrightarrow> c = v"
    using L0 by (auto simp: c_def v1_def neg)
  have p: "sint (tk_period t) = uint (tk_period t)" using assms(4) by (intro sint_small) simp
  have h: "100 * (uint (tk_period t) div 100) \<le> uint (tk_period t)" "0 \<le> uint (tk_period t)"
    by simp_all
  then have "sint (tk_period t + c) = uint (tk_period t) + sint c"
    using c assms(4) L by (subst sint_add_range) (auto simp: p)
  moreover from this have "uint (tk_period t + c) = sint (tk_period t + c)"
    using c L h by (intro uint_nonneg_sint) linarith
  ultimately have "uint (tk_period t + c) - uint (tk_period t) = sint c" by simp
  moreover have "100 * \<bar>sint c\<bar> \<le> 100 * (uint (tk_period t) div 100)"
    using c L by (intro mult_left_mono) auto
  ultimately have "100 * \<bar>uint (tk_period t + c) - uint (tk_period t)\<bar> \<le> uint (tk_period t)"
    using h(1) by simp
  moreover have "length (task_array a) = MAX_TASKS" using assms(1) by (simp add: app_ok_def)
  moreover have "task_pll_set_correction (Some n) v a = (0, put_slot n (S_task (t\<lparr>tk_pll_correction := c\<rparr>)) a)"
    using assms(3) by (simp add: task_pll_set_correction_def own_task_def Let_def c_def v1_def)
  ultimately show ?thesis using assms(2) c(3) L
    by (simp add: task_pll_get_correction_def own_task_def put_slot_def)
qed

theorem pll_correction_bounded_witness:
  "\<exists>a'. task_pll_set_correction (Some 0) 50 rt_cycle = (0, a') \<and> task_pll_get_correction (Some 0) a' = Inr 50"
  using pll_correction_bounded [OF rt_cycle_ok, of 0 cycle_task 50] app_ok_get [OF rt_cycle_ok rt_cycle_get]
  by (auto simp: cycle_task_sel)

end
