(* ===== verification/Floats.thy ===== *)
theory Floats
  imports Complex_Main Prelude
begin

text \<open>
  The floating-point arithmetic of C that the example task uses: IEEE 754 binary32 (\<open>float\<close>) and
  binary64 (\<open>double\<close>), rounding to nearest with ties to even, every operation rounded to the width
  of its type. A finite number is its exact rational value; the two zeros are one, which no operation
  of the program can tell apart.
\<close>

section \<open>Formats and rounding\<close>

text \<open>A format: the number of significant bits, and the exponents of the least and the largest last bit.\<close>

record fmt =
  fmt_prec :: nat
  fmt_low :: int
  fmt_high :: int

definition binary32 :: fmt where "binary32 = \<lparr>fmt_prec = 24, fmt_low = - 149, fmt_high = 104\<rparr>"
definition binary64 :: fmt where "binary64 = \<lparr>fmt_prec = 53, fmt_low = - 1074, fmt_high = 971\<rparr>"

text \<open>The argument of \<open>Inf\<close> is the sign: true for minus infinity.\<close>

datatype fl = NaN | Inf bool | Fin rat

definition rnd_even :: "rat \<Rightarrow> int" where
  "rnd_even x = (let n = \<lfloor>x\<rfloor>; d = x - of_int n
     in if d < 1 / 2 then n else if d > 1 / 2 then n + 1 else if even n then n else n + 1)"

text \<open>The exponent of the last bit of the number nearest to \<open>x\<close>.\<close>

definition last_bit :: "fmt \<Rightarrow> rat \<Rightarrow> int option" where
  "last_bit f x = find (\<lambda>e. \<bar>x\<bar> < 2 powi (e + int (fmt_prec f))) [fmt_low f..fmt_high f]"

definition fl_round :: "fmt \<Rightarrow> rat \<Rightarrow> fl" where
  "fl_round f x = (case last_bit f x of
       None \<Rightarrow> Inf (x < 0)
     | Some e \<Rightarrow>
         let y = of_int (rnd_even (x / 2 powi e)) * 2 powi e
         in if \<bar>y\<bar> < 2 powi (fmt_high f + int (fmt_prec f)) then Fin y else Inf (x < 0))"

section \<open>Operations\<close>

fun fl_mul :: "fmt \<Rightarrow> fl \<Rightarrow> fl \<Rightarrow> fl" where
  "fl_mul f (Fin x) (Fin y) = fl_round f (x * y)"
| "fl_mul f (Inf s) (Inf t) = Inf (s \<noteq> t)"
| "fl_mul f (Inf s) (Fin y) = (if y = 0 then NaN else Inf (s \<noteq> (y < 0)))"
| "fl_mul f (Fin x) (Inf t) = (if x = 0 then NaN else Inf (t \<noteq> (x < 0)))"
| "fl_mul f NaN _ = NaN"
| "fl_mul f _ NaN = NaN"

definition fl_neg :: "fl \<Rightarrow> fl" where
  "fl_neg x = (case x of NaN \<Rightarrow> NaN | Inf s \<Rightarrow> Inf (\<not> s) | Fin x \<Rightarrow> Fin (- x))"

fun fl_add :: "fmt \<Rightarrow> fl \<Rightarrow> fl \<Rightarrow> fl" where
  "fl_add f (Fin x) (Fin y) = fl_round f (x + y)"
| "fl_add f (Inf s) (Inf t) = (if s = t then Inf s else NaN)"
| "fl_add f (Inf s) (Fin y) = Inf s"
| "fl_add f (Fin x) (Inf t) = Inf t"
| "fl_add f NaN _ = NaN"
| "fl_add f _ NaN = NaN"

definition fl_sub :: "fmt \<Rightarrow> fl \<Rightarrow> fl \<Rightarrow> fl" where
  "fl_sub f x y = fl_add f x (fl_neg y)"

text \<open>A divisor that is zero is taken to be the positive zero.\<close>

fun fl_div :: "fmt \<Rightarrow> fl \<Rightarrow> fl \<Rightarrow> fl" where
  "fl_div f (Fin x) (Fin y) = (if y = 0 then (if x = 0 then NaN else Inf (x < 0)) else fl_round f (x / y))"
| "fl_div f (Inf s) (Inf t) = NaN"
| "fl_div f (Inf s) (Fin y) = Inf (s \<noteq> (y < 0))"
| "fl_div f (Fin x) (Inf t) = Fin 0"
| "fl_div f NaN _ = NaN"
| "fl_div f _ NaN = NaN"

fun fl_less :: "fl \<Rightarrow> fl \<Rightarrow> bool" where
  "fl_less (Fin x) (Fin y) = (x < y)"
| "fl_less (Inf s) (Fin y) = s"
| "fl_less (Fin x) (Inf t) = (\<not> t)"
| "fl_less (Inf s) (Inf t) = (s \<and> \<not> t)"
| "fl_less _ _ = False"

definition fl_le :: "fl \<Rightarrow> fl \<Rightarrow> bool" where
  "fl_le x y \<longleftrightarrow> fl_less x y \<or> x = y \<and> x \<noteq> NaN"

text \<open>Conversion between formats, and from integers.\<close>

fun fl_convert :: "fmt \<Rightarrow> fl \<Rightarrow> fl" where
  "fl_convert f (Fin x) = fl_round f x"
| "fl_convert f x = x"

definition fl_of_int :: "fmt \<Rightarrow> int \<Rightarrow> fl" where
  "fl_of_int f i = fl_round f (of_int i)"

text \<open>
  Conversion to a signed integer type of \<open>w\<close> bits: the fraction is dropped; a value out of range, an
  infinity or a NaN is undefined behaviour.
\<close>

definition rat_trunc :: "rat \<Rightarrow> int" where
  "rat_trunc x = (if 0 \<le> x then \<lfloor>x\<rfloor> else - \<lfloor>- x\<rfloor>)"

fun fl_to_int :: "nat \<Rightarrow> fl \<Rightarrow> int res" where
  "fl_to_int w (Fin x) =
     (if - (2 ^ (w - 1)) \<le> rat_trunc x \<and> rat_trunc x < 2 ^ (w - 1) then Inr (rat_trunc x) else Inl UB)"
| "fl_to_int w _ = Inl UB"

text \<open>The number that the eight bytes of a \<open>double\<close> stand for, as a 64-bit integer.\<close>

definition double_of_bits :: "int \<Rightarrow> fl" where
  "double_of_bits v =
     (let b = v mod 2 ^ 64; frac = b mod 2 ^ 52; ex = (b div 2 ^ 52) mod 2 ^ 11; neg = b \<ge> 2 ^ 63;
          s = (if neg then - 1 else 1)
      in if ex = 2047 then (if frac = 0 then Inf neg else NaN)
         else if ex = 0 then Fin (s * of_int frac * 2 powi (- 1074))
         else Fin (s * of_int (2 ^ 52 + frac) * 2 powi (ex - 1075)))"

section \<open>Facts about rounding\<close>

lemma rnd_even_ge:
  assumes "of_int n - 1 / 2 < x"
  shows "n \<le> rnd_even x"
proof (rule ccontr)
  assume "\<not> n \<le> rnd_even x"
  moreover have "n - 1 \<le> \<lfloor>x\<rfloor>" using assms by (simp add: le_floor_iff)
  moreover have "\<lfloor>x\<rfloor> \<le> rnd_even x" by (simp add: rnd_even_def Let_def)
  ultimately have "\<lfloor>x\<rfloor> = n - 1" "rnd_even x = n - 1" by simp_all
  then have "x - of_int (n - 1) \<le> 1 / 2" by (auto simp: rnd_even_def Let_def not_less split: if_splits)
  with assms show False by simp
qed

lemma rnd_even_le:
  assumes "x < of_int n + 1 / 2"
  shows "rnd_even x \<le> n"
proof (rule ccontr)
  assume "\<not> rnd_even x \<le> n"
  moreover have "\<lfloor>x\<rfloor> \<le> n" using assms by (simp add: floor_le_iff)
  moreover have "rnd_even x \<le> \<lfloor>x\<rfloor> + 1" by (simp add: rnd_even_def Let_def)
  ultimately have "\<lfloor>x\<rfloor> = n" "rnd_even x = n + 1" by simp_all
  then have "1 / 2 \<le> x - of_int n" by (auto simp: rnd_even_def Let_def not_less split: if_splits)
  with assms show False by simp
qed

lemma rnd_even_int [simp]: "rnd_even (of_int n) = n"
  by (simp add: rnd_even_def)

lemma rnd_even_near: "\<bar>of_int (rnd_even x) - x\<bar> \<le> 1 / 2"
proof -
  have "of_int \<lfloor>x\<rfloor> \<le> x" "x < of_int \<lfloor>x\<rfloor> + 1" by linarith+
  then show ?thesis by (auto simp: rnd_even_def Let_def abs_le_iff)
qed

lemma last_bit_Some:
  assumes "last_bit f x = Some e"
  shows "fmt_low f \<le> e" "e \<le> fmt_high f" "\<bar>x\<bar> < 2 powi (e + int (fmt_prec f))"
    "e = fmt_low f \<or> 2 powi (e - 1 + int (fmt_prec f)) \<le> \<bar>x\<bar>"
proof -
  obtain i where i: "i < length [fmt_low f..fmt_high f]" "e = [fmt_low f..fmt_high f] ! i"
    "\<bar>x\<bar> < 2 powi (e + int (fmt_prec f))" "\<And>j. j < i \<Longrightarrow> \<not> \<bar>x\<bar> < 2 powi ([fmt_low f..fmt_high f] ! j + int (fmt_prec f))"
    using assms by (auto simp: last_bit_def find_Some_iff)
  then have e: "e = fmt_low f + int i" by simp
  show "fmt_low f \<le> e" "e \<le> fmt_high f" "\<bar>x\<bar> < 2 powi (e + int (fmt_prec f))" using e i by simp_all
  show "e = fmt_low f \<or> 2 powi (e - 1 + int (fmt_prec f)) \<le> \<bar>x\<bar>"
  proof (cases i)
    case 0
    then show ?thesis using e by simp
  next
    case (Suc j)
    have "[fmt_low f..fmt_high f] ! j = e - 1" using e i(1) Suc by simp
    with i(4) [of j] Suc show ?thesis by (simp add: not_less)
  qed
qed

lemma last_bit_exists:
  assumes "\<bar>x\<bar> < 2 powi (fmt_high f + int (fmt_prec f))" "fmt_low f \<le> fmt_high f"
  shows "\<exists>e. last_bit f x = Some e"
proof (rule ccontr)
  assume "\<nexists>e. last_bit f x = Some e"
  then have "\<not> (\<exists>e \<in> set [fmt_low f..fmt_high f]. \<bar>x\<bar> < 2 powi (e + int (fmt_prec f)))"
    by (auto simp: last_bit_def find_None_iff)
  with assms show False by auto
qed

text \<open>A number of absolute value at most \<open>2\<^sup>k\<close> stays so.\<close>

lemma powi_split: "e \<le> k \<Longrightarrow> (2::rat) powi k = of_int (2 ^ nat (k - e)) * 2 powi e"
  using power_int_add [of "2::rat" "k - e" e] by (simp add: power_int_def)

lemma rnd_scale:
  assumes "e \<le> k" "\<bar>x\<bar> \<le> 2 powi k"
  shows "\<bar>of_int (rnd_even (x / 2 powi e)) * 2 powi e\<bar> \<le> (2::rat) powi k"
proof -
  let ?n = "2 ^ nat (k - e) :: int"
  have k: "(2::rat) powi k = of_int ?n * 2 powi e" by (rule powi_split [OF assms(1)])
  have "\<bar>x / 2 powi e\<bar> \<le> of_int ?n" using assms(2) by (simp add: k abs_divide divide_le_eq)
  then have b: "x / 2 powi e \<le> of_int ?n" "- of_int ?n \<le> x / 2 powi e" by (auto simp only: abs_le_iff minus_le_iff)
  have "rnd_even (x / 2 powi e) \<le> ?n" by (rule rnd_even_le) (use b(1) in linarith)
  moreover have "- ?n \<le> rnd_even (x / 2 powi e)" by (rule rnd_even_ge) (use b(2) in simp)
  ultimately have "\<bar>of_int (rnd_even (x / 2 powi e)) :: rat\<bar> \<le> of_int ?n"
    by (metis abs_le_iff minus_le_iff of_int_abs of_int_le_iff)
  then show ?thesis unfolding k by (simp add: abs_mult)
qed

lemma fl_round_bound:
  assumes "\<bar>x\<bar> \<le> 2 powi k" "fmt_low f \<le> k" "k < fmt_high f + int (fmt_prec f)" "fmt_low f \<le> fmt_high f" "0 < fmt_prec f"
  shows "\<exists>y. fl_round f x = Fin y \<and> \<bar>y\<bar> \<le> 2 powi k"
proof -
  have lt: "(2::rat) powi k < 2 powi (fmt_high f + int (fmt_prec f))"
    by (rule power_int_strict_increasing) (use assms(3) in simp_all)
  then have "\<bar>x\<bar> < 2 powi (fmt_high f + int (fmt_prec f))" using assms(1) by linarith
  from last_bit_exists [OF this assms(4)] obtain e where e: "last_bit f x = Some e" by blast
  have "e \<le> k"
    using last_bit_Some(4) [OF e]
  proof
    assume "2 powi (e - 1 + int (fmt_prec f)) \<le> \<bar>x\<bar>"
    then have "(2::rat) powi (e - 1 + int (fmt_prec f)) \<le> 2 powi k" using assms(1) by linarith
    then have "e - 1 + int (fmt_prec f) \<le> k"
      using power_int_strict_increasing [of k "e - 1 + int (fmt_prec f)" "2::rat"]
      by (metis not_less numeral_le_one_iff one_less_numeral_iff semiring_norm(76))
    then show ?thesis using assms(5) by simp
  qed (use assms(2) in simp)
  from rnd_scale [OF this assms(1)]
  have b: "\<bar>of_int (rnd_even (x / 2 powi e)) * 2 powi e\<bar> \<le> (2::rat) powi k" .
  then show ?thesis using lt by (auto simp: fl_round_def e Let_def)
qed

lemma fl_round_nonneg:
  assumes "fl_round f x = Fin y" "0 \<le> x"
  shows "0 \<le> y"
proof -
  obtain e where y: "y = of_int (rnd_even (x / 2 powi e)) * 2 powi e"
    using assms(1) by (auto simp: fl_round_def Let_def split: option.splits if_splits)
  have "0 \<le> rnd_even (x / 2 powi e)"
    by (rule rnd_even_ge) (use assms(2) in \<open>simp add: less_le_trans [of "- (1/2)" 0] divide_nonneg_nonneg\<close>)
  then show ?thesis by (simp add: y)
qed

lemma fl_round_nonpos:
  assumes "fl_round f x = Fin y" "x \<le> 0"
  shows "y \<le> 0"
proof -
  obtain e where y: "y = of_int (rnd_even (x / 2 powi e)) * 2 powi e"
    using assms(1) by (auto simp: fl_round_def Let_def split: option.splits if_splits)
  have "x / 2 powi e \<le> 0" using assms(2) by (simp add: divide_le_0_iff)
  then have "x / 2 powi e < of_int 0 + 1 / 2" by (rule le_less_trans) simp
  then have "rnd_even (x / 2 powi e) \<le> 0" by (rule rnd_even_le)
  then show ?thesis by (simp add: y mult_nonpos_nonneg)
qed

text \<open>The rounding error is at most half of the last bit, so it is relatively small.\<close>

lemma fl_round_near:
  assumes "fl_round f x = Fin y" "2 powi (fmt_low f + int (fmt_prec f) - 1) \<le> \<bar>x\<bar>"
  shows "\<bar>y - x\<bar> \<le> \<bar>x\<bar> * 2 powi (- int (fmt_prec f))"
proof -
  obtain e where e: "last_bit f x = Some e" and y: "y = of_int (rnd_even (x / 2 powi e)) * 2 powi e"
    using assms(1) by (auto simp: fl_round_def Let_def split: option.splits if_splits)
  have "2 powi (e - 1 + int (fmt_prec f)) \<le> \<bar>x\<bar>"
    using last_bit_Some(4) [OF e] assms(2) by (auto simp: algebra_simps)
  then have "2 powi (e - 1 + int (fmt_prec f)) * 2 powi (- int (fmt_prec f)) \<le> \<bar>x\<bar> * 2 powi (- int (fmt_prec f))"
    by (rule mult_right_mono) simp
  then have "(2::rat) powi (e - 1) \<le> \<bar>x\<bar> * 2 powi (- int (fmt_prec f))"
    by (simp add: power_int_add [symmetric])
  moreover have "\<bar>y - x\<bar> \<le> 2 powi (e - 1)"
  proof -
    have "y - x = (of_int (rnd_even (x / 2 powi e)) - x / 2 powi e) * 2 powi e" by (simp add: y left_diff_distrib)
    then have "\<bar>y - x\<bar> = \<bar>of_int (rnd_even (x / 2 powi e)) - x / 2 powi e\<bar> * 2 powi e" by (simp add: abs_mult)
    also have "\<dots> \<le> 1 / 2 * 2 powi e" by (rule mult_right_mono [OF rnd_even_near]) simp
    also have "\<dots> = 2 powi (e - 1)" by (simp add: power_int_diff)
    finally show ?thesis .
  qed
  ultimately show ?thesis by linarith
qed

text \<open>The last bit of a number between two powers of two.\<close>

lemma last_bit_eq:
  assumes "2 powi (e - 1 + int (fmt_prec f)) \<le> \<bar>x\<bar>" "\<bar>x\<bar> < 2 powi (e + int (fmt_prec f))" "fmt_low f \<le> e" "e \<le> fmt_high f"
  shows "last_bit f x = Some e"
proof -
  have "(2::rat) powi (e + int (fmt_prec f)) \<le> 2 powi (fmt_high f + int (fmt_prec f))"
    by (rule power_int_increasing) (use assms(4) in simp_all)
  then have "\<bar>x\<bar> < 2 powi (fmt_high f + int (fmt_prec f))" using assms(2) by linarith
  then obtain k where k: "last_bit f x = Some k" using last_bit_exists [of x f] assms(3,4) by auto
  note K = last_bit_Some [OF k]
  have mono: "i \<le> j" if "(2::rat) powi i \<le> \<bar>x\<bar>" "\<bar>x\<bar> < 2 powi (j + 1)" for i j
  proof (rule ccontr)
    assume "\<not> i \<le> j"
    then have "(2::rat) powi (j + 1) \<le> 2 powi i" by (intro power_int_increasing) simp_all
    with that show False by linarith
  qed
  have "e \<le> k" using mono [of "e - 1 + int (fmt_prec f)" "k - 1 + int (fmt_prec f)"] assms(1) K(3) by (simp add: algebra_simps)
  moreover have "k \<le> e"
    using K(4)
  proof
    assume "2 powi (k - 1 + int (fmt_prec f)) \<le> \<bar>x\<bar>"
    with mono [of "k - 1 + int (fmt_prec f)" "e - 1 + int (fmt_prec f)"] assms(2) show ?thesis by (simp add: algebra_simps)
  qed (use assms(3) in simp)
  ultimately show ?thesis using k by simp
qed

text \<open>A number less than half of its last bit below an integer is not rounded below it.\<close>

lemma fl_round_reaches:
  assumes "fl_round f x = Fin y" "0 \<le> n" "of_int n - of_int n * 2 powi (- int (fmt_prec f)) / 2 < x"
    and "x < 2 powi int (fmt_prec f)" "0 \<le> x" "fmt_low f \<le> 0"
  shows "of_int n \<le> y"
proof -
  let ?p = "int (fmt_prec f)"
  obtain e where e: "last_bit f x = Some e" and y: "y = of_int (rnd_even (x / 2 powi e)) * 2 powi e"
    using assms(1) by (auto simp: fl_round_def Let_def split: option.splits if_splits)
  note E = last_bit_Some [OF e]
  have e0: "e \<le> 0"
  proof (rule ccontr)
    assume "\<not> e \<le> 0"
    then have "(2::rat) powi ?p \<le> 2 powi (e - 1 + ?p)" by (intro power_int_increasing) simp_all
    moreover have "2 powi (e - 1 + ?p) \<le> x" using E(4) assms(5,6) \<open>\<not> e \<le> 0\<close> by auto
    ultimately have "(2::rat) powi ?p \<le> x" by linarith
    with assms(4) show False by linarith
  qed
  define N where "N = n * 2 ^ nat (- e)"
  have pe: "0 < (2::rat) powi e" by simp
  have n: "of_int n = of_int N * (2::rat) powi e"
    using powi_split [of e 0] e0 by (simp add: N_def)
  have up: "(2::rat) powi ?p = of_int (2 ^ fmt_prec f)" by (simp add: power_int_def)
  have u: "(2::rat) powi (- ?p) * of_int (2 ^ fmt_prec f) = 1" by (simp add: power_int_minus up [symmetric])
  define X where "X = x / 2 powi e"
  have x: "x = X * 2 powi e" by (simp add: X_def)
  have "(of_int N - of_int N * 2 powi (- ?p) / 2) * 2 powi e < X * 2 powi e"
    using assms(3) by (simp add: n x algebra_simps)
  then have lo: "of_int N - of_int N * 2 powi (- ?p) / 2 < X" using pe by (simp only: mult_less_cancel_right_disj) auto
  have "X * 2 powi e < of_int (2 ^ fmt_prec f) * 2 powi e"
    using E(3) assms(5) by (simp add: x power_int_add up mult.commute)
  then have hi: "X < of_int (2 ^ fmt_prec f)" using pe by (simp only: mult_less_cancel_right_disj) auto
  have "of_int N * (2::rat) powi (- ?p) \<le> 1"
  proof (cases "N \<le> 2 ^ fmt_prec f")
    case True
    then have "of_int N * (2::rat) powi (- ?p) \<le> of_int (2 ^ fmt_prec f) * 2 powi (- ?p)"
      by (intro mult_right_mono) (simp_all only: of_int_le_iff zero_le_power_int zero_le_numeral)
    also have "\<dots> = 1" using u by (simp add: mult.commute)
    finally show ?thesis .
  next
    case False
    let ?u = "(2::rat) powi (- ?p)"
    have u1: "?u \<le> 1" using power_int_increasing [of "- ?p" 0 "2::rat"] by simp
    have big: "of_int (2 ^ fmt_prec f) + 1 \<le> (of_int N :: rat)" using False by (metis add1_zle_eq linorder_not_le of_int_1 of_int_add of_int_le_iff)
    then have "(of_int (2 ^ fmt_prec f) + 1) * (1 - ?u / 2) \<le> of_int N * (1 - ?u / 2)"
      by (rule mult_right_mono) (use u1 in simp)
    moreover have "(of_int (2 ^ fmt_prec f) + 1) * (1 - ?u / 2) = of_int (2 ^ fmt_prec f) + 1 - (?u * of_int (2 ^ fmt_prec f)) / 2 - ?u / 2"
      by (simp add: algebra_simps)
    moreover have "2 ^ fmt_prec f * ?u = 1" using u by (simp add: mult.commute)
    ultimately have "of_int (2 ^ fmt_prec f) + 1 / 2 - ?u / 2 \<le> of_int N - of_int N * ?u / 2"
      by (simp add: algebra_simps add_divide_distrib)
    with u1 lo hi show ?thesis by linarith
  qed
  then have "of_int N - 1 / 2 < X" using lo by linarith
  from rnd_even_ge [OF this] have "(of_int N :: rat) \<le> of_int (rnd_even X)" by simp
  then have "of_int N * 2 powi e \<le> of_int (rnd_even X) * (2::rat) powi e" by (rule mult_right_mono) simp
  then show ?thesis by (simp add: n y X_def)
qed

text \<open>Rounding keeps a number between zero and a number of the format.\<close>

lemma last_bit_mono:
  assumes "last_bit f t = Some d" "\<bar>x\<bar> \<le> \<bar>t\<bar>"
  shows "\<exists>e. last_bit f x = Some e \<and> e \<le> d"
proof -
  note T = last_bit_Some [OF assms(1)]
  have lt: "\<bar>x\<bar> < 2 powi (d + int (fmt_prec f))" using T(3) assms(2) by linarith
  have "(2::rat) powi (d + int (fmt_prec f)) \<le> 2 powi (fmt_high f + int (fmt_prec f))"
    by (rule power_int_increasing) (use T(2) in simp_all)
  then have "\<bar>x\<bar> < 2 powi (fmt_high f + int (fmt_prec f))" using lt by linarith
  then obtain e where e: "last_bit f x = Some e" using last_bit_exists [of x f] T(1,2) by auto
  have "e \<le> d"
    using last_bit_Some(4) [OF e]
  proof
    assume low: "2 powi (e - 1 + int (fmt_prec f)) \<le> \<bar>x\<bar>"
    show ?thesis
    proof (rule ccontr)
      assume "\<not> e \<le> d"
      then have "(2::rat) powi (d + int (fmt_prec f)) \<le> 2 powi (e - 1 + int (fmt_prec f))"
        by (intro power_int_increasing) simp_all
      with low lt show False by linarith
    qed
  qed (use T(1) in simp)
  with e show ?thesis by blast
qed

lemma fl_round_between:
  assumes "fl_round f t = Fin t" "0 \<le> x" "x \<le> t"
  shows "\<exists>y. fl_round f x = Fin y \<and> 0 \<le> y \<and> y \<le> t"
proof -
  obtain d where d: "last_bit f t = Some d" and t: "t = of_int (rnd_even (t / 2 powi d)) * 2 powi d"
    and tb: "\<bar>t\<bar> < 2 powi (fmt_high f + int (fmt_prec f))"
    using assms(1) by (auto simp: fl_round_def Let_def split: option.splits if_splits)
  obtain e where e: "last_bit f x = Some e" "e \<le> d" using last_bit_mono [OF d, of x] assms(2,3) by auto
  define N where "N = rnd_even (t / 2 powi d) * 2 ^ nat (d - e)"
  have N: "t = of_int N * 2 powi e" using t powi_split [OF e(2)] by (simp add: N_def)
  have pe: "0 < (2::rat) powi e" by simp
  have "x / 2 powi e \<le> of_int N" using assms(3) pe by (simp add: N divide_le_eq)
  then have "rnd_even (x / 2 powi e) \<le> N" by (intro rnd_even_le) linarith
  then have up: "of_int (rnd_even (x / 2 powi e)) * 2 powi e \<le> t"
    unfolding N by (intro mult_right_mono) simp_all
  have "0 \<le> rnd_even (x / 2 powi e)"
    by (rule rnd_even_ge) (use assms(2) in \<open>simp add: less_le_trans [of "- (1/2)" 0] divide_nonneg_nonneg\<close>)
  then have lo: "0 \<le> of_int (rnd_even (x / 2 powi e)) * (2::rat) powi e" by simp
  then have "\<bar>of_int (rnd_even (x / 2 powi e)) * 2 powi e\<bar> < (2::rat) powi (fmt_high f + int (fmt_prec f))"
    using up tb by linarith
  then show ?thesis using e up lo by (simp add: fl_round_def Let_def)
qed

lemma fl_round_0: "fmt_low f \<le> fmt_high f \<Longrightarrow> fl_round f 0 = Fin 0"
  using last_bit_exists [of 0 f] rnd_even_int [of 0] by (auto simp: fl_round_def Let_def)

text \<open>Small integers are numbers of the format.\<close>

lemma fl_round_of_int:
  assumes "0 < n" "n < 2 ^ fmt_prec f" "fmt_low f \<le> 0" "0 \<le> fmt_high f"
  shows "fl_round f (of_int n) = Fin (of_int n)"
proof -
  have p: "(2::rat) powi int (fmt_prec f) = of_int (2 ^ fmt_prec f)" by (simp add: power_int_def)
  have n: "\<bar>of_int n :: rat\<bar> < 2 powi int (fmt_prec f)"
    unfolding p using assms(1,2) by (metis abs_of_pos of_int_less_iff of_int_pos)
  have le: "(2::rat) powi int (fmt_prec f) \<le> 2 powi (fmt_high f + int (fmt_prec f))"
    by (rule power_int_increasing) (use assms(4) in simp_all)
  with n have nb: "\<bar>of_int n :: rat\<bar> < 2 powi (fmt_high f + int (fmt_prec f))" by linarith
  then obtain e where e: "last_bit f (of_int n) = Some e" using last_bit_exists [of "of_int n" f] assms(3,4) by auto
  have "e \<le> 0"
    using last_bit_Some(4) [OF e]
  proof
    assume low: "2 powi (e - 1 + int (fmt_prec f)) \<le> \<bar>of_int n :: rat\<bar>"
    show ?thesis
    proof (rule ccontr)
      assume "\<not> e \<le> 0"
      then have "(2::rat) powi int (fmt_prec f) \<le> 2 powi (e - 1 + int (fmt_prec f))" by (intro power_int_increasing) simp_all
      with low n show False by linarith
    qed
  qed (use assms(3) in simp)
  then have "(of_int n :: rat) = of_int (n * 2 ^ nat (- e)) * 2 powi e"
    using powi_split [of e 0] by simp
  moreover from this have "(of_int n :: rat) / 2 powi e = of_int (n * 2 ^ nat (- e))"
    by (metis mult.commute nonzero_mult_div_cancel_left power_int_not_zero zero_neq_numeral)
  ultimately have "of_int (rnd_even (of_int n / 2 powi e)) * 2 powi e = (of_int n :: rat)" by (simp only: rnd_even_int)
  then show ?thesis using e nb by (simp add: fl_round_def Let_def)
qed

end
