(* ===== verification/Task_Data.thy ===== *)
theory Task_Data
  imports Hal_Sys Floats
begin

text \<open>
  The data of the example task (\<open>ExampleTask/task.h\<close> and the static variables of
  \<open>task.c\<close> and \<open>funct_control.c\<close>), and the C arithmetic that its real-time functions use.
\<close>

section \<open>Signed arithmetic\<close>

text \<open>Overflow of an \<open>int\<close> is undefined behaviour.\<close>

definition INT_MAX :: int where "INT_MAX = 2147483647"
definition INT_MIN :: int where "INT_MIN = - 2147483648"

definition to_int :: "int \<Rightarrow> int res" where
  "to_int v = (if INT_MIN \<le> v \<and> v \<le> INT_MAX then Inr v else Inl UB)"

lemma to_int_fits [simp]: "INT_MIN \<le> v \<Longrightarrow> v \<le> INT_MAX \<Longrightarrow> to_int v = Inr v"
  by (simp add: to_int_def)

lemma to_int_Inr_iff [res_splits]: "to_int v = Inr w \<longleftrightarrow> w = v \<and> INT_MIN \<le> v \<and> v \<le> INT_MAX"
  by (auto simp: to_int_def)

section \<open>The command channel\<close>

datatype task_command_id =
  TASK_CMD_NONE | TASK_CMD_SET_TARGET | TASK_CMD_ENABLE | TASK_CMD_DISABLE | TASK_CMD_PAUSE
| TASK_CMD_RESUME | TASK_CMD_SET_PLL | TASK_CMD_SHUTDOWN

record task_shared =
  command_mutex :: ulong
  ch_head :: int
  ch_tail :: int
  command_id :: task_command_id
  command_data :: int
  heartbeat :: int
  cycle_count :: int
  last_wakeup_ns :: int

definition zero_shared :: task_shared where
  "zero_shared = \<lparr>command_mutex = 0, ch_head = 0, ch_tail = 0, command_id = TASK_CMD_NONE, command_data = 0,
     heartbeat = 0, cycle_count = 0, last_wakeup_ns = 0\<rparr>"

section \<open>The block of pins and parameters\<close>

text \<open>
  The pin pointers of \<open>task_hal_data_t\<close>, and the offsets of its fields. The pointers are in the cells
  of the HAL's segment, the two parameters in the state of the task below.
\<close>

datatype td_pin = enable_in | target_pos | feed_rate | current_pos | running_out | error_out | heartbeat_out

fun td_off :: "td_pin \<Rightarrow> int" where
  "td_off enable_in = 0"
| "td_off target_pos = 8"
| "td_off feed_rate = 16"
| "td_off current_pos = 24"
| "td_off running_out = 32"
| "td_off error_out = 40"
| "td_off heartbeat_out = 48"

definition off_max_velocity :: int where "off_max_velocity = 56"
definition off_max_accel :: int where "off_max_accel = 60"
definition sizeof_task_hal_data :: int where "sizeof_task_hal_data = 64"
definition sizeof_task_shared :: int where "sizeof_task_shared = 40"

lemma td_off_eq_iff [simp]: "td_off p = td_off q \<longleftrightarrow> p = q"
  by (cases p; cases q) simp_all

section \<open>The state\<close>

text \<open>
  The process, the globals of \<open>task.c\<close>, the contents of the two blocks, and the statics of the
  controller. \<open>taskShared\<close> is null, points to the mapped segment, or dangles; \<open>taskHalData\<close> is
  null or the offset of its block in the HAL's segment.
\<close>

record example =
  x_sys :: sys
  mot_comp_id :: int
  emc_shmem_id :: int
  taskShared :: seg_ptr
  shared :: task_shared
  taskHalData :: "off option"
  max_velocity :: int
  max_accel :: int
  num_axis :: int
  task_period_nsec :: long
  subtask_period_nsec :: long
  last_target :: int
  error_count :: int

abbreviation x_hal :: "example \<Rightarrow> hal" where "x_hal x \<equiv> s_hal (x_sys x)"
abbreviation x_app :: "example \<Rightarrow> rtapp" where "x_app x \<equiv> s_app (x_sys x)"

definition upd_hal :: "(hal \<Rightarrow> hal) \<Rightarrow> example \<Rightarrow> example" where
  "upd_hal f x = x\<lparr>x_sys := (x_sys x)\<lparr>s_hal := f (x_hal x)\<rparr>\<rparr>"

definition upd_app :: "(rtapp \<Rightarrow> rtapp) \<Rightarrow> example \<Rightarrow> example" where
  "upd_app f x = x\<lparr>x_sys := (x_sys x)\<lparr>s_app := f (x_app x)\<rparr>\<rparr>"

definition upd_shared :: "(task_shared \<Rightarrow> task_shared) \<Rightarrow> example \<Rightarrow> example" where
  "upd_shared f x = x\<lparr>shared := f (shared x)\<rparr>"

section \<open>Access to pins\<close>

text \<open>The pointer \<open>taskHalData->p\<close>, and reads and writes through it.\<close>

definition pin_ptr :: "td_pin \<Rightarrow> example \<Rightarrow> dptr res" where
  "pin_ptr p x = (case taskHalData x of
       None \<Rightarrow> Inl UB
     | Some d \<Rightarrow> if hal_data (x_hal x) = SP_mapped then Inr (ucells (x_hal x) (d + td_off p)) else Inl UB)"

definition read_pin :: "td_pin \<Rightarrow> example \<Rightarrow> int res" where
  "read_pin p x = bnd (pin_ptr p x) (\<lambda>a. case a of
       D_sig q \<Rightarrow> Inr (p_dummysig (pins (x_hal x) q))
     | _ \<Rightarrow> Inl UB)"

definition write_pin :: "td_pin \<Rightarrow> int \<Rightarrow> example \<Rightarrow> example res" where
  "write_pin p v x = bnd (pin_ptr p x) (\<lambda>a. case a of
       D_sig q \<Rightarrow> Inr (upd_hal (upd_pin q (\<lambda>s. s\<lparr>p_dummysig := v\<rparr>)) x)
     | _ \<Rightarrow> Inl UB)"

text \<open>
  A task whose seven pins exist: \<open>q\<close> gives the pin of each pointer, and the pins are distinct. What a
  pin carries is \<open>pin_value\<close>.
\<close>

definition wired :: "(td_pin \<Rightarrow> off) \<Rightarrow> example \<Rightarrow> bool" where
  "wired q x \<longleftrightarrow> inj q \<and> hal_data (x_hal x) = SP_mapped \<and>
     (\<exists>d. taskHalData x = Some d \<and> (\<forall>p. ucells (x_hal x) (d + td_off p) = D_sig (q p)))"

definition pin_value :: "(td_pin \<Rightarrow> off) \<Rightarrow> td_pin \<Rightarrow> example \<Rightarrow> int" where
  "pin_value q p x = p_dummysig (pins (x_hal x) (q p))"

definition set_pin :: "(td_pin \<Rightarrow> off) \<Rightarrow> td_pin \<Rightarrow> int \<Rightarrow> example \<Rightarrow> example" where
  "set_pin q p v = upd_hal (upd_pin (q p) (\<lambda>s. s\<lparr>p_dummysig := v\<rparr>))"

lemma wired_read [simp]: "wired q x \<Longrightarrow> read_pin p x = Inr (pin_value q p x)"
  by (auto simp: wired_def read_pin_def pin_ptr_def pin_value_def)

lemma wired_write [simp]: "wired q x \<Longrightarrow> write_pin p v x = Inr (set_pin q p v x)"
  by (auto simp: wired_def write_pin_def pin_ptr_def set_pin_def)

lemma wired_ptr: "wired q x \<Longrightarrow> pin_ptr p x = Inr (D_sig (q p)) \<and> taskHalData x \<noteq> None"
  by (auto simp: wired_def pin_ptr_def)

lemma wired_set_pin [simp]: "wired q (set_pin q p v x) = wired q x"
  by (simp add: wired_def set_pin_def upd_hal_def upd_pin_def)

lemma pin_value_set_pin [simp]:
  "wired q x \<Longrightarrow> pin_value q p (set_pin q r v x) = (if p = r then v else pin_value q p x)"
  by (auto simp: wired_def pin_value_def set_pin_def upd_hal_def upd_pin_def inj_eq)

lemma set_pin_sel [simp]:
  "taskShared (set_pin q p v x) = taskShared x" "shared (set_pin q p v x) = shared x"
  "max_velocity (set_pin q p v x) = max_velocity x" "last_target (set_pin q p v x) = last_target x"
  "error_count (set_pin q p v x) = error_count x" "taskHalData (set_pin q p v x) = taskHalData x"
  "x_app (set_pin q p v x) = x_app x"
  by (simp_all add: set_pin_def upd_hal_def)

lemma wired_frame [simp]:
  "wired q (x\<lparr>shared := s\<rparr>) = wired q x" "wired q (x\<lparr>last_target := v\<rparr>) = wired q x"
  "wired q (x\<lparr>error_count := v\<rparr>) = wired q x" "wired q (upd_shared g x) = wired q x" "wired q (upd_app k x) = wired q x"
  by (simp_all add: wired_def upd_shared_def upd_app_def)

lemma pin_value_frame [simp]:
  "pin_value q p (x\<lparr>shared := s\<rparr>) = pin_value q p x" "pin_value q p (x\<lparr>last_target := v\<rparr>) = pin_value q p x"
  "pin_value q p (x\<lparr>error_count := v\<rparr>) = pin_value q p x" "pin_value q p (upd_shared g x) = pin_value q p x"
  "pin_value q p (upd_app k x) = pin_value q p x"
  by (simp_all add: pin_value_def upd_shared_def upd_app_def)

end
