(* ===== verification/Rt_Misc.thy ===== *)
theory Rt_Misc
  imports Rt_Tasks Task_Data
begin

text \<open>
  The rest of the run-time (\<open>rtapi/uspace_rtapi_app.cpp\<close>): messages from the real-time side to the
  printing thread, the choice of the CPU, plain threads, and the guard of the file-system user id.
\<close>

section \<open>Messages\<close>

datatype msg_level = RTAPI_MSG_NONE | RTAPI_MSG_ERR | RTAPI_MSG_WARN | RTAPI_MSG_INFO | RTAPI_MSG_DBG | RTAPI_MSG_ALL

record message =
  msg_level :: msg_level
  msg_text :: string

definition sizeof_msg :: nat where "sizeof_msg = 1020"

datatype stream = Stdout | Stderr

text \<open>
  The queue is that of \<open>boost::lockfree\<close>, a parameter: \<open>push\<close> returns whether there was room, and
  \<open>consume_all\<close> hands over what is in the queue. The text is the formatted one.
\<close>

definition default_rtapi_msg_handler :: "(message \<Rightarrow> 'q \<Rightarrow> bool \<times> 'q) \<Rightarrow> msg_level \<Rightarrow> string \<Rightarrow> 'q \<Rightarrow> 'q" where
  "default_rtapi_msg_handler push level txt q = snd (push \<lparr>msg_level = level, msg_text = take (sizeof_msg - 1) txt\<rparr> q)"

definition put_message :: "message \<Rightarrow> stream \<times> string" where
  "put_message m = (if msg_level m = RTAPI_MSG_ALL then Stdout else Stderr, msg_text m)"

text \<open>One pass of the printing thread.\<close>

definition queue_pass :: "('q \<Rightarrow> message list \<times> 'q) \<Rightarrow> 'q \<Rightarrow> (stream \<times> string) list \<times> 'q" where
  "queue_pass consume_all q = (let (ms, q) = consume_all q in (map put_message ms, q))"

definition default_msg_handler :: "msg_level \<Rightarrow> string \<Rightarrow> stream \<times> string" where
  "default_msg_handler level txt = put_message \<lparr>msg_level = level, msg_text = take (sizeof_msg - 1) txt\<rparr>"

text \<open>Several messages, one after the other.\<close>

definition send_messages :: "(message \<Rightarrow> 'q \<Rightarrow> bool \<times> 'q) \<Rightarrow> (msg_level \<times> string) list \<Rightarrow> 'q \<Rightarrow> 'q" where
  "send_messages push ms q = fold (\<lambda>(l, t). default_rtapi_msg_handler push l t) ms q"

text \<open>What a bounded queue promises: it keeps the order, and refuses an element when it is full.\<close>

definition bounded_queue :: "nat \<Rightarrow> (message \<Rightarrow> 'q \<Rightarrow> bool \<times> 'q) \<Rightarrow> ('q \<Rightarrow> message list \<times> 'q) \<Rightarrow> ('q \<Rightarrow> message list) \<Rightarrow> bool" where
  "bounded_queue n push consume_all content \<longleftrightarrow>
     (\<forall>m q. if length (content q) < n then fst (push m q) \<and> content (snd (push m q)) = content q @ [m]
            else \<not> fst (push m q) \<and> content (snd (push m q)) = content q) \<and>
     (\<forall>q. fst (consume_all q) = content q \<and> content (snd (consume_all q)) = [])"

lemma send_messages_content:
  assumes "bounded_queue n push consume_all content" "length (content q) \<le> n"
  shows "content (send_messages push ms q) =
    take n (content q @ map (\<lambda>(l, t). \<lparr>msg_level = l, msg_text = take (sizeof_msg - 1) t\<rparr>) ms)"
  using assms(2)
proof (induction ms arbitrary: q)
  case (Cons e ms)
  obtain l t where e: "e = (l, t)" by fastforce
  let ?m = "\<lparr>msg_level = l, msg_text = take (sizeof_msg - 1) t\<rparr>" and ?q = "default_rtapi_msg_handler push l t q"
  have c: "content ?q = (if length (content q) < n then content q @ [?m] else content q)"
    using assms(1) by (auto simp: bounded_queue_def default_rtapi_msg_handler_def)
  then have "length (content ?q) \<le> n" using Cons.prems by simp
  from Cons.IH [OF this] have "content (send_messages push (e # ms) q) =
      take n (content ?q @ map (\<lambda>(l, t). \<lparr>msg_level = l, msg_text = take (sizeof_msg - 1) t\<rparr>) ms)"
    by (simp add: send_messages_def e)
  then show ?case using c Cons.prems by (cases "length (content q) < n") (simp_all add: e)
qed (simp add: send_messages_def)

text \<open>
  What the printing thread prints of the messages that were sent since its last pass. They come
  out in order, each cut to 1019 characters, those of level \<open>RTAPI_MSG_ALL\<close> on the standard output
  and the others on the standard error. Of more than 128 pending messages the last ones are lost, and no caller
  is told.
\<close>

theorem messages_in_order:
  assumes "bounded_queue 128 push consume_all content" "content q = []"
  shows "fst (queue_pass consume_all (send_messages push ms q)) =
      map (\<lambda>(l, t). (if l = RTAPI_MSG_ALL then Stdout else Stderr, take 1019 t)) (take 128 ms) \<and>
    content (snd (queue_pass consume_all (send_messages push ms q))) = []"
proof -
  have "content (send_messages push ms q) = take 128 (map (\<lambda>(l, t). \<lparr>msg_level = l, msg_text = take 1019 t\<rparr>) ms)"
    using send_messages_content [OF assms(1), of q ms] assms(2) by (simp add: sizeof_msg_def)
  moreover have "put_message \<circ> (\<lambda>(l, t). \<lparr>msg_level = l, msg_text = take 1019 t\<rparr>) =
      (\<lambda>(l, t). (if l = RTAPI_MSG_ALL then Stdout else Stderr, take 1019 t))"
    by (auto simp: put_message_def)
  ultimately show ?thesis
    using assms(1) by (simp add: bounded_queue_def queue_pass_def case_prod_beta take_map)
qed

definition list_push :: "message \<Rightarrow> message list \<Rightarrow> bool \<times> message list" where
  "list_push m q = (if length q < 128 then (True, q @ [m]) else (False, q))"

definition list_consume :: "message list \<Rightarrow> message list \<times> message list" where
  "list_consume q = (q, [])"

theorem messages_in_order_witness:
  "fst (queue_pass list_consume (send_messages list_push [(RTAPI_MSG_INFO, ''a''), (RTAPI_MSG_ALL, ''b'')] [])) =
     [(Stderr, ''a''), (Stdout, ''b'')]"
proof -
  have "bounded_queue 128 list_push list_consume (\<lambda>q. q)" by (simp add: bounded_queue_def list_push_def list_consume_def)
  from messages_in_order [OF this refl, of "[(RTAPI_MSG_INFO, ''a''), (RTAPI_MSG_ALL, ''b'')]"] show ?thesis by simp
qed

section \<open>The CPU for real-time tasks\<close>

text \<open>\<open>atoi\<close>: white space, a sign and digits; a value out of range is undefined.\<close>

definition is_space :: "char \<Rightarrow> bool" where
  "is_space c \<longleftrightarrow> of_char c = (32::nat) \<or> (9 \<le> (of_char c :: nat) \<and> of_char c \<le> (13::nat))"

definition is_digit :: "char \<Rightarrow> bool" where
  "is_digit c \<longleftrightarrow> 48 \<le> (of_char c :: nat) \<and> of_char c \<le> (57::nat)"

definition atoi :: "string \<Rightarrow> int res" where
  "atoi s =
     (let s = dropWhile is_space s;
          neg = (s \<noteq> [] \<and> hd s = CHR ''-'');
          ds = (if s \<noteq> [] \<and> (hd s = CHR ''-'' \<or> hd s = CHR ''+'') then tl s else s);
          v = foldl (\<lambda>n c. 10 * n + (of_char c - 48)) 0 (takeWhile is_digit ds) :: int
      in to_int (if neg then - v else v))"

text \<open>The process: the variable, the two readings of the affinity, and the number of configured processors.\<close>

record cpu_os =
  cpu_getenv :: "string option"
  cpu_affinity :: "(nat \<Rightarrow> bool) option"
  cpu_nconf :: int
  cpu_affinity_all :: "(nat \<Rightarrow> bool) option"

definition CPU_SETSIZE :: nat where "CPU_SETSIZE = 1024"

definition top_cpu :: "(nat \<Rightarrow> bool) \<Rightarrow> int" where
  "top_cpu cpuset = foldl (\<lambda>top i. if cpuset i then int i else top) (- 1) [0..<CPU_SETSIZE]"

definition find_rt_cpu_number :: "cpu_os \<Rightarrow> int res" where
  "find_rt_cpu_number os = (case cpu_getenv os of
       Some s \<Rightarrow> atoi s
     | None \<Rightarrow> (case cpu_affinity os of
           None \<Rightarrow> Inr 0
         | Some orig \<Rightarrow>
             let cpuset = (case cpu_affinity_all os of
                   Some c \<Rightarrow> c
                 | None \<Rightarrow> (\<lambda>i. orig i \<and> int i < cpu_nconf os \<and> i < CPU_SETSIZE))
             in Inr (top_cpu cpuset)))"

lemma top_cpu_Max:
  "foldl (\<lambda>top i. if c i then int i else top) (- 1) [0..<n] = (if \<exists>i<n. c i then int (Max {i. i < n \<and> c i}) else - 1)"
proof (induction n)
  case (Suc n)
  have fin: "finite {i. i < n \<and> c i}" by simp
  show ?case
  proof (cases "c n")
    case True
    then have "{i. i < Suc n \<and> c i} = insert n {i. i < n \<and> c i}" by (auto simp: less_Suc_eq)
    moreover have "Max (insert n {i. i < n \<and> c i}) = n" by (rule Max_eqI) auto
    ultimately show ?thesis using True by (auto simp: Suc)
  next
    case False
    then have "{i. i < Suc n \<and> c i} = {i. i < n \<and> c i}" "(\<exists>i<Suc n. c i) = (\<exists>i<n. c i)" by (auto simp: less_Suc_eq)
    then show ?thesis using False by (simp add: Suc)
  qed
qed simp

text \<open>
  Without the variable, and with an affinity that can be read, the result is the CPU of the highest number in
  the set that the kernel reports after the process has asked for all CPUs, and -1 for an empty set.
\<close>

lemma find_rt_cpu_highest:
  assumes "cpu_getenv os = None" "cpu_affinity os \<noteq> None" "cpu_affinity_all os = Some c"
  shows "find_rt_cpu_number os = Inr (if \<exists>i<1024. c i then int (Max {i. i < 1024 \<and> c i}) else - 1)"
  using assms top_cpu_Max [of c 1024] by (auto simp: find_rt_cpu_number_def top_cpu_def CPU_SETSIZE_def)

section \<open>Plain threads\<close>

text \<open>
  \<open>create_thread\<close>: the results of the calls, with the thread's attributes. The attributes are destroyed
  on every path, also when they could not be initialised, which is undefined. The argument \<open>detached\<close> is
  not used.
\<close>

record thread_os =
  th_attr_init :: int
  th_setschedpolicy :: int
  th_setschedparam :: "int \<Rightarrow> int"
  th_setinheritsched :: int
  th_create :: int

definition create_thread :: "thread_os \<Rightarrow> int \<Rightarrow> int \<Rightarrow> int res" where
  "create_thread os priority detached =
     (if th_attr_init os \<noteq> 0 then Inl UB
      else if th_setschedpolicy os \<noteq> 0 then Inr (th_setschedpolicy os)
      else if th_setschedparam os priority \<noteq> 0 then Inr (th_setschedparam os priority)
      else if th_setinheritsched os \<noteq> 0 then Inr (th_setinheritsched os)
      else Inr (th_create os))"

section \<open>The file-system user id\<close>

text \<open>\<open>WithRoot\<close>: one nesting level for the process; the id that \<open>setfsuid\<close> sets belongs to the calling thread.\<close>

record root_st =
  wr_level :: int
  wr_fsuid :: "nat \<Rightarrow> int"

definition with_root_enter :: "int \<Rightarrow> nat \<Rightarrow> root_st \<Rightarrow> root_st" where
  "with_root_enter euid th s =
     (let s' = s\<lparr>wr_level := wr_level s + 1\<rparr>
      in if wr_level s = 0 then s'\<lparr>wr_fsuid := (wr_fsuid s')(th := euid)\<rparr> else s')"

definition with_root_leave :: "int \<Rightarrow> nat \<Rightarrow> root_st \<Rightarrow> root_st" where
  "with_root_leave ruid th s =
     (let s' = s\<lparr>wr_level := wr_level s - 1\<rparr>
      in if wr_level s' = 0 then s'\<lparr>wr_fsuid := (wr_fsuid s')(th := ruid)\<rparr> else s')"

text \<open>
  In one thread, a guard taken and released restores the state, and the effective id is in force in between.
  With two threads this fails: the second one to enter keeps its id, and the first one to leave keeps the
  effective id.
\<close>

lemma with_root_one_thread:
  assumes "wr_level s = 0" "wr_fsuid s th = ruid"
  shows "wr_fsuid (with_root_enter euid th s) th = euid" "with_root_leave ruid th (with_root_enter euid th s) = s"
  using assms by (cases s, auto simp: with_root_enter_def with_root_leave_def Let_def fun_upd_idem_iff)

lemma with_root_two_threads:
  assumes "wr_level s = 0" "wr_fsuid s b = ruid" "a \<noteq> b" "euid \<noteq> ruid"
  shows "wr_fsuid (with_root_enter euid b (with_root_enter euid a s)) b \<noteq> euid"
    "wr_fsuid (with_root_leave ruid a (with_root_enter euid b (with_root_enter euid a s))) a = euid"
  using assms by (simp_all add: with_root_enter_def with_root_leave_def Let_def)

end
