(* ===== verification/Rt_Calls.thy ===== *)
theory Rt_Calls
  imports Rt_Tasks Rt_Misc
begin

text \<open>
  The C interface of \<open>rtapi/uspace_rtapi_app.cpp\<close>: each call gets the one \<open>RtapiApp\<close> of the process,
  which the first call makes, and runs a method on it.
\<close>

section \<open>The object\<close>

text \<open>
  The process as these calls see it: whether the static variable of \<open>App\<close> is set, the policy and the
  thread lock of the object, its tables, the messages sent, and \<open>errno\<close>.
\<close>

record rt_proc =
  rp_made :: bool
  rp_policy :: int
  rp_do_thread_lock :: bool
  rp_app :: rtapp
  rp_log :: "(msg_level \<times> string) list"
  rp_errno :: int

definition SCHED_FIFO :: int where "SCHED_FIFO = 1"

text \<open>\<open>makeApp\<close>. The table of tasks is a global variable; the object has the policy and the period.\<close>

definition makeApp :: "rt_proc \<Rightarrow> rt_proc" where
  "makeApp c = c\<lparr>rp_log := rp_log c @ [(RTAPI_MSG_ERR, ''Note: Using POSIX realtime\<newline>'')],
     rp_policy := SCHED_FIFO, rp_do_thread_lock := SCHED_FIFO \<noteq> SCHED_FIFO,
     rp_app := (rp_app c)\<lparr>rt_period := 0\<rparr>\<rparr>"

definition App :: "rt_proc \<Rightarrow> rt_proc" where
  "App c = (if rp_made c then c else (makeApp c)\<lparr>rp_made := True\<rparr>)"

text \<open>A method that reads the object, and one that changes it.\<close>

definition ask :: "(rtapp \<Rightarrow> 'a) \<Rightarrow> rt_proc \<Rightarrow> 'a \<times> rt_proc" where
  "ask f c = (let c = App c in (f (rp_app c), c))"

definition on_app :: "(rtapp \<Rightarrow> 'a \<times> rtapp) \<Rightarrow> rt_proc \<Rightarrow> 'a \<times> rt_proc" where
  "on_app f c = (let c = App c; (r, a) = f (rp_app c) in (r, c\<lparr>rp_app := a\<rparr>))"

section \<open>The calls\<close>

text \<open>\<open>hi\<close> and \<open>lo\<close> are what \<open>sched_get_priority_max\<close> and \<open>_min\<close> return for the policy.\<close>

definition rtapi_prio_highest :: "(int \<Rightarrow> int) \<Rightarrow> rt_proc \<Rightarrow> int \<times> rt_proc" where
  "rtapi_prio_highest hi c = (let c = App c in (hi (rp_policy c), c))"

definition rtapi_prio_lowest :: "(int \<Rightarrow> int) \<Rightarrow> rt_proc \<Rightarrow> int \<times> rt_proc" where
  "rtapi_prio_lowest lo c = (let c = App c in (lo (rp_policy c), c))"

definition rtapi_prio_next_higher :: "(int \<Rightarrow> int) \<Rightarrow> (int \<Rightarrow> int) \<Rightarrow> int \<Rightarrow> rt_proc \<Rightarrow> int \<times> rt_proc" where
  "rtapi_prio_next_higher hi lo prio c = (let c = App c; p = rp_policy c in (prio_next_higher (hi p) (lo p) prio, c))"

definition rtapi_prio_next_lower :: "(int \<Rightarrow> int) \<Rightarrow> (int \<Rightarrow> int) \<Rightarrow> int \<Rightarrow> rt_proc \<Rightarrow> int \<times> rt_proc" where
  "rtapi_prio_next_lower hi lo prio c = (let c = App c; p = rp_policy c in (prio_next_lower (hi p) (lo p) prio, c))"

definition rtapi_clock_set_period :: "long \<Rightarrow> rt_proc \<Rightarrow> long \<times> rt_proc" where
  "rtapi_clock_set_period nsecs = on_app (clock_set_period nsecs)"

definition rtapi_task_new ::
    "(int \<Rightarrow> int) \<Rightarrow> (int \<Rightarrow> int) \<Rightarrow> int \<Rightarrow> int \<Rightarrow> int \<Rightarrow> int \<Rightarrow> int \<Rightarrow> 64 word \<Rightarrow> int \<Rightarrow> rt_proc \<Rightarrow> int \<times> rt_proc" where
  "rtapi_task_new hi lo pid taskcode arg prio owner stacksize uses_fp c =
     (let c = App c in on_app (task_new (hi (rp_policy c)) (lo (rp_policy c)) pid taskcode arg prio owner stacksize uses_fp) c)"

definition rtapi_task_delete :: "int \<Rightarrow> rt_proc \<Rightarrow> (int \<times> rt_proc) res" where
  "rtapi_task_delete i c = (let c = App c in bnd (task_delete i (rp_app c)) (\<lambda>(r, a). Inr (r, c\<lparr>rp_app := a\<rparr>)))"

text \<open>\<open>perror\<close> prints on the standard error, which is not part of the state.\<close>

definition rtapi_task_start :: "pthread_os \<Rightarrow> int \<Rightarrow> 64 word \<Rightarrow> rt_proc \<Rightarrow> int \<times> rt_proc" where
  "rtapi_task_start os task_id period_nsec c =
     (let (ret, c) = on_app (task_start os task_id period_nsec) c
      in (ret, if ret \<noteq> 0 then c\<lparr>rp_errno := - ret\<rparr> else c))"

definition rtapi_task_pause :: "int \<Rightarrow> rt_proc \<Rightarrow> int \<times> rt_proc" where
  "rtapi_task_pause task_id = on_app (task_pause task_id)"

definition rtapi_task_resume :: "int \<Rightarrow> rt_proc \<Rightarrow> int \<times> rt_proc" where
  "rtapi_task_resume task_id = on_app (task_resume task_id)"

definition rtapi_task_self :: "nat option \<Rightarrow> rt_proc \<Rightarrow> int \<times> rt_proc" where
  "rtapi_task_self self = ask (task_self self)"

definition rtapi_task_pll_get_reference :: "nat option \<Rightarrow> rt_proc \<Rightarrow> long \<times> rt_proc" where
  "rtapi_task_pll_get_reference self = ask (task_pll_get_reference self)"

definition rtapi_task_pll_set_correction :: "nat option \<Rightarrow> long \<Rightarrow> rt_proc \<Rightarrow> int \<times> rt_proc" where
  "rtapi_task_pll_set_correction self v = on_app (task_pll_set_correction self v)"

definition rtapi_task_pll_get_correction :: "nat option \<Rightarrow> rt_proc \<Rightarrow> (int + long) \<times> rt_proc" where
  "rtapi_task_pll_get_correction self = ask (task_pll_get_correction self)"

definition rtapi_get_time :: "timespec \<Rightarrow> rt_proc \<Rightarrow> long \<times> rt_proc" where
  "rtapi_get_time ts = ask (\<lambda>_. do_get_time ts)"

text \<open>\<open>rdtscll\<close> is a call of \<open>rtapi_get_time\<close>.\<close>

definition rtapi_get_clocks :: "timespec \<Rightarrow> rt_proc \<Rightarrow> long \<times> rt_proc" where
  "rtapi_get_clocks = rtapi_get_time"

text \<open>The callback decides when the loop ends.\<close>

partial_function (option) run_threads :: "(int \<Rightarrow> 'w \<Rightarrow> int \<times> 'w) \<Rightarrow> int \<Rightarrow> 'w \<Rightarrow> (int \<times> 'w) option" where
  "run_threads callback fd w =
     (let (r, w) = callback fd w in if r \<noteq> 0 then run_threads callback fd w else Some (0, w))"

section \<open>What the calls have in common\<close>

lemma App_idem [simp]: "rp_made (App c)" "App (App c) = App c"
  by (simp_all add: App_def)

lemma App_made [simp]: "rp_made c \<Longrightarrow> App c = c"
  by (simp add: App_def)

lemma on_app_made: "rp_made (snd (on_app f c))"
  by (simp add: on_app_def Let_def split: prod.split)

text \<open>
  The object is made by the first call: the note is sent once, the policy is \<open>SCHED_FIFO\<close>, and so \<open>wait\<close>
  takes no thread lock, as its model assumes. From then on a call is its method.
\<close>

lemma App_first:
  assumes "\<not> rp_made c"
  shows "rp_log (App c) = rp_log c @ [(RTAPI_MSG_ERR, ''Note: Using POSIX realtime\<newline>'')]" "rp_policy (App c) = SCHED_FIFO"
    "\<not> rp_do_thread_lock (App c)" "task_array (rp_app (App c)) = task_array (rp_app c)"
  using assms by (simp_all add: App_def makeApp_def)

lemma on_app_later:
  assumes "rp_made c"
  shows "on_app f c = (fst (f (rp_app c)), c\<lparr>rp_app := snd (f (rp_app c))\<rparr>)" "ask g c = (g (rp_app c), c)"
  using assms by (simp_all add: on_app_def ask_def case_prod_beta)

text \<open>\<open>errno\<close> tells the reason of a failed start: the result is a negated error code.\<close>

lemma rtapi_task_start_errno:
  assumes "rp_made c" "rtapi_task_start os i p c = (r, d)"
  shows "r = fst (task_start os i p (rp_app c))" "rp_errno d = (if r = 0 then rp_errno c else - r)"
  using assms by (auto simp: rtapi_task_start_def on_app_later case_prod_beta split: if_splits)

text \<open>\<open>run_threads\<close> calls the callback until it returns 0, and returns 0.\<close>

lemma run_threads_ends:
  fixes callback :: "int \<Rightarrow> 'w \<Rightarrow> int \<times> 'w"
  assumes "\<And>w. step w = snd (callback fd w)"
    and "\<forall>k<n. fst (callback fd ((step ^^ k) w)) \<noteq> 0" "fst (callback fd ((step ^^ n) w)) = 0"
  shows "run_threads callback fd w = Some (0, (step ^^ Suc n) w)"
  using assms(2,3)
proof (induction n arbitrary: w)
  case 0
  then show ?case by (subst run_threads.simps) (simp add: case_prod_beta Let_def assms(1))
next
  case (Suc n)
  have sh: "(step ^^ k) (step w) = (step ^^ Suc k) w" for k by (simp add: funpow_swap1)
  have "fst (callback fd w) \<noteq> 0" using Suc.prems(1) by force
  then have "run_threads callback fd w = run_threads callback fd (step w)"
    by (subst run_threads.simps) (simp add: case_prod_beta Let_def assms(1))
  also have "\<dots> = Some (0, (step ^^ Suc n) (step w))"
  proof (rule Suc.IH)
    show "\<forall>k<n. fst (callback fd ((step ^^ k) (step w))) \<noteq> 0" unfolding sh using Suc.prems(1) by blast
    show "fst (callback fd ((step ^^ n) (step w))) = 0" unfolding sh by (rule Suc.prems(2))
  qed
  finally show ?case unfolding sh .
qed

end
