(* ===== verification/Rt_Data.thy ===== *)
theory Rt_Data
  imports Mutex
begin

text \<open>
  The block of data that RTAPI processes share (\<open>rtapi/rtapi_common.h\<close>) and its initialisation. The
  tables are arrays of a fixed length, and an access outside of one is undefined.
\<close>

section \<open>The block\<close>

definition RTAPI_KEY :: int where "RTAPI_KEY = 0x90280A48"
definition RTAPI_MAGIC :: int where "RTAPI_MAGIC = 0x12601409"
definition RTAPI_MAX_MODULES :: nat where "RTAPI_MAX_MODULES = 64"
definition RTAPI_MAX_TASKS :: nat where "RTAPI_MAX_TASKS = 64"
definition RTAPI_MAX_SHMEMS :: nat where "RTAPI_MAX_SHMEMS = 32"
definition RTAPI_MAX_SEMS :: nat where "RTAPI_MAX_SEMS = 64"
definition RTAPI_MAX_FIFOS :: nat where "RTAPI_MAX_FIFOS = 32"
definition RTAPI_MAX_IRQS :: nat where "RTAPI_MAX_IRQS = 16"

datatype mod_type_t = NO_MODULE | REALTIME | USERSPACE
datatype task_state_t = EMPTY | PAUSED | PERIODIC | FREERUN | ENDED
datatype fifo_state_t = UNUSED | HAS_READER | HAS_WRITER | HAS_BOTH

record module_data =
  md_state :: mod_type_t
  md_name :: string

text \<open>A function pointer is a number, and 0 is \<open>NULL\<close>.\<close>

record task_data =
  td_state :: task_state_t
  td_prio :: int
  td_owner :: int
  td_taskcode :: int
  td_arg :: int

record shmem_data =
  sd_key :: int
  sd_rtusers :: int
  sd_ulusers :: int
  sd_size :: ulong
  sd_bitmap :: "ulong list"

record fifo_data =
  fd_state :: fifo_state_t
  fd_key :: int
  fd_reader :: int
  fd_writer :: int
  fd_size :: ulong

record sem_data =
  sm_users :: int
  sm_key :: int
  sm_bitmap :: "ulong list"

record irq_data =
  iq_num :: int
  iq_owner :: int
  iq_handler :: int

record rtapi_data =
  rd_magic :: int
  rd_rev_code :: int
  rd_mutex :: ulong
  rt_module_count :: int
  ul_module_count :: int
  task_count :: int
  shmem_count :: int
  sem_count :: int
  fifo_count :: int
  irq_count :: int
  timer_running :: int
  rt_cpu :: int
  timer_period :: "64 word"
  module_array :: "module_data list"
  rd_task_array :: "task_data list"
  rd_shmem_array :: "shmem_data list"
  sem_array :: "sem_data list"
  fifo_array :: "fifo_data list"
  irq_array :: "irq_data list"

text \<open>The lengths that the C declarations give the arrays.\<close>

definition bitmap_len :: "nat \<Rightarrow> nat" where "bitmap_len n = n div 8 + 1"

definition declared :: "rtapi_data \<Rightarrow> bool" where
  "declared d \<longleftrightarrow> length (module_array d) = RTAPI_MAX_MODULES + 1 \<and> length (rd_task_array d) = RTAPI_MAX_TASKS + 1 \<and>
     length (rd_shmem_array d) = RTAPI_MAX_SHMEMS + 1 \<and> length (sem_array d) = RTAPI_MAX_SEMS + 1 \<and>
     length (fifo_array d) = RTAPI_MAX_FIFOS + 1 \<and> length (irq_array d) = RTAPI_MAX_IRQS + 1 \<and>
     (\<forall>m \<in> set (module_array d). length (md_name m) = RTAPI_NAME_LEN + 1) \<and>
     (\<forall>s \<in> set (rd_shmem_array d). length (sd_bitmap s) = bitmap_len RTAPI_MAX_SHMEMS) \<and>
     (\<forall>s \<in> set (sem_array d). length (sm_bitmap s) = bitmap_len RTAPI_MAX_SEMS)"

section \<open>Loops over arrays\<close>

text \<open>\<open>for (i = 0; i < n; i++)\<close> over the elements of an array.\<close>

definition at_index :: "('a \<Rightarrow> 'a res) \<Rightarrow> nat \<Rightarrow> 'a list \<Rightarrow> 'a list res" where
  "at_index f i xs = (if i < length xs then bnd (f (xs ! i)) (\<lambda>y. Inr (xs[i := y])) else Inl UB)"

primrec for_each :: "('a \<Rightarrow> 'a res) \<Rightarrow> nat \<Rightarrow> 'a list \<Rightarrow> 'a list res" where
  "for_each f 0 xs = Inr xs"
| "for_each f (Suc n) xs = bnd (for_each f n xs) (at_index f n)"

lemma for_each_prefix:
  assumes "n \<le> length xs" "\<forall>x \<in> set xs. f x = Inr (g x)"
  shows "for_each f n xs = Inr (map g (take n xs) @ drop n xs)"
  using assms(1)
proof (induction n)
  case (Suc n)
  then have "n < length xs" by simp
  moreover have "f (xs ! n) = Inr (g (xs ! n))" using assms(2) \<open>n < length xs\<close> by simp
  moreover from \<open>n < length xs\<close> have "(map g (take n xs) @ drop n xs)[n := g (xs ! n)] = map g (take (Suc n) xs) @ drop (Suc n) xs"
    by (simp add: list_update_append take_Suc_conv_app_nth Cons_nth_drop_Suc [symmetric])
  ultimately show ?case using Suc by (simp add: at_index_def nth_append)
qed simp

lemma for_each_all:
  assumes "length xs = n" "\<forall>x \<in> set xs. f x = Inr (g x)"
  shows "for_each f n xs = Inr (map g xs)"
  using for_each_prefix [of n xs f g] assms by simp

lemma for_each_beyond:
  assumes "length xs < n"
  shows "\<exists>e. for_each f n xs = Inl e"
  using assms
proof (induction n)
  case (Suc n)
  have len: "length ys = length xs" if "for_each f m xs = Inr ys" for m ys
    using that by (induction m arbitrary: ys) (auto simp: at_index_def bnd_Inr_iff split: if_splits)
  show ?case
  proof (cases "for_each f n xs")
    case (Inr ys)
    then have "length ys = length xs" by (rule len)
    moreover from Inr Suc have "\<not> length xs < n" by (metis sum.distinct(1))
    ultimately show ?thesis using Inr Suc.prems by (simp add: at_index_def)
  qed simp
qed simp

section \<open>The initialisation\<close>

definition rev_code :: int where "rev_code = 1"

definition init_module :: "module_data \<Rightarrow> module_data res" where
  "init_module m = bnd (at_index (\<lambda>_. Inr (CHR 0x00)) 0 (md_name m)) (\<lambda>nm. Inr (m\<lparr>md_state := NO_MODULE, md_name := nm\<rparr>))"

definition init_task :: "task_data \<Rightarrow> task_data res" where
  "init_task t = Inr (t\<lparr>td_state := EMPTY, td_prio := 0, td_owner := 0, td_taskcode := 0\<rparr>)"

definition init_shmem :: "shmem_data \<Rightarrow> shmem_data res" where
  "init_shmem s = bnd (for_each (\<lambda>_. Inr 0) (RTAPI_MAX_SHMEMS div 8 + 1) (sd_bitmap s)) (\<lambda>b.
     Inr (s\<lparr>sd_key := 0, sd_rtusers := 0, sd_ulusers := 0, sd_size := 0, sd_bitmap := b\<rparr>))"

definition init_sem :: "sem_data \<Rightarrow> sem_data res" where
  "init_sem s = bnd (for_each (\<lambda>_. Inr 0) (RTAPI_MAX_SEMS div 8 + 1) (sm_bitmap s)) (\<lambda>b.
     Inr (s\<lparr>sm_users := 0, sm_key := 0, sm_bitmap := b\<rparr>))"

definition init_fifo :: "fifo_data \<Rightarrow> fifo_data res" where
  "init_fifo f = Inr (f\<lparr>fd_state := UNUSED, fd_key := 0, fd_size := 0, fd_reader := 0, fd_writer := 0\<rparr>)"

definition init_irq :: "irq_data \<Rightarrow> irq_data res" where
  "init_irq i = Inr (i\<lparr>iq_num := 0, iq_owner := 0, iq_handler := 0\<rparr>)"

definition init_rtapi_data :: "rtapi_data \<Rightarrow> rtapi_data res" where
  "init_rtapi_data d =
     (if rd_magic d = RTAPI_MAGIC then Inr d
      else let d = d\<lparr>rd_mutex := snd (rtapi_mutex_try (rd_mutex d)), rd_magic := RTAPI_MAGIC, rd_rev_code := rev_code,
                     rt_module_count := 0, ul_module_count := 0, task_count := 0, shmem_count := 0, sem_count := 0,
                     fifo_count := 0, irq_count := 0, timer_running := 0, timer_period := 0\<rparr>
           in bnd (for_each init_module (RTAPI_MAX_MODULES + 1) (module_array d)) (\<lambda>ms.
              bnd (for_each init_task (RTAPI_MAX_TASKS + 1) (rd_task_array d)) (\<lambda>ts.
              bnd (for_each init_shmem (RTAPI_MAX_SHMEMS + 1) (rd_shmem_array d)) (\<lambda>ss.
              bnd (for_each init_sem (RTAPI_MAX_SEMS + 1) (sem_array d)) (\<lambda>sm.
              bnd (for_each init_fifo (RTAPI_MAX_FIFOS + 1) (fifo_array d)) (\<lambda>fs.
              bnd (for_each init_irq (RTAPI_MAX_IRQS + 1) (irq_array d)) (\<lambda>iqs.
                Inr (d\<lparr>module_array := ms, rd_task_array := ts, rd_shmem_array := ss, sem_array := sm, fifo_array := fs,
                       irq_array := iqs, rd_mutex := rtapi_mutex_give (rd_mutex d)\<rparr>))))))))"

section \<open>What it does\<close>

text \<open>Every slot is free.\<close>

definition all_free :: "rtapi_data \<Rightarrow> bool" where
  "all_free d \<longleftrightarrow> rt_module_count d = 0 \<and> ul_module_count d = 0 \<and> task_count d = 0 \<and> shmem_count d = 0 \<and> sem_count d = 0 \<and>
     fifo_count d = 0 \<and> irq_count d = 0 \<and> timer_running d = 0 \<and> timer_period d = 0 \<and>
     (\<forall>m \<in> set (module_array d). md_state m = NO_MODULE \<and> md_name m ! 0 = CHR 0x00) \<and>
     (\<forall>t \<in> set (rd_task_array d). td_state t = EMPTY \<and> td_taskcode t = 0) \<and>
     (\<forall>s \<in> set (rd_shmem_array d). sd_key s = 0 \<and> sd_size s = 0 \<and> set (sd_bitmap s) = {0}) \<and>
     (\<forall>s \<in> set (sem_array d). sm_users s = 0 \<and> sm_key s = 0 \<and> set (sm_bitmap s) = {0}) \<and>
     (\<forall>f \<in> set (fifo_array d). fd_state f = UNUSED \<and> fd_key f = 0) \<and>
     (\<forall>i \<in> set (irq_array d). iq_num i = 0 \<and> iq_handler i = 0)"

lemma init_module_run: "md_name m \<noteq> [] \<Longrightarrow> init_module m = Inr (m\<lparr>md_state := NO_MODULE, md_name := (md_name m)[0 := CHR 0x00]\<rparr>)"
  by (simp add: init_module_def at_index_def)

lemma init_shmem_run:
  "length (sd_bitmap s) = bitmap_len RTAPI_MAX_SHMEMS \<Longrightarrow>
     init_shmem s = Inr (s\<lparr>sd_key := 0, sd_rtusers := 0, sd_ulusers := 0, sd_size := 0, sd_bitmap := map (\<lambda>_. 0) (sd_bitmap s)\<rparr>)"
  using for_each_all [of "sd_bitmap s" "RTAPI_MAX_SHMEMS div 8 + 1" "\<lambda>_. Inr 0" "\<lambda>_. 0"]
  by (simp add: init_shmem_def bitmap_len_def)

lemma init_sem_run:
  "length (sm_bitmap s) = bitmap_len RTAPI_MAX_SEMS \<Longrightarrow>
     init_sem s = Inr (s\<lparr>sm_users := 0, sm_key := 0, sm_bitmap := map (\<lambda>_. 0) (sm_bitmap s)\<rparr>)"
  using for_each_all [of "sm_bitmap s" "RTAPI_MAX_SEMS div 8 + 1" "\<lambda>_. Inr 0" "\<lambda>_. 0"]
  by (simp add: init_sem_def bitmap_len_def)

text \<open>The loops touch every element of the arrays and none outside.\<close>

definition blank :: "rtapi_data \<Rightarrow> rtapi_data" where
  "blank d = d\<lparr>rd_mutex := rtapi_mutex_give (set_lock (rd_mutex d)), rd_magic := RTAPI_MAGIC, rd_rev_code := rev_code,
     rt_module_count := 0, ul_module_count := 0, task_count := 0, shmem_count := 0, sem_count := 0,
     fifo_count := 0, irq_count := 0, timer_running := 0, timer_period := 0,
     module_array := map (\<lambda>m. m\<lparr>md_state := NO_MODULE, md_name := (md_name m)[0 := CHR 0x00]\<rparr>) (module_array d),
     rd_task_array := map (\<lambda>t. t\<lparr>td_state := EMPTY, td_prio := 0, td_owner := 0, td_taskcode := 0\<rparr>) (rd_task_array d),
     rd_shmem_array := map (\<lambda>s. s\<lparr>sd_key := 0, sd_rtusers := 0, sd_ulusers := 0, sd_size := 0, sd_bitmap := map (\<lambda>_. 0) (sd_bitmap s)\<rparr>) (rd_shmem_array d),
     sem_array := map (\<lambda>s. s\<lparr>sm_users := 0, sm_key := 0, sm_bitmap := map (\<lambda>_. 0) (sm_bitmap s)\<rparr>) (sem_array d),
     fifo_array := map (\<lambda>f. f\<lparr>fd_state := UNUSED, fd_key := 0, fd_size := 0, fd_reader := 0, fd_writer := 0\<rparr>) (fifo_array d),
     irq_array := map (\<lambda>i. i\<lparr>iq_num := 0, iq_owner := 0, iq_handler := 0\<rparr>) (irq_array d)\<rparr>"

lemma init_rtapi_data_run:
  assumes "declared d" "rd_magic d \<noteq> RTAPI_MAGIC"
  shows "init_rtapi_data d = Inr (blank d)"
proof -
  note D = assms(1) [unfolded declared_def]
  have "for_each init_module (RTAPI_MAX_MODULES + 1) (module_array d) =
      Inr (map (\<lambda>m. m\<lparr>md_state := NO_MODULE, md_name := (md_name m)[0 := CHR 0x00]\<rparr>) (module_array d))"
    by (rule for_each_all) (use D in \<open>auto intro!: init_module_run\<close>)
  moreover have "for_each init_task (RTAPI_MAX_TASKS + 1) (rd_task_array d) =
      Inr (map (\<lambda>t. t\<lparr>td_state := EMPTY, td_prio := 0, td_owner := 0, td_taskcode := 0\<rparr>) (rd_task_array d))"
    by (rule for_each_all) (use D in \<open>simp_all add: init_task_def\<close>)
  moreover have "for_each init_shmem (RTAPI_MAX_SHMEMS + 1) (rd_shmem_array d) =
      Inr (map (\<lambda>s. s\<lparr>sd_key := 0, sd_rtusers := 0, sd_ulusers := 0, sd_size := 0, sd_bitmap := map (\<lambda>_. 0) (sd_bitmap s)\<rparr>) (rd_shmem_array d))"
    by (rule for_each_all) (use D init_shmem_run in auto)
  moreover have "for_each init_sem (RTAPI_MAX_SEMS + 1) (sem_array d) =
      Inr (map (\<lambda>s. s\<lparr>sm_users := 0, sm_key := 0, sm_bitmap := map (\<lambda>_. 0) (sm_bitmap s)\<rparr>) (sem_array d))"
    by (rule for_each_all) (use D init_sem_run in auto)
  moreover have "for_each init_fifo (RTAPI_MAX_FIFOS + 1) (fifo_array d) =
      Inr (map (\<lambda>f. f\<lparr>fd_state := UNUSED, fd_key := 0, fd_size := 0, fd_reader := 0, fd_writer := 0\<rparr>) (fifo_array d))"
    by (rule for_each_all) (use D in \<open>simp_all add: init_fifo_def\<close>)
  moreover have "for_each init_irq (RTAPI_MAX_IRQS + 1) (irq_array d) =
      Inr (map (\<lambda>i. i\<lparr>iq_num := 0, iq_owner := 0, iq_handler := 0\<rparr>) (irq_array d))"
    by (rule for_each_all) (use D in \<open>simp_all add: init_irq_def\<close>)
  ultimately show ?thesis
    using assms(2) by (simp add: init_rtapi_data_def Let_def blank_def rtapi_mutex_try_eq)
qed

text \<open>
  A block of the declared layout: the first call makes every slot free and leaves the lock open, in bounds; a
  second call does nothing. The lock is no protection: the result of \<open>rtapi_mutex_try\<close> is not
  looked at, so the lock is taken from a process that holds it, and given back.
\<close>

theorem init_rtapi_data_correct:
  assumes "declared d" "rd_magic d \<noteq> RTAPI_MAGIC"
  shows "\<exists>e. init_rtapi_data d = Inr e \<and> declared e \<and> all_free e \<and> rd_rev_code e = 1 \<and> rt_cpu e = rt_cpu d \<and>
    \<not> locked (rd_mutex e) \<and> init_rtapi_data e = Inr e"
proof -
  note D = assms(1) [unfolded declared_def]
  have e: "init_rtapi_data (blank d) = Inr (blank d)" by (simp add: init_rtapi_data_def blank_def)
  have z: "set (map (\<lambda>_. 0) xs) = {0}" if "length xs = bitmap_len n" for xs :: "ulong list" and n
    using that by (cases xs) (auto simp: bitmap_len_def)
  have "declared (blank d)" unfolding declared_def using D by (auto simp: blank_def)
  moreover have "all_free (blank d)" unfolding all_free_def using D z by (simp add: blank_def) blast
  moreover have "\<not> locked (rd_mutex (blank d))" by (simp add: blank_def locked_def give_bit)
  moreover have "rd_rev_code (blank d) = 1" "rt_cpu (blank d) = rt_cpu d" by (simp_all add: blank_def rev_code_def)
  ultimately show ?thesis using init_rtapi_data_run [OF assms] e by blast
qed

definition raw_block :: rtapi_data where
  "raw_block = \<lparr>rd_magic = 0, rd_rev_code = 0, rd_mutex = 1, rt_module_count = 7, ul_module_count = 0, task_count = 0,
     shmem_count = 0, sem_count = 0, fifo_count = 0, irq_count = 0, timer_running = 0, rt_cpu = 3, timer_period = 0,
     module_array = replicate 65 \<lparr>md_state = REALTIME, md_name = replicate 32 (CHR ''x'')\<rparr>,
     rd_task_array = replicate 65 \<lparr>td_state = PERIODIC, td_prio = 1, td_owner = 1, td_taskcode = 5, td_arg = 0\<rparr>,
     rd_shmem_array = replicate 33 \<lparr>sd_key = 1, sd_rtusers = 0, sd_ulusers = 0, sd_size = 9, sd_bitmap = replicate 5 1\<rparr>,
     sem_array = replicate 65 \<lparr>sm_users = 1, sm_key = 1, sm_bitmap = replicate 9 1\<rparr>,
     fifo_array = replicate 33 \<lparr>fd_state = HAS_BOTH, fd_key = 1, fd_reader = 0, fd_writer = 0, fd_size = 0\<rparr>,
     irq_array = replicate 17 \<lparr>iq_num = 4, iq_owner = 1, iq_handler = 2\<rparr>\<rparr>"

theorem init_rtapi_data_correct_witness:
  "locked (rd_mutex raw_block) \<and> (\<exists>e. init_rtapi_data raw_block = Inr e \<and> all_free e \<and> \<not> locked (rd_mutex e))"
proof -
  have "declared raw_block"
    by (simp add: declared_def raw_block_def bitmap_len_def RTAPI_MAX_MODULES_def RTAPI_MAX_TASKS_def RTAPI_MAX_SHMEMS_def
        RTAPI_MAX_SEMS_def RTAPI_MAX_FIFOS_def RTAPI_MAX_IRQS_def RTAPI_NAME_LEN_def)
  moreover have "rd_magic raw_block \<noteq> RTAPI_MAGIC" "locked (rd_mutex raw_block)"
    by (simp_all add: raw_block_def RTAPI_MAGIC_def locked_def)
  ultimately show ?thesis using init_rtapi_data_correct [of raw_block] by blast
qed

end
