(* ===== verification/Hal_Addr.thy ===== *)
theory Hal_Addr
  imports Hal_Data
begin

text \<open>
  Addresses and offsets (\<open>hal/hal_priv.h\<close>). Every process maps the segment at an address of its own, so the
  structs refer to each other by offsets. The header has two versions of the conversions, templates for C++
  and macros for C; \<open>hal_lib.c\<close> is C. This theory relates them, and it justifies that the other theories
  name a struct by its offset.
\<close>

section \<open>The C++ version\<close>

text \<open>An address is a number, 0 is the null pointer. \<open>hal_shmoff\<close> returns an \<open>int\<close>.\<close>

definition hal_shmchk :: "int \<Rightarrow> int \<Rightarrow> bool" where
  "hal_shmchk hal_shmem_base t \<longleftrightarrow> t > hal_shmem_base \<and> t < hal_shmem_base + HAL_SIZE"

definition hal_shmoff :: "int \<Rightarrow> int \<Rightarrow> int" where
  "hal_shmoff hal_shmem_base t = (if t \<noteq> 0 then to_s32 (t - hal_shmem_base) else 0)"

definition hal_shmptr :: "int \<Rightarrow> int \<Rightarrow> int" where
  "hal_shmptr hal_shmem_base p = (if p \<noteq> 0 then hal_shmem_base + p else 0)"

text \<open>The field of a struct; its \<open>off\<close> has the width of a pointer, the argument of \<open>hal_shmptr\<close> that of an \<open>int\<close>.\<close>

record hal_shmfield =
  fld_off :: int

definition shmfield_null :: hal_shmfield where
  "shmfield_null = \<lparr>fld_off = 0\<rparr>"

definition hal_make_shmfield :: "int \<Rightarrow> int \<Rightarrow> hal_shmfield" where
  "hal_make_shmfield base t = \<lparr>fld_off = hal_shmoff base t\<rparr>"

definition shmfield_assign :: "int \<Rightarrow> int \<Rightarrow> hal_shmfield \<Rightarrow> hal_shmfield" where
  "shmfield_assign base t f = f\<lparr>fld_off := hal_shmoff base t\<rparr>"

definition shmfield_get :: "int \<Rightarrow> hal_shmfield \<Rightarrow> int" where
  "shmfield_get base f = hal_shmptr base (to_s32 (fld_off f))"

definition shmfield_bool :: "hal_shmfield \<Rightarrow> bool" where
  "shmfield_bool f \<longleftrightarrow> fld_off f \<noteq> 0"

section \<open>The C version\<close>

definition SHMPTR :: "int \<Rightarrow> int \<Rightarrow> int" where
  "SHMPTR hal_shmem_base offset = hal_shmem_base + offset"

definition SHMOFF :: "int \<Rightarrow> int \<Rightarrow> int" where
  "SHMOFF hal_shmem_base ptr = ptr - hal_shmem_base"

text \<open>The check of the macro is that of \<open>Hal_Data\<close>, which works on offsets.\<close>

lemma hal_shmchk_offset: "hal_shmchk base t \<longleftrightarrow> SHMCHK (SHMOFF base t)"
  by (auto simp: hal_shmchk_def SHMCHK_def SHMOFF_def)

section \<open>Round trips\<close>

lemma inside_offset:
  assumes "0 < base" "hal_shmchk base t"
  shows "hal_shmoff base t = t - base" "0 < t - base" "t - base < HAL_SIZE" "to_s32 (t - base) = t - base"
  using assms by (simp_all add: hal_shmchk_def hal_shmoff_def HAL_SIZE_def)

text \<open>
  An address inside the segment survives the way through the offset, in either version and with the same
  offset; the offset is not 0, which stands for null. Another process, which has mapped the segment at
  \<open>base'\<close>, reads the field as the address at the same distance from its own base. The versions differ
  at the ends: null is an offset of its own for C++, while the C macro turns the offset 0 into the base
  address; and C++ reads a pointer to the base itself back as null.
\<close>

theorem hal_shmfield_roundtrip:
  assumes "0 < base" "0 < base'" "hal_shmchk base t"
  shows "shmfield_get base (shmfield_assign base t f) = t \<and> SHMPTR base (SHMOFF base t) = t \<and>
    fld_off (hal_make_shmfield base t) = SHMOFF base t \<and> shmfield_bool (hal_make_shmfield base t) \<and>
    hal_shmchk base' (shmfield_get base' (hal_make_shmfield base t)) \<and>
    shmfield_get base' (hal_make_shmfield base t) - base' = t - base \<and>
    shmfield_get base (hal_make_shmfield base 0) = 0 \<and> SHMPTR base 0 = base \<and>
    shmfield_get base (hal_make_shmfield base base) = 0"
  using inside_offset [OF assms(1,3)] assms(1,2)
  by (simp add: shmfield_get_def shmfield_assign_def hal_make_shmfield_def shmfield_bool_def SHMPTR_def SHMOFF_def
      hal_shmptr_def hal_shmchk_def) (simp add: hal_shmoff_def)

theorem hal_shmfield_roundtrip_witness:
  "shmfield_get 4096 (hal_make_shmfield 4096 5000) = 5000 \<and> shmfield_get 65536 (hal_make_shmfield 4096 5000) = 66440"
proof -
  have p: "0 < (4096 :: int)" "0 < (65536 :: int)" "hal_shmchk 4096 5000" by (simp_all add: hal_shmchk_def HAL_SIZE_def)
  have "shmfield_get 4096 (shmfield_assign 4096 5000 shmfield_null) = 5000"
    "shmfield_get 65536 (hal_make_shmfield 4096 5000) - 65536 = 5000 - 4096"
    using hal_shmfield_roundtrip [OF p, of shmfield_null] by blast+
  then show ?thesis by (simp only: shmfield_assign_def hal_make_shmfield_def shmfield_null_def) simp
qed

end
