(* ===== verification/Task_Control.thy ===== *)
theory Task_Control
  imports Task_Data
begin

text \<open>
  The controller of the example task (\<open>ExampleTask/funct_control.c\<close>). It is proved to move the
  position to the target by a fixed step per cycle, never past it, and to be free of undefined behaviour
  as long as the feed rate is a number and the positions keep a distance from the ends of \<open>int\<close>.
\<close>

section \<open>The code\<close>

text \<open>The step of a cycle: \<open>(int)((float)max_v * rate * 0.001f)\<close> with the rate clamped, at least 1.\<close>

definition f0_001 :: fl where "f0_001 = fl_round binary32 (1 / 1000)"

definition clamp_rate :: "fl \<Rightarrow> fl" where
  "clamp_rate rate =
     (let rate = (if fl_less rate (Fin 0) then Fin 0 else rate)
      in if fl_less (Fin 2) rate then Fin 2 else rate)"

definition step_of :: "int \<Rightarrow> fl \<Rightarrow> int res" where
  "step_of max_v rate =
     bnd (fl_to_int 32 (fl_mul binary32 (fl_mul binary32 (fl_of_int binary32 max_v) (clamp_rate rate)) f0_001))
       (\<lambda>step. Inr (if step < 1 then 1 else step))"

definition move :: "int \<Rightarrow> int \<Rightarrow> int \<Rightarrow> int res" where
  "move pos target step =
     (if pos < target then bnd (to_int (pos + step)) (\<lambda>pos. Inr (if pos > target then target else pos))
      else if pos > target then bnd (to_int (pos - step)) (\<lambda>pos. Inr (if pos < target then target else pos))
      else Inr pos)"

text \<open>The branch of an enabled and of a disabled controller.\<close>

definition control_enabled :: "int \<Rightarrow> fl \<Rightarrow> int \<Rightarrow> int \<Rightarrow> example \<Rightarrow> example res" where
  "control_enabled target rate pos max_v x =
     bnd (step_of max_v rate) (\<lambda>step.
     bnd (move pos target step) (\<lambda>pos.
       let x = (if target \<noteq> last_target x then x\<lparr>last_target := target\<rparr> else x)
       in bnd (write_pin current_pos pos x) (\<lambda>x.
          bnd (write_pin running_out 1 x) (\<lambda>x.
          bnd (write_pin error_out 0 x) (\<lambda>x. Inr (x\<lparr>error_count := 0\<rparr>))))))"

definition control_disabled :: "int \<Rightarrow> example \<Rightarrow> example res" where
  "control_disabled target x =
     bnd (write_pin running_out 0 x) (\<lambda>x.
       if target \<noteq> last_target x
       then bnd (to_int (error_count x + 1)) (\<lambda>n.
            let x = x\<lparr>error_count := n\<rparr>
            in if n > 10 then write_pin error_out 1 x else Inr x)
       else Inr x)"

text \<open>The heartbeat and the cycle counter of the shared block.\<close>

definition beat :: "example \<Rightarrow> example res" where
  "beat x = (case taskShared x of
       SP_null \<Rightarrow> Inr x
     | SP_stale \<Rightarrow> Inl UB
     | SP_mapped \<Rightarrow>
         bnd (to_int (heartbeat (shared x) + 1)) (\<lambda>b.
         bnd (to_int (cycle_count (shared x) + 1)) (\<lambda>c.
           Inr (upd_shared (\<lambda>s. s\<lparr>heartbeat := b, cycle_count := c\<rparr>) x))))"

text \<open>\<open>now\<close> is the reading of \<open>rtapi_get_time\<close>.\<close>

definition taskController :: "int \<Rightarrow> example \<Rightarrow> example res" where
  "taskController now x =
     (if taskHalData x = None then Inr x
      else
        bnd (read_pin enable_in x) (\<lambda>enable.
        bnd (read_pin target_pos x) (\<lambda>target.
        bnd (read_pin feed_rate x) (\<lambda>bits.
        bnd (read_pin current_pos x) (\<lambda>pos.
        bnd (if enable \<noteq> 0
             then control_enabled target (fl_convert binary32 (double_of_bits bits)) pos (max_velocity x) x
             else control_disabled target x) (\<lambda>x.
        bnd (beat x) (\<lambda>x.
        bnd (write_pin heartbeat_out (if taskShared x = SP_null then 0 else heartbeat (shared x)) x) (\<lambda>x.
          Inr (if taskShared x = SP_null then x
               else upd_shared (\<lambda>s. s\<lparr>last_wakeup_ns := now\<rparr>) x)))))))))"

section \<open>The step\<close>

lemma fmt_sel [simp]:
  "fmt_prec binary32 = 24" "fmt_low binary32 = - 149" "fmt_high binary32 = 104"
  "fmt_prec binary64 = 53" "fmt_low binary64 = - 1074" "fmt_high binary64 = 971"
  by (simp_all add: binary32_def binary64_def)

lemma round32_bound:
  assumes "\<bar>x\<bar> \<le> 2 powi k" "- 149 \<le> k" "k < 128"
  shows "\<exists>y. fl_round binary32 x = Fin y \<and> \<bar>y\<bar> \<le> 2 powi k"
  by (rule fl_round_bound) (use assms in simp_all)

lemma f0_001_small: "\<exists>c. f0_001 = Fin c \<and> 0 \<le> c \<and> c \<le> 1 / 512"
proof -
  have p: "(2::rat) powi (- 9) = 1 / 512" by (simp add: power_int_def power_divide)
  have "\<bar>1 / 1000 :: rat\<bar> \<le> 2 powi (- 9)" unfolding p by simp
  from round32_bound [OF this] have "\<exists>c. f0_001 = Fin c \<and> \<bar>c\<bar> \<le> 1 / 512" by (simp add: f0_001_def p)
  then show ?thesis using fl_round_nonneg [of binary32 "1 / 1000"] by (fastforce simp: f0_001_def)
qed

text \<open>A clamped rate is between 0 and 2, or not a number.\<close>

lemma clamp_rate_cases: "clamp_rate r = NaN \<and> r = NaN \<or> (\<exists>y. clamp_rate r = Fin y \<and> 0 \<le> y \<and> y \<le> 2)"
  by (cases r) (auto simp: clamp_rate_def Let_def not_less)

text \<open>For every feed rate that is a number the step exists, and is at most \<open>2\<^sup>2\<^sup>3\<close>.\<close>

lemma step_of_bounds:
  assumes "rate \<noteq> NaN" "INT_MIN \<le> v" "v \<le> INT_MAX"
  shows "\<exists>step. step_of v rate = Inr step \<and> 1 \<le> step \<and> step \<le> 2 ^ 23"
proof -
  obtain r where r: "clamp_rate rate = Fin r" "0 \<le> r" "r \<le> 2" using clamp_rate_cases [of rate] assms(1) by blast
  obtain c where c: "f0_001 = Fin c" "0 \<le> c" "c \<le> 1 / 512" using f0_001_small by blast
  have p: "(2::rat) powi 31 = 2 ^ 31" "(2::rat) powi 32 = 2 ^ 32" "(2::rat) powi 23 = 2 ^ 23" by (simp_all add: power_int_def)
  have "\<bar>of_int v :: rat\<bar> \<le> of_int (2 ^ 31)"
    unfolding of_int_abs [symmetric] of_int_le_iff using assms(2,3) by (simp add: INT_MIN_def INT_MAX_def abs_le_iff)
  then have "\<bar>of_int v :: rat\<bar> \<le> 2 powi 31" by (simp add: p)
  from round32_bound [OF this] obtain a where a: "fl_of_int binary32 v = Fin a" "\<bar>a\<bar> \<le> 2 ^ 31"
    by (auto simp: fl_of_int_def p)
  have "\<bar>a * r\<bar> \<le> 2 ^ 31 * 2" unfolding abs_mult by (rule mult_mono) (use a(2) r in simp_all)
  then have "\<bar>a * r\<bar> \<le> 2 powi 32" by (simp add: p)
  from round32_bound [OF this] obtain b where b: "fl_round binary32 (a * r) = Fin b" "\<bar>b\<bar> \<le> 2 ^ 32" by (auto simp: p)
  have "\<bar>b * c\<bar> \<le> 2 ^ 32 * (1 / 512)" unfolding abs_mult by (rule mult_mono) (use b(2) c in simp_all)
  then have "\<bar>b * c\<bar> \<le> 2 powi 23" by (simp add: p)
  from round32_bound [OF this] obtain y where y: "fl_round binary32 (b * c) = Fin y" "\<bar>y\<bar> \<le> 2 ^ 23" by (auto simp: p)
  have "\<bar>rat_trunc y\<bar> \<le> 2 ^ 23"
  proof -
    from y(2) have "y \<le> of_int (2 ^ 23)" "- y \<le> of_int (2 ^ 23)" by (simp_all add: abs_le_iff)
    then have "\<lfloor>y\<rfloor> \<le> 2 ^ 23" "\<lfloor>- y\<rfloor> \<le> 2 ^ 23" by linarith+
    moreover have "0 \<le> \<lfloor>y\<rfloor>" if "0 \<le> y" using that by simp
    moreover have "0 \<le> \<lfloor>- y\<rfloor>" if "\<not> 0 \<le> y" using that by simp
    ultimately show ?thesis by (auto simp: rat_trunc_def)
  qed
  then show ?thesis by (auto simp: step_of_def r(1) c(1) a(1) b(1) y(1) abs_le_iff)
qed

lemma step_of_nan: "step_of v NaN = Inl UB"
proof -
  have "clamp_rate NaN = NaN" by (simp add: clamp_rate_def)
  moreover have "fl_mul f x NaN = NaN" "fl_mul f NaN x = NaN" for f x by (cases x; simp)+
  ultimately show ?thesis by (simp add: step_of_def)
qed

section \<open>One cycle\<close>

definition approach :: "int \<Rightarrow> int \<Rightarrow> int \<Rightarrow> int" where
  "approach step pos target = (if pos \<le> target then min target (pos + step) else max target (pos - step))"

definition rate_of :: "(td_pin \<Rightarrow> off) \<Rightarrow> example \<Rightarrow> fl" where
  "rate_of q x = fl_convert binary32 (double_of_bits (pin_value q feed_rate x))"

text \<open>A task that can run: the pins exist, and the shared block is mapped and its counters can count.\<close>

definition able :: "(td_pin \<Rightarrow> off) \<Rightarrow> nat \<Rightarrow> example \<Rightarrow> bool" where
  "able q n x \<longleftrightarrow> wired q x \<and> taskShared x = SP_mapped \<and>
     INT_MIN \<le> heartbeat (shared x) \<and> heartbeat (shared x) + int n \<le> INT_MAX \<and>
     INT_MIN \<le> cycle_count (shared x) \<and> cycle_count (shared x) + int n \<le> INT_MAX"

text \<open>What a cycle does besides the outputs of its branch.\<close>

definition beaten :: "(td_pin \<Rightarrow> off) \<Rightarrow> int \<Rightarrow> example \<Rightarrow> example" where
  "beaten q now x =
     (let x = upd_shared (\<lambda>s. s\<lparr>heartbeat := heartbeat s + 1, cycle_count := cycle_count s + 1\<rparr>) x
      in upd_shared (\<lambda>s. s\<lparr>last_wakeup_ns := now\<rparr>) (set_pin q heartbeat_out (heartbeat (shared x)) x))"

lemma upd_shared_sel [simp]:
  "taskShared (upd_shared g x) = taskShared x" "shared (upd_shared g x) = g (shared x)"
  "max_velocity (upd_shared g x) = max_velocity x" "last_target (upd_shared g x) = last_target x"
  "error_count (upd_shared g x) = error_count x" "x_sys (upd_shared g x) = x_sys x"
  by (simp_all add: upd_shared_def)

lemma beat_run:
  assumes "able q (Suc n) x"
  shows "beat x = Inr (upd_shared (\<lambda>s. s\<lparr>heartbeat := heartbeat s + 1, cycle_count := cycle_count s + 1\<rparr>) x)"
  using assms by (simp add: able_def beat_def upd_shared_def)

lemma beaten_facts:
  assumes "able q (Suc n) x"
  shows "able q n (beaten q now x)" "heartbeat (shared (beaten q now x)) = heartbeat (shared x) + 1"
    "pin_value q p (beaten q now x) = (if p = heartbeat_out then heartbeat (shared x) + 1 else pin_value q p x)"
    "max_velocity (beaten q now x) = max_velocity x" "last_target (beaten q now x) = last_target x"
    "error_count (beaten q now x) = error_count x" "last_wakeup_ns (shared (beaten q now x)) = now"
  using assms by (simp_all add: able_def beaten_def Let_def)

lemma able_set_pin [simp]: "able q n (set_pin q p v x) = able q n x"
  by (simp add: able_def)

lemma able_frame [simp]:
  "able q n (x\<lparr>last_target := v\<rparr>) = able q n x" "able q n (x\<lparr>error_count := v\<rparr>) = able q n x"
  by (simp_all add: able_def)

text \<open>The cycle, given the result of its branch.\<close>

lemma taskController_branch:
  assumes "able q (Suc n) x"
  defines "br \<equiv> (if pin_value q enable_in x \<noteq> 0
      then control_enabled (pin_value q target_pos x) (rate_of q x) (pin_value q current_pos x) (max_velocity x) x
      else control_disabled (pin_value q target_pos x) x)"
  assumes "br = Inr y" "able q (Suc n) y"
  shows "taskController now x = Inr (beaten q now y)"
proof -
  have w: "wired q x" "taskHalData x \<noteq> None" using assms(1) wired_ptr [of q x] by (auto simp: able_def)
  have y: "wired q y" "taskShared y = SP_mapped" using assms(4) by (auto simp: able_def)
  have "taskController now x = bnd br (\<lambda>x. bnd (beat x) (\<lambda>x.
      bnd (write_pin heartbeat_out (if taskShared x = SP_null then 0 else heartbeat (shared x)) x) (\<lambda>x.
        Inr (if taskShared x = SP_null then x else upd_shared (\<lambda>s. s\<lparr>last_wakeup_ns := now\<rparr>) x))))"
    using w by (simp only: taskController_def br_def rate_of_def wired_read if_False bnd.simps)
  also have "\<dots> = Inr (beaten q now y)"
    using y beat_run [OF assms(4)] by (simp add: assms(3) beaten_def Let_def)
  finally show ?thesis .
qed

lemma taskController_fault:
  assumes "wired q x" "pin_value q enable_in x \<noteq> 0"
    and "control_enabled (pin_value q target_pos x) (rate_of q x) (pin_value q current_pos x) (max_velocity x) x = Inl e"
  shows "taskController now x = Inl e"
  using assms wired_ptr [of q x] by (simp add: taskController_def rate_of_def [symmetric])

text \<open>The enabled branch.\<close>

definition moved :: "(td_pin \<Rightarrow> off) \<Rightarrow> int \<Rightarrow> int \<Rightarrow> example \<Rightarrow> example" where
  "moved q target pos x =
     (set_pin q error_out 0 (set_pin q running_out 1 (set_pin q current_pos pos (x\<lparr>last_target := target\<rparr>))))\<lparr>error_count := 0\<rparr>"

lemma control_enabled_run:
  assumes "wired q x" "step_of v rate = Inr step" "move pos target step = Inr p"
  shows "control_enabled target rate pos v x = Inr (moved q target p x)"
proof -
  have "(if target \<noteq> last_target x then x\<lparr>last_target := target\<rparr> else x) = x\<lparr>last_target := target\<rparr>" by simp
  then show ?thesis using assms by (simp add: control_enabled_def moved_def Let_def wired_write [of q])
qed

lemma move_run:
  assumes "1 \<le> step" "pos < target \<longrightarrow> pos + step \<le> INT_MAX" "target < pos \<longrightarrow> INT_MIN \<le> pos - step"
    and "INT_MIN \<le> pos" "pos \<le> INT_MAX"
  shows "move pos target step = Inr (approach step pos target)"
  using assms by (auto simp: move_def approach_def)

lemma moved_facts:
  assumes "able q n x"
  shows "able q n (moved q target p x)" "last_target (moved q target p x) = target" "error_count (moved q target p x) = 0"
    "max_velocity (moved q target p x) = max_velocity x" "shared (moved q target p x) = shared x"
    "pin_value q r (moved q target p x) =
       (case r of current_pos \<Rightarrow> p | running_out \<Rightarrow> 1 | error_out \<Rightarrow> 0 | _ \<Rightarrow> pin_value q r x)"
  using assms by (auto simp: moved_def able_def split: td_pin.split)

text \<open>A position that is a step away from the ends of \<open>int\<close>.\<close>

definition inside :: "int \<Rightarrow> bool" where
  "inside p \<longleftrightarrow> INT_MIN + 2 ^ 23 \<le> p \<and> p \<le> INT_MAX - 2 ^ 23"

lemma inside_approach:
  assumes "inside p" "inside t" "1 \<le> step"
  shows "inside (approach step p t)"
  using assms by (auto simp: inside_def approach_def)

lemma enabled_cycle:
  fixes now :: int and q :: "td_pin \<Rightarrow> off" and x :: example and step :: int
  assumes "able q (Suc n) x" "pin_value q enable_in x \<noteq> 0" "step_of (max_velocity x) (rate_of q x) = Inr step"
    and "1 \<le> step" "step \<le> 2 ^ 23" "inside (pin_value q current_pos x)" "inside (pin_value q target_pos x)"
  defines "p \<equiv> approach step (pin_value q current_pos x) (pin_value q target_pos x)"
  defines "y \<equiv> beaten q now (moved q (pin_value q target_pos x) p x)"
  shows "taskController now x = Inr y" "able q n y" "heartbeat (shared y) = heartbeat (shared x) + 1"
    "max_velocity y = max_velocity x" "rate_of q y = rate_of q x"
    "pin_value q r y = (case r of current_pos \<Rightarrow> p | running_out \<Rightarrow> 1 | error_out \<Rightarrow> 0
       | heartbeat_out \<Rightarrow> heartbeat (shared x) + 1 | _ \<Rightarrow> pin_value q r x)"
    "last_target y = pin_value q target_pos x" "error_count y = 0"
proof -
  let ?t = "pin_value q target_pos x" and ?c = "pin_value q current_pos x"
  have w: "wired q x" using assms(1) by (simp add: able_def)
  have "move ?c ?t step = Inr p" unfolding p_def
    by (rule move_run) (use assms(4-7) in \<open>auto simp: inside_def\<close>)
  note br = control_enabled_run [OF w assms(3) this]
  note M = moved_facts [OF assms(1), where target = ?t and p = p]
  note B = beaten_facts [OF M(1), where now = now, folded y_def]
  show "taskController now x = Inr y" unfolding y_def
    by (rule taskController_branch [OF assms(1)]) (use assms(2) br M(1) in simp_all)
  show "able q n y" "heartbeat (shared y) = heartbeat (shared x) + 1" "max_velocity y = max_velocity x"
    "last_target y = pin_value q target_pos x" "error_count y = 0"
    using B M by simp_all
  show "pin_value q r y = (case r of current_pos \<Rightarrow> p | running_out \<Rightarrow> 1 | error_out \<Rightarrow> 0
       | heartbeat_out \<Rightarrow> heartbeat (shared x) + 1 | _ \<Rightarrow> pin_value q r x)" for r
    unfolding B(3) M(6) by (cases r) (simp_all add: M(5))
  then show "rate_of q y = rate_of q x" by (simp add: rate_of_def)
qed

section \<open>Many cycles\<close>

text \<open>The controller once for each reading of the clock.\<close>

fun control_cycles :: "int list \<Rightarrow> example \<Rightarrow> example res" where
  "control_cycles [] x = Inr x"
| "control_cycles (now # ts) x = bnd (taskController now x) (control_cycles ts)"

definition track :: "nat \<Rightarrow> int \<Rightarrow> int \<Rightarrow> int \<Rightarrow> int" where
  "track n step pos target =
     (if pos \<le> target then min target (pos + int n * step) else max target (pos - int n * step))"

lemma track_0 [simp]: "track 0 step p t = p" by (simp add: track_def)

lemma track_Suc:
  assumes "1 \<le> step"
  shows "track n step (approach step p t) t = track (Suc n) step p t"
proof -
  define k where "k = int n * step"
  have "int (Suc n) * step = step + k" "0 \<le> k" using assms by (simp_all add: k_def algebra_simps)
  then show ?thesis using assms
    unfolding track_def approach_def k_def [symmetric] by (simp add: min_def max_def)
qed

text \<open>Within a step per cycle the target is reached.\<close>

lemma track_arrives:
  assumes "1 \<le> step" "\<bar>t - p\<bar> \<le> int n"
  shows "track n step p t = t"
proof -
  have "int n * 1 \<le> int n * step" using assms(1) by (intro mult_left_mono) simp_all
  then show ?thesis using assms(2) by (auto simp: track_def)
qed

lemma control_cycles_run:
  assumes "able q (length ts) x" "pin_value q enable_in x \<noteq> 0" "step_of (max_velocity x) (rate_of q x) = Inr step"
    and "1 \<le> step" "step \<le> 2 ^ 23" "inside (pin_value q current_pos x)" "inside (pin_value q target_pos x)"
  shows "\<exists>y. control_cycles ts x = Inr y \<and> wired q y \<and> heartbeat (shared y) = heartbeat (shared x) + int (length ts) \<and>
    pin_value q current_pos y = track (length ts) step (pin_value q current_pos x) (pin_value q target_pos x) \<and>
    (\<forall>p \<in> {enable_in, target_pos, feed_rate}. pin_value q p y = pin_value q p x) \<and>
    (ts \<noteq> [] \<longrightarrow> pin_value q running_out y = 1 \<and> pin_value q error_out y = 0 \<and>
       pin_value q heartbeat_out y = heartbeat (shared y))"
  using assms
proof (induction ts arbitrary: x)
  case Nil
  then show ?case by (simp add: able_def)
next
  case (Cons now ts)
  have ab: "able q (Suc (length ts)) x" using Cons.prems(1) by simp
  note E = enabled_cycle [OF ab Cons.prems(2-7), where now = now]
  obtain y where y: "taskController now x = Inr y" "able q (length ts) y" "heartbeat (shared y) = heartbeat (shared x) + 1"
    and k: "max_velocity y = max_velocity x" "rate_of q y = rate_of q x"
    and p: "pin_value q current_pos y = approach step (pin_value q current_pos x) (pin_value q target_pos x)"
      "pin_value q enable_in y = pin_value q enable_in x" "pin_value q target_pos y = pin_value q target_pos x"
      "pin_value q feed_rate y = pin_value q feed_rate x" "pin_value q running_out y = 1" "pin_value q error_out y = 0"
      "pin_value q heartbeat_out y = heartbeat (shared y)"
    using E(1-5) E(6) by simp
  have ins: "inside (pin_value q current_pos y)" unfolding p by (rule inside_approach [OF Cons.prems(6,7,4)])
  have en: "pin_value q enable_in y \<noteq> 0" "step_of (max_velocity y) (rate_of q y) = Inr step" "inside (pin_value q target_pos y)"
    using Cons.prems k p by simp_all
  from Cons.IH [OF y(2) en(1,2) Cons.prems(4,5) ins en(3)] obtain z where z: "control_cycles ts y = Inr z" "wired q z"
    "heartbeat (shared z) = heartbeat (shared y) + int (length ts)"
    "pin_value q current_pos z = track (length ts) step (pin_value q current_pos y) (pin_value q target_pos y)"
    "\<forall>p \<in> {enable_in, target_pos, feed_rate}. pin_value q p z = pin_value q p y"
    "ts \<noteq> [] \<longrightarrow> pin_value q running_out z = 1 \<and> pin_value q error_out z = 0 \<and> pin_value q heartbeat_out z = heartbeat (shared z)"
    by blast
  have run: "control_cycles (now # ts) x = Inr z" using y(1) z(1) by simp
  have outs: "pin_value q running_out z = 1 \<and> pin_value q error_out z = 0 \<and> pin_value q heartbeat_out z = heartbeat (shared z)"
    using z(1,6) p(5-7) by (cases ts) simp_all
  show ?case using run z(2-5) outs y(3) p(1-4) track_Suc [OF Cons.prems(4)] by simp
qed

section \<open>A disabled controller\<close>

definition held :: "(td_pin \<Rightarrow> off) \<Rightarrow> example \<Rightarrow> example" where
  "held q x =
     (let y = set_pin q running_out 0 x
      in if pin_value q target_pos x = last_target x then y
         else let y = y\<lparr>error_count := error_count x + 1\<rparr>
              in if error_count x + 1 > 10 then set_pin q error_out 1 y else y)"

lemma disabled_cycle:
  fixes now :: int
  assumes "able q (Suc n) x" "pin_value q enable_in x = 0" "INT_MIN \<le> error_count x" "error_count x < INT_MAX"
  defines "y \<equiv> beaten q now (held q x)"
  shows "taskController now x = Inr y" "able q n y" "last_target y = last_target x"
    "error_count y = (if pin_value q target_pos x = last_target x then error_count x else error_count x + 1)"
    "heartbeat (shared y) = heartbeat (shared x) + 1"
    "pin_value q r y = (case r of running_out \<Rightarrow> 0
       | error_out \<Rightarrow> if pin_value q target_pos x \<noteq> last_target x \<and> error_count x + 1 > 10 then 1 else pin_value q r x
       | heartbeat_out \<Rightarrow> heartbeat (shared x) + 1 | _ \<Rightarrow> pin_value q r x)"
proof -
  have w: "wired q x" using assms(1) by (simp add: able_def)
  have br: "control_disabled (pin_value q target_pos x) x = Inr (held q x)"
    using w assms(3,4) by (simp add: control_disabled_def held_def Let_def wired_write [of q])
  have ab: "able q (Suc n) (held q x)" using assms(1) by (simp add: held_def Let_def)
  note B = beaten_facts [OF ab, where now = now, folded y_def]
  show "taskController now x = Inr y" unfolding y_def
    by (rule taskController_branch [OF assms(1)]) (use assms(2) br ab in simp_all)
  show "able q n y" by (rule B)
  show "last_target y = last_target x" unfolding B by (simp add: held_def Let_def)
  show "error_count y = (if pin_value q target_pos x = last_target x then error_count x else error_count x + 1)"
    unfolding B by (simp add: held_def Let_def)
  show "heartbeat (shared y) = heartbeat (shared x) + 1" unfolding B by (simp add: held_def Let_def)
  show "pin_value q r y = (case r of running_out \<Rightarrow> 0
       | error_out \<Rightarrow> if pin_value q target_pos x \<noteq> last_target x \<and> error_count x + 1 > 10 then 1 else pin_value q r x
       | heartbeat_out \<Rightarrow> heartbeat (shared x) + 1 | _ \<Rightarrow> pin_value q r x)"
    unfolding B using w by (cases r) (auto simp: held_def Let_def)
qed

lemma disabled_cycles_run:
  assumes "able q (length ts) x" "pin_value q enable_in x = 0" "0 \<le> error_count x"
    and "error_count x + int (length ts) \<le> INT_MAX" "pin_value q target_pos x \<noteq> last_target x"
  shows "\<exists>y. control_cycles ts x = Inr y \<and> error_count y = error_count x + int (length ts) \<and>
    pin_value q current_pos y = pin_value q current_pos x \<and>
    (ts \<noteq> [] \<longrightarrow> pin_value q running_out y = 0 \<and>
       pin_value q error_out y = (if error_count y > 10 then 1 else pin_value q error_out x))"
  using assms
proof (induction ts arbitrary: x)
  case (Cons now ts)
  have ab: "able q (Suc (length ts)) x" using Cons.prems(1) by simp
  have ec: "INT_MIN \<le> error_count x" "error_count x < INT_MAX" using Cons.prems(3,4) by (simp_all add: INT_MIN_def)
  note D = disabled_cycle [OF ab Cons.prems(2) ec, where now = now]
  obtain y where y: "taskController now x = Inr y" "able q (length ts) y" "last_target y = last_target x"
      "error_count y = error_count x + 1"
    and p: "pin_value q enable_in y = 0" "pin_value q target_pos y = pin_value q target_pos x"
      "pin_value q current_pos y = pin_value q current_pos x" "pin_value q running_out y = 0"
      "pin_value q error_out y = (if error_count x + 1 > 10 then 1 else pin_value q error_out x)"
    using D(1-4) D(6) Cons.prems(2,5) by simp
  have "\<exists>z. control_cycles ts y = Inr z \<and> error_count z = error_count y + int (length ts) \<and>
    pin_value q current_pos z = pin_value q current_pos y \<and>
    (ts \<noteq> [] \<longrightarrow> pin_value q running_out z = 0 \<and>
       pin_value q error_out z = (if error_count z > 10 then 1 else pin_value q error_out y))"
    by (rule Cons.IH) (use y p Cons.prems in simp_all)
  with y p show ?case by (cases ts) auto
qed simp

section \<open>Properties\<close>

lemma fl_convert_nan [simp]: "fl_convert f x = NaN \<longleftrightarrow> x = NaN"
  by (cases x) (simp_all add: fl_round_def Let_def split: option.split)

text \<open>A task with all its pins, enabled, with target 1000 and the feed rate 1.0.\<close>

definition feed_one :: int where "feed_one = 4607182418800017408"

definition task_example :: example where
  "task_example = \<lparr>x_sys = \<lparr>s_hal = zero_hal\<lparr>hal_data := SP_mapped, ucells := (\<lambda>a. D_sig (a + 4000)),
       pins := (\<lambda>p. (pins zero_hal p)\<lparr>p_dummysig :=
         if p = 5000 then 1 else if p = 5008 then 1000 else if p = 5016 then feed_one else 0\<rparr>)\<rparr>,
       s_shm = shmem_start, s_app = rtapp_start\<rparr>,
     mot_comp_id = 1, emc_shmem_id = 2, taskShared = SP_mapped, shared = zero_shared, taskHalData = Some 1000,
     max_velocity = 1000, max_accel = 500, num_axis = 4, task_period_nsec = 1000000, subtask_period_nsec = 0,
     last_target = 0, error_count = 0\<rparr>"

definition pins_example :: "td_pin \<Rightarrow> off" where "pins_example p = 5000 + td_off p"

lemma task_example_able: "able pins_example n task_example" if "n \<le> 1000000"
  using that by (auto simp: able_def wired_def pins_example_def task_example_def zero_shared_def inj_def INT_MAX_def INT_MIN_def)

lemma task_example_pins:
  "pin_value pins_example enable_in task_example = 1" "pin_value pins_example target_pos task_example = 1000"
  "pin_value pins_example feed_rate task_example = feed_one" "pin_value pins_example current_pos task_example = 0"
  "max_velocity task_example = 1000"
  by (simp_all add: pin_value_def pins_example_def task_example_def)

lemma feed_one_double: "double_of_bits feed_one = Fin 1"
  by (simp add: double_of_bits_def feed_one_def Let_def power_int_def power_divide)

text \<open>
  Property C28: the controller reaches the target. An enabled controller whose feed rate is a number, and
  whose positions keep \<open>2\<^sup>2\<^sup>3\<close> away from the ends of \<open>int\<close>, runs any number of cycles without undefined
  behaviour. It moves by the same step of at least 1 in every cycle, never past the target, so that it is
  there after at most as many cycles as the distance; it reports itself running and free of errors,
  counts its cycles, and leaves its inputs alone.
\<close>

theorem controller_reaches_target:
  assumes "able q (length ts) x" "pin_value q enable_in x \<noteq> 0" "double_of_bits (pin_value q feed_rate x) \<noteq> NaN"
    and "INT_MIN \<le> max_velocity x" "max_velocity x \<le> INT_MAX"
    and "inside (pin_value q current_pos x)" "inside (pin_value q target_pos x)"
  defines "p \<equiv> pin_value q current_pos x" and "t \<equiv> pin_value q target_pos x"
  shows "\<exists>step y. step_of (max_velocity x) (rate_of q x) = Inr step \<and> 1 \<le> step \<and> control_cycles ts x = Inr y \<and>
    pin_value q current_pos y =
      (if p \<le> t then min t (p + int (length ts) * step) else max t (p - int (length ts) * step)) \<and>
    (\<bar>t - p\<bar> \<le> int (length ts) \<longrightarrow> pin_value q current_pos y = t) \<and>
    heartbeat (shared y) = heartbeat (shared x) + int (length ts) \<and>
    (\<forall>i \<in> {enable_in, target_pos, feed_rate}. pin_value q i y = pin_value q i x) \<and>
    (ts \<noteq> [] \<longrightarrow> pin_value q running_out y = 1 \<and> pin_value q error_out y = 0 \<and>
       pin_value q heartbeat_out y = heartbeat (shared y))"
proof -
  have "rate_of q x \<noteq> NaN" using assms(3) by (simp add: rate_of_def)
  from step_of_bounds [OF this assms(4,5)] obtain step where step: "step_of (max_velocity x) (rate_of q x) = Inr step"
    "1 \<le> step" "step \<le> 2 ^ 23" by blast
  from control_cycles_run [OF assms(1,2) step assms(6,7)] obtain y where y: "control_cycles ts x = Inr y"
    "heartbeat (shared y) = heartbeat (shared x) + int (length ts)" "pin_value q current_pos y = track (length ts) step p t"
    "\<forall>i \<in> {enable_in, target_pos, feed_rate}. pin_value q i y = pin_value q i x"
    "ts \<noteq> [] \<longrightarrow> pin_value q running_out y = 1 \<and> pin_value q error_out y = 0 \<and> pin_value q heartbeat_out y = heartbeat (shared y)"
    unfolding p_def t_def by blast
  have "\<bar>t - p\<bar> \<le> int (length ts) \<longrightarrow> pin_value q current_pos y = t"
    unfolding y(3) using track_arrives [OF step(2)] by blast
  with step(1,2) y(1,2,4,5) y(3) [unfolded track_def] show ?thesis by blast
qed

theorem controller_reaches_target_witness:
  "\<exists>y. control_cycles (replicate 1000 0) task_example = Inr y \<and>
     pin_value pins_example current_pos y = 1000 \<and> pin_value pins_example running_out y = 1"
proof -
  have "able pins_example (length (replicate 1000 (0::int))) task_example" by (rule task_example_able) simp
  moreover have "double_of_bits (pin_value pins_example feed_rate task_example) \<noteq> NaN"
    by (simp add: task_example_pins feed_one_double)
  ultimately show ?thesis
    using controller_reaches_target [of pins_example "replicate 1000 0" task_example]
    by (force simp: task_example_pins inside_def INT_MIN_def INT_MAX_def)
qed

text \<open>
  Property C29: exactly when the enabled controller runs into undefined behaviour. Its inputs are not
  checked: a feed rate that is not a number passes both comparisons of the clamp and is converted to an
  integer, and a position within a step of the end of \<open>int\<close> overflows before it is compared with the
  target.
\<close>

theorem controller_undefined:
  assumes "able q 1 x" "pin_value q enable_in x \<noteq> 0" "INT_MIN \<le> max_velocity x" "max_velocity x \<le> INT_MAX"
  defines "p \<equiv> pin_value q current_pos x" and "t \<equiv> pin_value q target_pos x"
  assumes "INT_MIN \<le> p" "p \<le> INT_MAX"
  shows "taskController now x = Inl UB \<longleftrightarrow>
    double_of_bits (pin_value q feed_rate x) = NaN \<or>
    (\<exists>step. step_of (max_velocity x) (rate_of q x) = Inr step \<and> (p < t \<and> INT_MAX < p + step \<or> t < p \<and> p - step < INT_MIN))"
proof -
  have w: "wired q x" and ab: "able q (Suc 0) x" using assms(1) by (simp_all add: able_def)
  show ?thesis
  proof (cases "rate_of q x = NaN")
    case True
    then have "control_enabled t (rate_of q x) p (max_velocity x) x = Inl UB"
      by (simp add: control_enabled_def step_of_nan)
    from taskController_fault [OF w assms(2) this [unfolded p_def t_def]] True show ?thesis by (simp add: rate_of_def)
  next
    case False
    then have nan: "double_of_bits (pin_value q feed_rate x) \<noteq> NaN" by (simp add: rate_of_def)
    from step_of_bounds [OF False assms(3,4)] obtain step where step: "step_of (max_velocity x) (rate_of q x) = Inr step"
      "1 \<le> step" by blast
    show ?thesis
    proof (cases "p < t \<and> INT_MAX < p + step \<or> t < p \<and> p - step < INT_MIN")
      case True
      then have "move p t step = Inl UB" by (auto simp: move_def to_int_def)
      then have "control_enabled t (rate_of q x) p (max_velocity x) x = Inl UB" by (simp add: control_enabled_def step(1))
      from taskController_fault [OF w assms(2) this [unfolded p_def t_def]] True step(1) show ?thesis by auto
    next
      case ok: False
      then have "move p t step = Inr (approach step p t)"
        by (intro move_run) (use step(2) assms(7,8) in auto)
      note br = control_enabled_run [OF w step(1) this]
      have "taskController now x = Inr (beaten q now (moved q t (approach step p t) x))"
        by (rule taskController_branch [OF ab]) (use assms(2) br moved_facts(1) [OF ab] in \<open>simp_all add: p_def t_def\<close>)
      then show ?thesis using ok nan step(1) by auto
    qed
  qed
qed

theorem controller_undefined_witness:
  "taskController 0 (set_pin pins_example feed_rate (2047 * 2 ^ 52 + 1) task_example) = Inl UB"
proof -
  have w: "wired pins_example task_example" using task_example_able [of 0] by (simp add: able_def)
  have "able pins_example 1 (set_pin pins_example feed_rate (2047 * 2 ^ 52 + 1) task_example)"
    unfolding able_set_pin by (rule task_example_able) simp
  moreover have "double_of_bits (2047 * 2 ^ 52 + 1) = NaN" by (simp add: double_of_bits_def Let_def)
  ultimately show ?thesis
    using controller_undefined [of pins_example "set_pin pins_example feed_rate (2047 * 2 ^ 52 + 1) task_example" 0]
    by (simp add: task_example_pins w INT_MIN_def INT_MAX_def)
qed

text \<open>
  A disabled controller holds its position and latches an error. When the target differs
  from the last one that was tracked, every cycle counts, and from the eleventh count on the error output
  is set.
\<close>

theorem disabled_latches_error:
  assumes "able q (length ts) x" "pin_value q enable_in x = 0" "0 \<le> error_count x"
    and "error_count x + int (length ts) \<le> INT_MAX" "pin_value q target_pos x \<noteq> last_target x" "ts \<noteq> []"
  shows "\<exists>y. control_cycles ts x = Inr y \<and> error_count y = error_count x + int (length ts) \<and>
    pin_value q current_pos y = pin_value q current_pos x \<and> pin_value q running_out y = 0 \<and>
    pin_value q error_out y = (if error_count y > 10 then 1 else pin_value q error_out x)"
  using disabled_cycles_run [OF assms(1-5)] assms(6) by blast

theorem disabled_latches_error_witness:
  "\<exists>y. control_cycles (replicate 11 0) (set_pin pins_example enable_in 0 task_example) = Inr y \<and>
     pin_value pins_example error_out y = 1 \<and> pin_value pins_example current_pos y = 0"
proof -
  have w: "wired pins_example task_example" using task_example_able [of 0] by (simp add: able_def)
  have "able pins_example (length (replicate 11 (0::int))) (set_pin pins_example enable_in 0 task_example)"
    unfolding able_set_pin by (rule task_example_able) simp
  moreover have "error_count task_example = 0" "last_target task_example = 0" by (simp_all add: task_example_def)
  ultimately show ?thesis
    using disabled_latches_error [of pins_example "replicate 11 0" "set_pin pins_example enable_in 0 task_example"]
    by (auto simp: task_example_pins w INT_MAX_def)
qed

end
