(* ===== verification/Task_Command.thy ===== *)
theory Task_Command
  imports Task_Control
begin

text \<open>
  The command channel of the example task: the control side puts a command in the shared block
  (\<open>ExampleTaskGuard::send_command\<close> of \<open>operate.cpp\<close>), and the real-time thread executes it
  (\<open>taskCommandHandler\<close> of \<open>funct_command.c\<close>). The channel is proved to be a mailbox for one
  command, and a pause requested through it to be final.
\<close>

section \<open>The code\<close>

text \<open>The pin is written when its pointer is not null.\<close>

definition write_if_set :: "td_pin \<Rightarrow> int \<Rightarrow> example \<Rightarrow> example res" where
  "write_if_set p v x =
     (if taskHalData x = None then Inr x
      else bnd (pin_ptr p x) (\<lambda>a. if a = D_null then Inr x else write_pin p v x))"

text \<open>
  The \<open>switch\<close>. \<open>self\<close> is the slot of the task that executes the handler, \<open>None\<close> in a thread
  that is no task.
\<close>

fun run_command :: "nat option \<Rightarrow> task_command_id \<Rightarrow> int \<Rightarrow> example \<Rightarrow> example res" where
  "run_command self TASK_CMD_SET_TARGET data x = write_if_set target_pos data x"
| "run_command self TASK_CMD_ENABLE data x = write_if_set enable_in 1 x"
| "run_command self TASK_CMD_DISABLE data x = write_if_set enable_in 0 x"
| "run_command self TASK_CMD_PAUSE data x =
     (let task_id = task_self self (x_app x)
      in Inr (if task_id \<ge> 0 then upd_app (\<lambda>a. snd (task_pause task_id a)) x else x))"
| "run_command self TASK_CMD_RESUME data x =
     (let task_id = task_self self (x_app x)
      in Inr (if task_id \<ge> 0 then upd_app (\<lambda>a. snd (task_resume task_id a)) x else x))"
| "run_command self TASK_CMD_SET_PLL data x =
     Inr (upd_app (\<lambda>a. snd (task_pll_set_correction self (word_of_int data) a)) x)"
| "run_command self TASK_CMD_SHUTDOWN data x = Inr x"
| "run_command self TASK_CMD_NONE data x = Inr x"

definition take_command :: "nat option \<Rightarrow> example \<Rightarrow> example res" where
  "take_command self x =
     (if ch_head (shared x) \<noteq> ch_tail (shared x)
      then bnd (run_command self (command_id (shared x)) (command_data (shared x)) x)
             (\<lambda>x. Inr (upd_shared (\<lambda>s. s\<lparr>ch_tail := ch_head s\<rparr>) x))
      else Inr x)"

definition taskCommandHandler :: "nat option \<Rightarrow> example \<Rightarrow> example res" where
  "taskCommandHandler self x = (case taskShared x of
       SP_null \<Rightarrow> Inr x
     | SP_stale \<Rightarrow> Inl UB
     | SP_mapped \<Rightarrow>
         let (busy, m) = rtapi_mutex_try (command_mutex (shared x));
             x = upd_shared (\<lambda>s. s\<lparr>command_mutex := m\<rparr>) x
         in if busy \<noteq> 0 then Inr x
            else bnd (take_command self x)
              (\<lambda>x. Inr (upd_shared (\<lambda>s. s\<lparr>command_mutex := rtapi_mutex_give (command_mutex s)\<rparr>) x)))"

definition send_command :: "task_command_id \<Rightarrow> int \<Rightarrow> example \<Rightarrow> (int \<times> example) res" where
  "send_command cmd data x = (case taskShared x of
       SP_null \<Rightarrow> Inr (- 1, x)
     | SP_stale \<Rightarrow> Inl UB
     | SP_mapped \<Rightarrow>
         bnd (loop_res (rtapi_mutex_get (\<lambda>_ w. w) 0 (command_mutex (shared x)))) (\<lambda>m.
         bnd (to_int (ch_head (shared x) + 1)) (\<lambda>h.
           Inr (0, upd_shared (\<lambda>s. s\<lparr>command_id := cmd, command_data := data, ch_head := h,
                  command_mutex := rtapi_mutex_give m\<rparr>) x))))"

text \<open>Several commands, one after the other.\<close>

fun send_all :: "(task_command_id \<times> int) list \<Rightarrow> example \<Rightarrow> example res" where
  "send_all [] x = Inr x"
| "send_all ((c, d) # cs) x = bnd (send_command c d x) (\<lambda>(_, x). send_all cs x)"

section \<open>The mailbox\<close>

text \<open>A channel that nobody holds.\<close>

definition open_channel :: "example \<Rightarrow> bool" where
  "open_channel x \<longleftrightarrow> taskShared x = SP_mapped \<and> \<not> locked (command_mutex (shared x))"

definition posted :: "task_command_id \<Rightarrow> int \<Rightarrow> example \<Rightarrow> example" where
  "posted c d = upd_shared (\<lambda>s. s\<lparr>command_id := c, command_data := d, ch_head := ch_head s + 1\<rparr>)"

lemma posted_sel [simp]:
  "open_channel (posted c d x) = open_channel x" "ch_head (shared (posted c d x)) = ch_head (shared x) + 1"
  "x_sys (posted c d x) = x_sys x" "ch_tail (shared (posted c d x)) = ch_tail (shared x)"
  by (simp_all add: posted_def open_channel_def)

lemma send_command_run:
  assumes "open_channel x" "INT_MIN \<le> ch_head (shared x)" "ch_head (shared x) < INT_MAX"
  shows "send_command c d x = Inr (0, posted c d x)"
proof -
  have "rtapi_mutex_give (set_lock (command_mutex (shared x))) = command_mutex (shared x)"
    using assms(1) by (simp add: open_channel_def)
  then show ?thesis
    using assms by (simp add: open_channel_def send_command_def posted_def rtapi_mutex_get_free upd_shared_def)
qed

lemma taskCommandHandler_open:
  assumes "open_channel x"
  shows "taskCommandHandler self x = bnd (take_command self (upd_shared (\<lambda>s. s\<lparr>command_mutex := set_lock (command_mutex s)\<rparr>) x))
    (\<lambda>x. Inr (upd_shared (\<lambda>s. s\<lparr>command_mutex := rtapi_mutex_give (command_mutex s)\<rparr>) x))"
  using assms by (simp add: taskCommandHandler_def open_channel_def rtapi_mutex_try_eq upd_shared_def)

lemma set_lock_locked [simp]: "locked m \<Longrightarrow> set_lock m = m"
  by (rule bit_eqI) (auto simp: set_lock_bit locked_def)

lemma taskCommandHandler_busy:
  assumes "taskShared x = SP_mapped" "locked (command_mutex (shared x))"
  shows "taskCommandHandler self x = Inr x"
  using assms by (simp add: taskCommandHandler_def rtapi_mutex_try_eq upd_shared_def)

text \<open>A command works on the pins and the task, and not on the channel.\<close>

lemma pin_ptr_shared [simp]: "pin_ptr p (upd_shared g x) = pin_ptr p x"
  by (simp add: pin_ptr_def upd_shared_def split: option.split)

lemma upd_hal_shared: "upd_hal k (upd_shared g x) = upd_shared g (upd_hal k x)"
  by (simp add: upd_hal_def upd_shared_def)

lemma write_pin_shared: "write_pin p v (upd_shared g x) = bnd (write_pin p v x) (\<lambda>y. Inr (upd_shared g y))"
  by (cases "pin_ptr p x") (simp_all add: write_pin_def upd_hal_shared split: dptr.split)

lemma write_if_set_shared: "write_if_set p v (upd_shared g x) = bnd (write_if_set p v x) (\<lambda>y. Inr (upd_shared g y))"
proof -
  have "taskHalData (upd_shared g x) = taskHalData x" by (simp add: upd_shared_def)
  then show ?thesis by (cases "pin_ptr p x") (simp_all add: write_if_set_def write_pin_shared)
qed

lemma run_command_shared:
  "run_command self c d (upd_shared g x) = bnd (run_command self c d x) (\<lambda>y. Inr (upd_shared g y))"
proof -
  have "x_app (upd_shared g x) = x_app x" "upd_app k (upd_shared g x) = upd_shared g (upd_app k x)" for k
    by (simp_all add: upd_shared_def upd_app_def)
  then show ?thesis by (cases c) (simp_all add: write_if_set_shared Let_def)
qed

lemma write_pin_keeps:
  assumes "write_pin p v x = Inr y"
  shows "shared y = shared x \<and> taskShared y = taskShared x \<and> x_app y = x_app x"
proof -
  from assms obtain a where "(case a of D_sig q \<Rightarrow> Inr (upd_hal (upd_pin q (\<lambda>s. s\<lparr>p_dummysig := v\<rparr>)) x) | _ \<Rightarrow> Inl UB) = Inr y"
    unfolding write_pin_def bnd_Inr_iff by blast
  then show ?thesis by (cases a) (auto simp: upd_hal_def)
qed

lemma run_command_keeps:
  assumes "run_command self c d x = Inr y"
  shows "shared y = shared x" "taskShared y = taskShared x"
proof -
  have "shared y = shared x \<and> taskShared y = taskShared x"
    using assms by (cases c)
      (auto simp: write_if_set_def upd_app_def res_splits Let_def dest!: write_pin_keeps split: if_splits)
  then show "shared y = shared x" "taskShared y = taskShared x" by simp_all
qed

text \<open>The channel after a command has been taken.\<close>

definition taken :: "example \<Rightarrow> example" where
  "taken = upd_shared (\<lambda>s. s\<lparr>ch_tail := ch_head s\<rparr>)"

lemma handler_run:
  assumes "open_channel x"
  shows "taskCommandHandler self x =
    (if ch_head (shared x) = ch_tail (shared x) then Inr x
     else bnd (run_command self (command_id (shared x)) (command_data (shared x)) x) (\<lambda>y. Inr (taken y)))"
proof -
  let ?lock = "upd_shared (\<lambda>s. s\<lparr>command_mutex := set_lock (command_mutex s)\<rparr>)"
  let ?give = "upd_shared (\<lambda>s. s\<lparr>command_mutex := rtapi_mutex_give (command_mutex s)\<rparr>)"
  have free: "\<not> locked (command_mutex (shared x))" using assms by (simp add: open_channel_def)
  then have give: "?give (?lock x) = x" by (simp add: upd_shared_def)
  show ?thesis
  proof (cases "ch_head (shared x) = ch_tail (shared x)")
    case True
    then show ?thesis using give by (simp add: taskCommandHandler_open [OF assms] take_command_def)
  next
    case False
    let ?r = "run_command self (command_id (shared x)) (command_data (shared x)) x"
    have "?give (taken (?lock y)) = taken y" if "?r = Inr y" for y
      using run_command_keeps [OF that] free by (simp add: taken_def upd_shared_def)
    then show ?thesis using False
      by (cases ?r) (simp_all add: taskCommandHandler_open [OF assms] take_command_def run_command_shared taken_def [symmetric])
  qed
qed

lemma send_all_run:
  assumes "open_channel x" "INT_MIN \<le> ch_head (shared x)" "ch_head (shared x) + int (length cs) \<le> INT_MAX" "cs \<noteq> []"
  shows "send_all cs x = Inr (upd_shared (\<lambda>s. s\<lparr>command_id := fst (last cs), command_data := snd (last cs),
    ch_head := ch_head s + int (length cs)\<rparr>) x)"
  using assms
proof (induction cs arbitrary: x)
  case (Cons a cs)
  obtain c d where a: "a = (c, d)" by force
  have run: "send_command c d x = Inr (0, posted c d x)" using Cons.prems by (intro send_command_run) simp_all
  show ?case
  proof (cases "cs = []")
    case True
    then show ?thesis by (simp add: a run posted_def)
  next
    case False
    have "send_all cs (posted c d x) = Inr (upd_shared (\<lambda>s. s\<lparr>command_id := fst (last cs), command_data := snd (last cs),
        ch_head := ch_head s + int (length cs)\<rparr>) (posted c d x))"
      by (rule Cons.IH) (use Cons.prems False in simp_all)
    then show ?thesis using False by (simp add: a run posted_def upd_shared_def algebra_simps)
  qed
qed simp

section \<open>The real-time thread\<close>

text \<open>
  One cycle of the thread of task \<open>n\<close>: the command handler, the controller, and \<open>rtapi_wait\<close> up to
  the point where it blocks or sleeps.
\<close>

definition example_cycle :: "nat \<Rightarrow> int \<Rightarrow> timespec \<Rightarrow> example \<Rightarrow> example res" where
  "example_cycle n now clk x =
     bnd (taskCommandHandler (Some n) x) (\<lambda>x.
     bnd (taskController now x) (\<lambda>x.
       case task_array (x_app x) ! n of
         S_task t \<Rightarrow> (case wait_enter clk t of (w, t) \<Rightarrow>
           Inr (upd_app (\<lambda>a. unexpected_realtime_delay w (put_slot n (S_task t) a)) x))
       | _ \<Rightarrow> Inl UB))"

text \<open>
  The interleavings of the control side and the thread. A cycle starts when the thread is in its code, and
  a paused thread goes on when \<open>resume_sem\<close> has been posted.
\<close>

inductive ex_step :: "nat \<Rightarrow> example \<Rightarrow> example \<Rightarrow> bool" for n where
  Send: "send_command c d x = Inr (r, y) \<Longrightarrow> ex_step n x y"
| Cycle: "task_array (x_app x) ! n = S_task t \<Longrightarrow> tk_thr t = Th_code \<Longrightarrow> example_cycle n now clk x = Inr y \<Longrightarrow> ex_step n x y"
| Resume: "task_array (x_app x) ! n = S_task t \<Longrightarrow> tk_thr t = Th_paused \<Longrightarrow> tk_resume_sem t > 0 \<Longrightarrow>
    wait_resumed clk t = (w, t') \<Longrightarrow>
    ex_step n x (upd_app (\<lambda>a. unexpected_realtime_delay w (put_slot n (S_task t') a)) x)"

text \<open>Of the HAL, commands and the controller change the signals of pins only.\<close>

definition pins_written :: "hal \<Rightarrow> hal \<Rightarrow> bool" where
  "pins_written h h' \<longleftrightarrow> (\<exists>pn. h' = h\<lparr>pins := pn\<rparr> \<and> (\<forall>q. \<exists>v. pn q = (pins h q)\<lparr>p_dummysig := v\<rparr>))"

lemma own_signal: "\<exists>v. (s :: hal_pin) = s\<lparr>p_dummysig := v\<rparr>"
  by (rule exI [of _ "p_dummysig s"]) simp

lemma pins_written_refl [simp]: "pins_written h h"
  unfolding pins_written_def by (rule exI [of _ "pins h"]) (simp add: own_signal)

lemma pins_written_trans:
  assumes "pins_written h1 h2" "pins_written h2 h3"
  shows "pins_written h1 h3"
proof -
  from assms(1) obtain pn where 2: "h2 = h1\<lparr>pins := pn\<rparr>" "\<forall>q. \<exists>v. pn q = (pins h1 q)\<lparr>p_dummysig := v\<rparr>"
    by (auto simp: pins_written_def)
  from assms(2) obtain pn' where 3: "h3 = h2\<lparr>pins := pn'\<rparr>" "\<forall>q. \<exists>v. pn' q = (pins h2 q)\<lparr>p_dummysig := v\<rparr>"
    by (auto simp: pins_written_def)
  have "\<exists>v. pn' q = (pins h1 q)\<lparr>p_dummysig := v\<rparr>" for q
  proof -
    from 3(2) obtain v where "pn' q = (pn q)\<lparr>p_dummysig := v\<rparr>" by (auto simp: 2(1))
    moreover from 2(2) obtain u where "pn q = (pins h1 q)\<lparr>p_dummysig := u\<rparr>" by blast
    ultimately show ?thesis by auto
  qed
  moreover have "h3 = h1\<lparr>pins := pn'\<rparr>" by (simp add: 3(1) 2(1))
  ultimately show ?thesis unfolding pins_written_def by blast
qed

lemma pins_written_upd: "pins_written h (upd_pin q (\<lambda>s. s\<lparr>p_dummysig := v\<rparr>) h)"
  unfolding pins_written_def upd_pin_def
  by (intro exI conjI, rule refl) (auto simp: own_signal)

definition same_place :: "example \<Rightarrow> example \<Rightarrow> bool" where
  "same_place x y \<longleftrightarrow> pins_written (x_hal x) (x_hal y) \<and> s_shm (x_sys y) = s_shm (x_sys x) \<and>
     mot_comp_id y = mot_comp_id x \<and> emc_shmem_id y = emc_shmem_id x"

lemma same_place_refl [simp]: "same_place x x"
  by (simp add: same_place_def)

lemma same_place_trans: "same_place x y \<Longrightarrow> same_place y z \<Longrightarrow> same_place x z"
  using pins_written_trans by (auto simp: same_place_def)

lemma same_place_write:
  assumes "write_pin p v x = Inr y"
  shows "same_place x y"
proof -
  from assms obtain a where "(case a of D_sig q \<Rightarrow> Inr (upd_hal (upd_pin q (\<lambda>s. s\<lparr>p_dummysig := v\<rparr>)) x) | _ \<Rightarrow> Inl UB) = Inr y"
    unfolding write_pin_def bnd_Inr_iff by blast
  then obtain q where y: "y = upd_hal (upd_pin q (\<lambda>s. s\<lparr>p_dummysig := v\<rparr>)) x" by (cases a) auto
  show ?thesis unfolding y by (simp add: same_place_def upd_hal_def pins_written_upd)
qed

lemma same_place_command:
  assumes "run_command self c d x = Inr y"
  shows "same_place x y"
proof -
  have app: "same_place x (upd_app f x)" for f by (simp add: same_place_def upd_app_def)
  have set: "same_place x y" if "write_if_set p v x = Inr y" for p v
    using that by (auto simp: write_if_set_def bnd_Inr_iff dest: same_place_write split: if_splits)
  show ?thesis using assms set app by (cases c) (auto simp: Let_def split: if_splits)
qed

text \<open>What the controller leaves alone.\<close>

definition keeps_task :: "example \<Rightarrow> example \<Rightarrow> bool" where
  "keeps_task x y \<longleftrightarrow> x_app y = x_app x \<and> taskShared y = taskShared x \<and>
     ch_head (shared y) = ch_head (shared x) \<and> ch_tail (shared y) = ch_tail (shared x) \<and>
     command_mutex (shared y) = command_mutex (shared x) \<and> same_place x y"

lemma keeps_task_refl [simp]: "keeps_task x x"
  by (simp add: keeps_task_def)

lemma keeps_task_trans: "keeps_task x y \<Longrightarrow> keeps_task y z \<Longrightarrow> keeps_task x z"
  using same_place_trans by (auto simp: keeps_task_def)

lemma keeps_task_write: "write_pin p v x = Inr y \<Longrightarrow> keeps_task x y"
  using write_pin_keeps [of p v x y] same_place_write [of p v x y] by (simp add: keeps_task_def)

lemma keeps_task_frame [simp]:
  "keeps_task z (x\<lparr>last_target := v\<rparr>) = keeps_task z x" "keeps_task z (x\<lparr>error_count := k\<rparr>) = keeps_task z x"
  "keeps_task (x\<lparr>last_target := v\<rparr>) z = keeps_task x z" "keeps_task (x\<lparr>error_count := k\<rparr>) z = keeps_task x z"
  "keeps_task z (upd_shared (\<lambda>s. s\<lparr>last_wakeup_ns := now\<rparr>) x) = keeps_task z x"
  "keeps_task z (upd_shared (\<lambda>s. s\<lparr>heartbeat := b, cycle_count := c\<rparr>) x) = keeps_task z x"
  by (simp_all add: keeps_task_def same_place_def) (simp_all add: upd_shared_def)

lemma control_enabled_keeps: "control_enabled t r p v x = Inr y \<Longrightarrow> keeps_task x y"
  unfolding control_enabled_def bnd_Inr_iff Let_def
  by (elim exE conjE, auto split: if_splits dest!: keeps_task_write) (metis keeps_task_trans)+

lemma control_disabled_keeps: "control_disabled t x = Inr y \<Longrightarrow> keeps_task x y"
  unfolding control_disabled_def bnd_Inr_iff Let_def
  by (elim exE conjE) (auto simp: bnd_Inr_iff split: if_splits dest!: keeps_task_write dest: keeps_task_trans)

lemma beat_keeps: "beat x = Inr y \<Longrightarrow> keeps_task x y"
  by (auto simp: beat_def bnd_Inr_iff split: seg_ptr.splits)

lemma cycle_keeps:
  assumes 1: "(if e then control_enabled t r p v x else control_disabled t x) = Inr x1"
    and 2: "beat x1 = Inr x2" and 3: "write_pin heartbeat_out b x2 = Inr x3"
    and y: "Inr (if c then x3 else upd_shared (\<lambda>s. s\<lparr>last_wakeup_ns := now\<rparr>) x3) = Inr y"
  shows "keeps_task x y"
proof -
  have "keeps_task x x1" using 1 control_enabled_keeps control_disabled_keeps by (auto split: if_splits)
  from keeps_task_trans [OF keeps_task_trans [OF this beat_keeps [OF 2]] keeps_task_write [OF 3]]
  show ?thesis using y by (auto split: if_splits)
qed

lemma taskController_keeps:
  assumes "taskController now x = Inr y"
  shows "keeps_task x y"
proof (cases "taskHalData x = None")
  case True
  then show ?thesis using assms by (simp add: taskController_def)
next
  case False
  from assms show ?thesis
    unfolding taskController_def if_not_P [OF False] bnd_Inr_iff by (elim exE conjE) (rule cycle_keeps)
qed

section \<open>A pause is final\<close>

text \<open>The thread of task \<open>n\<close> waits in \<open>rtapi_wait\<close> for a resume request that nobody has made.\<close>

definition stuck :: "nat \<Rightarrow> example \<Rightarrow> bool" where
  "stuck n x \<longleftrightarrow> (\<exists>t. task_array (x_app x) ! n = S_task t \<and> tk_thr t = Th_paused \<and> tk_resume_sem t = 0)"

lemma send_command_keeps:
  assumes "send_command c d x = Inr (r, y)"
  shows "x_sys y = x_sys x" "heartbeat (shared y) = heartbeat (shared x)" "ch_tail (shared y) = ch_tail (shared x)"
proof -
  have "x_sys y = x_sys x \<and> heartbeat (shared y) = heartbeat (shared x) \<and> ch_tail (shared y) = ch_tail (shared x)"
    using assms by (auto simp: send_command_def bnd_Inr_iff upd_shared_def split: seg_ptr.splits)
  then show "x_sys y = x_sys x" "heartbeat (shared y) = heartbeat (shared x)" "ch_tail (shared y) = ch_tail (shared x)" by simp_all
qed

lemma stuck_step:
  assumes "ex_step n x y" "stuck n x"
  shows "stuck n y \<and> heartbeat (shared y) = heartbeat (shared x) \<and> ch_tail (shared y) = ch_tail (shared x)"
  using assms
proof cases
  case (Send c d r)
  from send_command_keeps [OF this] assms(2) show ?thesis by (simp add: stuck_def)
qed (use assms(2) in \<open>auto simp: stuck_def\<close>)

lemma stuck_steps:
  assumes "(ex_step n)\<^sup>*\<^sup>* x y" "stuck n x"
  shows "stuck n y \<and> heartbeat (shared y) = heartbeat (shared x) \<and> ch_tail (shared y) = ch_tail (shared x)"
  using assms by (induction rule: rtranclp_induct) (auto dest: stuck_step)

text \<open>A running task in its code, without requests.\<close>

definition in_code :: "nat \<Rightarrow> posix_task \<Rightarrow> example \<Rightarrow> bool" where
  "in_code n t x \<longleftrightarrow> n < MAX_TASKS \<and> length (task_array (x_app x)) = MAX_TASKS \<and> task_array (x_app x) ! n = S_task t \<and>
     tk_magic t = TASK_MAGIC \<and> tk_id t = int n \<and> tk_state t = TASK_S_RUNNING \<and> tk_thr t = Th_code \<and>
     tk_pause_sem t = 0 \<and> tk_resume_sem t = 0"

lemma pause_command_run:
  assumes "in_code n t x"
  shows "\<exists>y. run_command (Some n) TASK_CMD_PAUSE d x = Inr y \<and>
    x_app y = put_slot n (S_task (t\<lparr>tk_state := TASK_S_PAUSED, tk_pause_sem := 1\<rparr>)) (x_app x)"
  using assms by (auto simp: in_code_def task_self_def own_task_def task_pause_def get_task_def upd_app_def)

lemma paused_cycle:
  assumes "in_code n t x" "open_channel x" "ch_head (shared x) \<noteq> ch_tail (shared x)"
    and "command_id (shared x) = TASK_CMD_PAUSE" "example_cycle n now clk x = Inr y"
  shows "stuck n y \<and> ch_tail (shared y) = ch_head (shared x)"
proof -
  let ?t = "t\<lparr>tk_state := TASK_S_PAUSED, tk_pause_sem := 1\<rparr>"
  obtain x1 where x1: "run_command (Some n) TASK_CMD_PAUSE (command_data (shared x)) x = Inr x1"
    "x_app x1 = put_slot n (S_task ?t) (x_app x)" using pause_command_run [OF assms(1)] by blast
  have h: "taskCommandHandler (Some n) x = Inr (taken x1)"
    using handler_run [OF assms(2)] assms(3,4) x1(1) by simp
  obtain x2 where x2: "taskController now (taken x1) = Inr x2" using assms(5) by (auto simp: example_cycle_def h bnd_Inr_iff)
  note K = taskController_keeps [OF x2, unfolded keeps_task_def]
  have sl: "task_array (x_app x2) ! n = S_task ?t" "length (task_array (x_app x2)) = MAX_TASKS"
    using K x1(2) assms(1) by (simp_all add: taken_def put_slot_def in_code_def)
  have y: "y = upd_app (\<lambda>a. put_slot n (S_task (?t\<lparr>tk_pause_sem := 0, tk_thr := Th_paused\<rparr>)) a) x2"
    using assms(5) by (simp add: example_cycle_def h x2 sl wait_enter_def unexpected_realtime_delay_def)
  have "ch_tail (shared y) = ch_head (shared x)"
    using K run_command_keeps(1) [OF x1(1)] by (simp add: y upd_app_def taken_def)
  moreover have "stuck n y" using sl assms(1) by (simp add: y stuck_def upd_app_def put_slot_def in_code_def)
  ultimately show ?thesis by simp
qed

section \<open>Properties\<close>

text \<open>
  Property C30: the command channel is a mailbox for one command. After any number of commands sent between
  two cycles, the handler executes the last one, and the others are lost although every call of
  \<open>send_command\<close> returned 0. The command is then consumed: another run of the handler does nothing. While
  the control side holds the lock the handler does nothing either.
\<close>

theorem command_channel_is_mailbox:
  assumes "open_channel x" "cs \<noteq> []" "ch_head (shared x) = ch_tail (shared x)"
    and "INT_MIN \<le> ch_head (shared x)" "ch_head (shared x) + int (length cs) \<le> INT_MAX"
  defines "k \<equiv> ch_head (shared x) + int (length cs)"
  defines "put \<equiv> upd_shared (\<lambda>s. s\<lparr>command_id := fst (last cs), command_data := snd (last cs), ch_head := k, ch_tail := k\<rparr>)"
  shows "\<exists>y. send_all cs x = Inr y \<and>
    taskCommandHandler self y = bnd (run_command self (fst (last cs)) (snd (last cs)) x) (\<lambda>z. Inr (put z)) \<and>
    (\<forall>z. taskCommandHandler self y = Inr z \<longrightarrow> taskCommandHandler self z = Inr z) \<and>
    (\<forall>m. locked m \<longrightarrow> taskCommandHandler self (upd_shared (\<lambda>s. s\<lparr>command_mutex := m\<rparr>) y) =
       Inr (upd_shared (\<lambda>s. s\<lparr>command_mutex := m\<rparr>) y))"
proof -
  let ?c = "fst (last cs)" and ?d = "snd (last cs)"
  define y where "y = upd_shared (\<lambda>s. s\<lparr>command_id := ?c, command_data := ?d, ch_head := k\<rparr>) x"
  have snd: "send_all cs x = Inr y"
    using send_all_run [OF assms(1,4,5,2)] by (simp add: y_def k_def upd_shared_def)
  have op: "open_channel y" and ne: "ch_head (shared y) \<noteq> ch_tail (shared y)"
    using assms(1-3) by (simp_all add: y_def open_channel_def k_def)
  have put: "taken (upd_shared (\<lambda>s. s\<lparr>command_id := ?c, command_data := ?d, ch_head := k\<rparr>) z) = put z" for z
    by (simp add: taken_def put_def upd_shared_def)
  have run: "taskCommandHandler self y = bnd (run_command self ?c ?d x) (\<lambda>z. Inr (put z))"
    using ne by (simp add: handler_run [OF op]) (simp add: y_def run_command_shared bnd_assoc put)
  have idle: "taskCommandHandler self z = Inr z" if "taskCommandHandler self y = Inr z" for z
  proof -
    from that run obtain w where w: "run_command self ?c ?d x = Inr w" and z: "z = put w" by (auto simp: bnd_Inr_iff)
    have "open_channel z" using run_command_keeps [OF w] assms(1) by (simp add: z put_def open_channel_def)
    then show ?thesis by (simp add: handler_run) (simp add: z put_def)
  qed
  have busy: "taskCommandHandler self (upd_shared (\<lambda>s. s\<lparr>command_mutex := m\<rparr>) y) = Inr (upd_shared (\<lambda>s. s\<lparr>command_mutex := m\<rparr>) y)"
    if "locked m" for m
    by (rule taskCommandHandler_busy) (use op that in \<open>simp_all add: open_channel_def\<close>)
  from snd run idle busy show ?thesis by blast
qed

theorem command_channel_is_mailbox_witness:
  "\<exists>y. send_all [(TASK_CMD_SET_TARGET, 7), (TASK_CMD_SET_TARGET, 500)] task_example = Inr y \<and>
     (\<exists>z. taskCommandHandler None y = Inr z \<and> pin_value pins_example target_pos z = 500)"
proof -
  have w: "wired pins_example task_example" using task_example_able [of 0] by (simp add: able_def)
  have ch: "open_channel task_example" "ch_head (shared task_example) = 0" "ch_tail (shared task_example) = 0"
    by (simp_all add: task_example_def open_channel_def zero_shared_def)
  have "run_command None TASK_CMD_SET_TARGET 500 task_example = Inr (set_pin pins_example target_pos 500 task_example)"
    using wired_ptr [OF w, of target_pos] w by (auto simp: write_if_set_def)
  then show ?thesis
    using command_channel_is_mailbox [OF ch(1), of "[(TASK_CMD_SET_TARGET, 7), (TASK_CMD_SET_TARGET, 500)]" None]
    by (auto simp: ch INT_MIN_def INT_MAX_def w)
qed

text \<open>
  Property C31: a pause requested through the channel is final. The cycle that executes \<open>TASK_CMD_PAUSE\<close>
  ends with the thread waiting for \<open>resume_sem\<close>. Only that thread executes commands, so whatever
  the control side sends afterwards, a \<open>TASK_CMD_RESUME\<close> included, in every later state the thread still
  waits, no command has been taken, and the heartbeat stands still.
\<close>

theorem pause_command_is_final:
  assumes "in_code n t x" "open_channel x" "ch_head (shared x) \<noteq> ch_tail (shared x)"
    and "command_id (shared x) = TASK_CMD_PAUSE" "example_cycle n now clk x = Inr y" "(ex_step n)\<^sup>*\<^sup>* y z"
  shows "(\<exists>t'. task_array (x_app z) ! n = S_task t' \<and> tk_thr t' = Th_paused \<and> tk_resume_sem t' = 0) \<and>
    ch_tail (shared z) = ch_head (shared x) \<and> heartbeat (shared z) = heartbeat (shared y)"
  using stuck_steps [OF assms(6)] paused_cycle [OF assms(1-5)] by (auto simp: stuck_def)

definition task_running :: posix_task where
  "task_running = do_task_new\<lparr>tk_magic := TASK_MAGIC, tk_state := TASK_S_RUNNING, tk_thr := Th_code\<rparr>"

definition example_running :: example where
  "example_running = upd_app (put_slot 0 (S_task task_running)) task_example"

theorem pause_command_is_final_witness:
  "\<exists>x y z t. send_command TASK_CMD_PAUSE 0 example_running = Inr (0, x) \<and> example_cycle 0 5 \<lparr>tv_sec = 0, tv_nsec = 0\<rparr> x = Inr y \<and>
     send_command TASK_CMD_RESUME 0 y = Inr (0, z) \<and> task_array (x_app z) ! 0 = S_task t \<and> tk_thr t = Th_paused"
proof -
  have r: "taskShared example_running = SP_mapped" "shared example_running = zero_shared"
    "x_app example_running = put_slot 0 (S_task task_running) rtapp_start"
    by (simp_all add: example_running_def task_example_def upd_app_def)
  let ?x = "posted TASK_CMD_PAUSE 0 example_running"
  have op: "open_channel example_running" by (simp add: open_channel_def r zero_shared_def)
  have snd: "send_command TASK_CMD_PAUSE 0 example_running = Inr (0, ?x)"
    by (rule send_command_run [OF op]) (simp_all add: r zero_shared_def INT_MIN_def INT_MAX_def)
  have code: "in_code 0 task_running ?x"
    by (simp add: in_code_def r put_slot_def rtapp_start_def MAX_TASKS_def task_running_def do_task_new_def)
  have pend: "open_channel ?x" "ch_head (shared ?x) \<noteq> ch_tail (shared ?x)" "command_id (shared ?x) = TASK_CMD_PAUSE"
    using op by simp_all (simp_all add: posted_def r zero_shared_def)
  let ?x1 = "taken (upd_app (\<lambda>a. snd (task_pause 0 a)) ?x)"
  have self: "task_self (Some 0) (x_app ?x) = 0" by (simp add: task_self_def own_task_def r put_slot_def rtapp_start_def
        MAX_TASKS_def task_running_def do_task_new_def)
  have "run_command (Some 0) TASK_CMD_PAUSE (command_data (shared ?x)) ?x = Inr (upd_app (\<lambda>a. snd (task_pause 0 a)) ?x)"
    unfolding run_command.simps self by simp
  then have h: "taskCommandHandler (Some 0) ?x = Inr ?x1" using handler_run [OF pend(1)] pend(2,3) by simp
  have ab: "able pins_example (length [5::int]) ?x1"
    using task_example_able [of 1] by (simp add: able_def taken_def posted_def example_running_def)
      (simp add: upd_app_def task_example_def)
  have p: "pin_value pins_example q ?x1 = pin_value pins_example q task_example" for q
    by (simp add: taken_def posted_def example_running_def)
  have "max_velocity ?x1 = 1000" by (simp add: taken_def posted_def example_running_def) (simp add: upd_app_def task_example_def)
  with controller_reaches_target [OF ab] obtain x2 where "control_cycles [5] ?x1 = Inr x2"
    by (auto simp: p task_example_pins inside_def INT_MIN_def INT_MAX_def feed_one_double)
  then have x2: "taskController 5 ?x1 = Inr x2" by (auto simp: bnd_Inr_iff)
  have "x_app x2 = x_app ?x1" using taskController_keeps [OF x2] by (simp add: keeps_task_def)
  moreover have "task_array (x_app ?x1) ! 0 = S_task (task_running\<lparr>tk_state := TASK_S_PAUSED, tk_pause_sem := 1\<rparr>)"
    using code by (simp add: taken_def upd_app_def task_pause_def get_task_def in_code_def put_slot_def)
  ultimately obtain y k where y: "example_cycle 0 5 \<lparr>tv_sec = 0, tv_nsec = 0\<rparr> ?x = Inr y" and ye: "y = upd_app k x2"
    by (simp add: example_cycle_def h x2 wait_enter_def)
  have "taskShared ?x1 = SP_mapped \<and> command_mutex (shared ?x1) = 0 \<and> ch_head (shared ?x1) = 1"
    by (simp add: taken_def posted_def) (simp add: upd_app_def r zero_shared_def)
  then have "taskShared y = SP_mapped \<and> \<not> locked (command_mutex (shared y)) \<and> ch_head (shared y) = 1"
    using taskController_keeps [OF x2] by (simp add: ye upd_app_def keeps_task_def)
  then have "send_command TASK_CMD_RESUME 0 y = Inr (0, posted TASK_CMD_RESUME 0 y)"
    by (intro send_command_run) (simp_all add: open_channel_def INT_MIN_def INT_MAX_def)
  moreover from pause_command_is_final [OF code pend y r_into_rtranclp [of "ex_step 0", OF ex_step.Send [OF this]]]
  obtain t where "task_array (x_app (posted TASK_CMD_RESUME 0 y)) ! 0 = S_task t" "tk_thr t = Th_paused" by blast
  ultimately show ?thesis using snd y by blast
qed

end
