(* ===== verification/Task_Period.thy ===== *)
theory Task_Period
  imports Task_Control
begin

text \<open>
  The cycle times of the example task (\<open>ExampleTask/task.c\<close>): a period in nanoseconds is passed on as
  a number of seconds of type \<open>double\<close>, and turned back into nanoseconds. Below \<open>2\<^sup>5\<^sup>0\<close> nanoseconds
  (13 days) nothing is lost.
\<close>

section \<open>The code\<close>

definition f1e9 :: fl where "f1e9 = fl_round binary64 1000000000"
definition f1e_9 :: fl where "f1e_9 = fl_round binary64 (1 / 1000000000)"

text \<open>\<open>(double)nsec * 1e-9\<close> and \<open>(long)(secs * 1e9)\<close>\<close>

definition to_secs :: "int \<Rightarrow> fl" where
  "to_secs nsec = fl_mul binary64 (fl_of_int binary64 nsec) f1e_9"

definition to_nsec :: "fl \<Rightarrow> int res" where
  "to_nsec secs = fl_to_int 64 (fl_mul binary64 secs f1e9)"

text \<open>\<open>task_config_change\<close> prints two parameters: it reads the block.\<close>

definition task_config_change :: "example \<Rightarrow> example res" where
  "task_config_change x =
     (if taskHalData x = None \<or> hal_data (x_hal x) \<noteq> SP_mapped then Inl UB else Inr x)"

definition settaskCycleTime :: "fl \<Rightarrow> example \<Rightarrow> (int \<times> example) res" where
  "settaskCycleTime secs x =
     (if fl_le secs (Fin 0) then Inr (- 1, x)
      else bnd (to_nsec secs) (\<lambda>n.
           bnd (task_config_change (x\<lparr>task_period_nsec := word_of_int n\<rparr>)) (\<lambda>x. Inr (0, x))))"

definition setsubtaskCycleTime :: "fl \<Rightarrow> example \<Rightarrow> (int \<times> example) res" where
  "setsubtaskCycleTime secs x =
     (if fl_le secs (Fin 0) then Inr (- 1, x)
      else bnd (to_nsec secs) (\<lambda>n. Inr (0, x\<lparr>subtask_period_nsec := word_of_int n\<rparr>)))"

text \<open>
  \<open>task_period_nsec / nsec\<close> divides a \<open>long\<close> by an \<open>unsigned long\<close>: the division is unsigned. Its
  conversion to \<open>int\<close> wraps.
\<close>

definition taskSetCycleTime :: "64 word \<Rightarrow> example \<Rightarrow> example res" where
  "taskSetCycleTime nsec x =
     (if nsec = 0 then Inr x
      else
        let mult = (if subtask_period_nsec x \<noteq> 0 then to_s32 (uint (task_period_nsec x div nsec)) else 1);
            mult = (if mult < 1 then 1 else mult)
        in bnd (settaskCycleTime (to_secs (uint nsec)) x) (\<lambda>(_, x).
           bnd (setsubtaskCycleTime (to_secs (uint (nsec * word_of_int mult))) x) (\<lambda>(_, x). Inr x)))"

section \<open>The two constants\<close>

lemma round64_exists:
  assumes "\<bar>x\<bar> \<le> 2 powi k" "- 1074 \<le> k" "k < 1024"
  shows "\<exists>y. fl_round binary64 x = Fin y"
  using fl_round_bound [OF assms(1), of binary64] assms(2,3) by auto

lemma round64_int:
  assumes "\<bar>n\<bar> < 2 ^ 53"
  shows "fl_round binary64 (of_int n) = Fin (of_int n)"
proof -
  have p: "(2::rat) powi 53 = 2 ^ 53" by (simp add: power_int_def)
  have "\<bar>of_int n :: rat\<bar> < of_int (2 ^ 53)" unfolding of_int_abs [symmetric] of_int_less_iff using assms .
  then have b: "\<bar>of_int n :: rat\<bar> < 2 powi 53" by (simp add: p)
  then obtain y where y: "fl_round binary64 (of_int n) = Fin y" using round64_exists [of "of_int n" 53] by auto
  then obtain e where e: "last_bit binary64 (of_int n) = Some e"
    and ye: "y = of_int (rnd_even (of_int n / 2 powi e)) * 2 powi e"
    by (auto simp: fl_round_def Let_def split: option.splits if_splits)
  have "e \<le> 0"
  proof (rule ccontr)
    assume "\<not> e \<le> 0"
    then have "(2::rat) powi 53 \<le> 2 powi (e - 1 + 53)" by (intro power_int_increasing) simp_all
    moreover have "2 powi (e - 1 + 53) \<le> \<bar>of_int n :: rat\<bar>" using last_bit_Some(4) [OF e] \<open>\<not> e \<le> 0\<close> by auto
    ultimately show False using b by linarith
  qed
  from powi_split [OF this] have "of_int n / 2 powi e = of_int (n * 2 ^ nat (- e)) * (1 :: rat)"
    by (simp add: nonzero_divide_eq_eq mult.assoc)
  then have "rnd_even (of_int n / 2 powi e) = n * 2 ^ nat (- e)" by (simp only: mult_1_right rnd_even_int)
  then show ?thesis using powi_split [OF \<open>e \<le> 0\<close>] by (simp add: y ye mult.assoc)
qed

lemma f1e9_eq: "f1e9 = Fin 1000000000"
  using round64_int [of 1000000000] by (simp add: f1e9_def)

lemma f1e_9_eq: "f1e_9 = Fin (4835703278458517 / 2 ^ 82)"
proof -
  have p: "(2::rat) powi (- 30) = 1 / 2 ^ 30" "(2::rat) powi (- 29) = 1 / 2 ^ 29" "(2::rat) powi (- 82) = 1 / 2 ^ 82"
    by (simp_all add: power_int_def power_divide)
  have lb: "last_bit binary64 (1 / 1000000000) = Some (- 82)"
    by (rule last_bit_eq) (simp_all add: p)
  have "rnd_even (2 ^ 82 / 1000000000) = 4835703278458517"
    by (rule antisym; (rule rnd_even_le | rule rnd_even_ge)) simp_all
  then have r: "rnd_even (1 / 1000000000 / 2 powi (- 82)) = 4835703278458517" by (simp add: p)
  have "(1::rat) \<le> 2 powi 1024" using power_int_increasing [of 0 1024 "2::rat"] by simp
  then have "(4835703278458517 / 2 ^ 82 :: rat) < 2 powi 1024" by (rule less_le_trans [rotated]) simp
  then show ?thesis
    unfolding f1e_9_def fl_round_def lb option.case Let_def r by (simp add: p)
qed

section \<open>There and back\<close>

lemma to_secs_to_nsec:
  assumes "1 \<le> n" "n < 2 ^ 50"
  shows "\<exists>a. to_secs n = Fin a \<and> 0 < a \<and> to_nsec (Fin a) = Inr n"
proof -
  define u :: rat where "u = 1 / 2 ^ 53"
  have u: "(2::rat) powi (- int (fmt_prec binary64)) = u" by (simp add: u_def power_int_def power_divide)
  define c :: rat where "c = 4835703278458517 / 2 ^ 82"
  have c: "1 / 2 ^ 30 \<le> c" "c \<le> 1" "1 - 9 / 20 * u \<le> 1000000000 * c * (1 - u)" "1000000000 * c * (1 + u) \<le> 1 + 8 / 5 * u"
    by (simp_all add: c_def u_def)
  let ?n = "of_int n :: rat"
  have "?n \<le> of_int (2 ^ 50)" "of_int 1 \<le> ?n" by (simp_all only: of_int_le_iff) (use assms in simp_all)
  then have n: "1 \<le> ?n" "?n \<le> 2 ^ 50" by simp_all
  define a0 where "a0 = ?n * c"
  have "1 * c \<le> a0" "a0 \<le> 2 ^ 50 * 1" unfolding a0_def by (rule mult_mono; use n c in simp)+
  then have a0: "1 / 2 ^ 30 \<le> a0" "a0 \<le> 2 ^ 50" using c(1) by simp_all
  have p30: "(2::rat) powi (- 30) = 1 / 2 ^ 30" and p50: "(2::rat) powi 50 = 2 ^ 50" by (simp_all add: power_int_def power_divide)
  have pos: "0 < a0" using a0(1) by (rule less_le_trans [rotated]) simp
  then obtain a where a: "fl_round binary64 a0 = Fin a" using round64_exists [of a0 50] a0(2) by (auto simp: p50)
  have tiny: "(2::rat) powi (- 1022) \<le> 2 powi (- 30)" by (rule power_int_increasing) simp_all
  have "\<bar>a - a0\<bar> \<le> \<bar>a0\<bar> * 2 powi (- int (fmt_prec binary64))"
    by (rule fl_round_near [OF a]) (use tiny a0(1) pos in \<open>simp add: p30\<close>)
  then have near: "\<bar>a - a0\<bar> \<le> a0 * u" using pos unfolding u by simp
  have ua: "u \<le> 1 / 4" "0 < u" by (simp_all add: u_def)
  define b0 where "b0 = a * 1000000000"
  have lo: "a0 * (1 - u) \<le> a" and hi: "a \<le> a0 * (1 + u)" using near by (simp_all add: abs_le_iff algebra_simps)
  have "?n * (1 - 9 / 20 * u) \<le> ?n * (1000000000 * c * (1 - u))" using c(3) n(1) by (intro mult_left_mono) simp_all
  also have "\<dots> = a0 * (1 - u) * 1000000000" by (simp add: a0_def)
  also have "\<dots> \<le> b0" using lo by (simp add: b0_def)
  finally have b_lo: "?n * (1 - 9 / 20 * u) \<le> b0" .
  have "b0 \<le> a0 * (1 + u) * 1000000000" using hi by (simp add: b0_def)
  also have "\<dots> = ?n * (1000000000 * c * (1 + u))" by (simp add: a0_def)
  also have "\<dots> \<le> ?n * (1 + 8 / 5 * u)" using c(4) n(1) by (intro mult_left_mono) simp_all
  finally have b_hi: "b0 \<le> ?n * (1 + 8 / 5 * u)" .
  have nu: "?n * u \<le> 1 / 8" using mult_right_mono [OF n(2), of u] by (simp add: u_def)
  have nu0: "0 < ?n * u" using n(1) ua(2) by simp
  have b2: "b0 \<le> 2 ^ 50 + 1" "1 / 2 \<le> b0" using b_lo b_hi nu n by (simp_all add: algebra_simps)
  have p51: "(2::rat) powi 51 = 2 ^ 51" "(2::rat) powi 53 = 2 ^ 53" "(2::rat) powi (- 1) = 1 / 2" by (simp_all add: power_int_def)
  have "\<bar>b0\<bar> \<le> 2 powi 51" using b2 by (simp add: p51)
  then obtain y where y: "fl_round binary64 b0 = Fin y" using round64_exists [of b0 51] by auto
  have "?n \<le> y"
    by (rule fl_round_reaches [OF y]) (unfold u, use assms b_lo nu0 b2 in \<open>simp_all add: p51 algebra_simps\<close>)
  moreover have "y < ?n + 1"
  proof -
    have tiny: "(2::rat) powi (- 1022) \<le> 2 powi (- 1)" by (rule power_int_increasing) simp_all
    have "\<bar>y - b0\<bar> \<le> \<bar>b0\<bar> * 2 powi (- int (fmt_prec binary64))"
      by (rule fl_round_near [OF y]) (use tiny b2 in \<open>simp add: p51\<close>)
    then have "y \<le> b0 + b0 * u" using b2 unfolding u by (simp add: abs_le_iff)
    also have "b0 * u \<le> (2 ^ 50 + 1) * u" using b2(1) ua by (intro mult_right_mono) simp_all
    also have "(2 ^ 50 + 1) * u \<le> 1 / 4" by (simp add: u_def)
    finally show ?thesis using b_hi nu by (simp add: algebra_simps)
  qed
  ultimately have "rat_trunc y = n" using n(1) by (simp add: rat_trunc_def floor_eq_iff)
  moreover have "0 < a" using less_le_trans [OF _ lo] pos ua by (simp add: mult_pos_pos)
  moreover have "to_secs n = Fin a"
    using a round64_int [of n] assms by (simp add: to_secs_def fl_of_int_def f1e_9_eq a0_def c_def)
  moreover have "to_nsec (Fin a) = Inr (rat_trunc y)" if "rat_trunc y = n"
    using y that assms by (simp add: to_nsec_def f1e9_eq b0_def [symmetric])
  ultimately show ?thesis by auto
qed

lemma settask_run:
  assumes "1 \<le> n" "n < 2 ^ 50" "taskHalData x \<noteq> None" "hal_data (x_hal x) = SP_mapped"
  shows "settaskCycleTime (to_secs n) x = Inr (0, x\<lparr>task_period_nsec := word_of_int n\<rparr>)"
    "setsubtaskCycleTime (to_secs n) x = Inr (0, x\<lparr>subtask_period_nsec := word_of_int n\<rparr>)"
  using to_secs_to_nsec [OF assms(1,2)] assms(3,4)
  by (auto simp: settaskCycleTime_def setsubtaskCycleTime_def fl_le_def task_config_change_def)

section \<open>Properties\<close>

text \<open>
  Property C36: setting the cycle time loses nothing. The time goes through \<open>double\<close> seconds and back,
  and for every time below \<open>2\<^sup>5\<^sup>0\<close> nanoseconds exactly the given number of nanoseconds is stored, and
  as the time of the sub-cycle exactly its multiple: the number of times it fits into the old period, at
  least one. Zero changes nothing.
\<close>

theorem cycle_time_roundtrip:
  fixes x :: example and nsec :: "64 word"
  assumes "taskHalData x \<noteq> None" "hal_data (x_hal x) = SP_mapped"
  defines "mult \<equiv> (if subtask_period_nsec x = 0 then 1 else max 1 (uint (task_period_nsec x) div uint nsec))"
  assumes "mult < 2 ^ 31" "uint nsec * mult < 2 ^ 50"
  shows "taskSetCycleTime nsec x = Inr (if nsec = 0 then x
    else x\<lparr>task_period_nsec := nsec, subtask_period_nsec := nsec * word_of_int mult\<rparr>)"
proof (cases "nsec = 0")
  case False
  let ?m = "if subtask_period_nsec x \<noteq> 0 then to_s32 (uint (task_period_nsec x div nsec)) else 1"
  have pos: "1 \<le> uint nsec" using False uint_ge_0 [of nsec] unsigned_eq_0_iff [of nsec, where ?'a = int] by linarith
  have m1: "1 \<le> mult" by (simp add: mult_def)
  have "uint nsec * 1 \<le> uint nsec * mult" using m1 by (intro mult_left_mono) simp_all
  then have n: "uint nsec < 2 ^ 50" using assms(5) by simp
  have q: "uint (task_period_nsec x div nsec) = uint (task_period_nsec x) div uint nsec" by (rule uint_div_distrib)
  have v: "0 \<le> uint (task_period_nsec x) div uint nsec" using pos by (simp add: pos_imp_zdiv_nonneg_iff)
  have m: "(if ?m < 1 then 1 else ?m) = mult"
  proof (cases "subtask_period_nsec x = 0")
    case sub: False
    then have "uint (task_period_nsec x) div uint nsec < 2 ^ 31" using assms(4) by (simp add: mult_def)
    then have "to_s32 (uint (task_period_nsec x) div uint nsec) = uint (task_period_nsec x) div uint nsec"
      using v by (intro to_s32_id) simp_all
    then show ?thesis using sub by (simp add: mult_def q max_def)
  qed (simp add: mult_def)
  have prod: "1 \<le> uint nsec * mult" using mult_mono [of 1 "uint nsec" 1 mult] pos m1 by simp
  have w: "uint (nsec * word_of_int mult) = uint nsec * mult"
  proof -
    have "nsec * word_of_int mult = word_of_int (uint nsec * mult)" by simp
    then have "uint (nsec * word_of_int mult) = (uint nsec * mult) mod 2 ^ 64" by (simp only: uint_word_of_int) simp
    also have "\<dots> = uint nsec * mult" using prod assms(5) by (intro mod_pos_pos_trivial) simp_all
    finally show ?thesis .
  qed
  let ?y = "x\<lparr>task_period_nsec := nsec\<rparr>"
  have t: "settaskCycleTime (to_secs (uint nsec)) x = Inr (0, ?y)"
    using settask_run(1) [OF pos n assms(1,2)] by simp
  have s: "setsubtaskCycleTime (to_secs (uint (nsec * word_of_int mult))) ?y = Inr (0, ?y\<lparr>subtask_period_nsec := nsec * word_of_int mult\<rparr>)"
    unfolding w using settask_run(2) [OF prod assms(5), of ?y] assms(1,2) by simp
  show ?thesis using False t s by (simp only: taskSetCycleTime_def Let_def m if_False bnd.simps prod.case)
qed (simp add: taskSetCycleTime_def)

theorem cycle_time_roundtrip_witness:
  "\<exists>y. taskSetCycleTime 500000 task_example = Inr y \<and> task_period_nsec y = 500000 \<and> subtask_period_nsec y = 500000"
  using cycle_time_roundtrip [of task_example 500000] by (simp add: task_example_def)

end
