(* ===== verification/Task_Setup.thy ===== *)
theory Task_Setup
  imports Task_Command Task_Period Hal_Create
begin

text \<open>
  Start and end of the example task (\<open>ExampleTask/task.c\<close>): the pins and parameters
  (\<open>init_hal_param\<close>), the shared block (\<open>init_task_comm_buffers\<close>), the thread and its program
  (\<open>init_task_threads\<close>), and their composition \<open>task_thread_main\<close> and \<open>task_thread_exit\<close>.
\<close>

text \<open>
  The environment of the task: that of the HAL, the addresses of the two real-time functions, what a
  newly mapped segment contains, and the two diagnostic functions \<open>task_print_hal_status\<close> and
  \<open>task_print_shmem_state\<close>, which are called and defined nowhere.
\<close>

record tenv =
  te_env :: env
  te_handler :: int
  te_controller :: int
  te_shared :: task_shared
  te_print_hal :: "example \<Rightarrow> example res"
  te_print_shmem :: "example \<Rightarrow> example res"

definition TASK_SHM_KEY :: int where "TASK_SHM_KEY = 0x54534B31"
definition MAX_AXES :: int where "MAX_AXES = 4"

section \<open>Calls of the HAL\<close>

definition in_hal :: "(hal \<Rightarrow> ('a \<times> hal) res) \<Rightarrow> example \<Rightarrow> ('a \<times> example) res" where
  "in_hal f x = bnd (f (x_hal x)) (\<lambda>(r, h). Inr (r, upd_hal (\<lambda>_. h) x))"

definition in_sys :: "(sys \<Rightarrow> ('a \<times> sys) res) \<Rightarrow> example \<Rightarrow> ('a \<times> example) res" where
  "in_sys f x = bnd (f (x_sys x)) (\<lambda>(r, s). Inr (r, x\<lparr>x_sys := s\<rparr>))"

section \<open>Pins and parameters\<close>

text \<open>\<open>PIN_NEW\<close>, once for each entry; the result says whether all pins have been created.\<close>

fun new_pins :: "off \<Rightarrow> (hal_type \<times> td_pin \<times> string) list \<Rightarrow> example \<Rightarrow> (bool \<times> example) res" where
  "new_pins d [] x = Inr (True, x)"
| "new_pins d ((type, p, name) # ps) x =
     bnd (in_hal (hal_pin_newf type (Cell_user (d + td_off p)) (mot_comp_id x) name) x) (\<lambda>(r, x).
       if r \<noteq> 0 then Inr (False, x) else new_pins d ps x)"

definition task_pins :: "(hal_type \<times> td_pin \<times> string) list" where
  "task_pins =
    [(HAL_BIT, enable_in, ''example.enable-in''),
     (HAL_S32, target_pos, ''example.target-pos''),
     (HAL_FLOAT, feed_rate, ''example.feed-rate''),
     (HAL_S32, current_pos, ''example.current-pos''),
     (HAL_BIT, running_out, ''example.running''),
     (HAL_BIT, error_out, ''example.error''),
     (HAL_S32, heartbeat_out, ''example.heartbeat-out'')]"

fun write_pins :: "(td_pin \<times> int) list \<Rightarrow> example \<Rightarrow> example res" where
  "write_pins [] x = Inr x"
| "write_pins ((p, v) # ps) x = bnd (write_pin p v x) (write_pins ps)"

text \<open>The double 1.0 is given by its bits.\<close>

definition start_values :: "(td_pin \<times> int) list" where
  "start_values = [(enable_in, 0), (target_pos, 0), (feed_rate, feed_one), (current_pos, 0), (running_out, 0),
     (error_out, 0), (heartbeat_out, 0)]"

definition init_hal_param :: "example \<Rightarrow> (int \<times> example) res" where
  "init_hal_param x =
     bnd (in_hal (hal_malloc sizeof_task_hal_data) x) (\<lambda>(p, x).
       let x = x\<lparr>taskHalData := p\<rparr>
       in case p of
         None \<Rightarrow> Inr (- 1, x)
       | Some d \<Rightarrow>
           bnd (new_pins d task_pins (x\<lparr>max_velocity := 1000, max_accel := 500\<rparr>)) (\<lambda>(ok, x).
           if \<not> ok then Inr (- 1, x)
           else bnd (write_pins start_values x) (\<lambda>x.
             bnd (in_hal (hal_param_s32_new ''example.max-velocity'' HAL_RW HAL_S32 (A_user (d + off_max_velocity))
                    (mot_comp_id x)) x) (\<lambda>(r, x).
             if r \<noteq> 0 then Inr (- 1, x)
             else bnd (in_hal (hal_param_s32_new ''example.max-accel'' HAL_RW HAL_S32 (A_user (d + off_max_accel))
                    (mot_comp_id x)) x) (\<lambda>(r, x).
             if r \<noteq> 0 then Inr (- 1, x) else Inr (0, x))))))"

section \<open>The shared block\<close>

text \<open>A newly mapped segment (its handle has one reference) has the contents of the environment.\<close>

definition init_task_comm_buffers :: "tenv \<Rightarrow> example \<Rightarrow> (int \<times> example) res" where
  "init_task_comm_buffers te x =
     (let (r, m) = rtapi_shmem_new (ev_os (te_env te)) TASK_SHM_KEY (mot_comp_id x) sizeof_task_shared (s_shm (x_sys x));
          x = x\<lparr>x_sys := (x_sys x)\<lparr>s_shm := m\<rparr>, emc_shmem_id := r\<rparr>
      in if r < 0 then Inr (- 1, x)
         else case rtapi_shmem_getptr r m of
           Inl e \<Rightarrow> Inr (- 1, x)
         | Inr mem \<Rightarrow>
             let contents = (if sh_count (sh_array m ! nat r) = 1 then te_shared te else shared x)
             in Inr (0, x\<lparr>taskShared := SP_mapped,
                  shared := contents\<lparr>command_id := TASK_CMD_NONE, command_data := 0\<rparr>\<rparr>))"

text \<open>When the last reference has gone and the kernel has unmapped the segment, \<open>taskShared\<close> dangles.\<close>

definition delete_task_segment :: "tenv \<Rightarrow> example \<Rightarrow> example" where
  "delete_task_segment te x =
     (let i = emc_shmem_id x; m = s_shm (x_sys x); os = ev_os (te_env te);
          m' = snd (rtapi_shmem_delete os i (mot_comp_id x) m);
          sh = sh_array m ! nat i;
          gone = (valid_handle i \<and> live sh \<and> (sh_state sh = SHMEM_S_ACTIVE \<or> sh_state sh = SHMEM_S_ATTACHED)
                  \<and> \<not> live (sh_array m' ! nat i) \<and> os_shmdt os (sh_mem sh) = None)
      in x\<lparr>x_sys := (x_sys x)\<lparr>s_shm := m'\<rparr>,
           taskShared := (if gone \<and> taskShared x = SP_mapped then SP_stale else taskShared x)\<rparr>)"

section \<open>The thread and its program\<close>

text \<open>\<open>task_period_nsec * 1000\<close> is a product of \<open>long\<close>s: its overflow is undefined.\<close>

definition thread_period :: "example \<Rightarrow> 64 word res" where
  "thread_period x =
     (let p = sint (task_period_nsec x) * 1000
      in if - (2 ^ 63) \<le> p \<and> p < 2 ^ 63 then Inr (word_of_int p) else Inl UB)"

definition init_task_threads :: "tenv \<Rightarrow> example \<Rightarrow> (int \<times> example) res" where
  "init_task_threads te x =
     bnd (thread_period x) (\<lambda>period.
     let x = (if subtask_period_nsec x = 0 then x\<lparr>subtask_period_nsec := period\<rparr> else x)
     in bnd (in_sys (hal_create_thread (te_env te) (Some ''example-thread'') period 1 98) x) (\<lambda>(r, x).
        if r < 0 then Inr (- 1, x)
        else bnd (in_hal (hal_export_funct ''example-cmd-handler'' (te_handler te) 0 1 0 (mot_comp_id x)) x) (\<lambda>(r, x).
        if r < 0 then Inr (- 1, x)
        else bnd (in_hal (hal_export_funct ''example-controller'' (te_controller te) 0 1 0 (mot_comp_id x)) x) (\<lambda>(r, x).
        if r < 0 then Inr (- 1, x)
        else
          let li = ev_list_init (te_env te)
          in bnd (in_hal (hal_add_funct_to_thread li (Some ''example-cmd-handler'') (Some ''example-thread'') 1) x) (\<lambda>(_, x).
             bnd (in_hal (hal_add_funct_to_thread li (Some ''example-controller'') (Some ''example-thread'') 2) x) (\<lambda>(_, x).
             bnd (settaskCycleTime (to_secs (sint (task_period_nsec x))) x) (\<lambda>(_, x).
             bnd (setsubtaskCycleTime (to_secs (sint (subtask_period_nsec x))) x) (\<lambda>(_, x).
               Inr (0, x)))))))))"

section \<open>Start and end\<close>

definition task_thread_main :: "tenv \<Rightarrow> example \<Rightarrow> (int \<times> example) res" where
  "task_thread_main te x =
     (let give_up = (\<lambda>x. bnd (in_sys (hal_exit (te_env te) (mot_comp_id x)) x) (\<lambda>(_, x). Inr (- 1, x)))
      in bnd (in_sys (hal_init (te_env te) (Some ''task1'')) x) (\<lambda>(r, x).
         let x = x\<lparr>mot_comp_id := r\<rparr>
         in if r < 0 then Inr (- 1, x)
            else bnd (te_print_hal te x) (\<lambda>x.
            if num_axis x < 1 \<or> num_axis x > MAX_AXES then give_up x
            else bnd (init_hal_param x) (\<lambda>(r, x).
            if r \<noteq> 0 then give_up x
            else bnd (init_task_comm_buffers te x) (\<lambda>(r, x).
            if r \<noteq> 0 then give_up x
            else bnd (te_print_shmem te x) (\<lambda>x.
            bnd (init_task_threads te x) (\<lambda>(r, x).
            if r \<noteq> 0 then give_up x
            else bnd (in_hal (hal_ready (mot_comp_id x)) x) (\<lambda>(_, x). Inr (0, x)))))))))"

definition task_thread_exit :: "tenv \<Rightarrow> example \<Rightarrow> example res" where
  "task_thread_exit te x =
     bnd (in_hal hal_stop_threads x) (\<lambda>(_, x).
     bnd (te_print_shmem te x) (\<lambda>x.
     let x = delete_task_segment te x
     in bnd (in_sys (hal_exit (te_env te) (mot_comp_id x)) x) (\<lambda>(_, x). Inr x)))"

end
