(* ===== verification/Hal_Room.thy ===== *)
theory Hal_Room
  imports Hal_Create
begin

text \<open>
  Calls of a component that succeed because the segment has room and the names are free: exporting a
  function and mounting it on a thread. They are the steps from which a component builds its real-time
  part.
\<close>

unbundle bit_operations_syntax

section \<open>Room for structs\<close>

text \<open>Component \<open>i\<close> may create \<open>k\<close> structs of at most 112 bytes.\<close>

definition roomy :: "int \<Rightarrow> nat \<Rightarrow> hal \<Rightarrow> bool" where
  "roomy i k h \<longleftrightarrow> hal_inv h \<and> comp_of i h \<noteq> 0 \<and> c_ready (comps h (comp_of i h)) = 0 \<and>
     c_shmem_base (comps h (comp_of i h)) = B_base \<and> hd_lock h AND 1 = 0 \<and> shmem_bot h + 128 * int k \<le> shmem_top h"

lemma roomy_step:
  assumes "roomy i (j + k) h" "hal_inv h'" "comps h' = comps h" "comp_list_ptr h' = comp_list_ptr h" "hd_lock h' = hd_lock h"
    and "shmem_bot h' = shmem_bot h" "shmem_top h - 128 * int j \<le> shmem_top h'"
  shows "roomy i k h'"
  using assms comp_of_same [OF assms(3,4), of i] by (simp add: roomy_def)

lemma roomy_inv: "roomy i k h \<Longrightarrow> hal_inv h"
  by (simp add: roomy_def)

section \<open>Exporting a function\<close>

text \<open>What exporting a function leaves alone.\<close>

definition export_keeps :: "hal \<Rightarrow> hal \<Rightarrow> bool" where
  "export_keeps h h' \<longleftrightarrow> comps h' = comps h \<and> comp_list_ptr h' = comp_list_ptr h \<and> threads h' = threads h \<and>
     thread_list_ptr h' = thread_list_ptr h \<and> links h' = links h \<and> entries h' = entries h \<and> hd_lock h' = hd_lock h \<and> hd_state h' = hd_state h \<and>
     shmem_bot h' = shmem_bot h \<and> ucells h' = ucells h \<and> lib_mem_id h' = lib_mem_id h \<and> keeps_signals h h'"

text \<open>A function is the same for its callers: its times and its place in the list may differ.\<close>

definition same_funct :: "hal_funct \<Rightarrow> hal_funct \<Rightarrow> bool" where
  "same_funct f g \<longleftrightarrow> f_name g = f_name f \<and> f_funct g = f_funct f \<and> f_arg g = f_arg f \<and> f_users g = f_users f \<and>
     f_uses_fp g = f_uses_fp f \<and> f_reentrant g = f_reentrant f \<and> (f_runtime g = D_wild \<longrightarrow> f_runtime f = D_wild)"

lemma same_funct_trans: "same_funct f g \<Longrightarrow> same_funct g k \<Longrightarrow> same_funct f k"
  by (simp add: same_funct_def)

lemma export_keeps_trans: "export_keeps h1 h2 \<Longrightarrow> export_keeps h2 h3 \<Longrightarrow> export_keeps h1 h3"
  using keeps_signals_trans [of h1 h2 h3] by (simp add: export_keeps_def)

lemma param_step_export:
  assumes "param_step h h'"
  shows "export_keeps h h'" "functs h' = functs h" "funct_set h' = funct_set h" "funct_names h' = funct_names h"
    "pin_names h' = pin_names h" "shmem_top h - 128 \<le> shmem_top h'"
  using assms by (auto simp: param_step_def export_keeps_def funct_set_def funct_names_def pin_names_def intro!: keeps_signals_same)

lemma upd_funct_export:
  assumes "\<And>s. same_funct s (f s) \<and> f_next (f s) = f_next s"
  shows "export_keeps h (upd_funct n f h)" "funct_set (upd_funct n f h) = funct_set h" "funct_names (upd_funct n f h) = funct_names h"
    "same_funct (functs h q) (functs (upd_funct n f h) q)" "pin_names (upd_funct n f h) = pin_names h"
proof -
  have "(\<lambda>p. f_next (functs (upd_funct n f h) p)) = (\<lambda>p. f_next (functs h p))"
    "(\<lambda>p. f_name (functs (upd_funct n f h) p)) = (\<lambda>p. f_name (functs h p))"
    using assms by (simp_all add: upd_funct_heap same_funct_def fun_eq_iff)
  then show "funct_set (upd_funct n f h) = funct_set h" "funct_names (upd_funct n f h) = funct_names h"
    by (simp_all add: funct_set_def funct_names_def)
  show "export_keeps h (upd_funct n f h)" by (simp add: export_keeps_def keeps_signals_same)
  show "same_funct (functs h q) (functs (upd_funct n f h) q)" using assms [of "functs h q"]
    by (cases "q = n") (simp_all add: upd_funct_heap same_funct_def)
  show "pin_names (upd_funct n f h) = pin_names h" by simp
qed

lemma pin_made_export:
  assumes "pin_made i (Cell_funct n) h h'" "c_shmem_base (comps h (comp_of i h)) = B_base"
  obtains m where "f_runtime (functs h' n) = D_sig m" "m \<notin> pin_set h"
    "export_keeps h h'" "\<forall>q. same_funct (functs h q) (functs h' q)" "funct_set h' = funct_set h" "funct_names h' = funct_names h"
    "shmem_top h - 128 \<le> shmem_top h'"
proof -
  from assms obtain m av tp pl fr pn where h': "h' = (put_cell (Cell_funct n) (D_sig m) h)
      \<lparr>shmem_avail := av, shmem_top := tp, pin_list_ptr := pl, pin_free_ptr := fr, pins := pn\<rparr>"
    and m: "m \<notin> pin_set h" "shmem_top h - 128 \<le> tp"
    unfolding pin_made_def by auto
  have k: "keeps_signals h h'" by (rule keeps_signals_new [OF assms(1)]) simp
  have n: "(\<lambda>p. f_next (functs h' p)) = (\<lambda>p. f_next (functs h p))" "(\<lambda>p. f_name (functs h' p)) = (\<lambda>p. f_name (functs h p))"
    by (simp_all add: h' upd_funct_heap fun_eq_iff)
  show ?thesis
    by (rule that [OF _ m(1)])
      (use m(2) k n in \<open>simp_all add: h' export_keeps_def same_funct_def upd_funct_heap funct_set_def funct_names_def\<close>)
qed

text \<open>The items of a new function: all of them are created, or the parameters are not; the pin always is.\<close>

lemma items_ok:
  assumes "roomy i (3 + k) h" "0 < n" "n + sizeof_hal_funct \<le> HAL_SIZE" "length nm \<le> 42" "nm @ ''.time'' \<notin> set (pin_names h)"
  obtains h' where "funct_items nm i n h = Inr (0, h')" "roomy i k h'" "export_keeps h h'" "funct_names h' = funct_names h"
    "funct_set h' = funct_set h" "pin_names h' = insort (nm @ ''.time'') (pin_names h)" "\<forall>q. same_funct (functs h q) (functs h' q)"
    "f_runtime (functs h' n) \<noteq> D_wild"
proof -
  note R = assms(1) [unfolded roomy_def]
  have room: "shmem_bot h + 128 \<le> shmem_top h" using R by simp
  have "fst (alloc_pin_struct h) \<noteq> None" using alloc_pin_room [OF _ room] R by blast
  then have v: "pin_verdict (nm @ ''.time'') HAL_S32 (Cell_funct n) i h = 0"
    using R assms(2-5) by (simp add: pin_verdict_def pin_type_ok_def SHMCHK_def sizeof_hal_funct_def)
  obtain h1 where h1: "hal_pin_new (nm @ ''.time'') HAL_S32 (Cell_funct n) i h = Inr (0, h1)" "hal_inv h1"
    "pin_names h1 = insort (nm @ ''.time'') (pin_names h)" "pin_made i (Cell_funct n) h h1"
    using hal_pin_new_run [of h "Cell_funct n" "nm @ ''.time''" HAL_S32 i] R unfolding v by auto
  obtain m where m: "f_runtime (functs h1 n) = D_sig m" "m \<notin> pin_set h"
    "export_keeps h h1" "\<forall>q. same_funct (functs h q) (functs h1 q)" "funct_set h1 = funct_set h" "funct_names h1 = funct_names h"
    "shmem_top h - 128 \<le> shmem_top h1"
    by (rule pin_made_export [OF h1(4)]) (use R in blast)
  let ?a = "upd_pin m (\<lambda>s. s\<lparr>p_dummysig := 0\<rparr>) h1"
  let ?h2 = "upd_funct n (\<lambda>s. s\<lparr>f_maxtime := 0\<rparr>) ?a"
  have u2: "same_funct s (s\<lparr>f_maxtime := 0\<rparr>) \<and> f_next (s\<lparr>f_maxtime := 0\<rparr>) = f_next s" for s by (simp add: same_funct_def)
  note U2 = upd_funct_export [where f = "\<lambda>s. s\<lparr>f_maxtime := 0\<rparr>" and h = ?a and n = n, OF u2]
  have sa: "funct_set ?a = funct_set h1" by (simp add: funct_set_def)
  have "keeps_signals h ?a" by (rule keeps_signals_write [OF _ m(2)]) (use m(3) in \<open>simp add: export_keeps_def\<close>)
  then have ka: "export_keeps h ?a" using m(3) by (simp add: export_keeps_def)
  have i2: "hal_inv ?h2" by (intro hal_inv_upd_funct hal_inv_upd_dummysig h1(2)) simp_all
  let ?p3 = "snprintf_s (HAL_NAME_LEN + 1) (nm @ ''.tmax'')"
  obtain r3 h3 where h3: "hal_param_new ?p3 HAL_S32 HAL_RW (A_funct_maxtime n) i ?h2 = Inr (r3, h3)" "hal_inv h3" "param_step ?h2 h3"
    using hal_param_new_run [OF i2, of ?p3 HAL_S32 HAL_RW "A_funct_maxtime n" i] by blast
  note P3 = param_step_export [OF h3(3)]
  let ?h4 = "upd_funct n (\<lambda>s. s\<lparr>f_maxtime_increased := False\<rparr>) h3"
  have u4: "same_funct s (s\<lparr>f_maxtime_increased := False\<rparr>) \<and> f_next (s\<lparr>f_maxtime_increased := False\<rparr>) = f_next s" for s
    by (simp add: same_funct_def)
  note U4 = upd_funct_export [where f = "\<lambda>s. s\<lparr>f_maxtime_increased := False\<rparr>" and h = h3 and n = n, OF u4]
  have i4: "hal_inv ?h4" by (intro hal_inv_upd_funct h3(2)) simp_all
  let ?p5 = "snprintf_s (HAL_NAME_LEN + 1) (nm @ ''.tmax-increased'')"
  obtain r5 h5 where h5: "hal_param_new ?p5 HAL_BIT HAL_RO (A_funct_increased n) i ?h4 = Inr (r5, h5)" "hal_inv h5" "param_step ?h4 h5"
    using hal_param_new_run [OF i4, of ?p5 HAL_BIT HAL_RO "A_funct_increased n" i] by blast
  note P5 = param_step_export [OF h5(3)]
  have new: "hal_pin_newf HAL_S32 (Cell_funct n) i (nm @ ''.time'') h = Inr (0, h1)"
    using h1(1) assms(4) by (simp add: hal_pin_newf_def hal_pin_newfv_def HAL_NAME_LEN_def)
  have k: "export_keeps h h5"
    by (rule export_keeps_trans [OF export_keeps_trans [OF export_keeps_trans [OF ka U2(1)] P3(1)] export_keeps_trans [OF U4(1) P5(1)]])
  show ?thesis
  proof (rule that)
    show "funct_items nm i n h = Inr (0, h5)"
      using new m(1) h3(1) h5(1) by (simp add: funct_items_def clear_runtime_def hal_param_s32_new_def hal_param_bit_new_def Let_def)
    have "shmem_top h - 384 \<le> shmem_top h5" using m(7) P3(6) P5(6) by simp
    then show "roomy i k h5" using k by (intro roomy_step [OF assms(1) h5(2)]) (simp_all add: export_keeps_def)
    show "\<forall>q. same_funct (functs h q) (functs h5 q)"
    proof
      fix q
      have "same_funct (functs h q) (functs ?a q)" using m(4) by simp
      from same_funct_trans [OF this U2(4)] have "same_funct (functs h q) (functs h3 q)" by (simp add: P3(2))
      from same_funct_trans [OF this U4(4)] show "same_funct (functs h q) (functs h5 q)" by (simp add: P5(2))
    qed
    have "same_funct (functs ?a n) (functs h3 n)" using U2(4) [of n] by (simp only: P3(2))
    from same_funct_trans [OF this U4(4)] m(1) show "f_runtime (functs h5 n) \<noteq> D_wild"
      by (simp add: same_funct_def P5(2))
  qed (use k m(5,6) h1(3) sa U2 U4 P3 P5 in simp_all)
qed

lemma alloc_funct_room:
  assumes "hal_inv h" "shmem_bot h + 128 \<le> shmem_top h"
  shows "fst (alloc_funct_struct h) \<noteq> None"
proof -
  from assms(1) obtain G where "hal_rep h G" by (auto simp: hal_inv_def)
  then have "fst (shmalloc_dn sizeof_hal_funct h) \<noteq> None"
    using shmalloc_dn_room(2) [OF rep_area, of h G sizeof_hal_funct] assms(2) by (simp add: sizeof_hal_funct_def)
  then show ?thesis by (auto simp: alloc_funct_struct_def take_struct_def Let_def split: prod.split option.split)
qed

lemma export_ok:
  assumes "roomy i (4 + k) h" "c_type (comps h (comp_of i h)) \<noteq> COMPONENT_TYPE_USER" "length nm \<le> 42"
    and "nm \<notin> set (funct_names h)" "nm @ ''.time'' \<notin> set (pin_names h)"
  obtains n h' where "hal_export_funct nm fn arg fp re i h = Inr (0, h')" "roomy i k h'" "export_keeps h h'"
    "n \<notin> funct_set h" "funct_set h' = insert n (funct_set h)" "funct_names h' = insort nm (funct_names h)"
    "pin_names h' = insort (nm @ ''.time'') (pin_names h)" "\<forall>q. q \<noteq> n \<longrightarrow> same_funct (functs h q) (functs h' q)"
    "f_name (functs h' n) = nm" "f_funct (functs h' n) = fn" "f_arg (functs h' n) = arg" "f_uses_fp (functs h' n) = fp"
    "f_users (functs h' n) = 0" "f_runtime (functs h' n) \<noteq> D_wild"
proof -
  note R = assms(1) [unfolded roomy_def]
  from R obtain G where G: "hal_rep h G" "hal_data h = SP_mapped" "\<not> locked (hd_mutex h)"
    by (auto simp: hal_inv_def)
  let ?h = "h\<lparr>hd_mutex := set_lock (hd_mutex h)\<rparr>" and ?cp = "comp_of i h"
  have G1: "hal_rep ?h G" using G by simp
  note fc = find_comp_of [OF G1, of i]
  have "shmem_bot h + 128 \<le> shmem_top h" using R by simp
  then have "fst (alloc_funct_struct h) \<noteq> None" using alloc_funct_room R by blast
  then obtain n t where al: "alloc_funct_struct ?h = (Some n, t)"
    using alloc_funct_lock [of "set_lock (hd_mutex h)" h] by (cases "alloc_funct_struct ?h") auto
  obtain pn fr tp av where t: "t = ?h\<lparr>shmem_avail := av, shmem_top := tp, funct_free_ptr := fr, functs := pn\<rparr>"
    and a: "area_wf t" and tp: "shmem_top ?h - 128 \<le> tp"
    by (rule alloc_funct_Some [OF G1 al])
  let ?f = "\<lambda>s :: hal_funct. s\<lparr>f_uses_fp := fp, f_owner := ?cp, f_reentrant := re,
                  f_users := 0, f_arg := arg, f_funct := fn, f_name := snprintf_s 48 nm\<rparr>"
  let ?h2 = "upd_funct n ?f t"
  have nm: "snprintf_s 48 nm = nm" using assms(3) by (simp add: snprintf_s_def)
  have "\<exists>h3 pl fr pn'. funct_insert n ?h2 = Inr (nm \<notin> set (funct_names ?h), h3)
      \<and> h3 = ?h2\<lparr>funct_list_ptr := pl, funct_free_ptr := fr, functs := pn'\<rparr> \<and> (\<exists>G'. hal_rep h3 G')
      \<and> funct_names h3 = (if nm \<in> set (funct_names ?h) then funct_names ?h else insort nm (funct_names ?h))
      \<and> 0 < n \<and> n + sizeof_hal_funct \<le> HAL_SIZE
      \<and> (nm \<notin> set (funct_names ?h) \<longrightarrow> n \<notin> funct_set ?h \<and> funct_set h3 = insert n (funct_set ?h)
           \<and> (\<forall>q. \<exists>v. pn' q = (if q = n then ?f (pn n) else functs ?h q)\<lparr>f_next := v\<rparr>))"
    by (rule funct_insert_result [OF G1 al, where x = "?f (pn n)"])
      (use a in \<open>simp_all add: t upd_funct_heap keeps_defs nm\<close>)
  then obtain h3 pl fr3 pn3 where ins: "funct_insert n ?h2 = Inr (nm \<notin> set (funct_names ?h), h3)"
    and e: "h3 = ?h2\<lparr>funct_list_ptr := pl, funct_free_ptr := fr3, functs := pn3\<rparr>" and r: "\<exists>G'. hal_rep h3 G'"
    and nms: "funct_names h3 = (if nm \<in> set (funct_names ?h) then funct_names ?h else insort nm (funct_names ?h))"
    and n: "0 < n" "n + sizeof_hal_funct \<le> HAL_SIZE"
    and made: "nm \<notin> set (funct_names ?h) \<longrightarrow> n \<notin> funct_set ?h \<and> funct_set h3 = insert n (funct_set ?h)
           \<and> (\<forall>q. \<exists>v. pn3 q = (if q = n then ?f (pn n) else functs ?h q)\<lparr>f_next := v\<rparr>)"
    by (elim exE conjE) (rule that, assumption, assumption, rule exI, assumption+)
  have fresh: "nm \<notin> set (funct_names ?h)" using assms(4) by simp
  have h3: "funct_insert n ?h2 = Inr (True, h3)" using ins fresh by simp
  have ns: "funct_names h3 = insort nm (funct_names h)" using nms fresh by simp
  have fs: "n \<notin> funct_set h" "funct_set h3 = insert n (funct_set h)"
    and ps: "\<forall>q. \<exists>v. pn3 q = (if q = n then ?f (pn n) else functs ?h q)\<lparr>f_next := v\<rparr>"
    using made fresh by simp_all
  let ?g = "hal_mutex_give h3"
  have "hal_data h3 = SP_mapped" using G(2) by (simp add: e t)
  with r have i3: "hal_inv ?g" by (auto intro: hal_inv_give)
  have g: "comps ?g = comps h" "comp_list_ptr ?g = comp_list_ptr h" "hd_lock ?g = hd_lock h" "shmem_bot ?g = shmem_bot h"
    "pin_names ?g = pin_names h" "threads ?g = threads h" "thread_list_ptr ?g = thread_list_ptr h" "links ?g = links h"
    "entries ?g = entries h" "ucells ?g = ucells h" "pins ?g = pins h" "pin_list_ptr ?g = pin_list_ptr h" "shmem_top ?g = tp"
    "functs ?g = pn3" "hd_state ?g = hd_state h" "lib_mem_id ?g = lib_mem_id h"
    by (simp_all add: e t pin_names_def hal_mutex_give_def)
  have "roomy i (1 + (3 + k)) h" using assms(1) by simp
  then have rg: "roomy i (3 + k) ?g" by (rule roomy_step [OF _ i3 g(1-4)]) (use tp in \<open>simp add: g(13)\<close>)
  obtain h' where it: "funct_items nm i n ?g = Inr (0, h')" "roomy i k h'" "export_keeps ?g h'" "funct_names h' = funct_names ?g"
    "funct_set h' = funct_set ?g" "pin_names h' = insort (nm @ ''.time'') (pin_names ?g)" "\<forall>q. same_funct (functs ?g q) (functs h' q)"
    "f_runtime (functs h' n) \<noteq> D_wild"
    by (rule items_ok [OF rg n assms(3)]) (use assms(5) g(5) in simp)
  have run: "hal_export_funct nm fn arg fp re i h = Inr (0, h')"
    using assms(2,3) R G fc al h3 it(1) by (simp add: hal_export_funct_def HAL_NAME_LEN_def HAL_LOCK_LOAD_def)
  have "keeps_signals h ?g" by (rule keeps_signals_same [OF g(11,12)])
  then have "export_keeps h ?g" using g by (simp add: export_keeps_def)
  then have k: "export_keeps h h'" by (rule export_keeps_trans [OF _ it(3)])
  have new: "same_funct ((if q = n then ?f (pn n) else functs h q)) (functs h' q)" for q
    using spec [OF it(7), of q] spec [OF ps, of q] by (auto simp: same_funct_def g(14))
  have old: "\<forall>q. q \<noteq> n \<longrightarrow> same_funct (functs h q) (functs h' q)"
  proof (intro allI impI)
    fix q assume "q \<noteq> n"
    with new [of q] show "same_funct (functs h q) (functs h' q)" by (simp only: if_False)
  qed
  have at: "same_funct (?f (pn n)) (functs h' n)" using new [of n] by (simp only: if_True refl)
  show ?thesis
    by (rule that [OF run it(2) k fs(1) _ _ _ old])
      (use it(4-6,8) fs(2) ns at g(5) in \<open>simp_all add: same_funct_def nm\<close>)
qed

section \<open>Mounting a function\<close>

lemma funct_named_unique:
  assumes "hal_rep h G" "n \<in> set (s_functs G)" "f_name (functs h n) = nm"
  shows "funct_named h G nm = Some n"
proof -
  have d: "distinct (map (\<lambda>p. f_name (functs h p)) (s_functs G))"
    using hal_rep_parts(5) [OF assms(1)] by (simp add: functs_ok_def sorted_names_def strict_sorted_iff)
  obtain p where p: "funct_named h G nm = Some p"
    using assms(2,3) by (cases "funct_named h G nm") (auto simp: funct_named_def find_None_iff)
  then have "p \<in> set (s_functs G)" "f_name (functs h p) = nm"
    using find_in [of "\<lambda>p. f_name (functs h p) = nm" "s_functs G" p] by (simp_all add: funct_named_def)
  with assms(2,3) d have "p = n" by (auto simp: distinct_map dest: inj_onD)
  with p show ?thesis by simp
qed

lemma thread_named_head:
  assumes "s_threads G = t # ts" "t_name (threads h t) = nm"
  shows "thread_named h G nm = Some t"
  using assms by (simp add: thread_named_def)

text \<open>The addresses and arguments that the thread calls, in order: what \<open>thread_task\<close> reads.\<close>

definition calls :: "hal \<Rightarrow> shape \<Rightarrow> off \<Rightarrow> (int \<times> int) list" where
  "calls h G t = map (\<lambda>e. (e_funct (entries h e), e_arg (entries h e))) (s_entries G t)"

definition mount_keeps :: "off \<Rightarrow> hal \<Rightarrow> hal \<Rightarrow> bool" where
  "mount_keeps f h h' \<longleftrightarrow> comps h' = comps h \<and> comp_list_ptr h' = comp_list_ptr h \<and> threads h' = threads h \<and>
     thread_list_ptr h' = thread_list_ptr h \<and> hd_lock h' = hd_lock h \<and> hd_state h' = hd_state h \<and> shmem_bot h' = shmem_bot h \<and> ucells h' = ucells h \<and>
     pins h' = pins h \<and> pin_list_ptr h' = pin_list_ptr h \<and> funct_list_ptr h' = funct_list_ptr h \<and> lib_mem_id h' = lib_mem_id h \<and>
     functs h' = (functs h)(f := (functs h f)\<lparr>f_users := f_users (functs h f) + 1\<rparr>)"

lemma hook_calls:
  fixes f :: off and a :: laddr and j :: nat
  assumes "took_entry n h G h1 G1" "t \<in> set (s_threads G)" "u \<in> set (s_threads G)"
  defines "h2 \<equiv> hook n f a h1"
    and "G2 \<equiv> G1\<lparr>s_entries := (s_entries G)(t := take j (s_entries G t) @ n # drop j (s_entries G t))\<rparr>"
  shows "calls h2 G2 u = (if u = t then take j (calls h G t) @ (f_funct (functs h f), f_arg (functs h f)) # drop j (calls h G t)
    else calls h G u)"
proof -
  note K = took_entry_sel [OF assms(1)]
  have e2: "entries h2 e = entries h e" if "e \<noteq> n" for e
    using that K(5) [OF that] by (simp add: h2_def hook_sel)
  have n2: "e_funct (entries h2 n) = f_funct (functs h f)" "e_arg (entries h2 n) = f_arg (functs h f)"
    by (simp_all add: h2_def hook_sel K(1))
  have nt: "e \<noteq> n" if "u \<in> set (s_threads G)" "e \<in> set (s_entries G u)" for u e
    using K(7) that by (auto simp: all_entries_def)
  have m: "map (\<lambda>e. (e_funct (entries h2 e), e_arg (entries h2 e))) zs = map (\<lambda>e. (e_funct (entries h e), e_arg (entries h e))) zs"
    if "set zs \<subseteq> set (s_entries G u)" "u \<in> set (s_threads G)" for zs u
    using that nt e2 by (intro map_cong) auto
  show ?thesis
    using m [of "take j (s_entries G t)" t] m [of "drop j (s_entries G t)" t] m [of "s_entries G u" u] assms(2,3) n2
    by (simp add: calls_def G2_def set_take_subset set_drop_subset take_map drop_map)
qed

lemma calls_give [simp]: "calls (hal_mutex_give h) G t = calls h G t" "calls (h\<lparr>hd_mutex := m\<rparr>) G t = calls h G t"
  by (simp_all add: calls_def hal_mutex_give_def)

lemma mount_ok:
  assumes "roomy i (1 + k) h" "hal_rep h G" "init_entry_ok li" "hd_lock h AND HAL_LOCK_CONFIG = 0"
    and "funct_named h G fn = Some f" "thread_named h G tn = Some t" "f_users (functs h f) = 0" "t_uses_fp (threads h t) \<noteq> 0"
    and "place_index pos (length (s_entries G t)) = Some j"
  obtains h' G' where "hal_add_funct_to_thread li (Some fn) (Some tn) pos h = Inr (0, h')" "roomy i k h'" "hal_rep h' G'"
    "s_threads G' = s_threads G" "s_functs G' = s_functs G" "mount_keeps f h h'"
    "calls h' G' t = take j (calls h G t) @ (f_funct (functs h f), f_arg (functs h f)) # drop j (calls h G t)"
    "\<forall>u \<in> set (s_threads G). u \<noteq> t \<longrightarrow> calls h' G' u = calls h G u" "length (s_entries G' t) = Suc (length (s_entries G t))"
    "program h' G' t = take j (program h G t) @ f # drop j (program h G t)"
proof -
  note R = assms(1) [unfolded roomy_def]
  have inv: "hal_inv h" using R by blast
  have "shmem_bot h + sizeof_hal_funct_entry + 15 \<le> shmem_top h" using R by (simp add: sizeof_hal_funct_entry_def)
  then have room: "fst (shmalloc_dn sizeof_hal_funct_entry h) \<noteq> None"
    using shmalloc_dn_room(2) [OF rep_area [OF assms(2)] sizeof_pos(6)] by blast
  have v: "add_verdict h G (Some fn) (Some tn) pos = 0" using assms(4-9) by (simp add: add_verdict_def)
  let ?h = "h\<lparr>hd_mutex := set_lock (hd_mutex h)\<rparr>"
  note A = hal_add_funct_run [OF inv assms(2,3), of "Some fn" "Some tn" pos]
  obtain h' where run: "hal_add_funct_to_thread li (Some fn) (Some tn) pos h = Inr (0, h')"
    using A room v by (auto split: sum.splits)
  obtain n G1 h1 where tk: "took_entry n ?h G h1 G1"
    and h': "h' = hal_mutex_give (hook n f (addr_at (Thread_root t) (s_entries G t) j) h1)"
    using A [unfolded run] v assms(5,6,9) by auto
  have rep: "hal_rep ?h G" using assms(2) by simp
  have tin: "t \<in> set (s_threads G)" and fin: "f \<in> set (s_functs G)"
    using assms(5,6) thread_named_in [OF assms(2)] funct_named_in [OF assms(2)] by blast+
  have re: "f_reentrant (functs ?h f) = 0 \<Longrightarrow> f_users (functs ?h f) \<le> 0" using assms(7) by simp
  let ?G2 = "G1\<lparr>s_entries := (s_entries G)(t := take j (s_entries G t) @ n # drop j (s_entries G t))\<rparr>"
  have le: "j \<le> length (s_entries G t)" by (rule place_index_le [OF assms(9)])
  have rep2: "hal_rep h' ?G2" unfolding h' hal_rep_give by (rule hook_rep [OF rep tk tin le fin re])
  note K = took_entry_sel [OF tk]
  have keeps: "mount_keeps f h h'"
    by (simp add: h' mount_keeps_def hook_def Let_def upd_entry_def upd_funct_def hal_mutex_give_def K)
  have inv': "hal_inv h'"
    unfolding h' using inv K(2) hook_rep [OF rep tk tin le fin re] by (intro hal_inv_give) (simp_all add: hook_sel hal_inv_def)
  have "shmem_top h' = shmem_top h1" by (simp add: h' hal_mutex_give_def hook_sel)
  then have "roomy i k h'"
    using keeps K(8) by (intro roomy_step [OF assms(1) inv']) (simp_all add: mount_keeps_def)
  moreover have "calls h' ?G2 u = (if u = t then take j (calls h G t) @ (f_funct (functs h f), f_arg (functs h f)) # drop j (calls h G t)
      else calls h G u)" if "u \<in> set (s_threads G)" for u
    unfolding h' using hook_calls [OF tk tin that, of f "addr_at (Thread_root t) (s_entries G t) j" j] by simp
  moreover have "program h' ?G2 t = take j (program h G t) @ f # drop j (program h G t)"
    unfolding h' using hook_program [OF rep tk tin le, of f] by (simp add: program_def [of "h\<lparr>hd_mutex := m\<rparr>" for m] program_def [of h])
  ultimately show ?thesis
    by (intro that [of h' ?G2, OF run _ rep2 _ _ keeps]) (use tin le in \<open>simp_all add: K(6)\<close>)
qed

section \<open>A program of two functions\<close>

definition same_program :: "hal \<Rightarrow> hal \<Rightarrow> bool" where
  "same_program h h' \<longleftrightarrow> threads h' = threads h \<and> thread_list_ptr h' = thread_list_ptr h \<and> links h' = links h \<and> entries h' = entries h"

lemma export_same_program: "export_keeps h h' \<Longrightarrow> same_program h h'"
  by (simp add: export_keeps_def same_program_def)

lemma same_program_calls:
  assumes "same_program h h'" "hal_rep h G" "hal_rep h' G'"
  shows "s_threads G' = s_threads G" "u \<in> set (s_threads G) \<Longrightarrow> s_entries G' u = s_entries G u"
    "u \<in> set (s_threads G) \<Longrightarrow> calls h' G' u = calls h G u" "thread_named h' G' nm = thread_named h G nm"
proof -
  have k: "threads h' = threads h" "thread_list_ptr h' = thread_list_ptr h" "links h' = links h" "entries h' = entries h"
    using assms(1) by (simp_all add: same_program_def)
  show t: "s_threads G' = s_threads G"
    using nodes_chain [OF threads_chain [OF assms(2)]] nodes_chain [OF threads_chain [OF assms(3)]] by (simp add: k)
  show e: "s_entries G' u = s_entries G u" if "u \<in> set (s_threads G)" for u
    by (rule ring_unique [of "links h" "Thread_root u"])
      (use rings_ok_free(2) [OF hal_rep_parts(7) [OF assms(2)]] rings_ok_free(2) [OF hal_rep_parts(7) [OF assms(3)]] that in \<open>simp_all add: t k\<close>)
  show "calls h' G' u = calls h G u" if "u \<in> set (s_threads G)" using e [OF that] by (simp add: calls_def k)
  show "thread_named h' G' nm = thread_named h G nm" by (simp add: thread_named_def t k)
qed

lemma roomy_rep: "roomy i k h \<Longrightarrow> \<exists>G. hal_rep h G"
  by (auto simp: roomy_def hal_inv_def)

text \<open>The functions of a thread have their time pins.\<close>

definition timed :: "hal \<Rightarrow> shape \<Rightarrow> off \<Rightarrow> bool" where
  "timed h G t \<longleftrightarrow> (\<forall>f \<in> set (program h G t). f_runtime (functs h f) \<noteq> D_wild)"

text \<open>What the whole construction leaves alone.\<close>

definition build_keeps :: "hal \<Rightarrow> hal \<Rightarrow> bool" where
  "build_keeps h h' \<longleftrightarrow> comps h' = comps h \<and> comp_list_ptr h' = comp_list_ptr h \<and> threads h' = threads h \<and>
     thread_list_ptr h' = thread_list_ptr h \<and> hd_lock h' = hd_lock h \<and> hd_state h' = hd_state h \<and> ucells h' = ucells h \<and>
     lib_mem_id h' = lib_mem_id h \<and> keeps_signals h h'"

lemma build_keeps_trans: "build_keeps h1 h2 \<Longrightarrow> build_keeps h2 h3 \<Longrightarrow> build_keeps h1 h3"
  using keeps_signals_trans [of h1 h2 h3] by (simp add: build_keeps_def)

lemma export_build: "export_keeps h h' \<Longrightarrow> build_keeps h h'"
  by (simp add: build_keeps_def export_keeps_def)

lemma mount_build: "mount_keeps f h h' \<Longrightarrow> build_keeps h h'"
  by (simp add: build_keeps_def mount_keeps_def keeps_signals_same)

lemma two_functions_run:
  assumes r: "roomy i (10 + k) h" and rep: "hal_rep h G" and li: "init_entry_ok li" and lock: "hd_lock h AND HAL_LOCK_CONFIG = 0"
    and ct: "c_type (comps h (comp_of i h)) \<noteq> COMPONENT_TYPE_USER"
    and th: "thread_named h G tn = Some t" "t_uses_fp (threads h t) \<noteq> 0" "s_entries G t = []"
    and nm: "length n1 \<le> 42" "length n2 \<le> 42" "n1 \<notin> set (funct_names h)" "n2 \<notin> set (funct_names h)" "n1 \<noteq> n2"
      "n1 @ ''.time'' \<notin> set (pin_names h)" "n2 @ ''.time'' \<notin> set (pin_names h)"
  obtains h1 h2 h3 h4 G' where "hal_export_funct n1 f1 a1 fp1 re1 i h = Inr (0, h1)" "hal_export_funct n2 f2 a2 fp2 re2 i h1 = Inr (0, h2)"
    "hal_add_funct_to_thread li (Some n1) (Some tn) 1 h2 = Inr (0, h3)" "hal_add_funct_to_thread li (Some n2) (Some tn) 2 h3 = Inr (0, h4)"
    "roomy i k h4" "hal_rep h4 G'" "s_threads G' = s_threads G" "build_keeps h h4" "calls h4 G' t = [(f1, a1), (f2, a2)]"
    "\<forall>u \<in> set (s_threads G). u \<noteq> t \<longrightarrow> calls h4 G' u = calls h G u" "timed h4 G' t"
proof -
  have "roomy i (4 + (6 + k)) h" using r by simp
  then obtain p h1 where h1: "hal_export_funct n1 f1 a1 fp1 re1 i h = Inr (0, h1)" "roomy i (6 + k) h1" "export_keeps h h1"
    and p: "p \<notin> funct_set h" "funct_set h1 = insert p (funct_set h)" "f_name (functs h1 p) = n1" "f_funct (functs h1 p) = f1"
      "f_arg (functs h1 p) = a1" "f_users (functs h1 p) = 0" "f_runtime (functs h1 p) \<noteq> D_wild"
    and ns1: "funct_names h1 = insort n1 (funct_names h)" "pin_names h1 = insort (n1 @ ''.time'') (pin_names h)"
    by (rule export_ok [OF _ ct nm(1,3,6), where k = "6 + k" and fn = f1 and arg = a1 and fp = fp1 and re = re1]) blast
  have c1: "comps h1 = comps h" "comp_of i h1 = comp_of i h"
    using h1(3) comp_of_same [of h1 h i] by (simp_all add: export_keeps_def)
  have "roomy i (4 + (2 + k)) h1" using h1(2) by simp
  then obtain q h2 where h2: "hal_export_funct n2 f2 a2 fp2 re2 i h1 = Inr (0, h2)" "roomy i (2 + k) h2" "export_keeps h1 h2"
    and q: "q \<notin> funct_set h1" "funct_set h2 = insert q (funct_set h1)" "f_name (functs h2 q) = n2" "f_funct (functs h2 q) = f2"
      "f_arg (functs h2 q) = a2" "f_users (functs h2 q) = 0" "f_runtime (functs h2 q) \<noteq> D_wild"
    and old: "\<forall>x. x \<noteq> q \<longrightarrow> same_funct (functs h1 x) (functs h2 x)"
    by (rule export_ok [OF _ _ nm(2), where k = "2 + k" and fn = f2 and arg = a2 and fp = fp2 and re = re2])
      (use ct c1 nm ns1 in \<open>auto simp: set_insort_key\<close>)
  have pq: "p \<noteq> q" using p(2) q(1) by auto
  have p2: "f_name (functs h2 p) = n1" "f_funct (functs h2 p) = f1" "f_arg (functs h2 p) = a1" "f_users (functs h2 p) = 0" "f_runtime (functs h2 p) \<noteq> D_wild"
    using old pq p by (auto simp: same_funct_def)
  obtain G2 where G2: "hal_rep h2 G2" using roomy_rep [OF h2(2)] by blast
  have e2: "export_keeps h h2" by (rule export_keeps_trans [OF h1(3) h2(3)])
  note E = same_program_calls [OF export_same_program [OF e2] rep G2]
  have tin: "t \<in> set (s_threads G)" using thread_named_in [OF rep th(1)] by blast
  have fs2: "p \<in> set (s_functs G2)" "q \<in> set (s_functs G2)" using funct_set_rep [OF G2] p(2) q(2) by auto
  have th2: "thread_named h2 G2 tn = Some t" "t_uses_fp (threads h2 t) \<noteq> 0" "s_entries G2 t = []" "hd_lock h2 AND HAL_LOCK_CONFIG = 0"
    using E(4) E(2) [OF tin] th lock e2 by (simp_all add: export_keeps_def)
  have "roomy i (1 + (1 + k)) h2" using h2(2) by simp
  from mount_ok [OF this G2 li th2(4) funct_named_unique [OF G2 fs2(1) p2(1)] th2(1) p2(4) th2(2), of 1 0]
  obtain h3 G3 where h3: "hal_add_funct_to_thread li (Some n1) (Some tn) 1 h2 = Inr (0, h3)" "roomy i (1 + k) h3" "hal_rep h3 G3"
    "s_threads G3 = s_threads G2" "s_functs G3 = s_functs G2" "mount_keeps p h2 h3"
    and c3: "calls h3 G3 t = [(f1, a1)]" "\<forall>u \<in> set (s_threads G2). u \<noteq> t \<longrightarrow> calls h3 G3 u = calls h2 G2 u" "length (s_entries G3 t) = 1"
      "program h3 G3 t = [p]"
    by (auto simp: place_index_def th2(3) p2 calls_def program_def [of h2])
  have fh3: "functs h3 = (functs h2)(p := (functs h2 p)\<lparr>f_users := f_users (functs h2 p) + 1\<rparr>)" "threads h3 = threads h2"
    "hd_lock h3 = hd_lock h2" using h3(6) by (simp_all add: mount_keeps_def)
  have q3: "f_name (functs h3 q) = n2" "f_funct (functs h3 q) = f2" "f_arg (functs h3 q) = a2" "f_users (functs h3 q) = 0"
    using pq q by (simp_all add: fh3)
  have th3: "thread_named h3 G3 tn = Some t" "t_uses_fp (threads h3 t) \<noteq> 0" "hd_lock h3 AND HAL_LOCK_CONFIG = 0"
    using th2 by (simp_all add: thread_named_def h3(4) fh3)
  have q3in: "q \<in> set (s_functs G3)" using fs2(2) h3(5) by simp
  have at: "place_index 2 (length (s_entries G3 t)) = Some 1" by (simp add: place_index_def c3(3))
  obtain h4 G4 where h4: "hal_add_funct_to_thread li (Some n2) (Some tn) 2 h3 = Inr (0, h4)" "roomy i k h4" "hal_rep h4 G4"
    "s_threads G4 = s_threads G3" "mount_keeps q h3 h4"
    and new: "calls h4 G4 t = take 1 (calls h3 G3 t) @ (f_funct (functs h3 q), f_arg (functs h3 q)) # drop 1 (calls h3 G3 t)"
    and c4: "\<forall>u \<in> set (s_threads G3). u \<noteq> t \<longrightarrow> calls h4 G4 u = calls h3 G3 u"
    and pr: "program h4 G4 t = take 1 (program h3 G3 t) @ q # drop 1 (program h3 G3 t)"
    by (rule mount_ok [OF h3(2,3) li th3(3) funct_named_unique [OF h3(3) q3in q3(1)] th3(1) q3(4) th3(2) at])
  have prog: "calls h4 G4 t = [(f1, a1), (f2, a2)]" by (simp add: new c3(1) q3)
  show ?thesis
  proof (rule that [OF h1(1) h2(1) h3(1) h4(1-3) _ _ prog])
    show "s_threads G4 = s_threads G" using h4(4) h3(4) E(1) by simp
    show "build_keeps h h4"
      by (rule build_keeps_trans [OF export_build [OF e2] build_keeps_trans [OF mount_build [OF h3(6)] mount_build [OF h4(5)]]])
    show "\<forall>u \<in> set (s_threads G). u \<noteq> t \<longrightarrow> calls h4 G4 u = calls h G u"
      using c4 c3(2) E(1,3) h3(4) by simp
    show "timed h4 G4 t"
      using h4(5) pq p2(5) q(7) by (auto simp: timed_def pr c3(4) mount_keeps_def fh3)
  qed
qed

end
