(* ===== verification/Task_Wiring.thy ===== *)
theory Task_Wiring
  imports Task_Setup Hal_Room
begin

text \<open>
  The pins of the example task: \<open>init_hal_param\<close> on a well-formed segment with room creates all of
  them, and afterwards the controller's seven pointers lead to seven different pins.
\<close>

section \<open>What stays\<close>

text \<open>Creating pins and parameters does not touch threads, functions and components.\<close>

definition wire_keeps :: "hal \<Rightarrow> hal \<Rightarrow> bool" where
  "wire_keeps h h' \<longleftrightarrow> threads h' = threads h \<and> thread_list_ptr h' = thread_list_ptr h \<and> links h' = links h \<and>
     entries h' = entries h \<and> functs h' = functs h \<and> funct_list_ptr h' = funct_list_ptr h \<and> comps h' = comps h \<and>
     comp_list_ptr h' = comp_list_ptr h \<and> hd_lock h' = hd_lock h \<and> hd_state h' = hd_state h \<and> lib_mem_id h' = lib_mem_id h"

lemma wire_keeps_refl [simp]: "wire_keeps h h"
  by (simp add: wire_keeps_def)

lemma wire_keeps_trans: "wire_keeps h1 h2 \<Longrightarrow> wire_keeps h2 h3 \<Longrightarrow> wire_keeps h1 h3"
  by (simp add: wire_keeps_def)

section \<open>The block\<close>

lemma malloc_run:
  assumes "roomy i (Suc k) h"
  shows "\<exists>d b a. hal_malloc sizeof_task_hal_data h = Inr (Some d, h\<lparr>shmem_bot := b, shmem_avail := a\<rparr>) \<and>
    roomy i k (h\<lparr>shmem_bot := b, shmem_avail := a\<rparr>) \<and> 0 < d \<and> d + 64 \<le> HAL_SIZE"
proof -
  obtain G where G: "hal_rep h G" "hal_data h = SP_mapped" "\<not> locked (hd_mutex h)"
    using assms by (auto simp: roomy_def hal_inv_def)
  have ar: "area_ok h" "0 < shmem_bot h" using rep_area [OF G(1)] by (simp_all add: area_wf_def)
  let ?h1 = "h\<lparr>hd_mutex := set_lock (hd_mutex h)\<rparr>"
  have ok: "area_ok ?h1" using ar by (simp add: area_ok_def)
  have room: "shmem_bot h + 128 * int (Suc k) \<le> shmem_top h" using assms by (simp add: roomy_def)
  obtain r h2 where c: "shmalloc_up 64 ?h1 = (r, h2)" by fastforce
  have "r \<noteq> None" using room c by (auto simp: shmalloc_up_def Let_def align_up_simps split: if_splits)
  then obtain d where r: "r = Some d" by blast
  note U = shmalloc_up_Some [OF ok _ c [unfolded r]]
  let ?b = "d + 64" and ?a = "shmem_top h - (d + 64)"
  let ?h = "h\<lparr>shmem_bot := ?b, shmem_avail := ?a\<rparr>"
  have run: "hal_malloc sizeof_task_hal_data h = Inr (Some d, ?h)"
    using G c U(5) by (simp add: hal_malloc_def sizeof_task_hal_data_def r hal_mutex_give_def)
  have d: "shmem_bot h \<le> d" "d < shmem_bot h + 16" "d + 64 \<le> shmem_top h" using U(1-3) by simp_all
  have "area_wf ?h" using d ar by (auto simp: area_wf_def area_ok_def)
  then have "hal_rep ?h G"
    by (intro hal_rep_step [OF G(1)] comps_ok_frame [OF hal_rep_parts(2) [OF G(1)]] pins_ok_frame [OF hal_rep_parts(3) [OF G(1)]]
        params_ok_frame [OF hal_rep_parts(4) [OF G(1)]] functs_ok_frame [OF hal_rep_parts(5) [OF G(1)]]
        threads_ok_frame [OF hal_rep_parts(6) [OF G(1)]] rings_ok_frame [OF hal_rep_parts(7) [OF G(1)]]
        users_ok_frame [OF hal_rep_parts(8) [OF G(1)]]) (simp_all add: keeps_defs)
  moreover have "comp_of i ?h = comp_of i h" by (simp add: comp_of_def)
  ultimately have "roomy i k ?h" using assms G d room by (auto simp: roomy_def hal_inv_def)
  moreover have "d + 64 \<le> HAL_SIZE" using d(3) ar by (simp add: area_ok_def)
  ultimately show ?thesis using run d(1) ar(2) by (intro exI [of _ d] exI [of _ ?b] exI [of _ ?a]) simp
qed

section \<open>One pin\<close>

lemma new_pin_run:
  assumes "roomy i (Suc k) h" "pin_type_ok ty" "length nm \<le> 47" "SHMCHK c" "nm \<notin> set (pin_names h)"
  shows "\<exists>n h'. hal_pin_newf ty (Cell_user c) i nm h = Inr (0, h') \<and> roomy i k h' \<and> ucells h' = (ucells h)(c := D_sig n) \<and>
    n \<notin> pin_set h \<and> pin_set h' = insert n (pin_set h) \<and> pin_names h' = insort nm (pin_names h) \<and>
    (\<forall>q. p_dummysig (pins h' q) = (if q = n then 0 else p_dummysig (pins h q))) \<and>
    hal_data h' = hal_data h \<and> param_names h' = param_names h \<and> wire_keeps h h'"
proof -
  have R: "hal_inv h" "comp_of i h \<noteq> 0" "c_ready (comps h (comp_of i h)) = 0" "c_shmem_base (comps h (comp_of i h)) = B_base"
    "hd_lock h AND 1 = 0" "shmem_bot h + 128 * int (Suc k) \<le> shmem_top h" using assms(1) by (simp_all add: roomy_def)
  have "fst (alloc_pin_struct h) \<noteq> None" using alloc_pin_room [OF R(1)] R(6) by simp
  then have v: "pin_verdict nm ty (Cell_user c) i h = 0"
    using R assms(2-5) by (simp add: pin_verdict_def)
  from hal_pin_new_run [OF R(1), of "Cell_user c" nm ty i] obtain h' where h': "hal_pin_new nm ty (Cell_user c) i h = Inr (0, h')"
    "hal_inv h'" "pin_names h' = insort nm (pin_names h)" and mk: "pin_made i (Cell_user c) h h'"
    unfolding v by auto
  from mk obtain n av tp pl fr pn where
    e: "h' = (put_cell (Cell_user c) (D_sig n) h)\<lparr>shmem_avail := av, shmem_top := tp, pin_list_ptr := pl, pin_free_ptr := fr, pins := pn\<rparr>"
    and n: "n \<notin> pin_set h" "pin_set h' = insert n (pin_set h)" "shmem_top h - 128 \<le> tp"
      "\<forall>q. p_dummysig (pn q) = (if q = n then 0 else p_dummysig (pins h q))"
    unfolding pin_made_def using R(4) by auto
  have "hal_pin_newf ty (Cell_user c) i nm h = Inr (0, h')"
    using h'(1) assms(3) by (simp add: hal_pin_newf_def hal_pin_newfv_def HAL_NAME_LEN_def)
  moreover have "comp_of i h' = comp_of i h" by (rule comp_of_same) (simp_all add: e)
  then have "roomy i k h'" using R h'(2) n(3) by (simp add: roomy_def) (simp add: e)
  moreover have "ucells h' = (ucells h)(c := D_sig n)" "hal_data h' = hal_data h" "param_names h' = param_names h" "wire_keeps h h'"
    "\<forall>q. p_dummysig (pins h' q) = (if q = n then 0 else p_dummysig (pins h q))"
    using n(4) by (simp_all add: e param_names_def wire_keeps_def)
  ultimately show ?thesis using n(1,2) h'(3) by blast
qed

section \<open>All pins\<close>

definition pins_of :: "(hal_type \<times> td_pin \<times> string) list \<Rightarrow> td_pin set" where
  "pins_of ps = (\<lambda>e. fst (snd e)) ` set ps"

definition fresh_pins :: "(hal_type \<times> td_pin \<times> string) list \<Rightarrow> hal \<Rightarrow> bool" where
  "fresh_pins ps h \<longleftrightarrow> distinct (map (\<lambda>e. fst (snd e)) ps) \<and> distinct (map (\<lambda>e. snd (snd e)) ps) \<and>
     (\<forall>e\<in>set ps. pin_type_ok (fst e) \<and> length (snd (snd e)) \<le> 47 \<and> snd (snd e) \<notin> set (pin_names h))"

text \<open>What the creation of pins leaves: the pointers lead to new pins that carry 0.\<close>

definition pointers_set :: "off \<Rightarrow> td_pin set \<Rightarrow> (td_pin \<Rightarrow> off) \<Rightarrow> hal \<Rightarrow> hal \<Rightarrow> bool" where
  "pointers_set d P q h h' \<longleftrightarrow> inj_on q P \<and> q ` P \<inter> pin_set h = {} \<and> pin_set h' = pin_set h \<union> q ` P \<and> hal_data h' = hal_data h \<and> param_names h' = param_names h \<and>
     (\<forall>p. ucells h' (d + td_off p) = (if p \<in> P then D_sig (q p) else ucells h (d + td_off p))) \<and>
     (\<forall>n. p_dummysig (pins h' n) = (if n \<in> q ` P then 0 else p_dummysig (pins h n)))"

lemma pointers_set_step:
  assumes "pointers_set d P q h1 h2" "p \<notin> P" "n \<notin> pin_set h" "pin_set h1 = insert n (pin_set h)"
    "ucells h1 = (ucells h)(d + td_off p := D_sig n)" "hal_data h1 = hal_data h" "param_names h1 = param_names h"
    "\<forall>m. p_dummysig (pins h1 m) = (if m = n then 0 else p_dummysig (pins h m))"
  shows "pointers_set d (insert p P) (q(p := n)) h h2"
proof -
  have im: "(q(p := n)) ` insert p P = insert n (q ` P)" using assms(2) by (auto simp: image_iff)
  have "inj_on (q(p := n)) P \<longleftrightarrow> inj_on q P" by (rule inj_on_cong) (use assms(2) in auto)
  then have "inj_on (q(p := n)) (insert p P)" using assms(1,2,4) by (auto simp: pointers_set_def)
  moreover have "pin_set h2 = pin_set h \<union> insert n (q ` P)" using assms(1,4) by (auto simp: pointers_set_def)
  moreover have "insert n (q ` P) \<inter> pin_set h = {}" using assms(1,3,4) by (auto simp: pointers_set_def)
  moreover have "ucells h2 (d + td_off r) = (if r \<in> insert p P then D_sig ((q(p := n)) r) else ucells h (d + td_off r))" for r
    using assms(1,2,5) by (auto simp: pointers_set_def)
  moreover have "p_dummysig (pins h2 m) = (if m \<in> insert n (q ` P) then 0 else p_dummysig (pins h m))" for m
    using assms(1,8) by (simp add: pointers_set_def)
  ultimately show ?thesis using assms(1,6,7) unfolding pointers_set_def im by simp
qed

lemma new_pins_run:
  assumes "0 < d" "d + 64 \<le> HAL_SIZE"
  shows "roomy (mot_comp_id x) (length ps + k) (x_hal x) \<Longrightarrow> fresh_pins ps (x_hal x) \<Longrightarrow>
    \<exists>h q. new_pins d ps x = Inr (True, upd_hal (\<lambda>_. h) x) \<and> roomy (mot_comp_id x) k h \<and> pointers_set d (pins_of ps) q (x_hal x) h \<and>
      set (pin_names h) = set (pin_names (x_hal x)) \<union> (\<lambda>e. snd (snd e)) ` set ps \<and> wire_keeps (x_hal x) h"
proof (induction ps arbitrary: x)
  case Nil
  have "upd_hal (\<lambda>_. x_hal x) x = x" by (simp add: upd_hal_def)
  moreover have "pointers_set d (pins_of []) q (x_hal x) (x_hal x)" for q by (simp add: pins_of_def pointers_set_def)
  ultimately show ?case using Nil.prems(1) by (intro exI [of _ "x_hal x"]) simp
next
  case (Cons e ps)
  obtain ty p nm where e: "e = (ty, p, nm)" by (cases e) auto
  have chk: "SHMCHK (d + td_off p)" using assms by (cases p) (simp_all add: SHMCHK_def)
  from Cons.prems(2) have fr: "pin_type_ok ty" "length nm \<le> 47" "nm \<notin> set (pin_names (x_hal x))" "p \<notin> pins_of ps"
    "nm \<notin> (\<lambda>e. snd (snd e)) ` set ps"
    by (simp_all add: fresh_pins_def e pins_of_def)
  from Cons.prems(1) have "roomy (mot_comp_id x) (Suc (length ps + k)) (x_hal x)" by simp
  from new_pin_run [OF this fr(1,2) chk fr(3)] obtain n h1 where
    run: "hal_pin_newf ty (Cell_user (d + td_off p)) (mot_comp_id x) nm (x_hal x) = Inr (0, h1)" and
    h1: "roomy (mot_comp_id x) (length ps + k) h1" and
    n: "n \<notin> pin_set (x_hal x)" "pin_set h1 = insert n (pin_set (x_hal x))" "ucells h1 = (ucells (x_hal x))(d + td_off p := D_sig n)"
      "hal_data h1 = hal_data (x_hal x)" "param_names h1 = param_names (x_hal x)"
      "\<forall>m. p_dummysig (pins h1 m) = (if m = n then 0 else p_dummysig (pins (x_hal x) m))"
      "pin_names h1 = insort nm (pin_names (x_hal x))" "wire_keeps (x_hal x) h1" by blast
  let ?x = "upd_hal (\<lambda>_. h1) x"
  have sel: "x_hal ?x = h1" "mot_comp_id ?x = mot_comp_id x" "upd_hal (\<lambda>_. h) ?x = upd_hal (\<lambda>_. h) x" for h
    by (simp_all add: upd_hal_def)
  have "fresh_pins ps h1" using Cons.prems(2) fr(5) unfolding fresh_pins_def n(7) by (auto simp: set_insort_key e)
  with Cons.IH [of ?x] h1 obtain h q where ih: "new_pins d ps ?x = Inr (True, upd_hal (\<lambda>_. h) x)"
    "roomy (mot_comp_id x) k h" "pointers_set d (pins_of ps) q h1 h"
    "set (pin_names h) = set (pin_names h1) \<union> (\<lambda>e. snd (snd e)) ` set ps" "wire_keeps h1 h" unfolding sel by blast
  have "new_pins d (e # ps) x = Inr (True, upd_hal (\<lambda>_. h) x)" using run ih(1) by (simp add: e in_hal_def)
  moreover have "pins_of (e # ps) = insert p (pins_of ps)" by (simp add: pins_of_def e)
  moreover have "set (pin_names h) = set (pin_names (x_hal x)) \<union> (\<lambda>e. snd (snd e)) ` set (e # ps)"
    by (auto simp: ih(4) n(7) set_insort_key e)
  moreover have "wire_keeps (x_hal x) h" by (rule wire_keeps_trans [OF n(8) ih(5)])
  ultimately show ?case using pointers_set_step [OF ih(3) fr(4) n(1-6)] ih(2) by metis
qed

section \<open>Start values\<close>

lemma write_pins_run:
  assumes "wired q x"
  shows "write_pins ps x = Inr (fold (\<lambda>(p, v). set_pin q p v) ps x)"
  using assms by (induction ps arbitrary: x) (auto simp: wired_write [of q])

lemma fold_set_pin:
  assumes "wired q x"
  shows "wired q (fold (\<lambda>(p, v). set_pin q p v) ps x)"
    "p \<notin> fst ` set ps \<Longrightarrow> pin_value q p (fold (\<lambda>(p, v). set_pin q p v) ps x) = pin_value q p x"
  using assms by (induction ps arbitrary: x) auto

section \<open>Parameters\<close>

lemma new_param_run:
  assumes "roomy i (Suc k) h" "length nm \<le> 47" "SHMCHK c" "nm \<notin> set (param_names h)"
  shows "\<exists>h'. hal_param_s32_new nm HAL_RW HAL_S32 (A_user c) i h = Inr (0, h') \<and> roomy i k h' \<and> param_step h h' \<and>
    param_names h' = insort nm (param_names h)"
proof -
  have R: "hal_inv h" "comp_of i h \<noteq> 0" "c_ready (comps h (comp_of i h)) = 0" "c_shmem_base (comps h (comp_of i h)) = B_base"
    "hd_lock h AND 1 = 0" "shmem_bot h + 128 * int (Suc k) \<le> shmem_top h" using assms(1) by (simp_all add: roomy_def)
  have "fst (alloc_param_struct h) \<noteq> None" using alloc_param_room [OF R(1)] R(6) by simp
  then have v: "param_verdict nm HAL_S32 HAL_RW (A_user c) i h = 0"
    using R assms(2-4) by (simp add: param_verdict_def param_type_ok_def)
  from hal_param_new_run [OF R(1), of nm HAL_S32 HAL_RW "A_user c" i] obtain h' where
    h': "hal_param_s32_new nm HAL_RW HAL_S32 (A_user c) i h = Inr (0, h')" "hal_inv h'" "param_step h h'"
      "param_names h' = insort nm (param_names h)"
    unfolding v by (auto simp: hal_param_s32_new_def)
  from h'(3) obtain av tp pl fr pn where
    e: "h' = h\<lparr>shmem_avail := av, shmem_top := tp, param_list_ptr := pl, param_free_ptr := fr, params := pn\<rparr>"
    and tp: "shmem_top h - 128 \<le> tp" by (auto simp: param_step_def)
  have "comp_of i h' = comp_of i h" by (rule comp_of_same) (simp_all add: e)
  then have "roomy i k h'" using R h'(2) tp by (simp add: roomy_def) (simp add: e)
  then show ?thesis using h' by blast
qed

lemma param_step_same:
  assumes "param_step h h'"
  shows "ucells h' = ucells h" "pins h' = pins h" "hal_data h' = hal_data h" "pin_names h' = pin_names h" "wire_keeps h h'"
    "pin_set h' = pin_set h"
  using assms by (auto simp: param_step_def pin_names_def wire_keeps_def pin_set_def)

section \<open>The whole of it\<close>

lemma roomy_signal: "roomy i k h \<Longrightarrow> roomy i k (upd_pin n (\<lambda>s. s\<lparr>p_dummysig := v\<rparr>) h)"
  using hal_inv_upd_dummysig [of h n v] comp_of_same [of "upd_pin n (\<lambda>s. s\<lparr>p_dummysig := v\<rparr>) h" h i]
  by (simp add: roomy_def upd_pin_def)

lemma set_pin_keeps:
  "mot_comp_id (set_pin q p v x) = mot_comp_id x" "max_accel (set_pin q p v x) = max_accel x"
  "param_names (x_hal (set_pin q p v x)) = param_names (x_hal x)"
  "pin_names (x_hal (set_pin q p v x)) = pin_names (x_hal x)" "ucells (x_hal (set_pin q p v x)) = ucells (x_hal x)"
  "hal_data (x_hal (set_pin q p v x)) = hal_data (x_hal x)"
  "p_dummysig (pins (x_hal (set_pin q p v x)) n) = (if n = q p then v else p_dummysig (pins (x_hal x) n))"
  "wire_keeps h (x_hal (set_pin q p v x)) = wire_keeps h (x_hal x)"
  "pin_set (x_hal (set_pin q p v x)) = pin_set (x_hal x)"
  "upd_hal (\<lambda>_. h) (set_pin q p v x) = upd_hal (\<lambda>_. h) x"
  by (simp_all add: set_pin_def upd_hal_def) (simp_all add: upd_pin_def param_names_def wire_keeps_def)

lemma roomy_set_pin: "roomy i k (x_hal x) \<Longrightarrow> roomy i k (x_hal (set_pin q p v x))"
  using roomy_signal [of i k "x_hal x"] by (simp add: set_pin_def upd_hal_def)

lemma fold_set_pin_keeps:
  fixes q and h :: hal defines "w \<equiv> fold (\<lambda>(p, v). set_pin q p v)"
  shows "mot_comp_id (w ps x) = mot_comp_id x \<and> max_velocity (w ps x) = max_velocity x \<and> max_accel (w ps x) = max_accel x \<and>
    taskHalData (w ps x) = taskHalData x \<and> param_names (x_hal (w ps x)) = param_names (x_hal x) \<and>
    pin_names (x_hal (w ps x)) = pin_names (x_hal x) \<and> ucells (x_hal (w ps x)) = ucells (x_hal x) \<and>
    hal_data (x_hal (w ps x)) = hal_data (x_hal x) \<and> wire_keeps h (x_hal (w ps x)) = wire_keeps h (x_hal x) \<and>
    pin_set (x_hal (w ps x)) = pin_set (x_hal x) \<and>
    upd_hal (\<lambda>_. h) (w ps x) = upd_hal (\<lambda>_. h) x"
    and "n \<notin> q ` fst ` set ps \<Longrightarrow> p_dummysig (pins (x_hal (w ps x)) n) = p_dummysig (pins (x_hal x) n)"
    and "roomy i k (x_hal x) \<Longrightarrow> roomy i k (x_hal (w ps x))"
  unfolding w_def by (induction ps arbitrary: x) (auto simp: set_pin_keeps roomy_set_pin)

definition names_free :: "hal \<Rightarrow> bool" where
  "names_free h \<longleftrightarrow> (\<forall>e\<in>set task_pins. snd (snd e) \<notin> set (pin_names h)) \<and>
     ''example.max-velocity'' \<notin> set (param_names h) \<and> ''example.max-accel'' \<notin> set (param_names h)"

lemma task_pins_facts:
  "length task_pins = 7" "pins_of task_pins = UNIV" "(\<lambda>e. snd (snd e)) ` set task_pins = snd ` snd ` set task_pins"
  "names_free h \<Longrightarrow> fresh_pins task_pins h" "fst ` set start_values = UNIV" "distinct (map fst start_values)"
proof -
  have "p \<in> pins_of task_pins" "p \<in> fst ` set start_values" for p
    by (cases p; simp add: pins_of_def task_pins_def start_values_def)+
  then show "pins_of task_pins = UNIV" "fst ` set start_values = UNIV" by auto
  show "fresh_pins task_pins h" if "names_free h"
    using that by (auto simp: fresh_pins_def names_free_def task_pins_def pin_type_ok_def)
qed (auto simp: task_pins_def start_values_def)

lemma fold_set_pin_at:
  assumes "wired q x" "distinct (map fst ps)" "(p, v) \<in> set ps"
  shows "pin_value q p (fold (\<lambda>(p, v). set_pin q p v) ps x) = v"
  using assms
proof (induction ps arbitrary: x)
  case (Cons e ps)
  obtain r u where e: "e = (r, u)" by (cases e)
  show ?case
  proof (cases "p = r")
    case True
    then have "p \<notin> fst ` set ps" "v = u" using Cons.prems e by (auto simp: image_iff)
    then show ?thesis using Cons.prems(1) True by (simp add: e fold_set_pin(2))
  next
    case False
    then show ?thesis using Cons e by simp
  qed
qed simp

lemma upd_hal_sel [simp]:
  "x_hal (upd_hal f x) = f (x_hal x)" "mot_comp_id (upd_hal f x) = mot_comp_id x" "taskHalData (upd_hal f x) = taskHalData x"
  "max_velocity (upd_hal f x) = max_velocity x" "max_accel (upd_hal f x) = max_accel x"
  by (simp_all add: upd_hal_def)

lemma hal_inv_mapped: "hal_inv h \<Longrightarrow> hal_data h = SP_mapped"
  by (simp add: hal_inv_def)

lemma wired_same:
  assumes "wired q x" "taskHalData y = taskHalData x" "ucells (x_hal y) = ucells (x_hal x)" "hal_data (x_hal y) = hal_data (x_hal x)"
  shows "wired q y"
  using assms by (simp add: wired_def)

text \<open>The block and the pins.\<close>

lemma init_pins_run:
  assumes "roomy (mot_comp_id x) (10 + k) (x_hal x)" "names_free (x_hal x)"
  shows "\<exists>d q y x1. in_hal (hal_malloc sizeof_task_hal_data) x = Inr (Some d, x1) \<and> 0 < d \<and> d + 64 \<le> HAL_SIZE \<and>
    new_pins d task_pins (x1\<lparr>taskHalData := Some d, max_velocity := 1000, max_accel := 500\<rparr>) = Inr (True, y) \<and>
    roomy (mot_comp_id x) (2 + k) (x_hal y) \<and> mot_comp_id y = mot_comp_id x \<and> wired q y \<and> max_velocity y = 1000 \<and> max_accel y = 500 \<and>
    range q \<inter> pin_set (x_hal x) = {} \<and> pin_set (x_hal y) = pin_set (x_hal x) \<union> range q \<and> param_names (x_hal y) = param_names (x_hal x) \<and>
    set (pin_names (x_hal y)) = set (pin_names (x_hal x)) \<union> snd ` snd ` set task_pins \<and>
    (\<forall>n. n \<notin> range q \<longrightarrow> p_dummysig (pins (x_hal y) n) = p_dummysig (pins (x_hal x) n)) \<and> wire_keeps (x_hal x) (x_hal y) \<and>
    y = x\<lparr>x_sys := (x_sys x)\<lparr>s_hal := x_hal y\<rparr>, taskHalData := Some d, max_velocity := 1000, max_accel := 500\<rparr>"
proof -
  have "roomy (mot_comp_id x) (Suc (9 + k)) (x_hal x)" using assms(1) by (simp add: eval_nat_numeral)
  from malloc_run [OF this] obtain d b a where
    m: "hal_malloc sizeof_task_hal_data (x_hal x) = Inr (Some d, (x_hal x)\<lparr>shmem_bot := b, shmem_avail := a\<rparr>)"
      "roomy (mot_comp_id x) (9 + k) ((x_hal x)\<lparr>shmem_bot := b, shmem_avail := a\<rparr>)" "0 < d" "d + 64 \<le> HAL_SIZE" by blast
  define h1 where "h1 = (x_hal x)\<lparr>shmem_bot := b, shmem_avail := a\<rparr>"
  have h1: "pin_names h1 = pin_names (x_hal x)" "param_names h1 = param_names (x_hal x)" "pin_set h1 = pin_set (x_hal x)"
    "pins h1 = pins (x_hal x)" "wire_keeps (x_hal x) h1" by (simp_all add: h1_def pin_names_def param_names_def pin_set_def wire_keeps_def)
  define x1 where "x1 = (upd_hal (\<lambda>_. h1) x)\<lparr>taskHalData := Some d, max_velocity := 1000, max_accel := 500\<rparr>"
  have x1: "x_hal x1 = h1" "mot_comp_id x1 = mot_comp_id x" "taskHalData x1 = Some d" "max_velocity x1 = 1000" "max_accel x1 = 500"
    by (simp_all add: x1_def)
  have "roomy (mot_comp_id x1) (length task_pins + (2 + k)) (x_hal x1)" using m(2) by (simp add: x1 h1_def task_pins_facts(1))
  moreover have "fresh_pins task_pins (x_hal x1)"
    using assms(2) by (intro task_pins_facts(4)) (simp add: names_free_def x1 h1)
  ultimately obtain h2 q where n: "new_pins d task_pins x1 = Inr (True, upd_hal (\<lambda>_. h2) x1)" "roomy (mot_comp_id x1) (2 + k) h2"
    "pointers_set d UNIV q (x_hal x1) h2" "set (pin_names h2) = set (pin_names (x_hal x1)) \<union> snd ` snd ` set task_pins"
    "wire_keeps (x_hal x1) h2"
    using new_pins_run [OF m(3,4), of x1 task_pins "2 + k"] unfolding task_pins_facts(2,3) by blast
  have "hal_data h2 = SP_mapped" using n(2) by (simp add: roomy_def hal_inv_def)
  then have "wired q (upd_hal (\<lambda>_. h2) x1)" using n(3) by (auto simp: wired_def pointers_set_def x1)
  moreover have "in_hal (hal_malloc sizeof_task_hal_data) x = Inr (Some d, upd_hal (\<lambda>_. h1) x)"
    using m(1) by (simp add: in_hal_def h1_def)
  moreover have "wire_keeps (x_hal x) h2" using wire_keeps_trans [OF h1(5)] n(5) by (simp add: x1)
  ultimately show ?thesis using m(3,4) n(1-4) x1 h1
    by (intro exI [of _ d] exI [of _ q] exI [of _ "upd_hal (\<lambda>_. h2) x1"] exI [of _ "upd_hal (\<lambda>_. h1) x"])
      (simp add: pointers_set_def x1_def upd_hal_def)
qed

lemma init_hal_param_run:
  assumes "roomy (mot_comp_id x) (10 + k) (x_hal x)" "names_free (x_hal x)"
  shows "\<exists>y q d. init_hal_param x = Inr (0, y) \<and> wired q y \<and> range q \<inter> pin_set (x_hal x) = {} \<and>
    (\<forall>p. pin_value q p y = (if p = feed_rate then feed_one else 0)) \<and> max_velocity y = 1000 \<and> max_accel y = 500 \<and>
    set (pin_names (x_hal y)) = set (pin_names (x_hal x)) \<union> snd ` snd ` set task_pins \<and>
    set (param_names (x_hal y)) = set (param_names (x_hal x)) \<union> {''example.max-velocity'', ''example.max-accel''} \<and>
    (\<forall>n. n \<notin> range q \<longrightarrow> p_dummysig (pins (x_hal y) n) = p_dummysig (pins (x_hal x) n)) \<and>
    pin_set (x_hal y) = pin_set (x_hal x) \<union> range q \<and> roomy (mot_comp_id x) k (x_hal y) \<and> mot_comp_id y = mot_comp_id x \<and> wire_keeps (x_hal x) (x_hal y) \<and>
    y = x\<lparr>x_sys := (x_sys x)\<lparr>s_hal := x_hal y\<rparr>, taskHalData := Some d, max_velocity := 1000, max_accel := 500\<rparr>"
proof -
  from init_pins_run [OF assms] obtain d q x1 x2 where
    d: "in_hal (hal_malloc sizeof_task_hal_data) x = Inr (Some d, x1)" "0 < d" "d + 64 \<le> HAL_SIZE" and
    n: "new_pins d task_pins (x1\<lparr>taskHalData := Some d, max_velocity := 1000, max_accel := 500\<rparr>) = Inr (True, x2)" and
    x2: "roomy (mot_comp_id x) (2 + k) (x_hal x2)" "mot_comp_id x2 = mot_comp_id x" "wired q x2" "max_velocity x2 = 1000" "max_accel x2 = 500"
      "range q \<inter> pin_set (x_hal x) = {}" "pin_set (x_hal x2) = pin_set (x_hal x) \<union> range q" "param_names (x_hal x2) = param_names (x_hal x)"
      "set (pin_names (x_hal x2)) = set (pin_names (x_hal x)) \<union> snd ` snd ` set task_pins"
      "\<forall>n. n \<notin> range q \<longrightarrow> p_dummysig (pins (x_hal x2) n) = p_dummysig (pins (x_hal x) n)"
      "wire_keeps (x_hal x) (x_hal x2)"
      "x2 = x\<lparr>x_sys := (x_sys x)\<lparr>s_hal := x_hal x2\<rparr>, taskHalData := Some d, max_velocity := 1000, max_accel := 500\<rparr>"
    by (elim exE conjE) (rule that)
  define x3 where "x3 = fold (\<lambda>(p, v). set_pin q p v) start_values x2"
  note K = fold_set_pin_keeps [where q = q and ps = start_values and x = x2, folded x3_def]
  have w: "write_pins start_values x2 = Inr x3" "wired q x3"
    unfolding x3_def by (rule write_pins_run [OF x2(3)], rule fold_set_pin(1) [OF x2(3)])
  have v: "pin_value q p x3 = (if p = feed_rate then feed_one else 0)" for p
    unfolding x3_def by (rule fold_set_pin_at [OF x2(3)]) (cases p; simp add: start_values_def)+
  have chk: "SHMCHK (d + off_max_velocity)" "SHMCHK (d + off_max_accel)"
    using d by (simp_all add: SHMCHK_def off_max_velocity_def off_max_accel_def)
  have r: "roomy (mot_comp_id x) (Suc (Suc k)) (x_hal x3)" using K(3) [OF x2(1)] by (simp add: eval_nat_numeral)
  have pn: "''example.max-velocity'' \<notin> set (param_names (x_hal x3))" "''example.max-accel'' \<notin> set (param_names (x_hal x3))"
    using assms(2) K(1) by (simp_all add: names_free_def x2(8))
  from new_param_run [OF r _ chk(1) pn(1)] obtain h4 where
    p4: "hal_param_s32_new ''example.max-velocity'' HAL_RW HAL_S32 (A_user (d + off_max_velocity)) (mot_comp_id x) (x_hal x3) = Inr (0, h4)"
      "roomy (mot_comp_id x) (Suc k) h4" "param_step (x_hal x3) h4"
      "param_names h4 = insort ''example.max-velocity'' (param_names (x_hal x3))" by auto
  have "''example.max-accel'' \<notin> set (param_names h4)" using pn(2) by (simp add: p4(4) set_insort_key)
  from new_param_run [OF p4(2) _ chk(2) this] obtain h5 where
    p5: "hal_param_s32_new ''example.max-accel'' HAL_RW HAL_S32 (A_user (d + off_max_accel)) (mot_comp_id x) h4 = Inr (0, h5)"
      "roomy (mot_comp_id x) k h5" "param_step h4 h5" "param_names h5 = insort ''example.max-accel'' (param_names h4)" by auto
  note S = param_step_same [OF p4(3)] param_step_same [OF p5(3)]
  define y where "y = upd_hal (\<lambda>_. h5) x3"
  have y: "x_hal y = h5" "taskHalData y = taskHalData x3" "max_velocity y = max_velocity x3" "max_accel y = max_accel x3"
    "mot_comp_id y = mot_comp_id x3" by (simp_all add: y_def)
  have c: "mot_comp_id x3 = mot_comp_id x" using K(1) x2(2) by simp
  have i4: "in_hal (hal_param_s32_new ''example.max-velocity'' HAL_RW HAL_S32 (A_user (d + off_max_velocity)) (mot_comp_id x)) x3 =
      Inr (0, upd_hal (\<lambda>_. h4) x3)"
    by (simp only: in_hal_def p4(1) bnd.simps prod.case)
  have i5: "in_hal (hal_param_s32_new ''example.max-accel'' HAL_RW HAL_S32 (A_user (d + off_max_accel)) (mot_comp_id x))
      (upd_hal (\<lambda>_. h4) x3) = Inr (0, y)"
    by (simp only: in_hal_def upd_hal_sel p5(1) bnd.simps prod.case) (simp add: y_def upd_hal_def)
  have run: "init_hal_param x = Inr (0, y)"
    by (simp only: init_hal_param_def d(1) n w(1) c i4 i5 upd_hal_sel Let_def bnd.simps prod.case option.case if_True if_False not_True_eq_False simp_thms)
  have "wired q y" by (rule wired_same [OF w(2)]) (simp_all add: y S)
  moreover have "pin_value q p y = pin_value q p x3" for p by (simp add: pin_value_def y S)
  moreover have "p_dummysig (pins (x_hal y) n) = p_dummysig (pins (x_hal x) n)" if "n \<notin> range q" for n
    using K(2) [of n] x2(10) that by (simp add: y S task_pins_facts(5))
  moreover have "wire_keeps (x_hal x) h5"
    using K(1) [of "x_hal x"] x2(11) wire_keeps_trans [OF _ wire_keeps_trans [OF S(5,11)]] by blast
  moreover have "y = x\<lparr>x_sys := (x_sys x)\<lparr>s_hal := h5\<rparr>, taskHalData := Some d, max_velocity := 1000, max_accel := 500\<rparr>"
  proof -
    have "y = upd_hal (\<lambda>_. h5) x2" unfolding y_def using K(1) [of h5] by blast
    moreover obtain h2 where "x2 = x\<lparr>x_sys := (x_sys x)\<lparr>s_hal := h2\<rparr>, taskHalData := Some d, max_velocity := 1000, max_accel := 500\<rparr>"
      using x2(12) by blast
    ultimately show ?thesis by (simp add: upd_hal_def)
  qed
  moreover have "set (pin_names h5) = set (pin_names (x_hal x)) \<union> snd ` snd ` set task_pins"
    using K(1) x2(9) by (simp add: S)
  moreover have "set (param_names h5) = set (param_names (x_hal x)) \<union> {''example.max-velocity'', ''example.max-accel''}"
    using K(1) x2(8) by (auto simp: p5(4) p4(4) set_insort_key)
  moreover have "pin_set h5 = pin_set (x_hal x) \<union> range q" using K(1) x2(7) by (simp add: S)
  ultimately show ?thesis using run v K(1) x2(1-11)
    by (intro exI [of _ y] exI [of _ q] exI [of _ d]) (simp add: y p5(2))
qed

text \<open>
  On a well-formed segment with room for ten structs, whose pin and parameter names are not
  taken, \<open>init_hal_param\<close> returns 0. Then the controller's seven pointers lead to seven different
  pins that did not exist before and carry their start values (all 0 but the feed rate, which is 1.0),
  the seven pin names and the two parameter names are registered, the parameters are 1000 and 500, no
  other pin has changed, and the segment is well formed.
\<close>

theorem init_hal_param_wires:
  assumes "roomy (mot_comp_id x) 10 (x_hal x)" "names_free (x_hal x)"
  shows "\<exists>y q. init_hal_param x = Inr (0, y) \<and> wired q y \<and> range q \<inter> pin_set (x_hal x) = {} \<and>
    (\<forall>p. pin_value q p y = (if p = feed_rate then feed_one else 0)) \<and> max_velocity y = 1000 \<and> max_accel y = 500 \<and>
    set (pin_names (x_hal y)) = set (pin_names (x_hal x)) \<union> snd ` snd ` set task_pins \<and>
    set (param_names (x_hal y)) = set (param_names (x_hal x)) \<union> {''example.max-velocity'', ''example.max-accel''} \<and>
    (\<forall>n. n \<notin> range q \<longrightarrow> p_dummysig (pins (x_hal y) n) = p_dummysig (pins (x_hal x) n)) \<and>
    hal_inv (x_hal y) \<and> mot_comp_id y = mot_comp_id x"
proof -
  have r: "roomy (mot_comp_id x) (10 + 0) (x_hal x)" using assms(1) by simp
  from init_hal_param_run [OF r assms(2)] show ?thesis
    by (elim exE conjE) (intro exI conjI; (assumption | erule roomy_inv))
qed

text \<open>A task that has been registered as component 1 and has no pins yet.\<close>

definition example_fresh :: example where
  "example_fresh = upd_hal (\<lambda>_. one_comp) task_example"

lemma example_fresh_sel: "x_hal example_fresh = one_comp" "mot_comp_id example_fresh = 1" "x_app example_fresh = rtapp_start"
  by (simp_all add: example_fresh_def) (simp_all add: task_example_def upd_hal_def)

lemma example_fresh_room: "roomy (mot_comp_id example_fresh) 10 (x_hal example_fresh)" "names_free (x_hal example_fresh)"
proof -
  have "shmem_bot one_comp = 272" "shmem_top one_comp = 1048464" by (simp_all add: one_comp_def)
  then show "roomy (mot_comp_id example_fresh) 10 (x_hal example_fresh)"
    using one_comp_inv by (simp add: roomy_def example_fresh_sel one_comp_comp one_comp_sel)
  show "names_free (x_hal example_fresh)" by (simp add: names_free_def example_fresh_sel one_comp_names)
qed

theorem init_hal_param_wires_witness:
  "\<exists>y q. init_hal_param example_fresh = Inr (0, y) \<and> wired q y \<and> pin_value q feed_rate y = feed_one \<and>
     ''example.running'' \<in> set (pin_names (x_hal y))"
proof -
  have r: "''example.running'' \<in> snd ` snd ` set task_pins" by (simp add: task_pins_def)
  from init_hal_param_wires [OF example_fresh_room] show ?thesis
    by (elim exE conjE) (rule exI, rule exI, intro conjI, assumption, assumption, simp, simp add: r)
qed

end
