(* ===== verification/Task_Guard.thy ===== *)
theory Task_Guard
  imports Task_Wiring
begin

text \<open>
  The life of the example task as its owner sees it (\<open>ExampleTaskGuard\<close> of
  \<open>ExampleTask/operate.cpp\<close>): initialise, start, send commands, stop, shut down.
\<close>

section \<open>The guard\<close>

record guard =
  g_name :: string
  g_shm_key :: int
  g_shm_size :: int
  g_owns :: bool
  g_started :: bool

text \<open>The constructor; \<open>snprintf\<close> keeps at most 47 characters of the name.\<close>

definition guard_new :: "string \<Rightarrow> int \<Rightarrow> int \<Rightarrow> guard" where
  "guard_new name shm_key shm_size = \<lparr>g_name = take 47 name, g_shm_key = shm_key, g_shm_size = shm_size, g_owns = False, g_started = False\<rparr>"

definition guard_init :: "tenv \<Rightarrow> guard \<Rightarrow> example \<Rightarrow> (int \<times> guard \<times> example) res" where
  "guard_init te g x =
     (if g_owns g then Inr (0, g, x)
      else bnd (task_thread_main te x) (\<lambda>(r, x).
        if r \<noteq> 0 then Inr (- 1, g, x) else Inr (0, g\<lparr>g_owns := True\<rparr>, x)))"

text \<open>The reads of the shared block, which go to \<open>printf\<close>, need it mapped.\<close>

definition print_stats :: "tenv \<Rightarrow> guard \<Rightarrow> example \<Rightarrow> example res" where
  "print_stats te g x =
     bnd (if g_owns g then bnd (te_print_hal te x) (te_print_shmem te) else Inr x) (\<lambda>x.
       if taskShared x = SP_stale then Inl UB else Inr x)"

definition guard_start :: "tenv \<Rightarrow> guard \<Rightarrow> example \<Rightarrow> (int \<times> guard \<times> example) res" where
  "guard_start te g x =
     (if \<not> g_owns g then Inr (- 1, g, x)
      else if g_started g then Inr (0, g, x)
      else bnd (in_hal hal_start_threads x) (\<lambda>(ret, x).
        if ret < 0 then Inr (- 1, g, x)
        else let g = g\<lparr>g_started := True\<rparr> in bnd (print_stats te g x) (\<lambda>x. Inr (0, g, x))))"

definition guard_stop :: "guard \<Rightarrow> example \<Rightarrow> (int \<times> guard \<times> example) res" where
  "guard_stop g x =
     (if \<not> g_started g then Inr (0, g, x)
      else bnd (in_hal hal_stop_threads x) (\<lambda>(ret, x).
        if ret < 0 then Inr (- 1, g, x) else Inr (0, g\<lparr>g_started := False\<rparr>, x)))"

text \<open>The destructor is a call of \<open>shutdown\<close>.\<close>

definition guard_shutdown :: "tenv \<Rightarrow> guard \<Rightarrow> example \<Rightarrow> (guard \<times> example) res" where
  "guard_shutdown te g x =
     (if \<not> g_owns g then Inr (g, x)
      else bnd (if g_started g then guard_stop g x else Inr (0, g, x)) (\<lambda>(_, g, x).
        bnd (task_thread_exit te x) (\<lambda>x. Inr (g\<lparr>g_owns := False, g_started := False\<rparr>, x))))"

section \<open>The life of a guard\<close>

text \<open>The calls of the owner; in between, anything may happen to the task.\<close>

inductive guard_call :: "tenv \<Rightarrow> guard \<times> example \<Rightarrow> guard \<times> example \<Rightarrow> bool" for te where
  init: "guard_init te g x = Inr (r, g', x') \<Longrightarrow> guard_call te (g, x) (g', x')"
| start: "guard_start te g x = Inr (r, g', x') \<Longrightarrow> guard_call te (g, x) (g', x')"
| stop: "guard_stop g x = Inr (r, g', x') \<Longrightarrow> guard_call te (g, x) (g', x')"
| send: "send_command c d x = Inr (r, x') \<Longrightarrow> guard_call te (g, x) (g, x')"
| stats: "print_stats te g x = Inr x' \<Longrightarrow> guard_call te (g, x) (g, x')"
| shutdown: "guard_shutdown te g x = Inr (g', x') \<Longrightarrow> guard_call te (g, x) (g', x')"
| runs: "guard_call te (g, x) (g, x')"

lemma guard_init_flags:
  assumes "guard_init te g x = Inr (r, g', x')"
  shows "g_started g' = g_started g \<and> (g_owns g \<longrightarrow> g_owns g') \<and> (r = 0 \<longleftrightarrow> g_owns g') \<and> (r \<noteq> 0 \<longrightarrow> g' = g)"
  using assms by (auto simp: guard_init_def bnd_Inr_iff split: if_splits)

lemma guard_start_flags:
  assumes "guard_start te g x = Inr (r, g', x')"
  shows "g_owns g' = g_owns g \<and> (g_started g' \<longrightarrow> g_owns g \<or> g_started g) \<and> (r = 0 \<longrightarrow> g_owns g' \<and> g_started g')"
  using assms by (auto simp: guard_start_def bnd_Inr_iff Let_def split: if_splits)

lemma guard_stop_flags:
  assumes "guard_stop g x = Inr (r, g', x')"
  shows "g_owns g' = g_owns g \<and> (g_started g' \<longrightarrow> g_started g) \<and> (r = 0 \<longrightarrow> \<not> g_started g')"
  using assms by (auto simp: guard_stop_def bnd_Inr_iff split: if_splits)

lemma guard_shutdown_flags:
  assumes "guard_shutdown te g x = Inr (g', x')"
  shows "\<not> g_owns g' \<and> (g_started g' \<longrightarrow> g_started g \<and> \<not> g_owns g)"
  using assms by (auto simp: guard_shutdown_def bnd_Inr_iff split: if_splits)

text \<open>
  Property C33: the protocol of the guard, whatever the task and the HAL do in between. Threads are only
  marked as started while the resources are held. A guard that does not hold them refuses to start, and
  its stop and shutdown do nothing. A shutdown that returns leaves such a guard, so a second one (the
  destructor's) has no effect.
\<close>

theorem guard_protocol:
  assumes "(guard_call te)\<^sup>*\<^sup>* (guard_new nm key sz, x0) (g, x)"
  shows "(g_started g \<longrightarrow> g_owns g) \<and> length (g_name g) \<le> 47 \<and>
    (\<not> g_owns g \<longrightarrow> guard_start te g y = Inr (- 1, g, y) \<and> guard_stop g y = Inr (0, g, y) \<and> guard_shutdown te g y = Inr (g, y)) \<and>
    (\<forall>g' x'. guard_shutdown te g x = Inr (g', x') \<longrightarrow> \<not> g_owns g' \<and> \<not> g_started g' \<and> guard_shutdown te g' x' = Inr (g', x'))"
proof -
  have inv: "(g_started g \<longrightarrow> g_owns g) \<and> length (g_name g) \<le> 47" if "(guard_call te)\<^sup>*\<^sup>* p (g, x)"
    "(g_started (fst p) \<longrightarrow> g_owns (fst p)) \<and> length (g_name (fst p)) \<le> 47" for p g x
    using that(1)
  proof (induction "(g, x)" arbitrary: g x rule: rtranclp_induct)
    case base
    with that(2) show ?case by simp
  next
    case (step z)
    obtain g0 x1 where z: "z = (g0, x1)" by fastforce
    have "guard_call te (g0, x1) (g, x)" using step.hyps(2) z by simp
    then show ?case
    proof (cases rule: guard_call.cases)
      case (init r)
      then show ?thesis using step.hyps(3) [OF z] guard_init_flags [OF init]
        by (auto simp: guard_init_def bnd_Inr_iff split: if_splits)
    next
      case (start r)
      then show ?thesis using step.hyps(3) [OF z] guard_start_flags [OF start]
        by (auto simp: guard_start_def bnd_Inr_iff Let_def split: if_splits)
    next
      case (stop r)
      then show ?thesis using step.hyps(3) [OF z] guard_stop_flags [OF stop]
        by (auto simp: guard_stop_def bnd_Inr_iff split: if_splits)
    next
      case shutdown
      then show ?thesis using step.hyps(3) [OF z] guard_shutdown_flags [OF shutdown]
        by (auto simp: guard_shutdown_def guard_stop_def bnd_Inr_iff split: if_splits)
    qed (use step.hyps(3) [OF z] in auto)
  qed
  have I: "(g_started g \<longrightarrow> g_owns g) \<and> length (g_name g) \<le> 47"
    by (rule inv [OF assms]) (simp add: guard_new_def)
  moreover have "guard_start te g y = Inr (- 1, g, y) \<and> guard_stop g y = Inr (0, g, y) \<and> guard_shutdown te g y = Inr (g, y)"
    if "\<not> g_owns g" using that I by (simp add: guard_start_def guard_stop_def guard_shutdown_def)
  moreover have "\<not> g_owns g' \<and> \<not> g_started g' \<and> guard_shutdown te g' x' = Inr (g', x')"
    if "guard_shutdown te g x = Inr (g', x')" for g' x'
    using guard_shutdown_flags [OF that] I by (auto simp: guard_shutdown_def)
  ultimately show ?thesis by blast
qed

section \<open>Shutting down\<close>

text \<open>The last reference to a segment other than that of the ids.\<close>

lemma delete_other_segment:
  fixes os :: os and k :: int
  assumes "module_ids v n m" "i < MAX_SHM" "live (sh_array m ! i)" "sh_key (sh_array m ! i) \<noteq> UUID_KEY"
    and "sh_mem (sh_array m ! i) \<noteq> uuid_base m" "sh_count (sh_array m ! i) = 1"
  defines "m' \<equiv> snd (rtapi_shmem_delete os (int i) k m)"
  shows "module_ids v n m' \<and> \<not> live (sh_array m' ! i)"
proof -
  from assms(1) obtain j where j: "j < MAX_SHM" "uuid_mem_id m = int j" "live (sh_array m ! j)" "sh_key (sh_array m ! j) = UUID_KEY"
    "sh_count (sh_array m ! j) = n" and r: "uuid_ready v m" by (auto simp: module_ids_def)
  have ok: "shmem_ok m" and len: "length (sh_array m) = MAX_SHM" using r by (auto simp: uuid_ready_def)
  let ?s1 = "upd_handle i (\<lambda>h. h\<lparr>sh_count := sh_count h - 1\<rparr>) m"
  have m': "m' = snd (shmem_release os i ?s1)"
    using assms(2,3,6) len by (simp add: m'_def rtapi_shmem_delete_def valid_handle_def Let_def sh_array_upd)
  have "i < length (sh_array ?s1)" using assms(2) len by (simp add: sh_array_upd)
  note R = release_facts [OF this, of os, folded m']
  have arr: "sh_array m' = (sh_array m)[i := sh_array m' ! i]" using R(1) by (simp add: sh_array_upd)
  have dead: "\<not> live (sh_array m' ! i)" using R(2) by (simp add: SHMEM_MAGIC_def)
  have same: "sh_array m' ! k = sh_array m ! k" if "k \<noteq> i" for k using arr that by (metis nth_list_update_neq)
  have sel: "uuid_mem_id m' = uuid_mem_id m" "uuid_base m' = uuid_base m" "uuid_mem m' = uuid_mem m" using R(4-6) by simp_all
  have ok': "shmem_ok m'" unfolding m'_def by (rule shmem_ok_delete [OF ok]) (rule prod.collapse [symmetric])
  have len': "length (sh_array m') = MAX_SHM" using ok' by auto
  from r obtain b where b: "b < MAX_SHM" "live (sh_array m ! b)" "sh_mem (sh_array m ! b) = uuid_base m"
    using len by (auto simp: uuid_ready_def mapped_at_def list_ex_iff in_set_conv_nth)
  have "sh_array m' ! b = sh_array m ! b" using b(3) assms(5) by (intro same) auto
  moreover have "sh_array m' ! b \<in> set (sh_array m')" using b(1) len' by simp
  ultimately have "mapped_at m' (uuid_base m)" using b by (auto simp: mapped_at_def list_ex_iff)
  moreover have "j \<noteq> i" using j(4) assms(4) by auto
  then have "sh_array m' ! j = sh_array m ! j" by (rule same)
  moreover have "\<exists>h\<in>set (sh_array m'). live h \<and> sh_key h = UUID_KEY"
    using calculation j len' by (metis nth_mem)
  ultimately show ?thesis using r ok' sel j dead by (auto simp: module_ids_def uuid_ready_def)
qed

lemma stop_keeps_ready:
  assumes "lib_ready s G v n"
  shows "\<exists>r h. hal_stop_threads (s_hal s) = Inr (r, h) \<and> lib_ready (s\<lparr>s_hal := h\<rparr>) G v n \<and> comps h = comps (s_hal s) \<and>
    (hd_state (s_hal s) \<noteq> HAL_S_DESTROYED \<longrightarrow> hd_state h \<noteq> HAL_S_DESTROYED)"
proof -
  let ?h = "s_hal s"
  have L: "hal_inv ?h" "hal_rep ?h G" "lib_mem_id ?h \<noteq> 0" "module_ids v n (s_shm s)" "1 \<le> n" "0 \<le> v" "v + 1 < 2 ^ 31"
    using assms by (simp_all add: lib_ready_def)
  have "hal_data ?h = SP_mapped" using L(1) by (rule hal_inv_mapped)
  then have "\<exists>r h. hal_stop_threads ?h = Inr (r, h) \<and> (h = ?h \<or> h = ?h\<lparr>threads_running := 0, hd_state := HAL_S_ACTIVE\<rparr>)"
    by (simp add: hal_stop_threads_def)
  then obtain r h where run: "hal_stop_threads ?h = Inr (r, h)" and h: "h = ?h \<or> h = ?h\<lparr>threads_running := 0, hd_state := HAL_S_ACTIVE\<rparr>"
    by blast
  have "hal_rep h G" using h by (auto intro: hal_rep_frame [OF L(2)] simp: L(2) keeps_defs)
  moreover have "hal_inv h" by (rule hal_stop_inv [OF L(1) run])
  ultimately show ?thesis using run h L(3-) by (auto simp: lib_ready_def)
qed

text \<open>A task in a process whose library part is set up, and which holds the last reference to its segment.\<close>

definition owns_segment :: "tenv \<Rightarrow> nat \<Rightarrow> example \<Rightarrow> bool" where
  "owns_segment te i x \<longleftrightarrow> (let m = s_shm (x_sys x) in
     i < MAX_SHM \<and> emc_shmem_id x = int i \<and> taskShared x = SP_mapped \<and> live (sh_array m ! i) \<and>
     sh_key (sh_array m ! i) \<noteq> UUID_KEY \<and> sh_mem (sh_array m ! i) \<noteq> uuid_base m \<and> sh_count (sh_array m ! i) = 1 \<and>
     os_shmdt (ev_os (te_env te)) (sh_mem (sh_array m ! i)) = None)"

lemma delete_task_segment_run:
  assumes "owns_segment te i x" "lib_ready (x_sys x) G v n"
  shows "taskShared (delete_task_segment te x) = SP_stale \<and> lib_ready (x_sys (delete_task_segment te x)) G v n \<and>
    x_hal (delete_task_segment te x) = x_hal x \<and> mot_comp_id (delete_task_segment te x) = mot_comp_id x \<and>
    \<not> live (sh_array (s_shm (x_sys (delete_task_segment te x))) ! i)"
proof -
  let ?m = "s_shm (x_sys x)"
  have O: "i < MAX_SHM" "emc_shmem_id x = int i" "taskShared x = SP_mapped" "live (sh_array ?m ! i)"
    "sh_key (sh_array ?m ! i) \<noteq> UUID_KEY" "sh_mem (sh_array ?m ! i) \<noteq> uuid_base ?m" "sh_count (sh_array ?m ! i) = 1"
    "os_shmdt (ev_os (te_env te)) (sh_mem (sh_array ?m ! i)) = None"
    using assms(1) by (simp_all add: owns_segment_def Let_def)
  have ids: "module_ids v n ?m" using assms(2) by (simp add: lib_ready_def)
  then have "shmem_ok ?m" by (simp add: module_ids_def uuid_ready_def)
  from shmem_okD(1) [OF this O(1,4)] have st: "sh_state (sh_array ?m ! i) = SHMEM_S_ACTIVE" .
  have D: "module_ids v n (snd (rtapi_shmem_delete (ev_os (te_env te)) (int i) (mot_comp_id x) ?m)) \<and>
      \<not> live (sh_array (snd (rtapi_shmem_delete (ev_os (te_env te)) (int i) (mot_comp_id x) ?m)) ! i)"
    by (rule delete_other_segment [OF ids O(1,4,5,6,7)])
  have v: "valid_handle (int i)" using O(1) by (simp add: valid_handle_def)
  show ?thesis
    using assms(2) D O(2,3,4,8) v st by (simp add: delete_task_segment_def Let_def lib_ready_def)
qed

text \<open>The shutdown of a task that holds the last reference to its segment.\<close>

lemma shutdown_run:
  assumes "lib_ready (x_sys x) G v n" "1 < n" "hd_state (x_hal x) \<noteq> HAL_S_DESTROYED" "owns_segment te i x" "g_owns g"
    and "find (\<lambda>p. c_comp_id (comps (x_hal x) p) = mot_comp_id x) (s_comps G) = Some c" "\<forall>y. te_print_shmem te y = Inr y"
  obtains g' y G' where "guard_shutdown te g x = Inr (g', y)" "\<not> g_owns g'" "\<not> g_started g'" "lib_ready (x_sys y) G' v (n - 1)"
    "s_comps G' = filter (\<lambda>p. p \<noteq> c) (s_comps G)" "s_threads G' = s_threads G" "taskShared y = SP_stale" "hd_state (x_hal y) \<noteq> HAL_S_DESTROYED"
proof -
  have stop: "\<exists>r h. in_hal hal_stop_threads z = Inr (r, upd_hal (\<lambda>_. h) z) \<and> lib_ready (x_sys (upd_hal (\<lambda>_. h) z)) G v n \<and>
      comps h = comps (x_hal z) \<and> hd_state h \<noteq> HAL_S_DESTROYED"
    if "lib_ready (x_sys z) G v n" "hd_state (x_hal z) \<noteq> HAL_S_DESTROYED" for z
    using stop_keeps_ready [OF that(1)] that(2) by (auto simp: in_hal_def upd_hal_def)
  have owns: "owns_segment te i (upd_hal (\<lambda>_. h) z) = owns_segment te i z" for h z
    by (simp add: owns_segment_def upd_hal_def)
  text \<open>The guard's own stop.\<close>
  obtain r g1 h1 where s1: "(if g_started g then guard_stop g x else Inr (0, g, x)) = Inr (r, g1, upd_hal (\<lambda>_. h1) x)"
    and h1: "lib_ready (x_sys (upd_hal (\<lambda>_. h1) x)) G v n" "comps h1 = comps (x_hal x)" "hd_state h1 \<noteq> HAL_S_DESTROYED"
  proof (cases "g_started g")
    case True
    from stop [OF assms(1,3)] obtain r h where "in_hal hal_stop_threads x = Inr (r, upd_hal (\<lambda>_. h) x)"
      "lib_ready (x_sys (upd_hal (\<lambda>_. h) x)) G v n" "comps h = comps (x_hal x)" "hd_state h \<noteq> HAL_S_DESTROYED" by blast
    with True show ?thesis by (cases "r < 0") (auto simp: guard_stop_def intro: that)
  next
    case False
    have "upd_hal (\<lambda>_. x_hal x) x = x" by (simp add: upd_hal_def)
    with False assms(1,3) show ?thesis using that [of 0 g "x_hal x"] by simp
  qed
  let ?x1 = "upd_hal (\<lambda>_. h1) x"
  from stop [OF h1(1)] h1(3) obtain r2 h2 where s2: "in_hal hal_stop_threads ?x1 = Inr (r2, upd_hal (\<lambda>_. h2) ?x1)"
    "lib_ready (x_sys (upd_hal (\<lambda>_. h2) ?x1)) G v n" "comps h2 = comps (x_hal x)" "hd_state h2 \<noteq> HAL_S_DESTROYED"
    by (auto simp: h1(2))
  let ?x2 = "upd_hal (\<lambda>_. h2) ?x1" and ?x3 = "delete_task_segment te (upd_hal (\<lambda>_. h2) (upd_hal (\<lambda>_. h1) x))"
  have d: "taskShared ?x3 = SP_stale" "lib_ready (x_sys ?x3) G v n" "x_hal ?x3 = h2" "mot_comp_id ?x3 = mot_comp_id x"
    "\<not> live (sh_array (s_shm (x_sys ?x3)) ! i)"
    using delete_task_segment_run [of te i ?x2 G v n] assms(4) s2(2) by (simp_all add: owns)
  have fnd: "find (\<lambda>p. c_comp_id (comps (x_hal ?x3) p) = mot_comp_id x) (s_comps G) = Some c" using assms(6) by (simp add: d(3) s2(3))
  from hal_exit_run [OF d(2) assms(2), where i = "mot_comp_id x" and env = "te_env te"] s2(4) obtain s' G' where
    e: "hal_exit (te_env te) (mot_comp_id x) (x_sys ?x3) = Inr (0, s')" "lib_ready s' G' v (n - 1)"
      "without_comp c (x_hal ?x3) G G'" "hd_state (s_hal s') = hd_state h2" unfolding fnd by (auto simp: d(3))
  let ?y = "?x3\<lparr>x_sys := s'\<rparr>" and ?g = "g1\<lparr>g_owns := False, g_started := False\<rparr>"
  have "task_thread_exit te ?x1 = Inr ?y"
    using s2(1) assms(7) e(1) d(4) by (simp add: task_thread_exit_def in_sys_def Let_def)
  then have run: "guard_shutdown te g x = Inr (?g, ?y)" using s1 assms(5) by (simp add: guard_shutdown_def)
  show ?thesis
    by (rule that [OF run, of G']) (use d e s2(4) in \<open>simp_all add: without_comp_def\<close>)
qed

text \<open>
  Property C34: the end of a task that holds the last reference to its segment. The shutdown returns; the
  component is gone from the HAL. But \<open>taskShared\<close> still has the address of the unmapped block:
  a later \<open>send_command\<close>, which is documented to return -1 when the block is not mapped, writes through it,
  and so does the command handler.
\<close>

theorem send_after_shutdown:
  assumes "lib_ready (x_sys x) G v n" "1 < n" "hd_state (x_hal x) \<noteq> HAL_S_DESTROYED" "owns_segment te i x" "g_owns g"
    and "find (\<lambda>p. c_comp_id (comps (x_hal x) p) = mot_comp_id x) (s_comps G) = Some c" "\<forall>y. te_print_shmem te y = Inr y"
  shows "\<exists>g' y G'. guard_shutdown te g x = Inr (g', y) \<and> \<not> g_owns g' \<and> lib_ready (x_sys y) G' v (n - 1) \<and>
    s_comps G' = filter (\<lambda>p. p \<noteq> c) (s_comps G) \<and> taskShared y = SP_stale \<and>
    (\<forall>cmd data. send_command cmd data y = Inl UB) \<and> (\<forall>self. taskCommandHandler self y = Inl UB)"
proof -
  obtain g' y G' where r: "guard_shutdown te g x = Inr (g', y)" "\<not> g_owns g'" "lib_ready (x_sys y) G' v (n - 1)"
    "s_comps G' = filter (\<lambda>p. p \<noteq> c) (s_comps G)" "taskShared y = SP_stale"
    by (rule shutdown_run [OF assms])
  then have "send_command cmd data y = Inl UB" "taskCommandHandler self y = Inl UB" for cmd data self
    by (simp_all add: send_command_def taskCommandHandler_def)
  with r show ?thesis by blast
qed

text \<open>A process with one component, the task, and its segment in slot 1.\<close>

definition task_handle :: rtapi_shmem_handle where
  "task_handle = unborn\<lparr>sh_magic := SHMEM_MAGIC, sh_key := TASK_SHM_KEY, sh_count := 1, sh_mem := 8192, sh_state := SHMEM_S_ACTIVE\<rparr>"

definition example_mapped :: example where
  "example_mapped = task_example\<lparr>x_sys := sys_example\<lparr>s_shm := (s_shm sys_example)\<lparr>sh_array := (sh_array (s_shm sys_example))[1 := task_handle]\<rparr>\<rparr>,
     emc_shmem_id := 1\<rparr>"

definition tenv_example :: tenv where
  "tenv_example = \<lparr>te_env = env_example, te_handler = 101, te_controller = 102, te_shared = zero_shared,
     te_print_hal = Inr, te_print_shmem = Inr\<rparr>"

definition guard_started :: guard where
  "guard_started = (guard_new ''example-task'' TASK_SHM_KEY 40)\<lparr>g_owns := True, g_started := True\<rparr>"

lemma module_ids_put:
  assumes "module_ids v n m" "i < MAX_SHM" "\<not> live (sh_array m ! i)" "sh_state h = SHMEM_S_ACTIVE" "1 \<le> sh_count h" "sh_key h \<noteq> 0"
    and "\<And>j. j < MAX_SHM \<Longrightarrow> live (sh_array m ! j) \<Longrightarrow> sh_key (sh_array m ! j) \<noteq> sh_key h"
  shows "module_ids v n (m\<lparr>sh_array := (sh_array m)[i := h]\<rparr>)"
proof -
  from assms(1) obtain j where j: "j < MAX_SHM" "uuid_mem_id m = int j" "live (sh_array m ! j)" "sh_key (sh_array m ! j) = UUID_KEY"
    "sh_count (sh_array m ! j) = n" and r: "uuid_ready v m" by (auto simp: module_ids_def)
  have ok: "shmem_ok m" and len: "length (sh_array m) = MAX_SHM" using r by (auto simp: uuid_ready_def)
  let ?m = "m\<lparr>sh_array := (sh_array m)[i := h]\<rparr>"
  have keep: "sh_array ?m ! k = sh_array m ! k \<and> sh_array ?m ! k \<in> set (sh_array ?m)" if "k < MAX_SHM" "live (sh_array m ! k)" for k
  proof -
    have "k \<noteq> i" using that(2) assms(3) by auto
    moreover have "sh_array ?m ! k \<in> set (sh_array ?m)" by (rule nth_mem) (simp add: len that(1))
    ultimately show ?thesis by simp
  qed
  have "shmem_ok ?m" by (rule shmem_ok_upd [OF ok assms(2)]) (use assms in auto)
  moreover obtain b where "b < MAX_SHM" "live (sh_array m ! b)" "sh_mem (sh_array m ! b) = uuid_base m"
    using r len by (auto simp: uuid_ready_def mapped_at_def list_ex_iff in_set_conv_nth)
  then have "mapped_at ?m (uuid_base m)" using keep [of b] by (auto simp: mapped_at_def list_ex_iff simp del: select_convs update_convs)
  moreover have "\<exists>h\<in>set (sh_array ?m). live h \<and> sh_key h = UUID_KEY"
    using keep [OF j(1,3)] j(3,4) by metis
  ultimately show ?thesis using r j keep [OF j(1,3)] by (auto simp: module_ids_def uuid_ready_def)
qed

lemma example_mapped_ready: "lib_ready (x_sys example_mapped) sys_shape 1 3" "owns_segment tenv_example 1 example_mapped"
proof -
  let ?m = "s_shm sys_example"
  have len: "length (sh_array ?m) = MAX_SHM" using sys_example_ids by (auto simp: module_ids_def uuid_ready_def)
  have at: "sh_array ?m ! 0 = (sh_array uuid_example ! 0)\<lparr>sh_count := 3\<rparr>" "j \<noteq> 0 \<Longrightarrow> j < MAX_SHM \<Longrightarrow> sh_array ?m ! j = unborn" for j
    by (simp_all add: sys_example_def uuid_example_def shmem_start_def MAX_SHM_def)
  have u: "sh_key (sh_array uuid_example ! 0) = UUID_KEY" by (simp add: uuid_example_def shmem_start_def MAX_SHM_def)
  have key: "sh_key (sh_array ?m ! j) \<noteq> TASK_SHM_KEY" if "j < MAX_SHM" for j
    using that at by (cases "j = 0") (simp_all add: u unborn_def TASK_SHM_KEY_def UUID_KEY_def)
  have "module_ids 1 3 (?m\<lparr>sh_array := (sh_array ?m)[1 := task_handle]\<rparr>)"
    by (rule module_ids_put [OF sys_example_ids])
      (use key in \<open>simp_all add: at task_handle_def unborn_def SHMEM_MAGIC_def TASK_SHM_KEY_def MAX_SHM_def\<close>)
  then show "lib_ready (x_sys example_mapped) sys_shape 1 3"
    using sys_example_ready by (simp add: lib_ready_def example_mapped_def)
  have "uuid_base ?m = 4096" by (simp add: sys_example_def uuid_example_def)
  then show "owns_segment tenv_example 1 example_mapped"
    using len by (simp add: owns_segment_def example_mapped_def tenv_example_def env_example_def task_handle_def MAX_SHM_def
        TASK_SHM_KEY_def UUID_KEY_def task_example_def)
qed

theorem send_after_shutdown_witness:
  "\<exists>g y. guard_shutdown tenv_example guard_started example_mapped = Inr (g, y) \<and> send_command TASK_CMD_ENABLE 0 y = Inl UB"
proof -
  have h: "x_hal example_mapped = one_comp\<lparr>lib_mem_id := 1, lib_module_id := 0\<rparr>" "mot_comp_id example_mapped = 1"
    by (simp_all add: example_mapped_def sys_example_def) (simp add: task_example_def)
  have f: "find (\<lambda>p. c_comp_id (comps (x_hal example_mapped) p) = mot_comp_id example_mapped) (s_comps sys_shape) = Some 1048464"
    by (simp add: h sys_shape_def one_comp_def)
  have st: "hd_state (x_hal example_mapped) \<noteq> HAL_S_DESTROYED" by (simp add: h one_comp_sel)
  have g: "g_owns guard_started" by (simp add: guard_started_def)
  have p: "\<forall>y. te_print_shmem tenv_example y = Inr y" by (simp add: tenv_example_def)
  from send_after_shutdown [OF example_mapped_ready(1) _ st example_mapped_ready(2) g f p] show ?thesis by auto
qed

section \<open>A segment left behind\<close>


definition tenv_locked :: tenv where
  "tenv_locked = tenv_example\<lparr>te_shared := zero_shared\<lparr>command_mutex := 1\<rparr>\<rparr>"


text \<open>The guard of the demo program.\<close>

theorem guard_protocol_witness:
  "guard_start tenv_example (guard_new ''example-task'' TASK_SHM_KEY 40) task_example =
     Inr (- 1, guard_new ''example-task'' TASK_SHM_KEY 40, task_example)"
proof -
  have "\<not> g_owns (guard_new ''example-task'' TASK_SHM_KEY 40)" by (simp add: guard_new_def)
  with guard_protocol [OF rtranclp.rtrancl_refl [of "guard_call tenv_example" "(guard_new ''example-task'' TASK_SHM_KEY 40, task_example)"]]
  show ?thesis by blast
qed

end
