(* ===== verification/Rcs_Timer.thy ===== *)
theory Rcs_Timer
  imports Task_Control
begin

text \<open>
  The timer of the main loop (\<open>time/timer.cpp\<close>) and the clock and the sleep under it
  (\<open>time/_timer.cpp\<close>), in doubles. The kernel is a parameter: the readings of
  \<open>gettimeofday\<close>, the results of \<open>select\<close> and the tick rate.
\<close>

section \<open>Clock and sleep\<close>

abbreviation (input) EINTR :: int where "EINTR \<equiv> 4"

text \<open>The \<open>n\<close>-th reading is seconds and microseconds, or a failure; a result of \<open>select\<close> is 0 or errno.\<close>

record kclock =
  gettimeofday :: "nat \<Rightarrow> (int \<times> int) option"
  k_select :: "nat \<Rightarrow> int option"
  sc_clk_tck :: int

text \<open>
  The state of a process: how often it has read the clock, the arguments of its calls of
  \<open>select\<close>, the static tick of \<open>esleep\<close>, and the global switch.
\<close>

record sleeper =
  n_readings :: nat
  slept :: "(int \<times> int) list"
  esleep_tck :: fl
  esleep_use_yield :: int

definition sleeper_start :: sleeper where
  "sleeper_start = \<lparr>n_readings = 0, slept = [], esleep_tck = Fin 0, esleep_use_yield = 0\<rparr>"

abbreviation dadd :: "fl \<Rightarrow> fl \<Rightarrow> fl" where "dadd \<equiv> fl_add binary64"
abbreviation dsub :: "fl \<Rightarrow> fl \<Rightarrow> fl" where "dsub \<equiv> fl_sub binary64"
abbreviation dmul :: "fl \<Rightarrow> fl \<Rightarrow> fl" where "dmul \<equiv> fl_mul binary64"
abbreviation ddiv :: "fl \<Rightarrow> fl \<Rightarrow> fl" where "ddiv \<equiv> fl_div binary64"
abbreviation dint :: "int \<Rightarrow> fl" where "dint \<equiv> fl_of_int binary64"

definition clk_tck :: "kclock \<Rightarrow> fl" where
  "clk_tck k = ddiv (Fin 1) (dint (sc_clk_tck k))"

definition etime :: "kclock \<Rightarrow> sleeper \<Rightarrow> fl \<times> sleeper" where
  "etime k p =
     ((case gettimeofday k (n_readings p) of
         None \<Rightarrow> Fin 0
       | Some (sec, usec) \<Rightarrow> dadd (dint sec) (ddiv (dint usec) (Fin 1000000))),
      p\<lparr>n_readings := n_readings p + 1\<rparr>)"

text \<open>The argument of \<open>select\<close> for what is left.\<close>

definition esleep_tval :: "fl \<Rightarrow> (int \<times> int) res" where
  "esleep_tval left =
     bnd (fl_to_int 64 left) (\<lambda>sec.
     bnd (fl_to_int 64 (dmul (dsub left (dint sec)) (Fin 1000000))) (\<lambda>usec.
       Inr (if sec = 0 \<and> usec = 0 then (sec, 1) else (sec, usec))))"

text \<open>The body of the loop; the result says whether \<open>break\<close> was taken.\<close>

definition esleep_pass :: "kclock \<Rightarrow> fl \<Rightarrow> sleeper \<Rightarrow> (bool \<times> sleeper) res" where
  "esleep_pass k left p =
     (if fl_less left (esleep_tck p) \<and> esleep_use_yield p \<noteq> 0 then Inr (False, p)
      else bnd (esleep_tval left) (\<lambda>tval.
        let r = k_select k (length (slept p)); p = p\<lparr>slept := slept p @ [tval]\<rparr>
        in case r of None \<Rightarrow> Inr (False, p) | Some e \<Rightarrow> Inr (e \<noteq> EINTR, p)))"

text \<open>A pass with the condition of the loop: what is left when the loop goes on.\<close>

definition esleep_step :: "kclock \<Rightarrow> fl \<Rightarrow> fl \<Rightarrow> fl \<Rightarrow> sleeper \<Rightarrow> (fl option \<times> sleeper) res" where
  "esleep_step k tot started left p =
     bnd (esleep_pass k left p) (\<lambda>(brk, p).
       if brk then Inr (None, p)
       else let (now, p) = etime k p; left = dadd (dsub tot now) started
            in if fl_less (Fin 0) left \<and> fl_less (esleep_tck p) left \<and> esleep_use_yield p \<noteq> 0
               then Inr (Some left, p) else Inr (None, p))"

partial_function (option) esleep_loop :: "kclock \<Rightarrow> fl \<Rightarrow> fl \<Rightarrow> fl \<Rightarrow> sleeper \<Rightarrow> sleeper res option" where
  "esleep_loop k tot started left p =
     (case esleep_step k tot started left p of
        Inl e \<Rightarrow> Some (Inl e)
      | Inr y \<Rightarrow> (case fst y of
            None \<Rightarrow> Some (Inr (snd y))
          | Some left \<Rightarrow> esleep_loop k tot started left (snd y)))"

definition esleep :: "kclock \<Rightarrow> fl \<Rightarrow> sleeper \<Rightarrow> sleeper res" where
  "esleep k seconds_to_sleep p =
     (let (started, p) = etime k p
      in if fl_le seconds_to_sleep (Fin 0) then Inr p
         else let p = (if fl_le (esleep_tck p) (Fin 0) then p\<lparr>esleep_tck := clk_tck k\<rparr> else p)
              in bnd (loop_res (esleep_loop k seconds_to_sleep started seconds_to_sleep p)) (\<lambda>r. r))"

section \<open>The timer\<close>

text \<open>The timing function gets its argument and the process, and returns its result.\<close>

record rcs_timer =
  tm_timeout :: fl
  tm_function :: "(int \<Rightarrow> sleeper \<Rightarrow> int \<times> sleeper) option"
  tm_arg :: int
  last_time :: fl
  start_time :: fl
  tm_idle :: fl
  tm_counts :: int
  counts_since_real_sleep :: int
  counts_per_real_sleep :: int
  time_since_real_sleep :: fl
  num_sems :: int
  tm_id :: int
  clk_tck_val :: fl

definition zero_timer :: "kclock \<Rightarrow> sleeper \<Rightarrow> rcs_timer \<times> sleeper" where
  "zero_timer k p =
     (let (t1, p) = etime k p; (t2, p) = etime k p
      in (\<lparr>tm_timeout = clk_tck k, tm_function = None, tm_arg = 0, last_time = t1, start_time = t2, tm_idle = Fin 0,
           tm_counts = 0, counts_since_real_sleep = 0, counts_per_real_sleep = 0, time_since_real_sleep = t2,
           num_sems = 0, tm_id = 0, clk_tck_val = clk_tck k\<rparr>, p))"

definition set_timeout :: "kclock \<Rightarrow> fl \<Rightarrow> rcs_timer \<Rightarrow> rcs_timer res" where
  "set_timeout k timeout tm =
     (let tm = tm\<lparr>tm_timeout := timeout\<rparr>
      in if fl_less timeout (clk_tck k)
         then bnd (fl_to_int 32 (ddiv (clk_tck k) timeout)) (\<lambda>n.
              bnd (to_int (n + 1)) (\<lambda>n. Inr (tm\<lparr>counts_per_real_sleep := n\<rparr>)))
         else Inr (tm\<lparr>counts_per_real_sleep := 0\<rparr>))"

text \<open>The three constructors.\<close>

definition rcs_timer_default :: "kclock \<Rightarrow> sleeper \<Rightarrow> (rcs_timer \<times> sleeper) res" where
  "rcs_timer_default k p = (let (tm, p) = zero_timer k p in bnd (set_timeout k (Fin 0) tm) (\<lambda>tm. Inr (tm, p)))"

definition rcs_timer_every :: "kclock \<Rightarrow> fl \<Rightarrow> sleeper \<Rightarrow> (rcs_timer \<times> sleeper) res" where
  "rcs_timer_every k timeout p = (let (tm, p) = zero_timer k p in bnd (set_timeout k timeout tm) (\<lambda>tm. Inr (tm, p)))"

definition rcs_timer_function ::
  "kclock \<Rightarrow> fl \<Rightarrow> (int \<Rightarrow> sleeper \<Rightarrow> int \<times> sleeper) option \<Rightarrow> int \<Rightarrow> sleeper \<Rightarrow> (rcs_timer \<times> sleeper) res" where
  "rcs_timer_function k timeout f arg p =
     (let (tm, p) = zero_timer k p;
          tm = tm\<lparr>counts_per_real_sleep := 0, counts_since_real_sleep := 0\<rparr>
      in bnd (if fl_less timeout (clk_tck_val tm)
              then bnd (fl_to_int 32 (ddiv (clk_tck_val tm) timeout)) (\<lambda>n.
                     Inr (tm\<lparr>counts_per_real_sleep := n, tm_timeout := clk_tck_val tm\<rparr>))
              else Inr (tm\<lparr>tm_timeout := timeout\<rparr>)) (\<lambda>tm.
           Inr (tm\<lparr>tm_function := f, tm_arg := arg, time_since_real_sleep := start_time tm\<rparr>, p)))"

definition timer_init :: "kclock \<Rightarrow> fl \<Rightarrow> int \<Rightarrow> sleeper \<Rightarrow> (rcs_timer \<times> sleeper) res" where
  "timer_init k timeout i p = (let (tm, p) = zero_timer k p in bnd (set_timeout k timeout (tm\<lparr>tm_id := i\<rparr>)) (\<lambda>tm. Inr (tm, p)))"

definition timer_sync :: "kclock \<Rightarrow> rcs_timer \<Rightarrow> sleeper \<Rightarrow> rcs_timer \<times> sleeper" where
  "timer_sync k tm p = (let (t, p) = etime k p in (tm\<lparr>last_time := t\<rparr>, p))"

definition timer_wait :: "kclock \<Rightarrow> rcs_timer \<Rightarrow> sleeper \<Rightarrow> (int \<times> rcs_timer \<times> sleeper) res" where
  "timer_wait k tm p =
     (let (time_in, p) = etime k p;
          (failed, time_done, p) = (case tm_function tm of
             None \<Rightarrow> (False, Fin 0, p)
           | Some f \<Rightarrow> let (r, p) = f (tm_arg tm) p
                       in if r = - 1 then (True, Fin 0, p) else let (d, p) = etime k p in (False, d, p))
      in if failed then Inr (- 1, tm, p)
         else
           let interval = dsub time_in (last_time tm); numcycles = ddiv interval (tm_timeout tm)
           in bnd (to_int (tm_counts tm + 1)) (\<lambda>c.
              let tm = tm\<lparr>tm_counts := c, tm_idle := dadd (tm_idle tm) interval\<rparr>
              in bnd (if tm_function tm \<noteq> None
                      then bnd (fl_to_int 32 (dsub numcycles (ddiv (clk_tck_val tm) (tm_timeout tm)))) (\<lambda>missed.
                             Inr (missed, Fin 0, tm\<lparr>last_time := time_done\<rparr>))
                      else bnd (fl_to_int 32 numcycles) (\<lambda>missed.
                             Inr (missed, dmul (tm_timeout tm) (dsub (Fin 1) (dsub numcycles (dint missed))), tm)))
                 (\<lambda>(missed, remaining, tm).
                    bnd (esleep k remaining p) (\<lambda>p.
                    let (now, p) = etime k p in Inr (missed, tm\<lparr>last_time := now\<rparr>, p)))))"

definition timer_load :: "rcs_timer \<Rightarrow> fl" where
  "timer_load tm =
     (let tot = dmul (dint (tm_counts tm)) (tm_timeout tm)
      in if tot \<noteq> Fin 0 then ddiv (tm_idle tm) tot else Fin (- 1))"

section \<open>Doubles between bounds\<close>

lemma rat_trunc_nonneg: "0 \<le> x \<Longrightarrow> rat_trunc x = \<lfloor>x\<rfloor>"
  by (simp add: rat_trunc_def)

lemma dint_exact: "0 \<le> n \<Longrightarrow> n < 2 ^ 53 \<Longrightarrow> dint n = Fin (of_int n)"
  using fl_round_of_int [of n binary64] fl_round_0 [of binary64] by (cases "n = 0") (simp_all add: fl_of_int_def)

lemma double_int: "0 \<le> n \<Longrightarrow> n < 2 ^ 53 \<Longrightarrow> fl_round binary64 (of_int n) = Fin (of_int n)"
  using dint_exact [of n] by (simp add: fl_of_int_def)

lemma double_literals: "fl_round binary64 1 = Fin 1" "fl_round binary64 1000000 = Fin 1000000" "fl_round binary64 0 = Fin 0"
  using double_int [of 1] double_int [of 1000000] double_int [of 0] by simp_all

text \<open>The fraction of a cycle.\<close>

lemma fraction_between:
  assumes "0 \<le> c" "c < 2 ^ 31"
  shows "\<exists>f. dsub (Fin c) (dint \<lfloor>c\<rfloor>) = Fin f \<and> 0 \<le> f \<and> f \<le> 1"
proof -
  have fl: "0 \<le> \<lfloor>c\<rfloor>" "\<lfloor>c\<rfloor> < 2 ^ 31" using assms by (simp_all add: floor_less_iff)
  then have "dint \<lfloor>c\<rfloor> = Fin (of_int \<lfloor>c\<rfloor>)" by (intro dint_exact) simp_all
  moreover have "0 \<le> c - of_int \<lfloor>c\<rfloor>" "c - of_int \<lfloor>c\<rfloor> \<le> 1" by linarith+
  ultimately show ?thesis using fl_round_between [OF double_literals(1)] by (simp add: fl_sub_def fl_neg_def)
qed

lemma fl_to_int_nonneg: "0 \<le> c \<Longrightarrow> c < 2 ^ (w - 1) \<Longrightarrow> fl_to_int w (Fin c) = Inr \<lfloor>c\<rfloor>"
proof -
  assume c: "0 \<le> c" "c < 2 ^ (w - 1)"
  have "0 \<le> \<lfloor>c\<rfloor>" using c(1) by simp
  moreover have "\<lfloor>c\<rfloor> < 2 ^ (w - 1)" using c(2) by (simp add: floor_less_iff)
  moreover have "(0::int) \<le> 2 ^ (w - 1)" by simp
  ultimately show ?thesis using c(1) by (simp add: rat_trunc_nonneg) linarith
qed

section \<open>Sleeping\<close>

lemma esleep_tval_run:
  assumes "0 \<le> r" "r < 2 ^ 31"
  shows "\<exists>usec. esleep_tval (Fin r) = Inr (\<lfloor>r\<rfloor>, usec) \<and> 0 \<le> usec \<and> usec \<le> 1000000 \<and> (0 < \<lfloor>r\<rfloor> \<or> 0 < usec)"
proof -
  have "r < 2 ^ (64 - 1)" using assms(2) by simp
  from fl_to_int_nonneg [OF assms(1) this] have sec: "fl_to_int 64 (Fin r) = Inr \<lfloor>r\<rfloor>" .
  obtain f where f: "dsub (Fin r) (dint \<lfloor>r\<rfloor>) = Fin f" "0 \<le> f" "f \<le> 1" using fraction_between [OF assms] by blast
  have "0 \<le> f * 1000000" "f * 1000000 \<le> 1000000" using f by simp_all
  from fl_round_between [OF double_literals(2) this] obtain u where u: "dmul (Fin f) (Fin 1000000) = Fin u" "0 \<le> u" "u \<le> 1000000"
    by auto
  have "u < 2 ^ (64 - 1)" using u(3) by simp
  from fl_to_int_nonneg [OF u(2) this] have us: "fl_to_int 64 (Fin u) = Inr \<lfloor>u\<rfloor>" .
  have b: "0 \<le> \<lfloor>u\<rfloor>" "\<lfloor>u\<rfloor> \<le> 1000000" "0 \<le> \<lfloor>r\<rfloor>" using u(2,3) assms(1) by (simp_all add: floor_le_iff)
  have v: "esleep_tval (Fin r) = Inr (if \<lfloor>r\<rfloor> = 0 \<and> \<lfloor>u\<rfloor> = 0 then (\<lfloor>r\<rfloor>, 1) else (\<lfloor>r\<rfloor>, \<lfloor>u\<rfloor>))"
    by (simp only: esleep_tval_def sec f(1) u(1) us bnd.simps)
  define i where "i = \<lfloor>r\<rfloor>"
  define j where "j = \<lfloor>u\<rfloor>"
  show ?thesis using v b unfolding i_def [symmetric] j_def [symmetric]
    by (intro exI [of _ "if i = 0 \<and> j = 0 then 1 else j"]) auto
qed

text \<open>Without \<open>esleep_use_yield\<close> the loop has one pass.\<close>

lemma esleep_once:
  assumes "esleep_use_yield p = 0" "0 \<le> r" "r < 2 ^ 31"
  shows "\<exists>q usec. esleep k (Fin r) p = Inr q \<and> esleep_use_yield q = 0 \<and>
    slept q = slept p @ (if r = 0 then [] else [(\<lfloor>r\<rfloor>, usec)]) \<and> 0 \<le> usec \<and> usec \<le> 1000000"
proof (cases "r = 0")
  case True
  then show ?thesis using assms(1) by (intro exI [of _ "snd (etime k p)"] exI [of _ 0]) (simp add: esleep_def etime_def fl_le_def)
next
  case False
  then have r: "\<not> fl_le (Fin r) (Fin 0)" using assms(2) by (simp add: fl_le_def)
  let ?p = "snd (etime k p)"
  define q where "q = (if fl_le (esleep_tck ?p) (Fin 0) then ?p\<lparr>esleep_tck := clk_tck k\<rparr> else ?p)"
  have q: "esleep_use_yield q = 0" "slept q = slept p" using assms(1) by (simp_all add: q_def etime_def)
  obtain usec where v: "esleep_tval (Fin r) = Inr (\<lfloor>r\<rfloor>, usec)" "0 \<le> usec" "usec \<le> 1000000" using esleep_tval_run [OF assms(2,3)] by blast
  let ?q = "q\<lparr>slept := slept q @ [(\<lfloor>r\<rfloor>, usec)]\<rparr>"
  obtain b where pass: "esleep_pass k (Fin r) q = Inr (b, ?q)"
    using v q by (cases "k_select k (length (slept q))") (auto simp: esleep_pass_def Let_def)
  have "\<exists>z. esleep_loop k (Fin r) s (Fin r) q = Some (Inr z) \<and> esleep_use_yield z = 0 \<and> slept z = slept ?q" for s
    using q by (cases b) (simp_all add: esleep_loop.simps [of k "Fin r" s "Fin r" q] esleep_step_def pass etime_def)
  then obtain z where z: "esleep_loop k (Fin r) (fst (etime k p)) (Fin r) q = Some (Inr z)" "esleep_use_yield z = 0" "slept z = slept ?q" by blast
  have "esleep k (Fin r) p = Inr z" using r z(1) by (simp add: esleep_def Let_def case_prod_beta q_def)
  then show ?thesis using z q v False by (intro exI [of _ z] exI [of _ usec]) simp
qed

section \<open>Waiting\<close>

text \<open>
  Property C38: \<open>RCS_TIMER::wait\<close> of a timer without a timing function, \<open>i\<close> seconds after the last
  wakeup. The result is the number of whole periods that have passed, rounded down from the quotient in
  doubles. The call asks for at most one sleep, of at most one period; it ends when \<open>select\<close> ends, also when
  a signal interrupted it. The waits are counted, and the last wakeup is the reading taken at the end.
\<close>

theorem timer_wait_in_period:
  assumes "tm_function tm = None" "tm_timeout tm = Fin t" "fl_round binary64 t = Fin t" "0 < t" "t < 2 ^ 31"
    and "dsub (fst (etime k p)) (last_time tm) = Fin i" "0 \<le> i" "i \<le> 2 ^ 30 * t"
    and "INT_MIN \<le> tm_counts tm" "tm_counts tm < INT_MAX" "esleep_use_yield p = 0"
  shows "\<exists>c r q p' usec. ddiv (Fin i) (Fin t) = Fin c \<and>
    dmul (Fin t) (dsub (Fin 1) (dsub (Fin c) (dint \<lfloor>c\<rfloor>))) = Fin r \<and> 0 \<le> r \<and> r \<le> t \<and>
    timer_wait k tm p = Inr (\<lfloor>c\<rfloor>, tm\<lparr>tm_counts := tm_counts tm + 1, tm_idle := dadd (tm_idle tm) (Fin i), last_time := fst (etime k q)\<rparr>, p') \<and>
    0 \<le> \<lfloor>c\<rfloor> \<and> \<lfloor>c\<rfloor> \<le> 2 ^ 30 \<and> p' = snd (etime k q) \<and>
    slept p' = slept p @ (if r = 0 then [] else [(\<lfloor>r\<rfloor>, usec)]) \<and> 0 \<le> usec \<and> usec \<le> 1000000"
proof -
  have "0 \<le> i / t" "i / t \<le> of_int (2 ^ 30)" using assms(4,7,8) by (simp_all add: divide_le_eq)
  from fl_round_between [OF double_int [of "2 ^ 30"] this] obtain c where
    c: "fl_round binary64 (i / t) = Fin c" "0 \<le> c" "c \<le> 2 ^ 30" by auto
  have div: "ddiv (Fin i) (Fin t) = Fin c" using c(1) assms(4) by simp
  have m: "fl_to_int 32 (Fin c) = Inr \<lfloor>c\<rfloor>" by (rule fl_to_int_nonneg [OF c(2)]) (use c(3) in simp)
  have mb: "0 \<le> \<lfloor>c\<rfloor>" "\<lfloor>c\<rfloor> \<le> 2 ^ 30" using c(2,3) by (simp_all add: floor_le_iff)
  have "c < 2 ^ 31" using c(3) by simp
  from fraction_between [OF c(2) this] obtain f where f: "dsub (Fin c) (dint \<lfloor>c\<rfloor>) = Fin f" "0 \<le> f" "f \<le> 1" by blast
  have "0 \<le> 1 - f" "1 - f \<le> 1" using f by simp_all
  from fl_round_between [OF double_literals(1) this] obtain g where g: "dsub (Fin 1) (Fin f) = Fin g" "0 \<le> g" "g \<le> 1"
    by (auto simp: fl_sub_def fl_neg_def)
  have "0 \<le> t * g" "t * g \<le> t" using g assms(4) by (simp_all add: mult_le_cancel_left1)
  from fl_round_between [OF assms(3) this] obtain r where r: "dmul (Fin t) (Fin g) = Fin r" "0 \<le> r" "r \<le> t" by auto
  let ?p = "snd (etime k p)"
  have "esleep_use_yield ?p = 0" "slept ?p = slept p" using assms(11) by (simp_all add: etime_def)
  moreover have "r < 2 ^ 31" using r(3) assms(5) by linarith
  ultimately obtain q usec where q: "esleep k (Fin r) ?p = Inr q" "slept q = slept p @ (if r = 0 then [] else [(\<lfloor>r\<rfloor>, usec)])"
    "0 \<le> usec" "usec \<le> 1000000" using esleep_once [of ?p r k] r(2) by auto
  have cnt: "to_int (tm_counts tm + 1) = Inr (tm_counts tm + 1)" using assms(9,10) by simp
  have rem: "dmul (Fin t) (dsub (Fin 1) (dsub (Fin c) (dint \<lfloor>c\<rfloor>))) = Fin r" unfolding f(1) g(1) by (rule r(1))
  have "timer_wait k tm p = Inr (\<lfloor>c\<rfloor>, tm\<lparr>tm_counts := tm_counts tm + 1, tm_idle := dadd (tm_idle tm) (Fin i), last_time := fst (etime k q)\<rparr>, snd (etime k q))"
    unfolding timer_wait_def Let_def case_prod_beta
    by (simp add: assms(1,2,6) cnt div m rem q(1) del: fl_div.simps fl_mul.simps fl_to_int.simps)
  moreover have "slept (snd (etime k q)) = slept q" by (simp add: etime_def)
  ultimately show ?thesis using div rem r(2,3) mb q(2-4)
    by (intro exI [of _ c] exI [of _ r] exI [of _ q] exI [of _ "snd (etime k q)"] exI [of _ usec]) (simp del: fl_div.simps fl_mul.simps)
qed

text \<open>Half a second over two periods of one second each, in whole seconds: two periods have been missed.\<close>

definition clock_example :: kclock where
  "clock_example = \<lparr>gettimeofday = (\<lambda>n. Some (102 + int n, 0)), k_select = (\<lambda>_. Some EINTR), sc_clk_tck = 100\<rparr>"

definition timer_example :: rcs_timer where
  "timer_example = \<lparr>tm_timeout = Fin 1, tm_function = None, tm_arg = 0, last_time = Fin 100, start_time = Fin 100, tm_idle = Fin 0,
     tm_counts = 0, counts_since_real_sleep = 0, counts_per_real_sleep = 0, time_since_real_sleep = Fin 100,
     num_sems = 0, tm_id = 0, clk_tck_val = Fin (1 / 128)\<rparr>"

theorem timer_wait_in_period_witness:
  "\<exists>tm p usec. timer_wait clock_example timer_example sleeper_start = Inr (2, tm, p) \<and> tm_counts tm = 1 \<and> slept p = [(1, usec)]"
proof -
  have d: "fl_round binary64 102 = Fin 102" "fl_round binary64 2 = Fin 2" "dint 2 = Fin 2" "dint 102 = Fin 102" "dint 0 = Fin 0"
    using double_int [of 102] double_int [of 2] dint_exact [of 2] dint_exact [of 102] dint_exact [of 0] by simp_all
  have now: "fst (etime clock_example sleeper_start) = Fin 102"
    by (simp add: etime_def clock_example_def sleeper_start_def d double_literals)
  have lag: "dsub (fst (etime clock_example sleeper_start)) (last_time timer_example) = Fin 2"
    by (simp add: now timer_example_def fl_sub_def fl_neg_def d)
  have t: "tm_function timer_example = None" "tm_timeout timer_example = Fin 1" "tm_counts timer_example = 0" "esleep_use_yield sleeper_start = 0"
    "slept sleeper_start = []" by (simp_all add: timer_example_def sleeper_start_def)
  have num: "(0::rat) < 1" "(1::rat) < 2 ^ 31" "(0::rat) \<le> 2" "(2::rat) \<le> 2 ^ 30 * 1" "INT_MIN \<le> tm_counts timer_example"
    "tm_counts timer_example < INT_MAX" by (simp_all add: t(3) INT_MIN_def INT_MAX_def)
  from timer_wait_in_period [OF t(1,2) double_literals(1) num(1,2) lag num(3-6) t(4)] obtain c r q p' usec where
    w: "ddiv (Fin 2) (Fin 1) = Fin c" "dmul (Fin 1) (dsub (Fin 1) (dsub (Fin c) (dint \<lfloor>c\<rfloor>))) = Fin r"
      "timer_wait clock_example timer_example sleeper_start = Inr (\<lfloor>c\<rfloor>, timer_example\<lparr>tm_counts := tm_counts timer_example + 1,
         tm_idle := dadd (tm_idle timer_example) (Fin 2), last_time := fst (etime clock_example q)\<rparr>, p')"
      "slept p' = slept sleeper_start @ (if r = 0 then [] else [(\<lfloor>r\<rfloor>, usec)])"
    by (elim exE conjE) (rule that)
  have c: "c = 2" using w(1) d(2) by simp
  have r: "r = 1" using w(2) by (simp add: c d fl_sub_def fl_neg_def double_literals)
  show ?thesis using w(3,4) t(3,5) by (simp add: c r)
qed

section \<open>A timeout of zero\<close>

lemma clk_tck_run:
  assumes "0 < sc_clk_tck k" "sc_clk_tck k < 2 ^ 31"
  shows "\<exists>y. clk_tck k = Fin y \<and> 0 < y \<and> y \<le> 1"
proof -
  let ?x = "1 / of_int (sc_clk_tck k) :: rat"
  have d: "dint (sc_clk_tck k) = Fin (of_int (sc_clk_tck k))" using assms by (intro dint_exact) simp_all
  have hz: "1 \<le> (of_int (sc_clk_tck k) :: rat)" "(of_int (sc_clk_tck k) :: rat) < 2 ^ 31" using assms by (simp_all add: of_int_less_iff)
  then have x: "0 \<le> ?x" "?x \<le> 1" by simp_all
  from fl_round_between [OF double_literals(1) this] obtain y where y: "fl_round binary64 ?x = Fin y" "0 \<le> y" "y \<le> 1" by blast
  have p: "(2::rat) powi (- 53) \<le> 1 / 2" using power_int_increasing [of "- 53" "- 1" "2::rat"] by (simp add: power_int_minus)
  have "(2::rat) powi (- 1022) \<le> 2 powi (- 31)" by (rule power_int_increasing) simp_all
  also have "(2::rat) powi (- 31) = 1 / 2 ^ 31" by (simp add: power_int_def power_divide)
  also have "1 / 2 ^ 31 \<le> ?x" using hz by (intro divide_left_mono) simp_all
  finally have "2 powi (fmt_low binary64 + int (fmt_prec binary64) - 1) \<le> \<bar>?x\<bar>" using x(1) by simp
  from fl_round_near [OF y(1) this] have "\<bar>y - ?x\<bar> \<le> \<bar>?x\<bar> * 2 powi (- 53)" by simp
  also have "\<dots> \<le> ?x * (1 / 2)" using x(1) p by (intro mult_mono) simp_all
  finally have "?x / 2 \<le> y" by linarith
  moreover have "0 < ?x / 2" using hz by simp
  ultimately have "0 < y" by (rule less_le_trans [rotated])
  then show ?thesis using d y hz by (simp add: clk_tck_def)
qed

text \<open>
  Which timeouts a constructor accepts. A timeout of at least one tick is taken as it is. A
  timeout of zero divides by zero and converts the infinite quotient to \<open>int\<close>: undefined behaviour. The
  constructor that takes only names passes zero, so every use of it is undefined.
\<close>

theorem timer_timeouts:
  assumes "0 < sc_clk_tck k" "sc_clk_tck k < 2 ^ 31"
  shows "(fl_le (clk_tck k) (Fin t) \<longrightarrow> (\<exists>tm p'. rcs_timer_every k (Fin t) p = Inr (tm, p') \<and> tm_timeout tm = Fin t \<and>
      counts_per_real_sleep tm = 0 \<and> tm_counts tm = 0 \<and> tm_function tm = None)) \<and>
    rcs_timer_every k (Fin 0) p = Inl UB \<and> rcs_timer_default k p = Inl UB \<and> rcs_timer_function k (Fin 0) g a p = Inl UB"
proof -
  obtain y where y: "clk_tck k = Fin y" "0 < y" using clk_tck_run [OF assms] by blast
  have z: "set_timeout k (Fin 0) tm = Inl UB" for tm using y by (simp add: set_timeout_def)
  have "clk_tck_val (fst (zero_timer k p)) = Fin y" by (simp add: zero_timer_def Let_def case_prod_beta y(1))
  then have "rcs_timer_function k (Fin 0) g a p = Inl UB"
    using y by (simp add: rcs_timer_function_def Let_def case_prod_beta)
  moreover have "rcs_timer_every k (Fin 0) p = Inl UB" "rcs_timer_default k p = Inl UB"
    by (simp_all add: rcs_timer_every_def rcs_timer_default_def z case_prod_beta)
  moreover have "\<exists>tm p'. rcs_timer_every k (Fin t) p = Inr (tm, p') \<and> tm_timeout tm = Fin t \<and> counts_per_real_sleep tm = 0 \<and>
      tm_counts tm = 0 \<and> tm_function tm = None" if "fl_le (clk_tck k) (Fin t)"
  proof -
    have "\<not> fl_less (Fin t) (clk_tck k)" using that by (auto simp: y(1) fl_le_def)
    then show ?thesis by (simp add: rcs_timer_every_def set_timeout_def zero_timer_def Let_def case_prod_beta)
  qed
  ultimately show ?thesis by blast
qed

theorem timer_timeouts_witness: "rcs_timer_default clock_example sleeper_start = Inl UB"
  using timer_timeouts [of clock_example] by (simp add: clock_example_def)

end
