(* ===== verification/Task_Main.thy ===== *)
theory Task_Main
  imports Task_Guard Rcs_Timer
begin

text \<open>
  The process around the example task (\<open>main/taskmain.cpp\<close>): start-up, the main loop, the signal
  handler and the shutdown.
\<close>

section \<open>The state\<close>

text \<open>
  The environment of \<open>main\<close>: that of the task, the clock, the result of creating the printing thread,
  whether \<open>QUIET_TASK\<close> is set, and \<open>DEFAULT_EMC_TASK_CYCLE_TIME\<close>, which is declared and defined
  nowhere.
\<close>

record menv =
  me_task :: tenv
  me_clock :: kclock
  me_printf :: int
  me_quiet :: bool
  me_cycle_time :: fl

record main_st =
  m_done :: int
  m_timer :: "rcs_timer option"
  task_initialised :: int
  threads_started :: int
  emcTaskNoDelay :: int
  emcTaskEager :: int
  in_handler :: int
  m_task :: example
  m_proc :: sleeper

text \<open>The local variables of \<open>main\<close>.\<close>

record main_locals =
  startTime :: fl
  endTime :: fl
  minTime :: fl
  maxTime :: fl
  num_latency_warnings :: int
  cycle_counter :: int

definition SIGINT :: int where "SIGINT = 2"
definition SIGTERM :: int where "SIGTERM = 15"
definition f0_1 :: fl where "f0_1 = fl_round binary64 (1 / 10)"
definition DBL_MAX :: fl where "DBL_MAX = Fin (of_int (2 ^ 53 - 1) * 2 ^ 971)"
definition latency_excursion_factor :: int where "latency_excursion_factor = 10"

section \<open>Signals and shutdown\<close>

text \<open>The result says whether the process ends at once.\<close>

definition emctask_quit :: "int \<Rightarrow> main_st \<Rightarrow> (bool \<times> main_st) res" where
  "emctask_quit sig m =
     (if in_handler m \<noteq> 0 then Inr (True, m)
      else
        let m = m\<lparr>in_handler := 1, m_done := 1\<rparr>
        in bnd (if sig = SIGTERM \<and> threads_started m \<noteq> 0
                then bnd (in_hal hal_stop_threads (m_task m)) (\<lambda>(_, x). Inr (m\<lparr>m_task := x, threads_started := 0\<rparr>))
                else Inr m) (\<lambda>m. Inr (False, m\<lparr>in_handler := 0\<rparr>)))"

definition emctask_shutdown :: "menv \<Rightarrow> main_st \<Rightarrow> (int \<times> main_st) res" where
  "emctask_shutdown me m =
     bnd (if threads_started m \<noteq> 0
          then bnd (in_hal hal_stop_threads (m_task m)) (\<lambda>(_, x). Inr (m\<lparr>m_task := x, threads_started := 0\<rparr>))
          else Inr m) (\<lambda>m.
     bnd (if task_initialised m \<noteq> 0
          then bnd (task_thread_exit (me_task me) (m_task m)) (\<lambda>x. Inr (m\<lparr>m_task := x, task_initialised := 0\<rparr>))
          else Inr m) (\<lambda>m.
     bnd (hal_get_state (x_hal (m_task m))) (\<lambda>_.
       Inr (0, m\<lparr>m_timer := None\<rparr>))))"

section \<open>Start-up\<close>

definition printfMaster :: "int \<Rightarrow> int" where
  "printfMaster result = (if result \<noteq> 0 then - 1 else result)"

text \<open>\<open>stopprintf\<close> is declared to return an \<open>int\<close> and ends without a \<open>return\<close>: undefined.\<close>

definition stopprintf :: "main_st \<Rightarrow> (int \<times> main_st) res" where
  "stopprintf m = Inl UB"

definition emctask_startup :: "menv \<Rightarrow> main_st \<Rightarrow> (int \<times> main_st) res" where
  "emctask_startup me m =
     (if printfMaster (me_printf me) \<noteq> 0 then Inr (- 1, m)
      else bnd (in_sys (hal_app_main (te_env (me_task me))) (m_task m)) (\<lambda>(r, x).
        let m = m\<lparr>m_task := x\<rparr>
        in if r \<noteq> 0 then Inr (- 1, m)
           else bnd (if emcTaskNoDelay m = 0
                     then bnd (rcs_timer_every (me_clock me) f0_1 (m_proc m)) (\<lambda>(tm, p). Inr (m\<lparr>m_timer := Some tm, m_proc := p\<rparr>))
                     else Inr m) (\<lambda>m.
                bnd (task_thread_main (me_task me) (m_task m)) (\<lambda>(r, x).
                let m = m\<lparr>m_task := x\<rparr>
                in if r \<noteq> 0 then bnd (emctask_shutdown me m) (\<lambda>(_, m). Inr (- 1, m))
                   else Inr (0, m\<lparr>task_initialised := 1\<rparr>)))))"

section \<open>The main loop\<close>

text \<open>One pass of the loop.\<close>

definition note_latency :: "menv \<Rightarrow> fl \<Rightarrow> main_locals \<Rightarrow> main_locals res" where
  "note_latency me deltaTime l =
     (let l = (if fl_less deltaTime (minTime l) then l\<lparr>minTime := deltaTime\<rparr>
               else if fl_less (maxTime l) deltaTime then l\<lparr>maxTime := deltaTime\<rparr> else l);
          l = l\<lparr>startTime := endTime l\<rparr>
      in if \<not> me_quiet me \<and> fl_less (dmul (dint latency_excursion_factor) (me_cycle_time me)) deltaTime
         then bnd (to_int (num_latency_warnings l + 1)) (\<lambda>n. Inr (l\<lparr>num_latency_warnings := n\<rparr>))
         else Inr l)"

definition report :: "main_locals \<Rightarrow> main_st \<Rightarrow> main_st res" where
  "report l m = (if cycle_counter l mod 1000 = 0 \<and> taskShared (m_task m) = SP_stale then Inl UB else Inr m)"

definition pace :: "menv \<Rightarrow> main_st \<Rightarrow> main_st res" where
  "pace me m =
     (if emcTaskNoDelay m \<noteq> 0 \<or> emcTaskEager m \<noteq> 0 then Inr (m\<lparr>emcTaskEager := 0\<rparr>)
      else case m_timer m of
          None \<Rightarrow> Inr m
        | Some tm \<Rightarrow> bnd (timer_wait (me_clock me) tm (m_proc m)) (\<lambda>(_, tm, p). Inr (m\<lparr>m_timer := Some tm, m_proc := p\<rparr>)))"

definition main_pass :: "menv \<Rightarrow> main_st \<times> main_locals \<Rightarrow> (main_st \<times> main_locals) res" where
  "main_pass me ml =
     (case ml of (m, l) \<Rightarrow>
        let (now, p) = etime (me_clock me) (m_proc m); m = m\<lparr>m_proc := p\<rparr>;
            deltaTime = dsub now (startTime l); l = l\<lparr>endTime := now\<rparr>
        in bnd (note_latency me deltaTime l) (\<lambda>l.
           bnd (to_int (cycle_counter l + 1)) (\<lambda>c.
           let l = l\<lparr>cycle_counter := c\<rparr>
           in bnd (report l m) (\<lambda>m. bnd (pace me m) (\<lambda>m. Inr (m, l))))))"

text \<open>The start of the threads, with the initial values of the local variables.\<close>

definition main_start :: "menv \<Rightarrow> main_st \<Rightarrow> (main_st \<times> main_locals) res" where
  "main_start me m =
     bnd (in_hal hal_start_threads (m_task m)) (\<lambda>(r, x).
       let m = m\<lparr>m_task := x\<rparr>; m = (if r = 0 then m\<lparr>threads_started := 1\<rparr> else m);
           (t, p) = etime (me_clock me) (m_proc m)
       in Inr (m\<lparr>m_proc := p\<rparr>, \<lparr>startTime = t, endTime = t, minTime = DBL_MAX, maxTime = Fin 0,
            num_latency_warnings = 0, cycle_counter = 0\<rparr>))"

text \<open>From the entry of \<open>main\<close> to the loop; \<open>Inl\<close> is a run that ends in \<open>exit(1)\<close>.\<close>

definition main_enter :: "menv \<Rightarrow> main_st \<Rightarrow> (main_st + main_st \<times> main_locals) res" where
  "main_enter me m =
     bnd (emctask_startup me (m\<lparr>m_done := 0\<rparr>)) (\<lambda>(r, m).
       if r \<noteq> 0 then bnd (emctask_shutdown me m) (\<lambda>(_, m). bnd (stopprintf m) (\<lambda>(_, m). Inr (Inl m)))
       else bnd (main_start me m) (\<lambda>ml. Inr (Inr ml)))"

text \<open>What follows the loop.\<close>

definition main_leave :: "menv \<Rightarrow> main_st \<Rightarrow> main_st res" where
  "main_leave me m =
     bnd (if threads_started m \<noteq> 0
          then bnd (in_hal hal_stop_threads (m_task m)) (\<lambda>(_, x). Inr (m\<lparr>m_task := x, threads_started := 0\<rparr>))
          else Inr m) (\<lambda>m.
     bnd (stopprintf m) (\<lambda>(_, m). bnd (emctask_shutdown me m) (\<lambda>(_, m). Inr m)))"

text \<open>The loop with signals and the real-time side: \<open>act\<close> is what the threads do to the task.\<close>

inductive main_step :: "menv \<Rightarrow> (example \<Rightarrow> example \<Rightarrow> bool) \<Rightarrow> main_st \<times> main_locals \<Rightarrow> main_st \<times> main_locals \<Rightarrow> bool"
  for me act where
  Pass: "m_done m = 0 \<Longrightarrow> main_pass me (m, l) = Inr (m', l') \<Longrightarrow> main_step me act (m, l) (m', l')"
| Signal: "emctask_quit sig m = Inr (False, m') \<Longrightarrow> main_step me act (m, l) (m', l)"
| Threads: "act (m_task m) x \<Longrightarrow> main_step me act (m, l) (m\<lparr>m_task := x\<rparr>, l)"

section \<open>What a pass changes\<close>

lemma note_latency_done: "note_latency me d l = Inr l' \<Longrightarrow> cycle_counter l' = cycle_counter l"
  by (auto simp: note_latency_def Let_def bnd_Inr_iff to_int_Inr_iff split: if_splits)

lemma main_pass_keeps:
  assumes "main_pass me (m, l) = Inr (m', l')"
  shows "m_done m' = m_done m \<and> task_initialised m' = task_initialised m \<and> threads_started m' = threads_started m \<and>
    in_handler m' = in_handler m \<and> m_task m' = m_task m \<and> cycle_counter l' = cycle_counter l + 1"
  using assms
  by (auto simp: main_pass_def pace_def report_def Let_def case_prod_beta bnd_Inr_iff to_int_Inr_iff
      dest!: note_latency_done split: if_splits option.splits)

lemma emctask_quit_run:
  assumes "emctask_quit sig m = Inr (False, m')"
  shows "m_done m' = 1 \<and> task_initialised m' = task_initialised m \<and> in_handler m' = 0 \<and>
    (threads_started m' = threads_started m \<and> m_task m' = m_task m \<or> threads_started m' = 0)"
  using assms by (auto simp: emctask_quit_def Let_def bnd_Inr_iff split: if_splits)

section \<open>Properties\<close>

definition threads_flag_ok :: "main_st \<Rightarrow> bool" where
  "threads_flag_ok m \<longleftrightarrow> (threads_started m \<noteq> 0 \<longrightarrow>
     hd_state (x_hal (m_task m)) = HAL_S_RUNNING \<and> threads_running (x_hal (m_task m)) = 1)"

text \<open>What the start-up leaves for the start of the threads.\<close>

definition start_ready :: "main_st \<Rightarrow> bool" where
  "start_ready m \<longleftrightarrow> m_done m = 0 \<and> task_initialised m = 1 \<and> threads_started m = 0 \<and> in_handler m = 0"

lemma emctask_startup_ready:
  assumes "emctask_startup me (m0\<lparr>m_done := 0\<rparr>) = Inr (0, m)" "threads_started m0 = 0" "in_handler m0 = 0"
  shows "start_ready m"
  using assms by (auto simp: emctask_startup_def Let_def case_prod_beta bnd_Inr_iff start_ready_def split: if_splits)

lemma main_start_run:
  assumes "main_start me m1 = Inr (m, l)" "start_ready m1"
  shows "m_done m = 0 \<and> task_initialised m = 1 \<and> in_handler m = 0 \<and> threads_flag_ok m"
proof -
  from assms(1) obtain r x where 3: "in_hal hal_start_threads (m_task m1) = Inr (r, x)" by (auto simp: main_start_def bnd_Inr_iff)
  from assms(1) obtain p where m: "m = (if r = 0 then m1\<lparr>m_task := x, threads_started := 1\<rparr> else m1\<lparr>m_task := x\<rparr>)\<lparr>m_proc := p\<rparr>"
    by (auto simp: main_start_def 3 Let_def case_prod_beta)
  have "hd_state h = HAL_S_RUNNING \<and> threads_running h = 1" if "hal_start_threads g = Inr (0, h)" for g h
    using that by (auto simp: hal_start_threads_def split: if_splits)
  then have "r = 0 \<Longrightarrow> hd_state (x_hal x) = HAL_S_RUNNING \<and> threads_running (x_hal x) = 1"
    using 3 by (auto simp: in_hal_def bnd_Inr_iff)
  then show ?thesis using assms(2) unfolding m by (auto simp: threads_flag_ok_def start_ready_def)
qed


text \<open>
  Property C40: the loop of \<open>main\<close> ends by a signal only. Whatever the owner of the task does, the command
  \<open>TASK_CMD_SHUTDOWN\<close> included, a run in which the loop has been told to end contains the
  execution of the signal handler.
\<close>

theorem main_ends_by_signal:
  assumes "(main_step me act)\<^sup>*\<^sup>* (m, l) (m', l')" "m_done m = 0" "m_done m' \<noteq> 0"
  shows "\<exists>m1 l1 sig m2. (main_step me act)\<^sup>*\<^sup>* (m, l) (m1, l1) \<and> emctask_quit sig m1 = Inr (False, m2) \<and>
    (main_step me act)\<^sup>*\<^sup>* (m2, l1) (m', l')"
  using assms(1,3)
proof (induction "(m', l')" arbitrary: m' l' rule: rtranclp_induct)
  case base
  then show ?case using assms(2) by simp
next
  case (step z)
  obtain m1 l1 where z: "z = (m1, l1)" by fastforce
  have st: "main_step me act (m1, l1) (m', l')" using step.hyps(2) z by simp
  show ?case
  proof (cases "m_done m1 = 0")
    case False
    with step.hyps(3) [OF z] obtain a b sig c where "(main_step me act)\<^sup>*\<^sup>* (m, l) (a, b)" "emctask_quit sig a = Inr (False, c)"
      "(main_step me act)\<^sup>*\<^sup>* (c, b) (m1, l1)" by blast
    with st show ?thesis by (meson rtranclp.rtrancl_into_rtrancl)
  next
    case True
    from st show ?thesis
    proof (cases rule: main_step.cases)
      case Pass
      then show ?thesis using main_pass_keeps [OF Pass(2)] step.prems True by simp
    next
      case (Signal sig)
      then show ?thesis using step.hyps(1) z by blast
    next
      case (Threads x)
      then show ?thesis using step.prems True by simp
    qed
  qed
qed

text \<open>
  \<open>emctask_shutdown\<close> is idempotent. A call that returns has cleared both flags and deleted the
  timer, and another call changes nothing. \<open>main\<close> relies on it: after a failed start-up it calls it twice.
\<close>

theorem main_shutdown_idempotent:
  assumes "emctask_shutdown me m = Inr (r, m')"
  shows "r = 0 \<and> threads_started m' = 0 \<and> task_initialised m' = 0 \<and> m_timer m' = None \<and> emctask_shutdown me m' = Inr (0, m')"
proof -
  obtain m1 where m': "m' = m1\<lparr>m_timer := None\<rparr>" "r = 0" and f: "threads_started m1 = 0" "task_initialised m1 = 0"
    and st: "\<exists>v. hal_get_state (x_hal (m_task m1)) = Inr v"
    using assms by (auto simp: emctask_shutdown_def bnd_Inr_iff split: if_splits)
  then show ?thesis by (auto simp: emctask_shutdown_def)
qed

section \<open>Examples\<close>

definition menv_example :: menv where
  "menv_example = \<lparr>me_task = tenv_example, me_clock = clock_example, me_printf = 0, me_quiet = True, me_cycle_time = Fin 1\<rparr>"

definition main_example :: main_st where
  "main_example = \<lparr>m_done = 0, m_timer = Some timer_example, task_initialised = 1, threads_started = 0, emcTaskNoDelay = 0,
     emcTaskEager = 0, in_handler = 0, m_task = example_fresh, m_proc = sleeper_start\<rparr>"

lemma main_example_sel: "m_task main_example = example_fresh" "threads_started main_example = 0" "in_handler main_example = 0"
  "start_ready main_example" by (simp_all add: main_example_def start_ready_def)

lemma main_example_start:
  "\<exists>m l. main_start menv_example main_example = Inr (m, l) \<and> threads_started m = 1 \<and> m_done m = 0 \<and> in_handler m = 0"
proof -
  have "\<exists>h. hal_start_threads one_comp = Inr (0, h)" by (simp add: hal_start_threads_def one_comp_sel)
  then obtain x where "in_hal hal_start_threads (m_task main_example) = Inr (0, x)"
    by (auto simp: in_hal_def main_example_sel example_fresh_sel)
  then show ?thesis by (simp add: main_start_def Let_def case_prod_beta) (simp add: main_example_def)
qed


theorem main_ends_by_signal_witness:
  "\<exists>m sig m1 m2. emctask_quit SIGINT main_example = Inr (False, m) \<and> emctask_quit sig m1 = Inr (False, m2)"
proof -
  have q: "emctask_quit SIGINT main_example = Inr (False, main_example\<lparr>m_done := 1\<rparr>)"
    by (simp add: emctask_quit_def main_example_def SIGINT_def SIGTERM_def)
  have "(main_step menv_example (=))\<^sup>*\<^sup>* (main_example, l) (main_example\<lparr>m_done := 1\<rparr>, l)" for l
    by (rule r_into_rtranclp) (rule main_step.Signal [OF q])
  from main_ends_by_signal [OF this] q show ?thesis by (fastforce simp: main_example_def)
qed

theorem main_shutdown_idempotent_witness:
  "\<exists>m. emctask_shutdown menv_example (main_example\<lparr>task_initialised := 0, threads_started := 1\<rparr>) = Inr (0, m) \<and> m_timer m = None \<and>
     emctask_shutdown menv_example m = Inr (0, m)"
proof -
  have "\<exists>r h. hal_stop_threads one_comp = Inr (r, h) \<and> hal_data h = SP_mapped" by (simp add: hal_stop_threads_def one_comp_sel)
  then obtain r h where h: "hal_stop_threads one_comp = Inr (r, h)" "hal_data h = SP_mapped" by blast
  then have "\<exists>m. emctask_shutdown menv_example (main_example\<lparr>task_initialised := 0, threads_started := 1\<rparr>) = Inr (0, m)"
    by (simp add: emctask_shutdown_def in_hal_def main_example_sel example_fresh_sel hal_get_state_def)
  then show ?thesis using main_shutdown_idempotent [of menv_example] by blast
qed

end
