(* ===== verification/Task_Threads.thy ===== *)
theory Task_Threads
  imports Task_Wiring
begin

text \<open>
  The thread of the example task: \<open>init_task_threads\<close> on a segment with room creates the thread and
  its running task, and gives it the program of the two real-time functions.
\<close>

unbundle bit_operations_syntax

section \<open>What the start needs\<close>

definition threads_free_names :: "hal \<Rightarrow> shape \<Rightarrow> bool" where
  "threads_free_names h G \<longleftrightarrow> thread_named h G ''example-thread'' = None \<and> ''__example-thread'' \<notin> comp_names h G \<and>
     ''example-thread.tmax'' \<notin> set (param_names h) \<and>
     set (funct_names h) \<inter> {''example-cmd-handler'', ''example-controller''} = {} \<and>
     set (pin_names h) \<inter> {''example-thread.time'', ''example-cmd-handler.time'', ''example-controller.time''} = {}"

text \<open>The periods, in nanoseconds: neither their product with 1000 nor their passage through seconds overflows.\<close>

definition periods_ok :: "example \<Rightarrow> bool" where
  "periods_ok x \<longleftrightarrow> 1 \<le> sint (task_period_nsec x) \<and> sint (task_period_nsec x) * 1000 < 2 ^ 50 \<and>
     0 \<le> sint (subtask_period_nsec x) \<and> sint (subtask_period_nsec x) < 2 ^ 50"

definition period_of :: "example \<Rightarrow> 64 word" where
  "period_of x = task_period_nsec x * 1000"

lemma period_of_run:
  assumes "periods_ok x"
  shows "thread_period x = Inr (period_of x)" "sint (period_of x) = sint (task_period_nsec x) * 1000" "period_of x \<noteq> 0"
proof -
  let ?n = "sint (task_period_nsec x)"
  have n: "1 \<le> ?n" "?n * 1000 < 2 ^ 50" using assms by (simp_all add: periods_ok_def)
  have w: "(word_of_int (?n * 1000) :: 64 word) = period_of x" by (simp add: period_of_def)
  then show "thread_period x = Inr (period_of x)" using n by (simp add: thread_period_def)
  have "sint (word_of_int (?n * 1000) :: 64 word) = ?n * 1000"
    using n by (intro sint_of_int_range) simp_all
  then show s: "sint (period_of x) = ?n * 1000" by (simp only: w)
  show "period_of x \<noteq> 0"
  proof
    assume "period_of x = 0"
    with s n show False by simp
  qed
qed

definition subperiod_of :: "example \<Rightarrow> 64 word" where
  "subperiod_of x = (if subtask_period_nsec x = 0 then period_of x else subtask_period_nsec x)"

lemma subperiod_range:
  assumes "periods_ok x"
  shows "1 \<le> sint (subperiod_of x)" "sint (subperiod_of x) < 2 ^ 50"
proof -
  have "sint (subtask_period_nsec x) \<noteq> 0" if "subtask_period_nsec x \<noteq> 0"
    using that signed_eq_0_iff [of "subtask_period_nsec x", where ?'a = int] by blast
  with assms period_of_run(2) [OF assms] show "1 \<le> sint (subperiod_of x)" "sint (subperiod_of x) < 2 ^ 50"
    by (auto simp: subperiod_of_def periods_ok_def)
qed

text \<open>Everything the call relies on; the thread, its registration, two functions and two entries need room.\<close>

definition threads_startable :: "tenv \<Rightarrow> nat \<Rightarrow> int \<Rightarrow> shape \<Rightarrow> example \<Rightarrow> bool" where
  "threads_startable te k v G x \<longleftrightarrow> init_entry_ok (ev_list_init (te_env te)) \<and> roomy (mot_comp_id x) 15 (x_hal x) \<and>
     mot_comp_id x \<noteq> v + 1 \<and> c_type (comps (x_hal x) (comp_of (mot_comp_id x) (x_hal x))) \<noteq> COMPONENT_TYPE_USER \<and>
     hd_lock (x_hal x) AND HAL_LOCK_CONFIG = 0 \<and> threads_free_names (x_hal x) G \<and> grants (te_env te) 98 k (x_app x) \<and>
     (s_threads G \<noteq> [] \<or> fst (clock_for (period_of x) (x_app x))) \<and> periods_ok x \<and> taskHalData x \<noteq> None"

text \<open>The thread is created, its task runs, and the component has room left.\<close>

lemma create_example_thread:
  assumes lib: "lib_ready (x_sys x) G v n" and ok: "threads_startable te k v G x"
  obtains s' G' t tk where "hal_create_thread (te_env te) (Some ''example-thread'') (period_of x) 1 98 (x_sys x) = Inr (v + 1, s')"
    "roomy (mot_comp_id x) 10 (s_hal s')" "hal_rep (s_hal s') G'" "s_threads G' = t # s_threads G" "t \<notin> set (s_threads G)"
    "t_name (threads (s_hal s') t) = ''example-thread''" "t_period (threads (s_hal s') t) = sint (period_of x)"
    "t_priority (threads (s_hal s') t) = 98" "t_task_id (threads (s_hal s') t) = int k" "t_uses_fp (threads (s_hal s') t) = 1"
    "task_array (s_app s') = (task_array (x_app x))[k := S_task tk]" "tk_state tk = TASK_S_RUNNING" "tk_thr tk = Th_created"
    "tk_period tk = period_of x" "tk_taskcode tk = ev_thread_task (te_env te)" "tk_arg tk = t"
    "registered t (v + 1) (x_hal x) (s_hal s')" "create_keeps (v + 1) (x_hal x) (s_hal s')" "s_entries G' t = []"
    "\<forall>u \<in> set (s_threads G). s_entries G' u = s_entries G u" "module_ids (v + 1) (n + 1) (s_shm s')" "same_segments (s_shm (x_sys x)) (s_shm s')"
proof -
  let ?h = "x_hal x" and ?i = "mot_comp_id x"
  have ok': "init_entry_ok (ev_list_init (te_env te))" "roomy ?i 15 ?h" "?i \<noteq> v + 1" "hd_lock ?h AND HAL_LOCK_CONFIG = 0"
    "threads_free_names ?h G" "grants (te_env te) 98 k (x_app x)" "s_threads G \<noteq> [] \<or> fst (clock_for (period_of x) (x_app x))" "periods_ok x"
    using ok by (simp_all add: threads_startable_def)
  note R = ok'(2) [unfolded roomy_def]
  have rep: "hal_rep ?h G" using lib by (simp add: lib_ready_def)
  have "shmem_bot ?h + sizeof_hal_thread + 15 \<le> shmem_top ?h" using R by (simp add: sizeof_hal_thread_def)
  then have room: "thread_room ?h G"
    using shmalloc_dn_room(2) [OF rep_area [OF rep] sizeof_pos(5)] by (simp add: thread_room_def)
  have nm: "thread_named ?h G ''example-thread'' = None" using ok'(5) by (simp add: threads_free_names_def)
  have can: "can_create ''example-thread'' ?h G" using R ok'(5) by (simp add: can_create_def threads_free_names_def)
  have len: "length ''example-thread'' \<le> HAL_NAME_LEN" by (simp add: HAL_NAME_LEN_def)
  obtain r s' G' t tk where c: "hal_create_thread (te_env te) (Some ''example-thread'') (period_of x) 1 98 (x_sys x) = Inr (r, s')"
    and inv: "hal_inv (s_hal s')" and f: "hal_rep (s_hal s') G'" "s_threads G' = t # s_threads G" "t \<notin> set (s_threads G)"
    "t_name (threads (s_hal s') t) = ''example-thread''" "t_period (threads (s_hal s') t) = sint (period_of x)"
    "t_priority (threads (s_hal s') t) = 98" "t_task_id (threads (s_hal s') t) = int k"
    "task_array (s_app s') = (task_array (x_app x))[k := S_task tk]" "tk_state tk = TASK_S_RUNNING" "tk_thr tk = Th_created"
    "tk_period tk = period_of x" "tk_taskcode tk = ev_thread_task (te_env te)" "tk_arg tk = t"
    and res: "r = v + 1 \<and> registered t r ?h (s_hal s') \<or> r = - EINVAL" "42 < length ''example-thread'' \<longrightarrow> r = - EINVAL"
    and g: "s_entries G' t = []" "\<forall>u \<in> set (s_threads G). s_entries G' u = s_entries G u" "t_uses_fp (threads (s_hal s') t) = 1"
    and cc: "can_create ''example-thread'' ?h G \<longrightarrow> r = v + 1" "r = v + 1 \<longrightarrow> create_keeps r ?h (s_hal s') \<and>
       module_ids r (n + 1) (s_shm s') \<and> same_segments (s_shm (x_sys x)) (s_shm s')"
    using hal_create_thread_run [OF lib ok'(1) period_of_run(3) [OF ok'(8)] len ok'(4) nm room ok'(7,6), of 1]
    by (elim exE conjE) (rule that)
  have r: "r = v + 1" using cc(1) can by blast
  have k: "create_keeps (v + 1) ?h (s_hal s')" using cc(2) r by blast
  have ids: "module_ids (v + 1) (n + 1) (s_shm s')" "same_segments (s_shm (x_sys x)) (s_shm s')" using cc(2) r by blast+
  have v: "0 \<le> v" using lib by (simp add: lib_ready_def)
  then have reg: "registered t (v + 1) ?h (s_hal s')" using res(1) r by auto
  have co: "comp_of ?i (s_hal s') = comp_of ?i ?h" "comps (s_hal s') (comp_of ?i ?h) = comps ?h (comp_of ?i ?h)"
    using k ok'(3) R by (auto simp: create_keeps_def keeps_comps_but_def)
  have "roomy ?i 10 (s_hal s')" using R k co inv by (simp add: roomy_def create_keeps_def)
  from that [OF c [unfolded r] this f(1-7) g(3) f(8-13) reg k g(1,2) ids] show ?thesis .
qed

text \<open>
  What the call leaves: the new thread at the head of the list, with its task and its program; everything
  else as before.
\<close>

definition thread_runs :: "tenv \<Rightarrow> nat \<Rightarrow> 64 word \<Rightarrow> off \<Rightarrow> hal \<Rightarrow> shape \<Rightarrow> slot list \<Rightarrow> bool" where
  "thread_runs te k p t h G slots \<longleftrightarrow> t_name (threads h t) = ''example-thread'' \<and> t_period (threads h t) = sint p \<and>
     t_priority (threads h t) = 98 \<and> t_task_id (threads h t) = int k \<and>
     calls h G t = [(te_handler te, 0), (te_controller te, 0)] \<and> timed h G t \<and> (\<exists>q. t_runtime (threads h t) = D_sig q) \<and>
     (\<exists>tk. k < length slots \<and> slots ! k = S_task tk \<and> tk_state tk = TASK_S_RUNNING \<and> tk_thr tk = Th_created \<and> tk_period tk = p \<and>
        tk_taskcode tk = ev_thread_task (te_env te) \<and> tk_arg tk = t)"

definition start_keeps :: "int \<Rightarrow> shape \<Rightarrow> hal \<Rightarrow> shape \<Rightarrow> hal \<Rightarrow> bool" where
  "start_keeps c G h G' h' \<longleftrightarrow> (\<forall>u \<in> set (s_threads G). calls h' G' u = calls h G u) \<and> ucells h' = ucells h \<and>
     hd_lock h' = hd_lock h \<and> hd_state h' = hd_state h \<and> lib_mem_id h' = lib_mem_id h \<and> keeps_signals h h' \<and> keeps_comps_but c h h'"

lemma init_threads_run:
  assumes lib: "lib_ready (x_sys x) G v n" and ok: "threads_startable te k v G x"
  obtains y G' t where "init_task_threads te x = Inr (0, y)" "roomy (mot_comp_id x) 0 (x_hal y)" "hal_rep (x_hal y) G'"
    "s_threads G' = t # s_threads G" "t \<notin> set (s_threads G)" "thread_runs te k (period_of x) t (x_hal y) G' (task_array (x_app y))"
    "start_keeps (v + 1) G (x_hal x) G' (x_hal y)" "y = x\<lparr>x_sys := x_sys y, subtask_period_nsec := subperiod_of x\<rparr>"
    "\<forall>j. j \<noteq> k \<longrightarrow> task_array (x_app y) ! j = task_array (x_app x) ! j"
    "module_ids (v + 1) (n + 1) (s_shm (x_sys y))" "same_segments (s_shm (x_sys x)) (s_shm (x_sys y))"
proof -
  let ?i = "mot_comp_id x"
  obtain s' G1 t tk where c: "hal_create_thread (te_env te) (Some ''example-thread'') (period_of x) 1 98 (x_sys x) = Inr (v + 1, s')"
    and r1: "roomy ?i 10 (s_hal s')" "hal_rep (s_hal s') G1" "s_threads G1 = t # s_threads G" "t \<notin> set (s_threads G)"
    and th: "t_name (threads (s_hal s') t) = ''example-thread''" "t_period (threads (s_hal s') t) = sint (period_of x)"
    "t_priority (threads (s_hal s') t) = 98" "t_task_id (threads (s_hal s') t) = int k" "t_uses_fp (threads (s_hal s') t) = 1"
    and tk: "task_array (s_app s') = (task_array (x_app x))[k := S_task tk]" "tk_state tk = TASK_S_RUNNING" "tk_thr tk = Th_created"
    "tk_period tk = period_of x" "tk_taskcode tk = ev_thread_task (te_env te)" "tk_arg tk = t"
    and reg: "registered t (v + 1) (x_hal x) (s_hal s')" and k1: "create_keeps (v + 1) (x_hal x) (s_hal s')"
    and es: "s_entries G1 t = []" "\<forall>u \<in> set (s_threads G). s_entries G1 u = s_entries G u"
    and ids: "module_ids (v + 1) (n + 1) (s_shm s')" "same_segments (s_shm (x_sys x)) (s_shm s')"
    by (rule create_example_thread [OF lib ok])
  note O = ok [unfolded threads_startable_def]
  have p: "periods_ok x" using O by blast
  have v: "0 \<le> v" using lib by (simp add: lib_ready_def)
  have co: "comps (s_hal s') (comp_of ?i (s_hal s')) = comps (x_hal x) (comp_of ?i (x_hal x))"
    using k1 O by (auto simp: create_keeps_def keeps_comps_but_def roomy_def)
  have names: "funct_names (s_hal s') = funct_names (x_hal x)" "pin_names (s_hal s') = insort ''example-thread.time'' (pin_names (x_hal x))"
    using k1 reg th(1) by (simp_all add: create_keeps_def funct_names_def registered_def)
  have "roomy ?i (10 + 0) (s_hal s')" using r1(1) by simp
  then obtain h1 h2 h3 h4 G4 where
    b: "hal_export_funct ''example-cmd-handler'' (te_handler te) 0 1 0 ?i (s_hal s') = Inr (0, h1)"
      "hal_export_funct ''example-controller'' (te_controller te) 0 1 0 ?i h1 = Inr (0, h2)"
      "hal_add_funct_to_thread (ev_list_init (te_env te)) (Some ''example-cmd-handler'') (Some ''example-thread'') 1 h2 = Inr (0, h3)"
      "hal_add_funct_to_thread (ev_list_init (te_env te)) (Some ''example-controller'') (Some ''example-thread'') 2 h3 = Inr (0, h4)"
    and r4: "roomy ?i 0 h4" "hal_rep h4 G4" "s_threads G4 = s_threads G1" "build_keeps (s_hal s') h4"
      "calls h4 G4 t = [(te_handler te, 0), (te_controller te, 0)]"
      "\<forall>u \<in> set (s_threads G1). u \<noteq> t \<longrightarrow> calls h4 G4 u = calls (s_hal s') G1 u" "timed h4 G4 t"
    by (rule two_functions_run [OF _ r1(2), of ?i 0 "ev_list_init (te_env te)" "''example-thread''" t "''example-cmd-handler''" "''example-controller''"
          "te_handler te" 0 1 0 "te_controller te" 0 1 0])
      (use O th(1,5) es(1) r1(3) k1 co names in \<open>auto simp: create_keeps_def threads_free_names_def thread_named_def set_insort_key\<close>)
  define y where "y = x\<lparr>x_sys := s'\<lparr>s_hal := h4\<rparr>, subtask_period_nsec := subperiod_of x\<rparr>"
  have y: "x_hal y = h4" "x_app y = s_app s'" "hal_data h4 = SP_mapped"
    using hal_inv_mapped [OF roomy_inv [OF r4(1)]] by (simp_all add: y_def)
  let ?x0 = "if subtask_period_nsec x = 0 then x\<lparr>subtask_period_nsec := period_of x\<rparr> else x"
  let ?x4 = "?x0\<lparr>x_sys := s'\<lparr>s_hal := h4\<rparr>\<rparr>"
  have x0: "?x0 = x\<lparr>subtask_period_nsec := subperiod_of x\<rparr>" by (simp add: subperiod_of_def)
  have n: "1 \<le> sint (task_period_nsec x)" "sint (task_period_nsec x) < 2 ^ 50" using p by (simp_all add: periods_ok_def)
  have t1: "settaskCycleTime (to_secs (sint (task_period_nsec x))) ?x4 = Inr (0, y)"
    using settask_run(1) [OF n, of ?x4] O y(3) by (simp add: x0 y_def)
  have t2: "setsubtaskCycleTime (to_secs (sint (subperiod_of x))) y = Inr (0, y)"
    using settask_run(2) [OF subperiod_range [OF p], of y] O y(3) by (simp add: y_def)
  have run: "init_task_threads te x = Inr (0, y)"
    using b c t1 t2 v period_of_run(1) [OF p]
    by (simp add: init_task_threads_def in_hal_def in_sys_def upd_hal_def x0 y_def)
  have lt: "k < length (task_array (x_app x))" using O first_null_slot by (simp add: grants_def) metis
  have "thread_runs te k (period_of x) t (x_hal y) G4 (task_array (x_app y))"
    using r4(4,5,7) th tk lt reg by (auto simp: thread_runs_def build_keeps_def y registered_def)
  moreover have "start_keeps (v + 1) G (x_hal x) G4 (x_hal y)"
  proof -
    have "calls h4 G4 u = calls (x_hal x) G u" if "u \<in> set (s_threads G)" for u
      using r4(6) that r1(3,4) es(2) k1 by (auto simp: calls_def create_keeps_def)
    moreover have "keeps_signals (x_hal x) h4"
      using k1 r4(4) keeps_signals_trans by (simp add: create_keeps_def build_keeps_def) blast
    moreover have "keeps_comps_but (v + 1) (x_hal x) h4"
      using k1 r4(4) comp_of_same [of h4 "s_hal s'"] by (simp add: create_keeps_def build_keeps_def keeps_comps_but_def)
    ultimately show ?thesis using k1 r4(4) by (simp add: start_keeps_def create_keeps_def build_keeps_def y)
  qed
  ultimately show ?thesis
    using that [OF run _ _ _ r1(4)] r4(1-3) r1(3) tk(1) ids by (simp add: y) (simp add: y_def)
qed

end
