(* ===== verification/Task_Start.thy ===== *)
theory Task_Start
  imports Task_Threads Task_Guard Hal_Cycle
begin

text \<open>
  The whole start of the example task (\<open>task_thread_main\<close>): on a machine that grants the resources it
  succeeds, and everything it has set up is there and works together.
\<close>

unbundle bit_operations_syntax

section \<open>The shared block\<close>

text \<open>There is a free handle, and the kernel grants the segment; \<open>j\<close> is the handle.\<close>

definition segment_granted :: "tenv \<Rightarrow> nat \<Rightarrow> shmem_st \<Rightarrow> bool" where
  "segment_granted te j m \<longleftrightarrow> find_slot TASK_SHM_KEY 0 None (sh_array m) = Free_slot j \<and>
     (\<exists>id a. shmget_again (ev_os (te_env te)) TASK_SHM_KEY (to_s32 sizeof_task_shared) 5 0 = Inr id \<and>
        os_shmat (ev_os (te_env te)) id = Inr a)"

definition empty_channel :: "tenv \<Rightarrow> task_shared" where
  "empty_channel te = (te_shared te)\<lparr>command_id := TASK_CMD_NONE, command_data := 0\<rparr>"

text \<open>The task holds the only reference to its segment, which the kernel has mapped; \<open>b\<close> is the address of the module ids.\<close>

definition segment_held :: "tenv \<Rightarrow> nat \<Rightarrow> int \<Rightarrow> shmem_st \<Rightarrow> bool" where
  "segment_held te j b m \<longleftrightarrow> j < MAX_SHM \<and> length (sh_array m) = MAX_SHM \<and> live (sh_array m ! j) \<and> sh_key (sh_array m ! j) = TASK_SHM_KEY \<and>
     sh_count (sh_array m ! j) = 1 \<and> (\<exists>id. os_shmat (ev_os (te_env te)) id = Inr (sh_mem (sh_array m ! j))) \<and> uuid_base m = b"

lemma segment_held_same:
  assumes "segment_held te j b m" "same_segments m m'"
  shows "segment_held te j b m'"
proof -
  have "TASK_SHM_KEY \<noteq> UUID_KEY" by (simp add: TASK_SHM_KEY_def UUID_KEY_def)
  moreover have "length (sh_array m') = length (sh_array m)"
    using assms(2) map_eq_imp_length_eq by (simp add: same_segments_def handle_keys_def) blast
  ultimately show ?thesis using assms by (simp add: segment_held_def same_segments_def)
qed

lemma comm_buffers_run:
  assumes "module_ids v n (s_shm (x_sys x))" "segment_granted te j (s_shm (x_sys x))"
  obtains m where "init_task_comm_buffers te x = Inr (0, x\<lparr>x_sys := (x_sys x)\<lparr>s_shm := m\<rparr>, emc_shmem_id := int j,
      taskShared := SP_mapped, shared := empty_channel te\<rparr>)" "module_ids v n m" "segment_held te j (uuid_base (s_shm (x_sys x))) m"
proof -
  let ?m = "s_shm (x_sys x)" and ?os = "ev_os (te_env te)"
  have "shmem_ok ?m" using assms(1) by (simp add: module_ids_def uuid_ready_def)
  then have len: "length (sh_array ?m) = MAX_SHM" by (rule shmem_ok_length)
  from assms(2) obtain id a where g: "find_slot TASK_SHM_KEY 0 None (sh_array ?m) = Free_slot j"
    "shmget_again ?os TASK_SHM_KEY (to_s32 sizeof_task_shared) 5 0 = Inr id" "os_shmat ?os id = Inr a"
    by (auto simp: segment_granted_def)
  have nz: "TASK_SHM_KEY \<noteq> 0" "sizeof_task_shared \<noteq> 0" by (simp_all add: TASK_SHM_KEY_def sizeof_task_shared_def)
  note F = new_Free [OF g(1) nz len]
  let ?h = "(sh_array ?m ! j)\<lparr>sh_owner_pid := os_getpid ?os, sh_error_code := 0, sh_id := id, sh_mem := a, sh_state := SHMEM_S_ACTIVE,
      sh_magic := SHMEM_MAGIC, sh_size := sizeof_task_shared, sh_key := TASK_SHM_KEY, sh_count := 1\<rparr>"
  let ?m1 = "?m\<lparr>sh_array := (sh_array ?m)[j := ?h]\<rparr>"
  let ?m' = "?m1\<lparr>k_log := k_log ?m @ [K_shmat id]\<rparr>"
  have new: "rtapi_shmem_new ?os TASK_SHM_KEY (mot_comp_id x) sizeof_task_shared ?m = (int j, ?m')"
    using F(4) [of ?os "mot_comp_id x"] g by (simp add: Let_def)
  have at: "sh_array ?m' ! j = ?h" using F(1) len by simp
  have "module_ids v n ?m1"
    by (rule module_ids_put [OF assms(1) F(1,2)]) (use F(3) len nz in \<open>auto simp: SHMEM_MAGIC_def\<close>)
  then have ids: "module_ids v n ?m'" by (simp add: module_ids_def uuid_ready_def shmem_ok_def mapped_at_def)
  have "valid_handle (int j)" using F(1) by (simp add: valid_handle_def)
  then have "rtapi_shmem_getptr (int j) ?m' = Inr a" using at by (simp add: rtapi_shmem_getptr_def Let_def)
  then have "init_task_comm_buffers te x = Inr (0, x\<lparr>x_sys := (x_sys x)\<lparr>s_shm := ?m'\<rparr>, emc_shmem_id := int j,
      taskShared := SP_mapped, shared := empty_channel te\<rparr>)"
    using new at by (simp add: init_task_comm_buffers_def Let_def empty_channel_def)
  moreover have "segment_held te j (uuid_base ?m) ?m'"
    using at F(1) len g by (auto simp: segment_held_def)
  ultimately show ?thesis using ids by (intro that)
qed

section \<open>The start\<close>

text \<open>
  What the machine grants: a component, 27 structs, a handle and its segment, a task in slot \<open>k\<close>; all names are
  free, the locks open, the numbers in range. The two diagnostic functions leave everything as it is.
\<close>

definition startable :: "tenv \<Rightarrow> nat \<Rightarrow> nat \<Rightarrow> int \<Rightarrow> shape \<Rightarrow> example \<Rightarrow> bool" where
  "startable te j k v G x \<longleftrightarrow> init_entry_ok (ev_list_init (te_env te)) \<and> (\<forall>y. te_print_hal te y = Inr y) \<and> (\<forall>y. te_print_shmem te y = Inr y) \<and>
     v + 2 < 2 ^ 31 \<and> 1 \<le> num_axis x \<and> num_axis x \<le> MAX_AXES \<and> periods_ok x \<and>
     hd_lock (x_hal x) AND 1 = 0 \<and> hd_lock (x_hal x) AND HAL_LOCK_CONFIG = 0 \<and> shmem_bot (x_hal x) + 27 * 128 \<le> shmem_top (x_hal x) \<and>
     ''task1'' \<notin> comp_names (x_hal x) G \<and> names_free (x_hal x) \<and> threads_free_names (x_hal x) G \<and>
     segment_granted te j (s_shm (x_sys x)) \<and> grants (te_env te) 98 k (x_app x) \<and>
     (s_threads G \<noteq> [] \<or> fst (clock_for (period_of x) (x_app x)))"

text \<open>The component.\<close>

lemma start_component:
  assumes lib: "lib_ready (x_sys x) G v n" and ok: "startable te j k v G x"
  obtains s1 G1 where "hal_init (te_env te) (Some ''task1'') (x_sys x) = Inr (v + 1, s1)" "lib_ready s1 G1 (v + 1) (n + 1)"
    "roomy (v + 1) 25 (s_hal s1)" "c_type (comps (s_hal s1) (comp_of (v + 1) (s_hal s1))) \<noteq> COMPONENT_TYPE_USER"
    "hd_lock (s_hal s1) = hd_lock (x_hal x)" "hd_state (s_hal s1) = hd_state (x_hal x)" "names_free (s_hal s1)" "threads_free_names (s_hal s1) G1"
    "segment_granted te j (s_shm s1)" "s_app s1 = x_app x" "same_program (x_hal x) (s_hal s1)" "s_threads G1 = s_threads G"
    "pin_set (s_hal s1) = pin_set (x_hal x)" "uuid_base (s_shm s1) = uuid_base (s_shm (x_sys x))"
proof -
  let ?h = "x_hal x"
  note O = ok [unfolded startable_def]
  note L = lib [unfolded lib_ready_def]
  have rep: "hal_rep ?h G" using L by blast
  have "init_verdict ?h G (Some ''task1'') (v + 1) = v + 1"
    using O comp_room_top [OF rep] by (simp add: init_verdict_def HAL_NAME_LEN_def)
  then obtain s1 cp where run: "hal_init (te_env te) (Some ''task1'') (x_sys x) = Inr (v + 1, s1)" "s_app s1 = x_app x"
    and s1: "hal_inv (s_hal s1)" "module_ids (v + 1) (n + 1) (s_shm s1)" "lib_mem_id (s_hal s1) = lib_mem_id ?h"
      "same_segments (s_shm (x_sys x)) (s_shm s1)"
    and add: "added_comp cp (v + 1) ?h G (s_hal s1)"
    using hal_init_run [OF lib, of "te_env te" "Some ''task1''"] L by auto
  let ?G = "G\<lparr>s_comps := cp # s_comps G, s_comps_free := tl (s_comps_free G)\<rparr>"
  note A = added_comp_facts [OF add] and C = added_comp_of [OF add] and K = added_comp_keeps [OF add]
  have top: "shmem_bot (s_hal s1) = shmem_bot ?h" "shmem_top ?h - 128 \<le> shmem_top (s_hal s1)" "c_shmem_base (comps (s_hal s1) cp) = B_base"
    "funct_list_ptr (s_hal s1) = funct_list_ptr ?h" "thread_list_ptr (s_hal s1) = thread_list_ptr ?h" "links (s_hal s1) = links ?h"
    "entries (s_hal s1) = entries ?h" "pin_list_ptr (s_hal s1) = pin_list_ptr ?h" "hd_state (s_hal s1) = hd_state ?h"
    using add by (auto simp: added_comp_def)
  have cn: "comp_names (s_hal s1) ?G \<subseteq> insert [] (comp_names ?h G)"
    using A(2,4,7) by (auto simp: comp_names_def)
  have fn: "funct_names (s_hal s1) = funct_names ?h" using A(10) top(4) by (simp add: funct_names_def)
  have tn: "thread_named (s_hal s1) ?G nm = thread_named ?h G nm" for nm using A(11) by (simp add: thread_named_def)
  have lib1: "lib_ready s1 ?G (v + 1) (n + 1)" using s1 A(1) L O by (simp add: lib_ready_def)
  have room: "roomy (v + 1) 25 (s_hal s1)" using s1(1) C A(5) top K(4) O by (simp add: roomy_def)
  have ty: "c_type (comps (s_hal s1) (comp_of (v + 1) (s_hal s1))) \<noteq> COMPONENT_TYPE_USER" using C A(6) by simp
  have nf: "names_free (s_hal s1)" using O K(2,3) by (simp add: names_free_def)
  have tf: "threads_free_names (s_hal s1) ?G" using O cn fn tn K(2,3) by (auto simp: threads_free_names_def)
  have sg: "segment_granted te j (s_shm s1)" using O find_slot_keys [of "sh_array (s_shm s1)" "sh_array (s_shm (x_sys x))"] s1(4)
    by (simp add: segment_granted_def same_segments_def)
  have sp: "same_program ?h (s_hal s1)" using A(11) top by (simp add: same_program_def)
  have ps: "pin_set (s_hal s1) = pin_set ?h" using A(8) top(8) by (simp add: pin_set_def)
  show ?thesis by (rule that [OF run(1) lib1 room ty K(4) top(9) nf tf sg run(2) sp _ ps]) (use s1(4) in \<open>simp_all add: same_segments_def\<close>)
qed

text \<open>The pins and parameters, and the shared block: what the thread needs is still there.\<close>

lemma wire_same_program: "wire_keeps h h' \<Longrightarrow> same_program h h'"
  by (simp add: wire_keeps_def same_program_def)

lemma wire_threads_free:
  assumes "wire_keeps h h'" "hal_rep h G" "hal_rep h' G'" "threads_free_names h G"
    and "set (pin_names h') = set (pin_names h) \<union> snd ` snd ` set task_pins"
    and "set (param_names h') = set (param_names h) \<union> {''example.max-velocity'', ''example.max-accel''}"
  shows "threads_free_names h' G'"
proof -
  note P = same_program_calls [OF wire_same_program [OF assms(1)] assms(2,3)]
  have w: "comps h' = comps h" "comp_list_ptr h' = comp_list_ptr h" "functs h' = functs h" "funct_list_ptr h' = funct_list_ptr h"
    using assms(1) by (simp_all add: wire_keeps_def)
  have "s_comps G' = s_comps G"
    using nodes_chain [OF comps_chain [OF assms(2)]] nodes_chain [OF comps_chain [OF assms(3)]] by (simp add: w)
  then have "comp_names h' G' = comp_names h G" by (simp add: comp_names_def w)
  moreover have "funct_names h' = funct_names h" by (simp add: funct_names_def w)
  ultimately show ?thesis using assms(4-6) P(4) by (auto simp: threads_free_names_def task_pins_def)
qed

lemma start_buffers:
  assumes lib: "lib_ready (x_sys x) G v n" and r: "roomy (mot_comp_id x) 25 (x_hal x)" and nf: "names_free (x_hal x)"
    and tf: "threads_free_names (x_hal x) G" and sg: "segment_granted te j (s_shm (x_sys x))"
  obtains y2 y q d G2 where "init_hal_param x = Inr (0, y2)" "init_task_comm_buffers te y2 = Inr (0, y)" "wired q y"
    "\<forall>p. pin_value q p y = (if p = feed_rate then feed_one else 0)" "range q \<subseteq> pin_set (x_hal y)" "range q \<inter> pin_set (x_hal x) = {}"
    "lib_ready (x_sys y) G2 v n" "roomy (mot_comp_id x) 15 (x_hal y)" "threads_free_names (x_hal y) G2"
    "wire_keeps (x_hal x) (x_hal y)" "x_app y = x_app x"
    "y = x\<lparr>x_sys := x_sys y, emc_shmem_id := int j, taskShared := SP_mapped, shared := empty_channel te, taskHalData := Some d,
       max_velocity := 1000, max_accel := 500\<rparr>" "segment_held te j (uuid_base (s_shm (x_sys x))) (s_shm (x_sys y))"
proof -
  have "roomy (mot_comp_id x) (10 + 15) (x_hal x)" using r by simp
  from init_hal_param_run [OF this nf] obtain y2 q d where i: "init_hal_param x = Inr (0, y2)" "wired q y2"
    "range q \<inter> pin_set (x_hal x) = {}" "\<forall>p. pin_value q p y2 = (if p = feed_rate then feed_one else 0)"
    "set (pin_names (x_hal y2)) = set (pin_names (x_hal x)) \<union> snd ` snd ` set task_pins"
    "set (param_names (x_hal y2)) = set (param_names (x_hal x)) \<union> {''example.max-velocity'', ''example.max-accel''}"
    "pin_set (x_hal y2) = pin_set (x_hal x) \<union> range q" "roomy (mot_comp_id x) 15 (x_hal y2)" "wire_keeps (x_hal x) (x_hal y2)"
    and e2: "y2 = x\<lparr>x_sys := (x_sys x)\<lparr>s_hal := x_hal y2\<rparr>, taskHalData := Some d, max_velocity := 1000, max_accel := 500\<rparr>"
    by (elim exE conjE) (rule that)
  obtain h2 where e: "y2 = x\<lparr>x_sys := (x_sys x)\<lparr>s_hal := h2\<rparr>, taskHalData := Some d, max_velocity := 1000, max_accel := 500\<rparr>"
    using e2 by blast
  have h2: "x_hal y2 = h2" "s_shm (x_sys y2) = s_shm (x_sys x)" by (simp_all add: e)
  note L = lib [unfolded lib_ready_def]
  obtain G2 where G2: "hal_rep h2 G2" using roomy_rep [OF i(8)] by (auto simp: h2)
  have rep: "hal_rep (x_hal x) G" using L by blast
  have tf2: "threads_free_names h2 G2" using wire_threads_free [OF i(9) rep _ tf i(5,6)] G2 by (simp add: h2)
  have ids: "module_ids v n (s_shm (x_sys y2))" using L by (simp add: h2)
  obtain m where c: "init_task_comm_buffers te y2 = Inr (0, y2\<lparr>x_sys := (x_sys y2)\<lparr>s_shm := m\<rparr>, emc_shmem_id := int j,
      taskShared := SP_mapped, shared := empty_channel te\<rparr>)" "module_ids v n m" "segment_held te j (uuid_base (s_shm (x_sys y2))) m"
    by (rule comm_buffers_run [OF ids, of te j]) (use sg in \<open>simp add: h2\<close>)
  define y where "y = y2\<lparr>x_sys := (x_sys y2)\<lparr>s_shm := m\<rparr>, emc_shmem_id := int j, taskShared := SP_mapped, shared := empty_channel te\<rparr>"
  have y: "x_hal y = h2" "x_app y = x_app x" "s_shm (x_sys y) = m" "taskHalData y = taskHalData y2" by (simp_all add: y_def e)
  have "lib_mem_id h2 = lib_mem_id (x_hal x)" using i(9) by (simp add: wire_keeps_def h2)
  then have lib2: "lib_ready (x_sys y) G2 v n"
    using L G2 c(2) roomy_inv [OF i(8)] by (simp add: lib_ready_def y h2)
  show ?thesis
  proof (rule that [OF i(1) c(1) [folded y_def] _ _ _ i(3) lib2 _ _ _ y(2)])
    show "wired q y" using i(2) by (simp add: wired_def y h2)
    show "\<forall>p. pin_value q p y = (if p = feed_rate then feed_one else 0)" using i(4) by (simp add: pin_value_def y h2)
    show "range q \<subseteq> pin_set (x_hal y)" "roomy (mot_comp_id x) 15 (x_hal y)" "wire_keeps (x_hal x) (x_hal y)"
      using i(7-9) by (simp_all add: y h2)
    show "threads_free_names (x_hal y) G2" using tf2 by (simp add: y)
    show "y = x\<lparr>x_sys := x_sys y, emc_shmem_id := int j, taskShared := SP_mapped, shared := empty_channel te, taskHalData := Some d,
       max_velocity := 1000, max_accel := 500\<rparr>" by (simp add: y_def e)
    show "segment_held te j (uuid_base (s_shm (x_sys x))) (s_shm (x_sys y))" using c(3) by (simp add: y h2)
  qed
qed

text \<open>The task is up: its component is ready, its pins lead somewhere and carry their start values, its channel is empty.\<close>

definition task_up :: "tenv \<Rightarrow> (td_pin \<Rightarrow> off) \<Rightarrow> example \<Rightarrow> bool" where
  "task_up te q y \<longleftrightarrow> comp_of (mot_comp_id y) (x_hal y) \<noteq> 0 \<and> c_ready (comps (x_hal y) (comp_of (mot_comp_id y) (x_hal y))) = 1 \<and>
     wired q y \<and> (\<forall>p. pin_value q p y = (if p = feed_rate then feed_one else 0)) \<and> max_velocity y = 1000 \<and> max_accel y = 500 \<and>
     taskShared y = SP_mapped \<and> shared y = empty_channel te"

lemma ready_up:
  assumes "roomy (mot_comp_id x) 0 (x_hal x)" "hal_rep (x_hal x) G" "wired q x"
    "\<forall>p. pin_value q p x = (if p = feed_rate then feed_one else 0)" "max_velocity x = 1000" "max_accel x = 500"
    "taskShared x = SP_mapped" "shared x = empty_channel te" "thread_runs te k p t (x_hal x) G slots"
  obtains y where "in_hal (hal_ready (mot_comp_id x)) x = Inr (0, y)" "task_up te q y" "hal_inv (x_hal y)" "hal_rep (x_hal y) G"
    "thread_runs te k p t (x_hal y) G slots" "calls (x_hal y) G = calls (x_hal x) G" "x_app y = x_app x" "mot_comp_id y = mot_comp_id x" "hd_lock (x_hal y) = hd_lock (x_hal x)" "hd_state (x_hal y) = hd_state (x_hal x)"
    "s_shm (x_sys y) = s_shm (x_sys x)" "emc_shmem_id y = emc_shmem_id x" "lib_mem_id (x_hal y) = lib_mem_id (x_hal x)"
proof -
  let ?i = "mot_comp_id x" and ?h = "x_hal x"
  note R = assms(1) [unfolded roomy_def]
  let ?h' = "upd_comp (comp_of ?i ?h) (\<lambda>c. c\<lparr>c_ready := 1\<rparr>) ?h"
  have run: "in_hal (hal_ready ?i) x = Inr (0, upd_hal (\<lambda>_. ?h') x)"
    using hal_ready_eq [of ?h ?i] R by (simp add: in_hal_def)
  have inv: "hal_inv ?h'" by (rule hal_inv_upd_comp) (use R in simp_all)
  have rep: "hal_rep ?h' G" by (rule hal_rep_frame [OF assms(2)]) (simp_all add: keeps_defs upd_comp_heap)
  have c: "comp_of ?i ?h' = comp_of ?i ?h" by (simp add: comp_of_upd)
  have up: "task_up te q (upd_hal (\<lambda>_. ?h') x)"
    unfolding task_up_def using assms(3-8) R c by (simp add: wired_def pin_value_def upd_hal_def upd_comp_heap)
  have cl: "calls ?h' G = calls ?h G" by (simp add: calls_def fun_eq_iff)
  show ?thesis
    by (rule that [OF run up]) (use inv rep cl assms(9) in \<open>simp_all add: thread_runs_def timed_def program_def\<close>, simp_all add: upd_hal_def)
qed

lemma main_run:
  assumes lib: "lib_ready (x_sys x) G v n" and ok: "startable te j k v G x"
  obtains y G' t q where "task_thread_main te x = Inr (0, y)" "mot_comp_id y = v + 1" "task_up te q y" "hal_inv (x_hal y)" "hal_rep (x_hal y) G'"
    "s_threads G' = t # s_threads G" "t \<notin> set (s_threads G)" "thread_runs te k (period_of x) t (x_hal y) G' (task_array (x_app y))"
    "\<forall>u \<in> set (s_threads G). calls (x_hal y) G' u = calls (x_hal x) G u" "range q \<inter> pin_set (x_hal x) = {}"
    "hd_lock (x_hal y) = hd_lock (x_hal x)" "hd_state (x_hal y) = hd_state (x_hal x)"
    "module_ids (v + 2) (n + 2) (s_shm (x_sys y))" "lib_mem_id (x_hal y) \<noteq> 0"
    "segment_held te j (uuid_base (s_shm (x_sys x))) (s_shm (x_sys y))" "emc_shmem_id y = int j"
proof -
  note O = ok [unfolded startable_def]
  obtain s1 G1 where i: "hal_init (te_env te) (Some ''task1'') (x_sys x) = Inr (v + 1, s1)" "lib_ready s1 G1 (v + 1) (n + 1)"
    "roomy (v + 1) 25 (s_hal s1)" "c_type (comps (s_hal s1) (comp_of (v + 1) (s_hal s1))) \<noteq> COMPONENT_TYPE_USER"
    "hd_lock (s_hal s1) = hd_lock (x_hal x)" "hd_state (s_hal s1) = hd_state (x_hal x)" "names_free (s_hal s1)" "threads_free_names (s_hal s1) G1"
    "segment_granted te j (s_shm s1)" "s_app s1 = x_app x" "same_program (x_hal x) (s_hal s1)" "s_threads G1 = s_threads G"
    "pin_set (s_hal s1) = pin_set (x_hal x)" "uuid_base (s_shm s1) = uuid_base (s_shm (x_sys x))"
    by (rule start_component [OF lib ok])
  define x1 where "x1 = x\<lparr>x_sys := s1, mot_comp_id := v + 1\<rparr>"
  have x1: "x_sys x1 = s1" "mot_comp_id x1 = v + 1" "num_axis x1 = num_axis x" by (simp_all add: x1_def)
  have v: "0 \<le> v" using lib by (simp add: lib_ready_def)
  obtain x2 x3 q d G2 where b: "init_hal_param x1 = Inr (0, x2)" "init_task_comm_buffers te x2 = Inr (0, x3)" "wired q x3"
    "\<forall>p. pin_value q p x3 = (if p = feed_rate then feed_one else 0)" "range q \<subseteq> pin_set (x_hal x3)" "range q \<inter> pin_set (x_hal x1) = {}"
    "lib_ready (x_sys x3) G2 (v + 1) (n + 1)" "roomy (mot_comp_id x1) 15 (x_hal x3)" "threads_free_names (x_hal x3) G2"
    "wire_keeps (x_hal x1) (x_hal x3)" "x_app x3 = x_app x1"
    and e3: "x3 = x1\<lparr>x_sys := x_sys x3, emc_shmem_id := int j, taskShared := SP_mapped, shared := empty_channel te, taskHalData := Some d,
       max_velocity := 1000, max_accel := 500\<rparr>"
    and held: "segment_held te j (uuid_base (s_shm (x_sys x1))) (s_shm (x_sys x3))"
    by (rule start_buffers [of x1 G1 "v + 1" "n + 1" te j]) (use i(2,3,7-9) x1 in simp_all)
  obtain s3 where e: "x3 = x1\<lparr>x_sys := s3, emc_shmem_id := int j, taskShared := SP_mapped, shared := empty_channel te, taskHalData := Some d,
       max_velocity := 1000, max_accel := 500\<rparr>"
    using e3 by blast
  have x3: "mot_comp_id x3 = v + 1" "taskShared x3 = SP_mapped" "shared x3 = empty_channel te" "max_velocity x3 = 1000" "max_accel x3 = 500"
    "taskHalData x3 = Some d" "task_period_nsec x3 = task_period_nsec x" "subtask_period_nsec x3 = subtask_period_nsec x"
    by (simp_all add: e x1_def)
  have p3: "period_of x3 = period_of x" "periods_ok x3 = periods_ok x" by (simp_all add: period_of_def periods_ok_def x3)
  have w: "comps (x_hal x3) = comps (s_hal s1)" "comp_of (v + 1) (x_hal x3) = comp_of (v + 1) (s_hal s1)" "hd_lock (x_hal x3) = hd_lock (s_hal s1)"
    "hd_state (x_hal x3) = hd_state (s_hal s1)"
    using b(10) comp_of_same [of "x_hal x3" "s_hal s1"] by (simp_all add: wire_keeps_def x1)
  have rep1: "hal_rep (s_hal s1) G1" and rep2: "hal_rep (x_hal x3) G2" and rep: "hal_rep (x_hal x) G"
    using i(2) b(7) lib by (simp_all add: lib_ready_def)
  have "same_program (s_hal s1) (x_hal x3)" using wire_same_program [OF b(10)] by (simp add: x1)
  with i(11) have sp: "same_program (x_hal x) (x_hal x3)" by (simp add: same_program_def)
  note P = same_program_calls [OF sp rep rep2]
  have st: "threads_startable te k (v + 1) G2 x3"
    using O i(4,5,10) b(8,9,11) w x1 x3 p3 P(1) by (simp add: threads_startable_def)
  obtain x4 G4 t where r: "init_task_threads te x3 = Inr (0, x4)" "roomy (mot_comp_id x3) 0 (x_hal x4)" "hal_rep (x_hal x4) G4"
    "s_threads G4 = t # s_threads G2" "t \<notin> set (s_threads G2)" "thread_runs te k (period_of x3) t (x_hal x4) G4 (task_array (x_app x4))"
    "start_keeps (v + 1 + 1) G2 (x_hal x3) G4 (x_hal x4)"
    and ids: "module_ids (v + 1 + 1) (n + 1 + 1) (s_shm (x_sys x4))" "same_segments (s_shm (x_sys x3)) (s_shm (x_sys x4))"
    and e4: "x4 = x3\<lparr>x_sys := x_sys x4, subtask_period_nsec := subperiod_of x3\<rparr>"
    by (rule init_threads_run [OF b(7) st])
  obtain s4 where e': "x4 = x3\<lparr>x_sys := s4, subtask_period_nsec := subperiod_of x3\<rparr>" using e4 by blast
  have x4: "mot_comp_id x4 = v + 1" "taskShared x4 = SP_mapped" "shared x4 = empty_channel te" "max_velocity x4 = 1000" "max_accel x4 = 500"
    "taskHalData x4 = Some d"
    using x3 by (simp_all add: e')
  have w4: "wired q x4"
    by (rule wired_same [OF b(3)]) (use r(7) x3 x4 hal_inv_mapped [OF roomy_inv [OF r(2)]] b(3) in \<open>simp_all add: start_keeps_def wired_def\<close>)
  have "q p \<in> pin_set (x_hal x3)" for p using b(5) by blast
  then have "p_dummysig (pins (x_hal x4) (q p)) = p_dummysig (pins (x_hal x3) (q p))" for p
    using r(7) by (simp add: start_keeps_def keeps_signals_def)
  then have v4: "\<forall>p. pin_value q p x4 = (if p = feed_rate then feed_one else 0)" using b(4) by (simp add: pin_value_def)
  have r4: "roomy (mot_comp_id x4) 0 (x_hal x4)" using r(2) x3 x4 by simp
  obtain y where y: "in_hal (hal_ready (mot_comp_id x4)) x4 = Inr (0, y)" "task_up te q y" "hal_inv (x_hal y)" "hal_rep (x_hal y) G4"
    "thread_runs te k (period_of x3) t (x_hal y) G4 (task_array (x_app x4))" "calls (x_hal y) G4 = calls (x_hal x4) G4"
    "x_app y = x_app x4" "mot_comp_id y = mot_comp_id x4" "hd_lock (x_hal y) = hd_lock (x_hal x4)" "hd_state (x_hal y) = hd_state (x_hal x4)"
    "s_shm (x_sys y) = s_shm (x_sys x4)" "emc_shmem_id y = emc_shmem_id x4" "lib_mem_id (x_hal y) = lib_mem_id (x_hal x4)"
    by (rule ready_up [OF r4 r(3) w4 v4 x4(4,5,2,3) r(6)])
  have init: "in_sys (hal_init (te_env te) (Some ''task1'')) x = Inr (v + 1, x\<lparr>x_sys := s1\<rparr>)" by (simp add: in_sys_def i(1))
  have pr: "te_print_hal te z = Inr z" "te_print_shmem te z = Inr z" for z using O by blast+
  have ax: "\<not> (num_axis x < 1 \<or> num_axis x > MAX_AXES)" using O by simp
  have "x\<lparr>x_sys := s1\<rparr>\<lparr>mot_comp_id := v + 1\<rparr> = x1" by (simp add: x1_def)
  then have run: "task_thread_main te x = Inr (0, y)"
    using v ax by (simp add: task_thread_main_def init Let_def pr b(1,2) r(1) y(1))
  show ?thesis
  proof (rule that [OF run _ y(2-4)])
    show "mot_comp_id y = v + 1" using y(8) x4(1) by simp
    show "s_threads G4 = t # s_threads G" "t \<notin> set (s_threads G)" using r(4,5) P(1) by simp_all
    show "thread_runs te k (period_of x) t (x_hal y) G4 (task_array (x_app y))" using y(5,7) p3 by simp
    show "\<forall>u \<in> set (s_threads G). calls (x_hal y) G4 u = calls (x_hal x) G u"
      using r(7) P(1,3) y(6) by (simp add: start_keeps_def)
    show "hd_lock (x_hal y) = hd_lock (x_hal x)" "hd_state (x_hal y) = hd_state (x_hal x)"
      using y(9,10) r(7) w(3,4) i(5,6) by (simp_all add: start_keeps_def)
    show "range q \<inter> pin_set (x_hal x) = {}" using b(6) i(13) x1 by simp
    show "module_ids (v + 2) (n + 2) (s_shm (x_sys y))" using ids(1) y(11) by (simp add: algebra_simps)
    show "lib_mem_id (x_hal y) \<noteq> 0" using y(13) r(7) b(7) by (simp add: start_keeps_def lib_ready_def)
    show "segment_held te j (uuid_base (s_shm (x_sys x))) (s_shm (x_sys y))"
      using segment_held_same [OF held ids(2)] y(11) i(14) x1 by simp
    show "emc_shmem_id y = int j" using y(12) by (simp add: e' e)
  qed
qed

section \<open>A machine on which the task can start\<close>

definition example_boot :: example where
  "example_boot = task_example\<lparr>x_sys := sys_example\<rparr>"

lemma example_boot_sel:
  "x_sys example_boot = sys_example" "s_hal sys_example = one_comp\<lparr>lib_mem_id := 1, lib_module_id := 0\<rparr>"
  "s_app sys_example = rtapp_start" "num_axis example_boot = 4" "task_period_nsec example_boot = 1000000" "subtask_period_nsec example_boot = 0"
  by (simp_all add: example_boot_def task_example_def sys_example_def)

lemma example_boot_slot: "find_slot TASK_SHM_KEY 0 None (sh_array (s_shm sys_example)) = Free_slot 1"
proof -
  have e: "find_slot TASK_SHM_KEY i (Some 1) (replicate n unborn) = Free_slot 1" for n i
    by (induction n arbitrary: i) (simp_all add: unborn_def SHMEM_MAGIC_def)
  have r: "replicate MAX_SHM unborn = unborn # unborn # replicate 62 unborn" by (simp add: MAX_SHM_def numeral_eq_Suc)
  show ?thesis
    using e [of 2 62] by (simp add: sys_example_def uuid_example_def shmem_start_def r numeral_2_eq_2)
      (simp add: unborn_def SHMEM_MAGIC_def TASK_SHM_KEY_def UUID_KEY_def)
qed

lemma example_boot_names:
  "comp_names (x_hal example_boot) sys_shape = {[]}" "names_free (x_hal example_boot)" "threads_free_names (x_hal example_boot) sys_shape"
proof -
  let ?h = "x_hal example_boot"
  show c: "comp_names ?h sys_shape = {[]}"
    by (simp add: comp_names_def sys_shape_def example_boot_sel one_comp_def zero_hal_def)
  have "funct_names ?h = []" "pin_names ?h = []" "param_names ?h = []"
    by (simp_all add: funct_names_def pin_names_def param_names_def example_boot_sel one_comp_def zero_hal_def)
  then show "names_free ?h" "threads_free_names ?h sys_shape"
    using c by (simp_all add: names_free_def threads_free_names_def thread_named_def sys_shape_def)
qed

lemma example_boot_startable: "startable tenv_example 1 0 1 sys_shape example_boot"
proof -
  have n: "sint (1000000 :: 64 word) = 1000000" "sint (1000000000 :: 64 word) = 1000000000" by simp_all
  have p: "period_of example_boot = 1000000000" by (simp add: period_of_def example_boot_sel)
  have per: "periods_ok example_boot" by (simp add: periods_ok_def example_boot_sel)
  have "fst (clock_for (period_of example_boot) rtapp_start)"
    by (simp add: p clock_for_def clock_set_period_def rtapp_start_def)
  moreover have "first_null 0 (replicate MAX_TASKS S_null) = Some 0" by (simp add: MAX_TASKS_def eval_nat_numeral)
  then have "grants env_example 98 0 rtapp_start"
    by (simp add: env_example_def grants_def attr_setup_def rtapp_start_def)
  moreover have "segment_granted tenv_example 1 (s_shm sys_example)"
    using example_boot_slot by (simp add: segment_granted_def tenv_example_def env_example_def)
  moreover have "hd_lock one_comp = 0" "shmem_bot one_comp = 272" "shmem_top one_comp = 1048464" by (simp_all add: one_comp_def zero_hal_def)
  moreover have "init_entry_ok (ev_list_init env_example)" by (simp add: env_example_def init_entry_ok_def)
  ultimately show ?thesis
    using example_boot_names per by (simp add: startable_def example_boot_sel tenv_example_def MAX_AXES_def)
qed

lemma example_boot_ready: "lib_ready (x_sys example_boot) sys_shape 1 3"
  using sys_example_ready by (simp add: example_boot_sel)

section \<open>Properties\<close>



text \<open>The guard's start of a task that is up: the threads run.\<close>

lemma guard_start_run:
  assumes "g_owns g" "\<not> g_started g" "hal_inv (x_hal y)" "hd_lock (x_hal y) AND HAL_LOCK_RUN = 0" "hd_state (x_hal y) = HAL_S_ACTIVE"
    and "taskShared y \<noteq> SP_stale" "\<forall>y. te_print_hal te y = Inr y" "\<forall>y. te_print_shmem te y = Inr y"
  shows "guard_start te g y = Inr (0, g\<lparr>g_started := True\<rparr>, upd_hal (\<lambda>h. h\<lparr>threads_running := 1, hd_state := HAL_S_RUNNING\<rparr>) y)"
  using assms by (simp add: guard_start_def in_hal_def hal_start_threads_def hal_inv_def print_stats_def Let_def) (simp add: upd_hal_def)



end
