(* ===== verification/Task_Demo.thy ===== *)
theory Task_Demo
  imports Task_Start
begin

text \<open>
  The demo program (\<open>main\<close> of \<open>ExampleTask/operate.cpp\<close>): a guard is initialised and started, eight
  commands are sent, and the guard is shut down. The theorem composes the whole life of the example task.
\<close>

section \<open>The program\<close>

text \<open>
  \<open>rt\<close> is what the real-time side does before the \<open>k\<close>-th step of the program; when the step is a
  wait, it is given the call in which the program sleeps. \<open>sleep\<close> is \<open>rtapi_delay\<close> on this machine.
\<close>

datatype demo_step = Send task_command_id int | Delay long

type_synonym rt_side = "nat \<Rightarrow> sleep_call option \<Rightarrow> example \<Rightarrow> example res"

fun demo_run :: "(long \<Rightarrow> sleep_call) \<Rightarrow> rt_side \<Rightarrow> nat \<Rightarrow> demo_step list \<Rightarrow> example \<Rightarrow> example res" where
  "demo_run sleep rt k [] x = rt k None x"
| "demo_run sleep rt k (Send c d # steps) x =
     bnd (rt k None x) (\<lambda>x. bnd (send_command c d x) (\<lambda>(_, x). demo_run sleep rt (Suc k) steps x))"
| "demo_run sleep rt k (Delay nsec # steps) x = bnd (rt k (Some (sleep nsec)) x) (demo_run sleep rt (Suc k) steps)"

definition demo_steps :: "demo_step list" where
  "demo_steps =
     [Send TASK_CMD_ENABLE 0, Send TASK_CMD_SET_TARGET 1000, Delay 5000,
      Send TASK_CMD_SET_PLL 50, Send TASK_CMD_SET_TARGET 500, Send TASK_CMD_PAUSE 0, Delay 2000,
      Send TASK_CMD_RESUME 0, Send TASK_CMD_SET_TARGET 0, Send TASK_CMD_DISABLE 0]"

text \<open>The destructor of the guard runs at every \<open>return\<close>.\<close>

definition demo_main :: "tenv \<Rightarrow> (long \<Rightarrow> sleep_call) \<Rightarrow> rt_side \<Rightarrow> example \<Rightarrow> (int \<times> example) res" where
  "demo_main te sleep rt x =
     (let g = guard_new ''example-task'' TASK_SHM_KEY sizeof_task_shared;
          leave = (\<lambda>r g x. bnd (guard_shutdown te g x) (\<lambda>(_, x). Inr (r, x)))
      in bnd (guard_init te g x) (\<lambda>(r, g, x).
         if r \<noteq> 0 then leave 1 g x
         else bnd (guard_start te g x) (\<lambda>(r, g, x).
         if r \<noteq> 0 then leave 1 g x
         else bnd (demo_run sleep rt 0 demo_steps x) (\<lambda>x.
              bnd (print_stats te g x) (\<lambda>x.
              bnd (guard_shutdown te g x) (\<lambda>(g, x). leave 0 g x))))))"

section \<open>What the real-time side keeps\<close>

text \<open>
  The real-time side may write data, take commands and start or pause its task; the lists of the HAL, the
  handles and the producer's side of the channel stay.
\<close>

definition hal_kept :: "hal \<Rightarrow> hal \<Rightarrow> bool" where
  "hal_kept h h' \<longleftrightarrow> (\<forall>G. hal_rep h G \<longrightarrow> hal_rep h' G) \<and> comps h' = comps h \<and> hd_state h' = hd_state h \<and>
     lib_mem_id h' = lib_mem_id h \<and> hal_data h' = hal_data h \<and> hd_mutex h' = hd_mutex h"

definition rt_keeps :: "example \<Rightarrow> example \<Rightarrow> bool" where
  "rt_keeps x y \<longleftrightarrow> hal_kept (x_hal x) (x_hal y) \<and> s_shm (x_sys y) = s_shm (x_sys x) \<and> mot_comp_id y = mot_comp_id x \<and>
     emc_shmem_id y = emc_shmem_id x \<and> taskShared y = taskShared x \<and> ch_head (shared y) = ch_head (shared x) \<and>
     command_mutex (shared y) = command_mutex (shared x)"

lemma hal_kept_pins:
  assumes "pins_written h h'"
  shows "hal_kept h h'"
proof -
  from assms obtain pn where h': "h' = h\<lparr>pins := pn\<rparr>" and pn: "\<forall>q. \<exists>v. pn q = (pins h q)\<lparr>p_dummysig := v\<rparr>"
    by (auto simp: pins_written_def)
  have p: "p_next (pn q) = p_next (pins h q) \<and> p_name (pn q) = p_name (pins h q) \<and> p_oldname (pn q) = p_oldname (pins h q)" for q
    using pn [rule_format, of q] by auto
  have "hal_rep h' G" if "hal_rep h G" for G
    by (rule hal_rep_frame [OF that]) (simp_all add: h' keeps_defs p)
  then show ?thesis by (simp add: hal_kept_def) (simp add: h')
qed

lemma rt_keeps_trans: "rt_keeps x y \<Longrightarrow> rt_keeps y z \<Longrightarrow> rt_keeps x z"
  by (simp add: rt_keeps_def hal_kept_def)

lemma rt_keeps_refl [simp]: "rt_keeps x x"
  by (simp add: rt_keeps_def hal_kept_def)

lemma keeps_task_rt: "keeps_task x y \<Longrightarrow> rt_keeps x y"
  by (simp add: keeps_task_def same_place_def rt_keeps_def hal_kept_pins)

text \<open>The cycle of the example's own thread is such a behaviour.\<close>

lemma handler_keeps:
  assumes "taskCommandHandler self x = Inr y"
  shows "rt_keeps x y"
proof (cases "taskShared x")
  case SP_mapped
  show ?thesis
  proof (cases "locked (command_mutex (shared x))")
    case True
    with assms SP_mapped show ?thesis by (simp add: taskCommandHandler_busy)
  next
    case False
    with SP_mapped have o: "open_channel x" by (simp add: open_channel_def)
    have "rt_keeps x (taken z)" if "run_command self c d x = Inr z" for c d z
      using same_place_command [OF that] run_command_keeps [OF that]
      by (simp add: rt_keeps_def taken_def same_place_def hal_kept_pins) (simp add: upd_shared_def)
    then show ?thesis using assms by (auto simp: handler_run [OF o] bnd_Inr_iff split: if_splits)
  qed
qed (use assms in \<open>simp_all add: taskCommandHandler_def\<close>)

lemma example_cycle_keeps:
  assumes "example_cycle n now clk x = Inr y"
  shows "rt_keeps x y"
proof -
  from assms obtain x1 x2 where s: "taskCommandHandler (Some n) x = Inr x1" "taskController now x1 = Inr x2"
    and y: "(case task_array (x_app x2) ! n of S_task t \<Rightarrow> (case wait_enter clk t of (w, t) \<Rightarrow>
           Inr (upd_app (\<lambda>a. unexpected_realtime_delay w (put_slot n (S_task t) a)) x2)) | _ \<Rightarrow> Inl UB) = Inr y"
    unfolding example_cycle_def bnd_Inr_iff by blast
  from y obtain f where "y = upd_app f x2" by (auto split: slot.splits prod.splits)
  then have "rt_keeps x2 y" by (simp add: rt_keeps_def hal_kept_def upd_app_def)
  with rt_keeps_trans [OF handler_keeps [OF s(1)] keeps_task_rt [OF taskController_keeps [OF s(2)]]]
  show ?thesis by (rule rt_keeps_trans)
qed

section \<open>A task that is up stays up\<close>

definition task_alive :: "tenv \<Rightarrow> nat \<Rightarrow> int \<Rightarrow> int \<Rightarrow> shape \<Rightarrow> off \<Rightarrow> example \<Rightarrow> bool" where
  "task_alive te j v n G c x \<longleftrightarrow> lib_ready (x_sys x) G v n \<and> hd_state (x_hal x) \<noteq> HAL_S_DESTROYED \<and> owns_segment te j x \<and>
     find (\<lambda>p. c_comp_id (comps (x_hal x) p) = mot_comp_id x) (s_comps G) = Some c \<and> open_channel x"

lemma alive_rt:
  assumes "task_alive te j v n G c x" "rt_keeps x y"
  shows "task_alive te j v n G c y"
proof -
  note A = assms(1) [unfolded task_alive_def] and K = assms(2) [unfolded rt_keeps_def hal_kept_def]
  have "lib_ready (x_sys y) G v n" using A K by (auto simp: lib_ready_def hal_inv_def)
  moreover have "owns_segment te j y" using A K by (simp add: owns_segment_def)
  moreover have "open_channel y" using A K by (simp add: open_channel_def)
  ultimately show ?thesis using A K by (simp add: task_alive_def)
qed

lemma alive_posted: "task_alive te j v n G c x \<Longrightarrow> task_alive te j v n G c (posted cmd d x)"
  by (simp add: task_alive_def owns_segment_def) (simp add: posted_def upd_shared_def)

lemma demo_run_ok:
  assumes "task_alive te j v n G c x" "INT_MIN \<le> ch_head (shared x)" "ch_head (shared x) + int (length steps) \<le> INT_MAX"
    and "\<forall>k z x. \<exists>y. rt k z x = Inr y \<and> rt_keeps x y"
  shows "\<exists>y. demo_run sleep rt k steps x = Inr y \<and> task_alive te j v n G c y"
  using assms(1-3)
proof (induction steps arbitrary: k x)
  case Nil
  from assms(4) obtain y where "rt k None x = Inr y" "rt_keeps x y" by blast
  with alive_rt [OF Nil.prems(1)] show ?case by simp
next
  case (Cons s steps)
  from assms(4) obtain y where y: "rt k (case s of Send c d \<Rightarrow> None | Delay nsec \<Rightarrow> Some (sleep nsec)) x = Inr y" "rt_keeps x y" by blast
  have al: "task_alive te j v n G c y" by (rule alive_rt [OF Cons.prems(1) y(2)])
  have hd: "ch_head (shared y) = ch_head (shared x)" using y(2) by (simp add: rt_keeps_def)
  show ?case
  proof (cases s)
    case (Send cmd d)
    have "open_channel y" using al by (simp add: task_alive_def)
    then have "send_command cmd d y = Inr (0, posted cmd d y)" using Cons.prems hd by (intro send_command_run) simp_all
    moreover have "\<exists>z. demo_run sleep rt (Suc k) steps (posted cmd d y) = Inr z \<and> task_alive te j v n G c z"
      by (rule Cons.IH [OF alive_posted [OF al]]) (use Cons.prems hd in simp_all)
    ultimately show ?thesis using y(1) Send by simp
  next
    case (Delay nsec)
    have "\<exists>z. demo_run sleep rt (Suc k) steps y = Inr z \<and> task_alive te j v n G c z"
      by (rule Cons.IH [OF al]) (use Cons.prems hd in simp_all)
    then show ?thesis using y(1) Delay by simp
  qed
qed

text \<open>A real-time side that does not run: the demo's commands overwrite each other, and \<open>DISABLE\<close> remains.\<close>

fun sends :: "demo_step list \<Rightarrow> (task_command_id \<times> int) list" where
  "sends [] = []"
| "sends (Send c d # steps) = (c, d) # sends steps"
| "sends (Delay nsec # steps) = sends steps"

lemma demo_run_idle: "demo_run sleep (\<lambda>_ _. Inr) k steps x = send_all (sends steps) x"
proof (induction steps arbitrary: k x)
  case (Cons s steps)
  then show ?case by (cases s) (simp_all add: case_prod_unfold)
qed simp

lemma demo_overwrites:
  assumes "open_channel x" "INT_MIN \<le> ch_head (shared x)" "ch_head (shared x) + 8 \<le> INT_MAX"
  shows "demo_run sleep (\<lambda>_ _. Inr) 0 demo_steps x =
    Inr (upd_shared (\<lambda>s. s\<lparr>command_id := TASK_CMD_DISABLE, command_data := 0, ch_head := ch_head s + 8\<rparr>) x)"
  using send_all_run [OF assms(1,2), of "sends demo_steps"] assms(3) by (simp add: demo_run_idle demo_steps_def)

section \<open>The whole program\<close>

text \<open>The guard's start leaves a task that is alive.\<close>

lemma demo_started:
  assumes lib: "lib_ready (x_sys x) G v n" and ok: "startable te j k v G x" and v: "v + 3 < 2 ^ 31"
    and run: "hd_lock (x_hal x) AND HAL_LOCK_RUN = 0" "hd_state (x_hal x) = HAL_S_ACTIVE" and g: "\<not> g_owns g" "\<not> g_started g"
    and os: "\<forall>id a. os_shmat (ev_os (te_env te)) id = Inr a \<longrightarrow>
       a \<noteq> uuid_base (s_shm (x_sys x)) \<and> os_shmdt (ev_os (te_env te)) a = None"
    and ch: "\<not> locked (command_mutex (te_shared te))"
  obtains y z G' t c where "guard_init te g x = Inr (0, g\<lparr>g_owns := True\<rparr>, y)"
    "guard_start te (g\<lparr>g_owns := True\<rparr>) y = Inr (0, g\<lparr>g_owns := True, g_started := True\<rparr>, z)"
    "task_alive te j (v + 2) (n + 2) G' c z" "s_threads G' = t # s_threads G" "t \<notin> set (s_threads G)"
    "mot_comp_id z = v + 1" "shared z = empty_channel te"
proof -
  note O = ok [unfolded startable_def]
  obtain y G' t q where m: "task_thread_main te x = Inr (0, y)" "mot_comp_id y = v + 1" "task_up te q y" "hal_inv (x_hal y)" "hal_rep (x_hal y) G'"
    "s_threads G' = t # s_threads G" "t \<notin> set (s_threads G)" "hd_lock (x_hal y) = hd_lock (x_hal x)" "hd_state (x_hal y) = hd_state (x_hal x)"
    "module_ids (v + 2) (n + 2) (s_shm (x_sys y))" "lib_mem_id (x_hal y) \<noteq> 0"
    "segment_held te j (uuid_base (s_shm (x_sys x))) (s_shm (x_sys y))" "emc_shmem_id y = int j"
    by (rule main_run [OF lib ok])
  note U = m(3) [unfolded task_up_def]
  have i: "guard_init te g x = Inr (0, g\<lparr>g_owns := True\<rparr>, y)" using g(1) m(1) by (simp add: guard_init_def)
  let ?h = "(x_hal y)\<lparr>threads_running := 1, hd_state := HAL_S_RUNNING\<rparr>"
  let ?z = "upd_hal (\<lambda>h. h\<lparr>threads_running := 1, hd_state := HAL_S_RUNNING\<rparr>) y"
  have s: "guard_start te (g\<lparr>g_owns := True\<rparr>) y = Inr (0, g\<lparr>g_owns := True, g_started := True\<rparr>, ?z)"
    using guard_start_run [of "g\<lparr>g_owns := True\<rparr>" y te] g(2) run m(4,8,9) U O by simp
  have z: "x_hal ?z = ?h" "s_shm (x_sys ?z) = s_shm (x_sys y)" "mot_comp_id ?z = mot_comp_id y" "emc_shmem_id ?z = emc_shmem_id y"
    "taskShared ?z = taskShared y" "shared ?z = shared y" by (simp_all add: upd_hal_def)
  have rep: "hal_rep ?h G'" by (rule hal_rep_frame [OF m(5)]) (simp_all add: keeps_defs)
  have inv: "hal_inv ?h" using m(4) rep by (auto simp: hal_inv_def)
  have "1 \<le> n" "0 \<le> v" using lib by (simp_all add: lib_ready_def)
  then have l: "lib_ready (x_sys ?z) G' (v + 2) (n + 2)" using rep inv m(10,11) v by (simp add: lib_ready_def z)
  have key: "TASK_SHM_KEY \<noteq> UUID_KEY" by (simp add: TASK_SHM_KEY_def UUID_KEY_def)
  have own: "owns_segment te j ?z"
    using m(12,13) os U key by (auto simp: owns_segment_def segment_held_def z Let_def)
  obtain c where c: "find (\<lambda>p. c_comp_id (comps (x_hal ?z) p) = mot_comp_id ?z) (s_comps G') = Some c"
    using U nodes_chain [OF comps_chain [OF m(5)]] by (auto simp: comp_of_def z split: option.splits)
  have "open_channel ?z" using U ch by (simp add: open_channel_def z empty_channel_def)
  then have "task_alive te j (v + 2) (n + 2) G' c ?z" using l own c by (simp add: task_alive_def z)
  then show ?thesis by (rule that [OF i s _ m(6,7)]) (use m(2) U in \<open>simp_all add: z\<close>)
qed


text \<open>The demo with the example's own thread, as long as its cycles are defined.\<close>

definition tenv_demo :: tenv where
  "tenv_demo = tenv_example\<lparr>te_env := env_example\<lparr>ev_os := os_grant\<lparr>os_shmat := (\<lambda>_. Inr 8192)\<rparr>\<rparr>\<rparr>"

lemma tenv_demo_startable: "startable tenv_demo 1 0 1 sys_shape example_boot"
proof -
  have "shmget_again (os_grant\<lparr>os_shmat := (\<lambda>_. Inr 8192)\<rparr>) key sz 5 0 = Inr 7" for key sz
    by (simp add: os_grant_def numeral_eq_Suc)
  then show ?thesis using example_boot_startable
    by (simp add: startable_def segment_granted_def grants_def attr_setup_def tenv_demo_def tenv_example_def env_example_def)
qed

definition own_cycles :: rt_side where
  "own_cycles k z x = Inr (case example_cycle 0 (int k) \<lparr>tv_sec = 0, tv_nsec = 0\<rparr> x of Inr y \<Rightarrow> y | Inl e \<Rightarrow> x)"


end
