(* ===== verification/Spec2Isabelle.thy ===== *)
theory Spec2Isabelle
  imports Shmem Hal_Create Hal_Cycle Rt_Alloc Rt_Cycle Rt_Misc Rt_Calls Rt_Data Hal_Addr Task_Main Task_Demo
begin

text \<open>
  A model of RealTimeSystem, a user-space real-time system in C and C++ (below, files are named
  relative to \<open>src/\<close>).

  \<^bold>\<open>The program.\<close> RTAPI gives a process System V shared memory, module ids, and periodic tasks on
  POSIX threads. On it, the HAL keeps one shared segment with components, pins, parameters, functions and
  threads; a HAL thread is a task that calls, in every period, the functions mounted on it. The example task
  is a component with seven pins, two functions and one thread, which gets commands from user space through a
  second shared segment. \<open>main\<close> starts all this, loops with a timer, and shuts down on a signal.

  \<^bold>\<open>Conventions\<close> (\<open>Prelude\<close>). An operation is a function on an explicit state. Its result is
  \<open>Inr\<close> of a value and a new state, or \<open>Inl\<close> of a fault: \<open>UB\<close>, undefined behaviour of C, or \<open>Hang\<close>,
  a wait for ever. Error codes are values. C \<open>int\<close> is \<open>int\<close> with \<open>to_int\<close> where an overflow is
  undefined and \<open>to_s32\<close> where a conversion wraps; \<open>long\<close> and \<open>unsigned long\<close> are 64-bit words.
  \<open>bnd\<close> is sequential composition. Loops over lists are \<open>partial_function\<close>s or structural recursion, and
  there is no fuel: that a loop ends is proved with the list that it follows. What is not in the repository is
  a parameter: the kernel (\<open>os\<close>, \<open>pthread_os\<close>, \<open>kclock\<close>), the contents of a
  segment that another process left (\<open>ev_segment\<close>, \<open>te_shared\<close>), the functions that a HAL thread calls,
  and the queue of \<open>boost\<close>.

  \<^bold>\<open>RTAPI, shared memory\<close> (\<open>rtapi/rtapi_bitops.h\<close>, \<open>rtapi_mutex.h\<close>, \<open>uspace_common.c\<close>).
  \<open>Mutex\<close>: the atomic bit operations and the spin lock; mutual exclusion for any interleaving, and when
  \<open>rtapi_mutex_get\<close> returns. \<open>Shmem\<close>: the table of handles with the life cycle of a
  segment, and module ids; the table invariant holds after every sequence of calls.

  \<^bold>\<open>RTAPI, tasks\<close> (\<open>rtapi/uspace_rtapi_app.cpp\<close>, \<open>rtapi_uspace.h\<close>). \<open>Rt_Time\<close>: the
  arithmetic of timespecs. \<open>Rt_Tasks\<close>: the table of tasks, start, pause, deletion, the PLL correction and
  the wait. \<open>Rt_Life\<close>: the invariant of the table. \<open>Rt_Cycle\<close>: deadlines without drift,
  and the protocol of pause and resume. \<open>Rt_Alloc\<close>: concurrent callers of \<open>allocate_task_id\<close>, one
  compare-and-swap per step, get different ids. \<open>Rt_Misc\<close>: messages, the choice of the CPU, plain threads,
  \<open>WithRoot\<close>. \<open>Rt_Calls\<close>: the C interface to the one \<open>RtapiApp\<close> of a process. \<open>Rt_Data\<close>: the block of
  \<open>rtapi_common.h\<close>, whose initialisation stays inside its arrays, and which the program never uses.

  \<^bold>\<open>HAL\<close> (\<open>hal/hal_lib.c\<close>, \<open>hal.h\<close>, \<open>hal_priv.h\<close>). \<open>Linked_Lists\<close>,
  \<open>Ring_Lists\<close>, \<open>Sorted_Names\<close> and \<open>Pools\<close> hold the loops over null-terminated, circular and sorted
  lists, and pools of structs with a live and a free list, as locales; \<open>Hal_Structs\<close> interprets them for the
  five struct types. \<open>Hal_Data\<close> has the structs: one heap per struct type, addressed by the offset in the
  segment; \<open>Hal_Addr\<close> shows that offsets and addresses correspond, in every process. \<open>Hal_Inv\<close> has the invariant \<open>hal_inv\<close>: the lists are chains, disjoint from
  the free lists, inside the allocated area and sorted by name; the entries of the threads are rings; each
  function counts its entries. \<open>Hal_Frames\<close> has the frame lemmas. \<open>Shmalloc\<close> shows that blocks are disjoint
  (locale \<open>carver\<close>). Each group of operations follows with a decision list (\<open>pin_verdict\<close>,
  \<open>add_verdict\<close>) that says which result a call has, and a theorem that the
  code returns it, changes nothing on errors, and refines the insertion into or deletion from a table on
  success: \<open>Hal_Pins\<close> (pins, parameters), \<open>Hal_Comp\<close> (components, lock, life cycle), \<open>Hal_Funct\<close>
  (functions), \<open>Hal_Mount\<close> (the programs of threads), \<open>Hal_Release\<close> and \<open>Hal_Free\<close> (what
  is released with a function or a component), \<open>Hal_Sys\<close> and \<open>Hal_Modules\<close> (\<open>hal_init\<close>,
  \<open>hal_exit\<close>), \<open>Hal_Threads\<close> and \<open>Hal_Create\<close> (deletion and creation of threads, with their tasks),
  \<open>Hal_Cycle\<close> (one period of a thread). \<open>Hal_Room\<close>: with room for it the export and the mounting of
  functions succeed (\<open>roomy\<close>, \<open>calls\<close>: what a thread will call), for clients that chain several calls.

  \<^bold>\<open>The example task\<close> (\<open>ExampleTask/\<close>). \<open>Floats\<close> is IEEE binary32 and binary64 arithmetic on rationals with rounding
  to nearest even. \<open>Task_Data\<close>: the shared block, the pins and the globals. \<open>Task_Control\<close>: the controller
  (\<open>funct_control.c\<close>) reaches its target by a fixed step and never passes it. \<open>Task_Command\<close>: the command
  channel (\<open>funct_command.c\<close>, \<open>send_command\<close>) is a mailbox for one command. \<open>Task_Period\<close>: cycle times
  survive their way through seconds. \<open>Task_Setup\<close>: start and end (\<open>task.c\<close>). \<open>Task_Wiring\<close>: after
  \<open>init_hal_param\<close> the controller's pointers lead to seven pins of its own, which is what
  \<open>Task_Control\<close> assumes (\<open>wired\<close>). \<open>Task_Guard\<close>: the class \<open>ExampleTaskGuard\<close> (\<open>operate.cpp\<close>).
  \<open>Task_Threads\<close>: the thread of the task and its program. \<open>Task_Start\<close> composes all this: the whole of
  \<open>task_thread_main\<close> on a machine that grants its resources (\<open>startable\<close>), up to the first cycle of the new thread.
  \<open>Task_Demo\<close> is the demo program: with any real-time side that keeps to its data (\<open>rt_keeps\<close>, which the cycle
  of the example's thread satisfies) it runs through and returns 0.

  \<^bold>\<open>The process\<close> (\<open>time/\<close>, \<open>main/taskmain.cpp\<close>). \<open>Rcs_Timer\<close>: the timer and its sleep, in doubles.
  \<open>Task_Main\<close>: start-up, the main loop with signals as a step relation, and shutdown.

  \<^bold>\<open>Bounds.\<close> The segment has \<open>HAL_SIZE\<close> bytes and the tables have 64 entries, as in the code. Preconditions on
  room (\<open>roomy\<close>: 128 bytes for each struct, which no struct exceeds) are sufficient, not
  necessary. The timer theorem covers lags of up to \<open>2\<^sup>3\<^sup>0\<close> periods, beyond which the conversion to
  \<open>int\<close> may be undefined.

  \<^bold>\<open>Not modelled.\<close> The formatting of messages and the bytes of structs (a pin's signal is one
  number, whatever its type); the memory model of the processor (accesses of plain fields are taken to be
  sequentially consistent); the names of kernel threads (\<open>set_namef\<close>); the build description; the stubs
  \<open>module_intfc\<close> and \<open>export\<close> of \<open>task.c\<close>, which do nothing. \<open>list_init_entry\<close>, \<open>task_print_hal_status\<close>,
  \<open>task_print_shmem_state\<close> and \<open>DEFAULT_EMC_TASK_CYCLE_TIME\<close>, which the repository declares and
  does not define, are parameters.

  \<^bold>\<open>What the theorems found.\<close> Most state that the code does what it means to. Some state, at the place
  where the code goes wrong, what it does instead: \<open>hal_thread_delete\<close> waits for a mutex it holds;
  a failed creation of a thread deletes task 0; \<open>hal_app_exit\<close> writes to the unmapped segment;
  a pause through the command channel cannot be undone; the shutdown of the example task leaves its thread;
  commands after the shutdown of the guard go to unmapped memory; a segment left behind with a set lock
  stops all commands.
\<close>

end
